(* ===== verification/Prelude.thy ===== *)
theory Prelude
  imports Main "HOL-Library.AList" "HOL-Library.Char_ord" "HOL-Library.List_Lexorder"
begin

text \<open>
  Shared ground of the development: the collections of rewrite rules, JavaScript values the
  sources build on (template literals of numbers, \<open>Map\<close> updates, SQL-style row updates), and a
  small state-and-exception program type with Hoare triples, in which the services that call
  the database, the ledger object and the queues are written.

  Times are integers: milliseconds since the epoch, as \<open>Date.now()\<close> returns them.  A value of
  \<open>toISOString()\<close> is modelled by the millisecond it prints: the format is fixed-width and
  most-significant-first, so comparing two such strings is comparing the numbers.
\<close>

named_theorems row_simps \<open>row tables: updates, look-ups and their interaction\<close>
named_theorems triple_rules \<open>Hoare triples of the program combinators\<close>

type_synonym time_ms = int
type_synonym iso = int

section \<open>Numbers in template literals\<close>

definition digit_char :: "nat \<Rightarrow> char" where
  "digit_char d = ''0123456789'' ! d"

fun nat_str :: "nat \<Rightarrow> string" where
  "nat_str n = (if n < 10 then [digit_char n] else nat_str (n div 10) @ [digit_char (n mod 10)])"

declare nat_str.simps [simp del]

definition int_str :: "int \<Rightarrow> string" where
  "int_str i = (if i < 0 then CHR ''-'' # nat_str (nat (- i)) else nat_str (nat i))"

definition is_digit :: "char \<Rightarrow> bool" where
  "is_digit c \<longleftrightarrow> c \<in> set ''0123456789''"

definition digit_val :: "char \<Rightarrow> nat" where
  "digit_val c = (of_char c :: nat) - 48"

text \<open>The value of a digit string; \<open>parseInt\<close> and \<open>Number\<close> read one this way.\<close>

definition digits_val :: "string \<Rightarrow> nat" where
  "digits_val s = foldl (\<lambda>a c. a * 10 + digit_val c) 0 s"

lemma digit_lt10_cases:
  assumes "(d::nat) < 10"
  obtains "d = 0" | "d = 1" | "d = 2" | "d = 3" | "d = 4" | "d = 5" | "d = 6" | "d = 7" | "d = 8" | "d = 9"
proof -
  have "d = 0 \<or> d = 1 \<or> d = 2 \<or> d = 3 \<or> d = 4 \<or> d = 5 \<or> d = 6 \<or> d = 7 \<or> d = 8 \<or> d = 9"
    using assms by presburger
  then show thesis using that by blast
qed

lemma digit_char_digit [simp]: "d < 10 \<Longrightarrow> is_digit (digit_char d)"
  by (erule digit_lt10_cases) (auto simp: is_digit_def digit_char_def)

lemma digit_val_char [simp]: "d < 10 \<Longrightarrow> digit_val (digit_char d) = d"
  by (erule digit_lt10_cases) (auto simp: digit_val_def digit_char_def)

lemma digits_val_Nil [simp]: "digits_val [] = 0"
  by (simp add: digits_val_def)

lemma digits_val_snoc [simp]: "digits_val (s @ [c]) = digits_val s * 10 + digit_val c"
  by (simp add: digits_val_def)

lemma digits_val_nat_str [simp]: "digits_val (nat_str n) = n"
proof (induction n rule: nat_str.induct)
  case (1 n)
  show ?case
  proof (cases "n < 10")
    case True
    then show ?thesis
      using digits_val_snoc [of "[]" "digit_char n"] by (simp add: nat_str.simps [of n])
  next
    case False
    with 1 show ?thesis by (simp add: nat_str.simps [of n])
  qed
qed

lemma nat_str_digits: "c \<in> set (nat_str n) \<Longrightarrow> is_digit c"
proof (induction n rule: nat_str.induct)
  case (1 n)
  then show ?case by (cases "n < 10") (auto simp: nat_str.simps [of n])
qed

lemma nat_str_not_Nil [simp]: "nat_str n \<noteq> []"
  by (subst nat_str.simps) simp

lemma nat_str_inj [simp]: "nat_str m = nat_str n \<longleftrightarrow> m = n"
  by (metis digits_val_nat_str)

lemma int_str_chars: "c \<in> set (int_str i) \<Longrightarrow> is_digit c \<or> c = CHR ''-''"
  by (auto simp: int_str_def split: if_splits dest: nat_str_digits)

lemma colon_notin_int_str [simp]: "CHR '':'' \<notin> set (int_str i)"
  using int_str_chars [of "CHR '':''" i] by (auto simp: is_digit_def)

lemma minus_notin_nat_str: "CHR ''-'' \<notin> set (nat_str n)"
  using nat_str_digits [of "CHR ''-''" n] by (auto simp: is_digit_def)

lemma minus_Cons_neq_nat_str [simp]: "CHR ''-'' # s \<noteq> nat_str n" "nat_str n \<noteq> CHR ''-'' # s"
  using minus_notin_nat_str [of n] by (metis list.set_intros(1))+

lemma int_str_inj [simp]: "int_str i = int_str j \<longleftrightarrow> i = j"
  by (auto simp: int_str_def)

text \<open>A separator that the prefixes lack splits a string in one way only.\<close>

lemma separator_inj:
  assumes "a @ c # x = b @ c # y" and "c \<notin> set a" and "c \<notin> set b"
  shows "a = b \<and> x = y"
  using assms
proof (induction a arbitrary: b)
  case Nil
  then show ?case by (cases b) auto
next
  case (Cons h t)
  then show ?case by (cases b) auto
qed

section \<open>Rows: UPDATE, SELECT and INSERT OR IGNORE on lists of records\<close>

definition update_where :: "('r \<Rightarrow> bool) \<Rightarrow> ('r \<Rightarrow> 'r) \<Rightarrow> 'r list \<Rightarrow> 'r list" where
  "update_where p f rs = map (\<lambda>r. if p r then f r else r) rs"

definition insert_or_ignore :: "('r \<Rightarrow> 'k) \<Rightarrow> 'r \<Rightarrow> 'r list \<Rightarrow> 'r list" where
  "insert_or_ignore k r rs = (if k r \<in> set (map k rs) then rs else rs @ [r])"

lemma update_where_Nil [simp]: "update_where p f [] = []"
  by (simp add: update_where_def)

lemma update_where_Cons [simp]:
  "update_where p f (r # rs) = (if p r then f r else r) # update_where p f rs"
  by (simp add: update_where_def)

lemma update_where_append [simp]:
  "update_where p f (rs @ ss) = update_where p f rs @ update_where p f ss"
  by (simp add: update_where_def)

lemma length_update_where [simp]: "length (update_where p f rs) = length rs"
  by (simp add: update_where_def)

lemma map_update_where [row_simps]:
  "(\<And>r. g (f r) = g r) \<Longrightarrow> map g (update_where p f rs) = map g rs"
  by (simp add: update_where_def)

lemma set_update_where: "set (update_where p f rs) = (\<lambda>r. if p r then f r else r) ` set rs"
  by (simp add: update_where_def)

lemma update_where_id [row_simps]: "(\<And>r. r \<in> set rs \<Longrightarrow> p r \<Longrightarrow> f r = r) \<Longrightarrow> update_where p f rs = rs"
  by (induction rs) auto

lemma keys_insert_or_ignore [row_simps]:
  "set (map k (insert_or_ignore k r rs)) = insert (k r) (set (map k rs))"
  by (auto simp: insert_or_ignore_def)

lemma distinct_insert_or_ignore [row_simps]:
  "distinct (map k rs) \<Longrightarrow> distinct (map k (insert_or_ignore k r rs))"
  by (auto simp: insert_or_ignore_def)

lemma insert_or_ignore_idem [row_simps]:
  "insert_or_ignore k r (insert_or_ignore k r rs) = insert_or_ignore k r rs"
  by (auto simp: insert_or_ignore_def)

lemma set_insert_or_ignore: "set rs \<subseteq> set (insert_or_ignore k r rs)"
  by (auto simp: insert_or_ignore_def)

lemma find_Some_iff: "List.find p xs = Some x \<Longrightarrow> x \<in> set xs \<and> p x"
  by (induction xs) (auto split: if_splits)

lemma find_append:
  "List.find p (xs @ ys) = (case List.find p xs of None \<Rightarrow> List.find p ys | Some x \<Rightarrow> Some x)"
  by (induction xs) auto

lemma find_unique:
  assumes "distinct (map k rs)" and "r \<in> set rs"
  shows "List.find (\<lambda>x. k x = k r) rs = Some r"
  using assms by (induction rs) auto

lemma find_None_keys: "List.find (\<lambda>x. k x = v) rs = None \<longleftrightarrow> v \<notin> set (map k rs)"
  by (induction rs) auto

section \<open>Sums over lists\<close>

definition sum_by :: "('a \<Rightarrow> int) \<Rightarrow> 'a list \<Rightarrow> int" where
  "sum_by f xs = sum_list (map f xs)"

lemma sum_by_Nil [simp]: "sum_by f [] = 0"
  by (simp add: sum_by_def)

lemma sum_by_Cons [simp]: "sum_by f (x # xs) = f x + sum_by f xs"
  by (simp add: sum_by_def)

lemma sum_by_append [simp]: "sum_by f (xs @ ys) = sum_by f xs + sum_by f ys"
  by (simp add: sum_by_def)

lemma sum_by_map [simp]: "sum_by f (map g xs) = sum_by (\<lambda>x. f (g x)) xs"
  by (simp add: sum_by_def comp_def)

lemma sum_by_cong: "(\<And>x. x \<in> set xs \<Longrightarrow> f x = g x) \<Longrightarrow> sum_by f xs = sum_by g xs"
  by (induction xs) auto

lemma sum_by_nonneg: "(\<And>x. x \<in> set xs \<Longrightarrow> 0 \<le> f x) \<Longrightarrow> 0 \<le> sum_by f xs"
  by (induction xs) (auto simp: add_nonneg_nonneg)

lemma sum_by_bound: "(\<And>x. x \<in> set xs \<Longrightarrow> f x \<le> b) \<Longrightarrow> sum_by f xs \<le> int (length xs) * b"
proof (induction xs)
  case (Cons x xs)
  then have "f x \<le> b" and "sum_by f xs \<le> int (length xs) * b" by auto
  then show ?case by (simp add: algebra_simps)
qed simp

lemma sum_by_diff: "sum_by (\<lambda>x. f x - g x) xs = sum_by f xs - sum_by g xs"
  by (induction xs) auto

lemma sum_by_zero [simp]: "sum_by (\<lambda>x. 0) xs = 0"
  by (induction xs) auto

lemma sum_by_filter_split:
  "sum_by f xs = sum_by (\<lambda>x. if p x then f x else 0) xs + sum_by (\<lambda>x. if p x then 0 else f x) xs"
  by (induction xs) auto

section \<open>Programs: state, exceptions, Hoare triples\<close>

type_synonym ('w, 'e, 'a) prog = "'w \<Rightarrow> ('e + 'a) \<times> 'w"

definition ret :: "'a \<Rightarrow> ('w, 'e, 'a) prog" where
  "ret a w = (Inr a, w)"

definition throw :: "'e \<Rightarrow> ('w, 'e, 'a) prog" where
  "throw e w = (Inl e, w)"

definition andThen :: "('w, 'e, 'a) prog \<Rightarrow> ('a \<Rightarrow> ('w, 'e, 'b) prog) \<Rightarrow> ('w, 'e, 'b) prog" where
  "andThen m k w = (case m w of (Inl e, w') \<Rightarrow> (Inl e, w') | (Inr a, w') \<Rightarrow> k a w')"

definition catching :: "('w, 'e, 'a) prog \<Rightarrow> ('e \<Rightarrow> ('w, 'e, 'a) prog) \<Rightarrow> ('w, 'e, 'a) prog" where
  "catching m h w = (case m w of (Inl e, w') \<Rightarrow> h e w' | (Inr a, w') \<Rightarrow> (Inr a, w'))"

definition reading :: "('w \<Rightarrow> 'a) \<Rightarrow> ('w, 'e, 'a) prog" where
  "reading f w = (Inr (f w), w)"

definition writing :: "('w \<Rightarrow> 'w) \<Rightarrow> ('w, 'e, unit) prog" where
  "writing f w = (Inr (), f w)"

fun forEach :: "'x list \<Rightarrow> ('x \<Rightarrow> ('w, 'e, unit) prog) \<Rightarrow> ('w, 'e, unit) prog" where
  "forEach [] body = ret ()"
| "forEach (x # xs) body = andThen (body x) (\<lambda>_. forEach xs body)"

text \<open>
  \<open>triple P m Q E\<close>: from a state satisfying \<open>P\<close>, a normal return satisfies \<open>Q\<close> and an exception
  leaves a state satisfying \<open>E\<close>.  Programs are total functions, so this is total correctness.
\<close>

definition triple :: "('w \<Rightarrow> bool) \<Rightarrow> ('w, 'e, 'a) prog \<Rightarrow> ('a \<Rightarrow> 'w \<Rightarrow> bool) \<Rightarrow> ('e \<Rightarrow> 'w \<Rightarrow> bool) \<Rightarrow> bool" where
  "triple P m Q E \<longleftrightarrow>
     (\<forall>w. P w \<longrightarrow> (case m w of (Inl e, w') \<Rightarrow> E e w' | (Inr a, w') \<Rightarrow> Q a w'))"

abbreviation preserves :: "('w \<Rightarrow> bool) \<Rightarrow> ('w, 'e, 'a) prog \<Rightarrow> bool" where
  "preserves I m \<equiv> triple I m (\<lambda>_. I) (\<lambda>_. I)"

lemma tripleI:
  "(\<And>w. P w \<Longrightarrow> (case m w of (Inl e, w') \<Rightarrow> E e w' | (Inr a, w') \<Rightarrow> Q a w')) \<Longrightarrow> triple P m Q E"
  by (simp add: triple_def)

lemma triple_ret [triple_rules]: "(\<And>w. P w \<Longrightarrow> Q a w) \<Longrightarrow> triple P (ret a) Q E"
  by (simp add: triple_def ret_def)

lemma triple_throw [triple_rules]: "(\<And>w. P w \<Longrightarrow> E e w) \<Longrightarrow> triple P (throw e) Q E"
  by (simp add: triple_def throw_def)

lemma triple_reading [triple_rules]: "(\<And>w. P w \<Longrightarrow> Q (f w) w) \<Longrightarrow> triple P (reading f) Q E"
  by (simp add: triple_def reading_def)

lemma triple_writing [triple_rules]: "(\<And>w. P w \<Longrightarrow> Q () (f w)) \<Longrightarrow> triple P (writing f) Q E"
  by (simp add: triple_def writing_def)

lemma triple_andThen:
  assumes "triple P m R E" and "\<And>a. triple (R a) (k a) Q E"
  shows "triple P (andThen m k) Q E"
  unfolding triple_def
proof (intro allI impI)
  fix w assume "P w"
  with assms(1) have *: "case m w of (Inl e, w') \<Rightarrow> E e w' | (Inr a, w') \<Rightarrow> R a w'"
    by (simp add: triple_def)
  show "case andThen m k w of (Inl e, w') \<Rightarrow> E e w' | (Inr a, w') \<Rightarrow> Q a w'"
  proof (cases "m w")
    case (Pair r w')
    show ?thesis
    proof (cases r)
      case (Inl e)
      with Pair * show ?thesis by (simp add: andThen_def)
    next
      case (Inr a)
      with Pair * have "R a w'" by simp
      with assms(2) [of a] Pair Inr show ?thesis by (simp add: andThen_def triple_def)
    qed
  qed
qed

lemma triple_catching:
  assumes "triple P m Q F" and "\<And>e. triple (F e) (h e) Q E"
  shows "triple P (catching m h) Q E"
  unfolding triple_def
proof (intro allI impI)
  fix w assume "P w"
  with assms(1) have *: "case m w of (Inl e, w') \<Rightarrow> F e w' | (Inr a, w') \<Rightarrow> Q a w'"
    by (simp add: triple_def)
  show "case catching m h w of (Inl e, w') \<Rightarrow> E e w' | (Inr a, w') \<Rightarrow> Q a w'"
  proof (cases "m w")
    case (Pair r w')
    show ?thesis
    proof (cases r)
      case (Inl e)
      with Pair * have "F e w'" by simp
      with assms(2) [of e] Pair Inl show ?thesis by (simp add: catching_def triple_def)
    next
      case (Inr a)
      with Pair * show ?thesis by (simp add: catching_def)
    qed
  qed
qed

lemma triple_weaken:
  assumes "triple P m Q E" and "\<And>w. P' w \<Longrightarrow> P w"
    and "\<And>a w. Q a w \<Longrightarrow> Q' a w" and "\<And>e w. E e w \<Longrightarrow> E' e w"
  shows "triple P' m Q' E'"
  using assms by (fastforce simp: triple_def split: prod.splits sum.splits)

lemma preserves_andThen [triple_rules]:
  "preserves I m \<Longrightarrow> (\<And>a. preserves I (k a)) \<Longrightarrow> preserves I (andThen m k)"
  by (rule triple_andThen)

lemma preserves_catching [triple_rules]:
  "preserves I m \<Longrightarrow> (\<And>e. preserves I (h e)) \<Longrightarrow> preserves I (catching m h)"
  by (rule triple_catching)

lemma preserves_if [triple_rules]:
  "(b \<Longrightarrow> preserves I m) \<Longrightarrow> (\<not> b \<Longrightarrow> preserves I n) \<Longrightarrow> preserves I (if b then m else n)"
  by simp

lemma preserves_option [triple_rules]:
  "(x = None \<Longrightarrow> preserves I m) \<Longrightarrow> (\<And>a. x = Some a \<Longrightarrow> preserves I (n a)) \<Longrightarrow>
     preserves I (case x of None \<Rightarrow> m | Some a \<Rightarrow> n a)"
  by (cases x) auto

lemma preserves_sum [triple_rules]:
  "(\<And>e. x = Inl e \<Longrightarrow> preserves I (m e)) \<Longrightarrow> (\<And>a. x = Inr a \<Longrightarrow> preserves I (n a)) \<Longrightarrow>
     preserves I (case x of Inl e \<Rightarrow> m e | Inr a \<Rightarrow> n a)"
  by (cases x) auto

lemma preserves_forEach [triple_rules]:
  "(\<And>x. x \<in> set xs \<Longrightarrow> preserves I (body x)) \<Longrightarrow> preserves I (forEach xs body)"
  by (induction xs) (auto intro!: triple_rules)

lemma preservesD: "preserves I m \<Longrightarrow> I w \<Longrightarrow> I (snd (m w))"
  by (cases "m w") (auto simp: triple_def split: prod.splits sum.splits)

lemma tripleD: "triple P m Q E \<Longrightarrow> P w \<Longrightarrow> m w = (Inr a, w') \<Longrightarrow> Q a w'"
  by (auto simp: triple_def dest!: spec [of _ w])

section \<open>Programs in applied form\<close>

text \<open>
  Code equations that apply each program to its world: a continuation is then evaluated only
  after the call before it has returned, never under its abstraction.
\<close>

lemma apply_option: "(case x of None \<Rightarrow> f | Some a \<Rightarrow> g a) w = (case x of None \<Rightarrow> f w | Some a \<Rightarrow> g a w)"
  by (simp split: option.split)

lemma apply_sum: "(case x of Inl a \<Rightarrow> f a | Inr b \<Rightarrow> g b) w = (case x of Inl a \<Rightarrow> f a w | Inr b \<Rightarrow> g b w)"
  by (simp split: sum.split)

lemma apply_if: "(if b then f else g) w = (if b then f w else g w)"
  by simp

lemma apply_prod: "(case x of (a, b) \<Rightarrow> f a b) w = (case x of (a, b) \<Rightarrow> f a b w)"
  by (simp split: prod.split)

lemma apply_let: "(let x = a in f x) w = (let x = a in f x w)"
  by simp

lemma andThen_run: "andThen m k w = (case m w of (r, w') \<Rightarrow> (case r of Inl e \<Rightarrow> (Inl e, w') | Inr a \<Rightarrow> k a w'))"
  by (simp add: andThen_def split: prod.split sum.split)

lemma catching_run: "catching m h w = (case m w of (r, w') \<Rightarrow> (case r of Inl e \<Rightarrow> h e w' | Inr a \<Rightarrow> (Inr a, w')))"
  by (simp add: catching_def split: prod.split sum.split)

lemmas prog_run = andThen_run catching_run ret_def throw_def reading_def writing_def
  apply_option apply_sum apply_if apply_prod apply_let

end
