(* ===== verification/LedgerTypes.thy ===== *)
theory LedgerTypes
  imports Prelude
begin

text \<open>
  The ledger vocabulary: \<open>types/ledger.ts\<close> (postings, results, error codes and the
  \<open>[CODE] detail\<close> form in which an error crosses an RPC boundary) and \<open>lib/ledger-chart.ts\<close>
  (the default chart of accounts and the normal side of an account).

  The TypeScript types are trusted for strings; the two things the posting path checks at run
  time keep the values the check is about: a direction other than the two literals, and an
  amount that is a JavaScript number but no integer.
\<close>

section \<open>Postings\<close>

datatype reference_type = RPayment | RRefund | RFee | RAdjustment | RTransfer

fun reference_str :: "reference_type \<Rightarrow> string" where
  "reference_str RPayment = ''payment''"
| "reference_str RRefund = ''refund''"
| "reference_str RFee = ''fee''"
| "reference_str RAdjustment = ''adjustment''"
| "reference_str RTransfer = ''transfer''"

datatype direction = Debit | Credit | BadDirection string

fun direction_str :: "direction \<Rightarrow> string" where
  "direction_str Debit = ''debit''"
| "direction_str Credit = ''credit''"
| "direction_str (BadDirection s) = s"

text \<open>A JavaScript number: an integer, or anything \<open>Number.isInteger\<close> refuses.\<close>

datatype js_number = JInt int | JNotInteger

fun js_isInteger :: "js_number \<Rightarrow> bool" where
  "js_isInteger (JInt i) = True"
| "js_isInteger JNotInteger = False"

fun js_int :: "js_number \<Rightarrow> int" where
  "js_int (JInt i) = i"
| "js_int JNotInteger = 0"

record posting_entry =
  pe_account_code :: string
  pe_d1_account_id :: int
  pe_direction :: direction
  pe_amount :: string
  pe_amount_minor :: js_number

record posting_payload =
  pp_tx_id :: string
  pp_merchant_id :: int
  pp_reference_type :: reference_type
  pp_reference_id :: "string option"
  pp_description :: string
  pp_currency :: string
  pp_entries :: "posting_entry list"

datatype posting_status = Posted | Duplicate | Failed

datatype posting_error_code =
    UNBALANCED | INSUFFICIENT_FUNDS | UNKNOWN_ACCOUNT | INVALID
  | CURRENCY_MISMATCH | REJECTED_TX_ID | INTERNAL

record posting_result =
  res_status :: posting_status
  res_tx_id :: string
  res_posted_at :: iso
  res_ledger_transaction_id :: "int option"
  res_error_code :: "posting_error_code option"
  res_error :: "string option"

section \<open>Errors across the RPC boundary\<close>

fun code_str :: "posting_error_code \<Rightarrow> string" where
  "code_str UNBALANCED = ''UNBALANCED''"
| "code_str INSUFFICIENT_FUNDS = ''INSUFFICIENT_FUNDS''"
| "code_str UNKNOWN_ACCOUNT = ''UNKNOWN_ACCOUNT''"
| "code_str INVALID = ''INVALID''"
| "code_str CURRENCY_MISMATCH = ''CURRENCY_MISMATCH''"
| "code_str REJECTED_TX_ID = ''REJECTED_TX_ID''"
| "code_str INTERNAL = ''INTERNAL''"

definition all_error_codes :: "posting_error_code list" where
  "all_error_codes =
     [UNBALANCED, INSUFFICIENT_FUNDS, UNKNOWN_ACCOUNT, INVALID, CURRENCY_MISMATCH, REJECTED_TX_ID, INTERNAL]"

text \<open>\<open>PostingValidationError\<close>: the message is \<open>[CODE] detail\<close>.\<close>

definition posting_error_message :: "posting_error_code \<Rightarrow> string \<Rightarrow> string" where
  "posting_error_message code detail = ''['' @ code_str code @ ''] '' @ detail"

definition code_char :: "char \<Rightarrow> bool" where
  "code_char c \<longleftrightarrow> c \<in> set ''ABCDEFGHIJKLMNOPQRSTUVWXYZ_''"

text \<open>\<open>/^\\[([A-Z_]+)\\]/\<close>: the bracketed code at the front of a message, if there is one.\<close>

fun bracketed_code :: "string \<Rightarrow> string option" where
  "bracketed_code [] = None"
| "bracketed_code (c # s) =
     (if c \<noteq> CHR ''['' then None
      else let code = takeWhile code_char s; rest = dropWhile code_char s
           in if code \<noteq> [] \<and> rest \<noteq> [] \<and> hd rest = CHR '']'' then Some code else None)"

definition parsePostingErrorCode :: "string \<Rightarrow> posting_error_code option" where
  "parsePostingErrorCode msg =
     (case bracketed_code msg of
        None \<Rightarrow> None
      | Some code \<Rightarrow> List.find (\<lambda>c. code_str c = code) all_error_codes)"

section \<open>The chart of accounts\<close>

datatype account_type = Asset | Liability | Equity | Revenue | Expense

record chart_account =
  chart_code :: string
  chart_name :: string
  chart_type :: account_type

definition DEFAULT_CHART_OF_ACCOUNTS :: "chart_account list" where
  "DEFAULT_CHART_OF_ACCOUNTS =
    [ \<lparr>chart_code = ''1000'', chart_name = ''Cash at Bank'', chart_type = Asset\<rparr>,
      \<lparr>chart_code = ''1010'', chart_name = ''Gateway Clearing'', chart_type = Asset\<rparr>,
      \<lparr>chart_code = ''1100'', chart_name = ''Accounts Receivable'', chart_type = Asset\<rparr>,
      \<lparr>chart_code = ''1200'', chart_name = ''Prepaid Fees'', chart_type = Asset\<rparr>,
      \<lparr>chart_code = ''2000'', chart_name = ''Accounts Payable'', chart_type = Liability\<rparr>,
      \<lparr>chart_code = ''2100'', chart_name = ''Customer Credits'', chart_type = Liability\<rparr>,
      \<lparr>chart_code = ''2200'', chart_name = ''Refunds Payable'', chart_type = Liability\<rparr>,
      \<lparr>chart_code = ''3000'', chart_name = ''Owner Equity'', chart_type = Equity\<rparr>,
      \<lparr>chart_code = ''3100'', chart_name = ''Retained Earnings'', chart_type = Equity\<rparr>,
      \<lparr>chart_code = ''4000'', chart_name = ''Payment Revenue'', chart_type = Revenue\<rparr>,
      \<lparr>chart_code = ''4100'', chart_name = ''Gateway Fees Revenue'', chart_type = Revenue\<rparr>,
      \<lparr>chart_code = ''5000'', chart_name = ''Gateway Fees Expense'', chart_type = Expense\<rparr>,
      \<lparr>chart_code = ''5100'', chart_name = ''Refund Expense'', chart_type = Expense\<rparr>,
      \<lparr>chart_code = ''5200'', chart_name = ''Chargeback Expense'', chart_type = Expense\<rparr> ]"

fun isDebitNormal :: "account_type \<Rightarrow> bool" where
  "isDebitNormal Asset = True"
| "isDebitNormal Expense = True"
| "isDebitNormal Liability = False"
| "isDebitNormal Equity = False"
| "isDebitNormal Revenue = False"

section \<open>Lemmas\<close>

lemma distinct_chart_codes: "distinct (map chart_code DEFAULT_CHART_OF_ACCOUNTS)"
  by (simp add: DEFAULT_CHART_OF_ACCOUNTS_def)

lemma chart_not_Nil: "DEFAULT_CHART_OF_ACCOUNTS \<noteq> []"
  by (simp add: DEFAULT_CHART_OF_ACCOUNTS_def)

lemma code_str_inj [simp]: "code_str a = code_str b \<longleftrightarrow> a = b"
  by (cases a; cases b) simp_all

lemma code_str_not_Nil [simp]: "code_str k \<noteq> []"
  by (cases k) auto

lemma bracketed_code_message: "bracketed_code (posting_error_message k d) = Some (code_str k)"
proof -
  have "takeWhile code_char (code_str k @ ''] '' @ d) = code_str k"
    by (cases k) (simp_all add: code_char_def)
  moreover have "dropWhile code_char (code_str k @ ''] '' @ d) = ''] '' @ d"
    by (cases k) (simp_all add: code_char_def)
  ultimately show ?thesis by (simp add: posting_error_message_def)
qed

lemma find_code: "List.find (\<lambda>c. code_str c = code_str k) all_error_codes = Some k"
  by (cases k) (simp_all add: all_error_codes_def)

end
