(* ===== verification/Database.thy ===== *)
theory Database
  imports LedgerTypes
begin

text \<open>
  The D1 database: one record per row type of \<open>types/db.ts\<close> (the columns the modelled code
  reads or writes), and the database as a record of tables.  A table is the list of its rows in
  rowid order, which is the order in which an unordered \<open>SELECT\<close> returns them; a table with an
  \<open>AUTOINCREMENT\<close> key has a counter for the next id.

  A JSON column holds the value that \<open>JSON.stringify\<close> wrote and \<open>JSON.parse\<close> reads back.
\<close>

section \<open>Ledger tables\<close>

datatype posting_row_status = PoPending | PoPosted | PoRejected

record posting_row =
  po_tx_id :: string
  po_merchant_id :: int
  po_reference_type :: reference_type
  po_reference_id :: "string option"
  po_currency :: string
  po_payload :: posting_payload
  po_status :: posting_row_status
  po_error :: "string option"
  po_attempts :: nat
  po_created_at :: iso
  po_posted_at :: "iso option"

record ledger_account_row =
  la_id :: int
  la_merchant_id :: int
  la_code :: string
  la_name :: string
  la_type :: account_type
  la_currency :: string

datatype ledger_tx_status = LtPosted | LtReversed

record ledger_tx_row =
  lt_id :: int
  lt_merchant_id :: int
  lt_uuid :: string
  lt_reference_type :: reference_type
  lt_reference_id :: "string option"
  lt_description :: string
  lt_status :: ledger_tx_status
  lt_posted_at :: iso

record ledger_entry_row =
  le_id :: int
  le_merchant_id :: int
  le_ledger_transaction_id :: int
  le_account_id :: int
  le_direction :: direction
  le_amount :: string
  le_currency :: string
  le_entry_order :: nat
  le_created_at :: iso

record snapshot_row =
  sn_merchant_id :: int
  sn_account_code :: string
  sn_currency :: string
  sn_balance_minor :: int
  sn_as_of_day :: int

section \<open>Merchants, gateways and the brand, store and gate hierarchy\<close>

record merchant_row =
  m_id :: int
  m_active :: bool
  m_is_platform :: bool

record gateway_row =
  g_id :: int
  g_merchant_id :: int
  g_slug :: string
  g_name :: string
  g_type :: string
  g_active :: bool
  g_priority :: int
  g_supported_currencies :: "string list"

record gateway_config_row =
  gc_gateway_id :: int
  gc_merchant_id :: int
  gc_field_name :: string
  gc_field_value :: string

record manual_gateway_row =
  mg_gateway_id :: int
  mg_account_number :: "string option"
  mg_payment_number :: "string option"
  mg_instructions :: "string option"

record brand_row =
  br_id :: int
  br_merchant_id :: int
  br_uuid :: string
  br_name :: string
  br_slug :: string
  br_active :: bool
  br_logo_path :: "string option"
  br_brand_color :: "string option"
  br_support_email :: "string option"
  br_support_phone :: "string option"
  br_terms_url :: "string option"
  br_privacy_url :: "string option"

record store_row =
  st_id :: int
  st_brand_id :: int
  st_merchant_id :: int
  st_uuid :: string
  st_name :: string
  st_slug :: string
  st_timezone :: string
  st_default_currency :: string
  st_active :: bool

datatype gate_status = GateActive | GatePaused | GateArchived

record gate_row =
  gt_id :: int
  gt_store_id :: int
  gt_merchant_id :: int
  gt_gateway_id :: int
  gt_label :: string
  gt_mfs_number :: "string option"
  gt_currency :: string
  gt_status :: gate_status

section \<open>Payments and refunds\<close>

datatype intent_status = PiPending | PiProcessing | PiCompleted | PiFailed | PiCancelled | PiExpired

record intent_row =
  pi_id :: int
  pi_merchant_id :: int
  pi_uuid :: string
  pi_token :: string
  pi_amount :: string
  pi_currency :: string
  pi_description :: "string option"
  pi_gateway_id :: "int option"
  pi_brand_id :: "int option"
  pi_store_id :: "int option"
  pi_gate_id :: "int option"
  pi_status :: intent_status
  pi_metadata :: "(string \<times> string) list option"
  pi_expires_at :: iso
  pi_completed_at :: "iso option"
  pi_created_at :: iso
  pi_updated_at :: iso

datatype tx_status =
    TPending | TCreated | TProcessing | TCallbackProcessing | TCompleted | TFailed | TCancelled
  | TExpired | TRefunded | TDisputed | TAwaitingVerification | TPendingReview

record tx_row =
  t_id :: int
  t_merchant_id :: int
  t_trx_id :: string
  t_payment_intent_id :: "int option"
  t_gateway_id :: int
  t_gateway_trx_id :: "string option"
  t_brand_id :: "int option"
  t_store_id :: "int option"
  t_gate_id :: "int option"
  t_amount :: string
  t_currency :: string
  t_fee :: string
  t_net_amount :: string
  t_status :: tx_status
  t_gateway_type :: string
  t_created_at :: iso
  t_updated_at :: iso

datatype refund_status = RfPending | RfCompleted | RfFailed

record refund_row =
  rf_id :: int
  rf_merchant_id :: int
  rf_refund_id :: string
  rf_transaction_id :: int
  rf_gateway_refund_id :: "string option"
  rf_amount :: string
  rf_currency :: string
  rf_reason :: "string option"
  rf_status :: refund_status
  rf_initiated_by :: "int option"
  rf_created_at :: iso
  rf_updated_at :: iso
  rf_workflow_attempts :: nat
  rf_last_workflow_at :: "iso option"

section \<open>Webhooks, SMS data, reconciliation runs\<close>

record webhook_row =
  wh_id :: int
  wh_merchant_id :: int
  wh_url :: string
  wh_secret :: string
  wh_events :: "string list"
  wh_active :: bool
  wh_created_at :: iso

record webhook_delivery_row =
  wd_merchant_id :: int
  wd_webhook_id :: int
  wd_event :: string
  wd_url :: string
  wd_status_code :: int
  wd_response_time_ms :: int
  wd_success :: bool
  wd_created_at :: iso

datatype sms_match_status = SmPending | SmParsed | SmFailed | SmNoMatch | SmMatched | SmNeedsReview

text \<open>The text of a message: UTF-16 code units, as \<open>charCodeAt\<close> gives them.\<close>

type_synonym utf16 = "int list"

record sms_template_row =
  sp_id :: int
  sp_merchant_id :: int
  sp_gateway_slug :: string
  sp_regex_pattern :: "string option"
  sp_active :: bool

record sms_row =
  sd_id :: int
  sd_merchant_id :: int
  sd_sender :: string
  sd_body :: utf16
  sd_raw_sender :: string
  sd_signature_verified :: bool
  sd_device_id :: "int option"
  sd_match_status :: sms_match_status
  sd_parsed_amount :: "string option"
  sd_parsed_trx_id :: "string option"
  sd_parsed_at :: "iso option"
  sd_created_at :: iso

datatype recon_trigger = THourly | TDaily | TManual

record discrepancy =
  ds_account_id :: int
  ds_code :: string
  ds_d1_balance :: string
  ds_do_balance :: string

record recon_run_row =
  rr_ran_at :: iso
  rr_trigger :: recon_trigger
  rr_replayed :: nat
  rr_healed :: nat
  rr_rejected :: nat
  rr_failed :: nat
  rr_remaining :: nat
  rr_merchants_checked :: nat
  rr_drift_count :: nat
  rr_refunds_retriggered :: nat
  rr_drifts :: "(int \<times> discrepancy list) list"
  rr_stuck_refunds :: nat
  rr_outbox_lag_max_seconds :: int
  rr_outbox_pending_total :: nat
  rr_outbox_stuck_total :: nat

section \<open>The database\<close>

record d1 =
  op_ledger_postings :: "posting_row list"
  op_ledger_accounts :: "ledger_account_row list"
  op_ledger_transactions :: "ledger_tx_row list"
  op_ledger_entries :: "ledger_entry_row list"
  op_ledger_balance_snapshots :: "snapshot_row list"
  op_merchants :: "merchant_row list"
  op_gateways :: "gateway_row list"
  op_gateway_configs :: "gateway_config_row list"
  op_manual_gateways :: "manual_gateway_row list"
  op_brands :: "brand_row list"
  op_stores :: "store_row list"
  op_gates :: "gate_row list"
  op_payment_intents :: "intent_row list"
  op_transactions :: "tx_row list"
  op_refunds :: "refund_row list"
  op_webhooks :: "webhook_row list"
  op_webhook_deliveries :: "webhook_delivery_row list"
  op_sms_data :: "sms_row list"
  op_sms_templates :: "sms_template_row list"
  op_reconciliation_runs :: "recon_run_row list"
  seq_ledger_accounts :: int
  seq_ledger_transactions :: int
  seq_ledger_entries :: int
  seq_gateways :: int
  seq_brands :: int
  seq_stores :: int
  seq_gates :: int
  seq_payment_intents :: int
  seq_transactions :: int
  seq_refunds :: int
  seq_webhooks :: int
  seq_sms_data :: int

definition empty_d1 :: d1 where
  "empty_d1 = \<lparr>
     op_ledger_postings = [], op_ledger_accounts = [], op_ledger_transactions = [],
     op_ledger_entries = [], op_ledger_balance_snapshots = [], op_merchants = [],
     op_gateways = [], op_gateway_configs = [], op_manual_gateways = [], op_brands = [],
     op_stores = [], op_gates = [], op_payment_intents = [], op_transactions = [],
     op_refunds = [], op_webhooks = [], op_webhook_deliveries = [], op_sms_data = [],
     op_sms_templates = [],
     op_reconciliation_runs = [],
     seq_ledger_accounts = 1, seq_ledger_transactions = 1, seq_ledger_entries = 1,
     seq_gateways = 1, seq_brands = 1, seq_stores = 1, seq_gates = 1, seq_payment_intents = 1,
     seq_transactions = 1, seq_refunds = 1, seq_webhooks = 1, seq_sms_data = 1\<rparr>"

end
