(* ===== verification/LedgerAudit.thy ===== *)
theory LedgerAudit
  imports Database
begin

text \<open>
  \<open>services/ledger-audit.ts\<close>: the D1 side of the posting protocol.  A posting is mirrored by a
  list of prepared statements, executed by \<open>env.DB.batch\<close> as one transaction.  Statements are
  data here, as they are in the source (\<open>buildLedgerAuditStatements\<close> builds and does not
  execute), and \<open>exec_stmt\<close> is what SQLite does with each.

  The lemmas show that a batch can be replayed (the second run changes nothing), that it is
  additive on a database that has not seen the posting, and that it keeps the key constraints.
\<close>

section \<open>Statements\<close>

datatype ledger_stmt =
    UpsertPosting posting_row
      \<comment> \<open>INSERT .. ON CONFLICT(tx_id) DO UPDATE SET status, posted_at, error = NULL\<close>
  | InsertLedgerTx int string reference_type "string option" string iso
      \<comment> \<open>INSERT .. ON CONFLICT(uuid) DO NOTHING\<close>
  | InsertLedgerEntry int direction string string nat iso string
      \<comment> \<open>INSERT .. SELECT .. WHERE t.uuid = ? AND NOT EXISTS (same transaction and order)\<close>

definition upsert_posting :: "posting_row \<Rightarrow> posting_row list \<Rightarrow> posting_row list" where
  "upsert_posting r rs =
     (if po_tx_id r \<in> set (map po_tx_id rs)
      then update_where (\<lambda>x. po_tx_id x = po_tx_id r)
             (\<lambda>x. x\<lparr>po_status := PoPosted, po_posted_at := po_posted_at r, po_error := None\<rparr>) rs
      else rs @ [r])"

definition find_ltx :: "string \<Rightarrow> d1 \<Rightarrow> ledger_tx_row option" where
  "find_ltx uuid db = List.find (\<lambda>t. lt_uuid t = uuid) (op_ledger_transactions db)"

definition has_entry :: "int \<Rightarrow> nat \<Rightarrow> d1 \<Rightarrow> bool" where
  "has_entry tid ord db \<longleftrightarrow>
     (tid, ord) \<in> set (map (\<lambda>e. (le_ledger_transaction_id e, le_entry_order e)) (op_ledger_entries db))"

fun exec_stmt :: "ledger_stmt \<Rightarrow> d1 \<Rightarrow> d1" where
  "exec_stmt (UpsertPosting r) db =
     db\<lparr>op_ledger_postings := upsert_posting r (op_ledger_postings db)\<rparr>"
| "exec_stmt (InsertLedgerTx mid uuid rt rid descr at) db =
     (if uuid \<in> set (map lt_uuid (op_ledger_transactions db)) then db
      else db\<lparr>op_ledger_transactions := op_ledger_transactions db @
                [\<lparr>lt_id = seq_ledger_transactions db, lt_merchant_id = mid, lt_uuid = uuid,
                  lt_reference_type = rt, lt_reference_id = rid, lt_description = descr,
                  lt_status = LtPosted, lt_posted_at = at\<rparr>],
              seq_ledger_transactions := seq_ledger_transactions db + 1\<rparr>)"
| "exec_stmt (InsertLedgerEntry acct dir amt cur ord at uuid) db =
     (case find_ltx uuid db of
        None \<Rightarrow> db
      | Some t \<Rightarrow>
          if has_entry (lt_id t) ord db then db
          else db\<lparr>op_ledger_entries := op_ledger_entries db @
                    [\<lparr>le_id = seq_ledger_entries db, le_merchant_id = lt_merchant_id t,
                      le_ledger_transaction_id = lt_id t, le_account_id = acct, le_direction = dir,
                      le_amount = amt, le_currency = cur, le_entry_order = ord, le_created_at = at\<rparr>],
                  seq_ledger_entries := seq_ledger_entries db + 1\<rparr>)"

definition run_batch :: "ledger_stmt list \<Rightarrow> d1 \<Rightarrow> d1" where
  "run_batch stmts db = fold exec_stmt stmts db"

section \<open>Operations of the module\<close>

definition fresh_posting_row :: "int \<Rightarrow> posting_payload \<Rightarrow> posting_row_status \<Rightarrow> iso \<Rightarrow> iso option \<Rightarrow> posting_row" where
  "fresh_posting_row mid p st created postedAt =
     \<lparr>po_tx_id = pp_tx_id p, po_merchant_id = mid, po_reference_type = pp_reference_type p,
      po_reference_id = pp_reference_id p, po_currency = pp_currency p, po_payload = p,
      po_status = st, po_error = None, po_attempts = 0, po_created_at = created,
      po_posted_at = postedAt\<rparr>"

text \<open>The write-ahead row of the legacy protocol; \<open>None\<close> is the fresh insert.\<close>

definition insertPendingPosting :: "posting_payload \<Rightarrow> iso \<Rightarrow> d1 \<Rightarrow> posting_row_status option \<times> d1" where
  "insertPendingPosting p createdAt db =
     (case List.find (\<lambda>r. po_tx_id r = pp_tx_id p) (op_ledger_postings db) of
        None \<Rightarrow> (None, db\<lparr>op_ledger_postings := op_ledger_postings db @
                        [fresh_posting_row (pp_merchant_id p) p PoPending createdAt None]\<rparr>)
      | Some r \<Rightarrow> (Some (po_status r), db))"

definition entry_stmt :: "posting_payload \<Rightarrow> iso \<Rightarrow> nat \<times> posting_entry \<Rightarrow> ledger_stmt" where
  "entry_stmt p at = (\<lambda>(ord, e). InsertLedgerEntry (pe_d1_account_id e) (pe_direction e) (pe_amount e)
                        (pp_currency p) ord at (pp_tx_id p))"

definition buildLedgerAuditStatements :: "int \<Rightarrow> posting_payload \<Rightarrow> iso \<Rightarrow> ledger_stmt list" where
  "buildLedgerAuditStatements mid p at =
     UpsertPosting (fresh_posting_row mid p PoPosted at (Some at))
     # InsertLedgerTx mid (pp_tx_id p) (pp_reference_type p) (pp_reference_id p) (pp_description p) at
     # map (entry_stmt p at) (List.enumerate 1 (pp_entries p))"

definition writeLedgerAuditTrail :: "posting_payload \<Rightarrow> iso \<Rightarrow> d1 \<Rightarrow> int \<times> d1" where
  "writeLedgerAuditTrail p at db =
     (let db' = run_batch (buildLedgerAuditStatements (pp_merchant_id p) p at) db
      in (case find_ltx (pp_tx_id p) db' of None \<Rightarrow> 0 | Some t \<Rightarrow> lt_id t, db'))"

section \<open>Key constraints of the ledger tables\<close>

definition audit_wf :: "d1 \<Rightarrow> bool" where
  "audit_wf db \<longleftrightarrow>
     distinct (map po_tx_id (op_ledger_postings db)) \<and>
     distinct (map lt_uuid (op_ledger_transactions db)) \<and>
     distinct (map lt_id (op_ledger_transactions db)) \<and>
     (\<forall>t \<in> set (op_ledger_transactions db). lt_id t < seq_ledger_transactions db) \<and>
     distinct (map (\<lambda>e. (le_ledger_transaction_id e, le_entry_order e)) (op_ledger_entries db)) \<and>
     (\<forall>e \<in> set (op_ledger_entries db). \<exists>t \<in> set (op_ledger_transactions db).
        lt_id t = le_ledger_transaction_id e \<and> lt_merchant_id t = le_merchant_id e)"

section \<open>Replaying a batch\<close>

text \<open>A statement has taken effect when its row is there, in the state the statement leaves it.\<close>

fun stmt_done :: "ledger_stmt \<Rightarrow> d1 \<Rightarrow> bool" where
  "stmt_done (UpsertPosting r) db \<longleftrightarrow>
     po_tx_id r \<in> set (map po_tx_id (op_ledger_postings db)) \<and>
     (\<forall>x \<in> set (op_ledger_postings db). po_tx_id x = po_tx_id r \<longrightarrow>
        po_status x = PoPosted \<and> po_posted_at x = po_posted_at r \<and> po_error x = None)"
| "stmt_done (InsertLedgerTx mid uuid rt rid descr at) db \<longleftrightarrow>
     uuid \<in> set (map lt_uuid (op_ledger_transactions db))"
| "stmt_done (InsertLedgerEntry acct dir amt cur ord at uuid) db \<longleftrightarrow>
     (\<exists>t. find_ltx uuid db = Some t \<and> has_entry (lt_id t) ord db)"

text \<open>Two statements agree unless they flip the same posting row to different times.\<close>

fun stmts_agree :: "ledger_stmt \<Rightarrow> ledger_stmt \<Rightarrow> bool" where
  "stmts_agree (UpsertPosting r) (UpsertPosting r') \<longleftrightarrow>
     po_tx_id r = po_tx_id r' \<longrightarrow>
       po_posted_at r = po_posted_at r' \<and> po_status r' = PoPosted \<and> po_error r' = None"
| "stmts_agree _ _ \<longleftrightarrow> True"

lemma run_batch_Nil [simp]: "run_batch [] db = db"
  by (simp add: run_batch_def)

lemma run_batch_Cons [simp]: "run_batch (s # ss) db = run_batch ss (exec_stmt s db)"
  by (simp add: run_batch_def)

lemma run_batch_append [simp]: "run_batch (ss @ us) db = run_batch us (run_batch ss db)"
  by (simp add: run_batch_def)

lemma stmt_done_noop: "stmt_done s db \<Longrightarrow> exec_stmt s db = db"
proof (cases s)
  case (UpsertPosting r)
  assume "stmt_done s db"
  then have "upsert_posting r (op_ledger_postings db) = op_ledger_postings db"
    by (auto simp: UpsertPosting upsert_posting_def intro!: update_where_id)
  then show ?thesis by (simp add: UpsertPosting)
qed (auto split: option.splits)

lemma find_ltx_mono:
  "find_ltx u db = Some t \<Longrightarrow> find_ltx u (exec_stmt s db) = Some t"
  by (cases s) (auto simp: find_ltx_def find_append split: option.splits)

lemma has_entry_mono: "has_entry i k db \<Longrightarrow> has_entry i k (exec_stmt s db)"
  by (cases s) (auto simp: has_entry_def split: option.splits)

lemma map_tx_id_upsert:
  "map po_tx_id (upsert_posting r rs) =
     (if po_tx_id r \<in> set (map po_tx_id rs) then map po_tx_id rs else map po_tx_id rs @ [po_tx_id r])"
  by (simp add: upsert_posting_def map_update_where)

lemma upsert_keys: "po_tx_id ` set (upsert_posting r rs) = insert (po_tx_id r) (po_tx_id ` set rs)"
  using arg_cong [OF map_tx_id_upsert [of r rs], of set] by (auto split: if_splits)

lemma upsert_hit:
  assumes "x \<in> set (upsert_posting r rs)" and "po_tx_id x = po_tx_id r"
    and "po_status r = PoPosted" and "po_error r = None"
  shows "po_status x = PoPosted \<and> po_posted_at x = po_posted_at r \<and> po_error x = None"
proof (cases "po_tx_id r \<in> set (map po_tx_id rs)")
  case True
  with assms show ?thesis by (auto simp: upsert_posting_def set_update_where)
next
  case False
  moreover from False assms have "x = r" by (auto simp: upsert_posting_def image_iff)
  ultimately show ?thesis using assms by simp
qed

lemma upsert_miss: "x \<in> set (upsert_posting r rs) \<Longrightarrow> po_tx_id x \<noteq> po_tx_id r \<Longrightarrow> x \<in> set rs"
  by (auto simp: upsert_posting_def set_update_where split: if_splits)

lemma upsert_done_mono:
  assumes "stmt_done (UpsertPosting r) db" and "stmts_agree (UpsertPosting r) (UpsertPosting r')"
  shows "stmt_done (UpsertPosting r) (exec_stmt (UpsertPosting r') db)"
proof -
  have "po_status x = PoPosted \<and> po_posted_at x = po_posted_at r \<and> po_error x = None"
    if x: "x \<in> set (upsert_posting r' (op_ledger_postings db))" "po_tx_id x = po_tx_id r" for x
  proof (cases "po_tx_id r = po_tx_id r'")
    case True
    with x assms(2) upsert_hit [OF x(1)] show ?thesis by simp
  next
    case False
    with x have "x \<in> set (op_ledger_postings db)" by (auto dest: upsert_miss)
    with x assms(1) show ?thesis by simp
  qed
  with assms(1) show ?thesis by (simp add: upsert_keys)
qed

lemma stmt_done_mono:
  assumes "stmt_done s db" and "stmts_agree s s'"
  shows "stmt_done s (exec_stmt s' db)"
proof (cases s)
  case (UpsertPosting r)
  show ?thesis
  proof (cases s')
    case (UpsertPosting r')
    with assms \<open>s = UpsertPosting r\<close> show ?thesis by (metis upsert_done_mono)
  qed (use assms \<open>s = UpsertPosting r\<close> in \<open>simp_all split: option.split\<close>)
next
  case (InsertLedgerTx mid uuid rt rid descr at)
  with assms show ?thesis
    by (cases s') (auto split: option.splits)
next
  case (InsertLedgerEntry acct dir amt cur ord at uuid)
  with assms show ?thesis by (auto intro: find_ltx_mono has_entry_mono)
qed

lemma stmt_done_run_batch:
  "stmt_done s db \<Longrightarrow> (\<And>s'. s' \<in> set ss \<Longrightarrow> stmts_agree s s') \<Longrightarrow> stmt_done s (run_batch ss db)"
  by (induction ss arbitrary: db) (auto intro: stmt_done_mono)

lemma exec_upsert_done: "po_status r = PoPosted \<Longrightarrow> po_error r = None \<Longrightarrow>
  stmt_done (UpsertPosting r) (exec_stmt (UpsertPosting r) db)"
  by (simp add: upsert_keys upsert_hit)

lemma exec_ltx_done:
  "stmt_done (InsertLedgerTx mid uuid rt rid descr at) (exec_stmt (InsertLedgerTx mid uuid rt rid descr at) db)"
  by auto

lemma find_ltx_exists: "uuid \<in> set (map lt_uuid (op_ledger_transactions db)) \<Longrightarrow> \<exists>t. find_ltx uuid db = Some t"
  unfolding find_ltx_def by (metis find_None_keys option.exhaust)

lemma exec_entry_done:
  assumes "uuid \<in> set (map lt_uuid (op_ledger_transactions db))"
  shows "stmt_done (InsertLedgerEntry acct dir amt cur ord at uuid)
           (exec_stmt (InsertLedgerEntry acct dir amt cur ord at uuid) db)"
proof -
  from find_ltx_exists [OF assms] obtain t where t: "find_ltx uuid db = Some t" ..
  from find_ltx_mono [OF t, of "InsertLedgerEntry acct dir amt cur ord at uuid"] t
  show ?thesis by (auto simp: has_entry_def)
qed

lemma all_done_noop: "(\<And>s. s \<in> set ss \<Longrightarrow> stmt_done s db) \<Longrightarrow> run_batch ss db = db"
  by (induction ss) (auto simp: stmt_done_noop)

lemma entry_stmts_done:
  assumes "pp_tx_id p \<in> set (map lt_uuid (op_ledger_transactions db))"
    and "s \<in> set (map (entry_stmt p at) es)"
  shows "stmt_done s (run_batch (map (entry_stmt p at) es) db)"
  using assms
proof (induction es arbitrary: db)
  case Nil
  then show ?case by simp
next
  case (Cons x es)
  obtain ord e where x: "x = (ord, e)" by (cases x)
  let ?s = "entry_stmt p at x"
  have eff: "stmt_done ?s (exec_stmt ?s db)"
    using exec_entry_done [OF Cons.prems(1)] by (simp add: x entry_stmt_def)
  have present: "pp_tx_id p \<in> set (map lt_uuid (op_ledger_transactions (exec_stmt ?s db)))"
    using Cons.prems(1) by (auto simp: x entry_stmt_def split: option.splits)
  show ?case
  proof (cases "s \<in> set (map (entry_stmt p at) es)")
    case True
    with Cons.IH [OF present] show ?thesis by simp
  next
    case False
    with Cons.prems(2) have "s = ?s" by auto
    moreover have "stmt_done ?s (run_batch (map (entry_stmt p at) es) (exec_stmt ?s db))"
      by (rule stmt_done_run_batch [OF eff]) (auto simp: x entry_stmt_def)
    ultimately show ?thesis by simp
  qed
qed

lemma audit_batch_done:
  assumes "s \<in> set (buildLedgerAuditStatements mid p at)"
  shows "stmt_done s (run_batch (buildLedgerAuditStatements mid p at) db)"
proof -
  let ?r = "fresh_posting_row mid p PoPosted at (Some at)"
  let ?u = "UpsertPosting ?r"
  let ?t = "InsertLedgerTx mid (pp_tx_id p) (pp_reference_type p) (pp_reference_id p) (pp_description p) at"
  let ?es = "map (entry_stmt p at) (List.enumerate 1 (pp_entries p))"
  let ?db1 = "exec_stmt ?u db"
  let ?db2 = "exec_stmt ?t ?db1"
  have agree: "stmts_agree ?u x" if "x \<in> set (?t # ?es)" for x
    using that by (auto simp: entry_stmt_def)
  have "stmt_done ?u ?db1" by (rule exec_upsert_done) (simp_all add: fresh_posting_row_def)
  then have u: "stmt_done ?u (run_batch (?t # ?es) ?db1)"
    by (rule stmt_done_run_batch) (rule agree)
  have t2: "stmt_done ?t ?db2" by (rule exec_ltx_done)
  then have t: "stmt_done ?t (run_batch ?es ?db2)"
    by (rule stmt_done_run_batch) auto
  from t2 have "pp_tx_id p \<in> set (map lt_uuid (op_ledger_transactions ?db2))" by simp
  then have e: "stmt_done x (run_batch ?es ?db2)" if "x \<in> set ?es" for x
    using that by (rule entry_stmts_done)
  have split: "buildLedgerAuditStatements mid p at = ?u # ?t # ?es"
    by (simp add: buildLedgerAuditStatements_def)
  from assms consider "s = ?u" | "s = ?t" | "s \<in> set ?es" by (auto simp: split)
  then show ?thesis using u t e unfolding split by cases (simp_all only: run_batch_Cons)
qed

lemma audit_batch_replay:
  "run_batch (buildLedgerAuditStatements mid p at) (run_batch (buildLedgerAuditStatements mid p at) db)
     = run_batch (buildLedgerAuditStatements mid p at) db"
  by (rule all_done_noop) (rule audit_batch_done)

section \<open>The key constraints are kept\<close>

lemma find_ltx_in: "find_ltx u db = Some t \<Longrightarrow> t \<in> set (op_ledger_transactions db) \<and> lt_uuid t = u"
  unfolding find_ltx_def by (drule find_Some_iff)

lemma exec_stmt_wf: "audit_wf db \<Longrightarrow> audit_wf (exec_stmt s db)"
proof (cases s)
  case (UpsertPosting r)
  assume "audit_wf db"
  then show ?thesis by (auto simp: UpsertPosting audit_wf_def map_tx_id_upsert)
next
  case (InsertLedgerTx mid uuid rt rid descr at)
  assume "audit_wf db"
  then show ?thesis by (fastforce simp: InsertLedgerTx audit_wf_def)
next
  case (InsertLedgerEntry acct dir amt cur ord at uuid)
  assume "audit_wf db"
  then show ?thesis
    by (auto simp: InsertLedgerEntry audit_wf_def has_entry_def split: option.splits dest!: find_ltx_in)
qed

lemma run_batch_wf: "audit_wf db \<Longrightarrow> audit_wf (run_batch ss db)"
  by (induction ss arbitrary: db) (auto intro: exec_stmt_wf)

lemma audit_wf_empty [simp]: "audit_wf empty_d1"
  by (simp add: audit_wf_def empty_d1_def)

section \<open>What a batch adds for a posting the mirror has not seen\<close>

type_synonym leg = "int \<times> int \<times> int \<times> direction \<times> string \<times> string \<times> nat"

definition leg_of :: "ledger_entry_row \<Rightarrow> leg" where
  "leg_of e = (le_merchant_id e, le_ledger_transaction_id e, le_account_id e, le_direction e,
               le_amount e, le_currency e, le_entry_order e)"

definition payload_legs :: "int \<Rightarrow> int \<Rightarrow> posting_payload \<Rightarrow> leg list" where
  "payload_legs mid tid p =
     map (\<lambda>(ord, e). (mid, tid, pe_d1_account_id e, pe_direction e, pe_amount e, pp_currency p, ord))
         (List.enumerate 1 (pp_entries p))"

lemma run_entry_stmts_fresh:
  assumes "find_ltx (pp_tx_id p) db = Some t"
    and "\<And>k. n \<le> k \<Longrightarrow> \<not> has_entry (lt_id t) k db"
  shows "\<exists>rows. op_ledger_entries (run_batch (map (entry_stmt p at) (List.enumerate n es)) db)
                  = op_ledger_entries db @ rows \<and>
                map leg_of rows = map (\<lambda>(ord, e). (lt_merchant_id t, lt_id t, pe_d1_account_id e,
                  pe_direction e, pe_amount e, pp_currency p, ord)) (List.enumerate n es)"
  using assms
proof (induction es arbitrary: db n)
  case Nil
  then show ?case by simp
next
  case (Cons e es)
  let ?row = "\<lparr>le_id = seq_ledger_entries db, le_merchant_id = lt_merchant_id t,
                le_ledger_transaction_id = lt_id t, le_account_id = pe_d1_account_id e,
                le_direction = pe_direction e, le_amount = pe_amount e, le_currency = pp_currency p,
                le_entry_order = n, le_created_at = at\<rparr>"
  let ?db = "db\<lparr>op_ledger_entries := op_ledger_entries db @ [?row],
                seq_ledger_entries := seq_ledger_entries db + 1\<rparr>"
  from Cons.prems(2) [of n] Cons.prems(1) have step: "exec_stmt (entry_stmt p at (n, e)) db = ?db"
    by (simp add: entry_stmt_def)
  have f: "find_ltx (pp_tx_id p) ?db = Some t" using Cons.prems(1) by (simp add: find_ltx_def)
  have h: "\<not> has_entry (lt_id t) k ?db" if "Suc n \<le> k" for k
    using Cons.prems(2) [of k] that by (auto simp: has_entry_def)
  from Cons.IH [OF f h] obtain rows where
    "op_ledger_entries (run_batch (map (entry_stmt p at) (List.enumerate (Suc n) es)) ?db)
       = op_ledger_entries db @ ?row # rows"
    "map leg_of rows = map (\<lambda>(ord, e). (lt_merchant_id t, lt_id t, pe_d1_account_id e,
       pe_direction e, pe_amount e, pp_currency p, ord)) (List.enumerate (Suc n) es)"
    by auto
  moreover have "leg_of ?row = (lt_merchant_id t, lt_id t, pe_d1_account_id e, pe_direction e,
      pe_amount e, pp_currency p, n)"
    by (simp add: leg_of_def)
  ultimately show ?case using step by (intro exI [of _ "?row # rows"]) simp
qed

lemma run_entry_stmts_frame:
  "op_ledger_transactions (run_batch (map (entry_stmt p at) xs) db) = op_ledger_transactions db"
  "op_ledger_postings (run_batch (map (entry_stmt p at) xs) db) = op_ledger_postings db"
  by (induction xs arbitrary: db) (auto simp: entry_stmt_def split: option.splits)

lemma audit_batch_fresh:
  assumes wf: "audit_wf db" and fresh: "find_ltx (pp_tx_id p) db = None"
  shows "\<exists>t rows.
     find_ltx (pp_tx_id p) (run_batch (buildLedgerAuditStatements mid p at) db) = Some t \<and>
     lt_merchant_id t = mid \<and> lt_status t = LtPosted \<and>
     op_ledger_entries (run_batch (buildLedgerAuditStatements mid p at) db) = op_ledger_entries db @ rows \<and>
     map leg_of rows = payload_legs mid (lt_id t) p \<and>
     (\<forall>e \<in> set (op_ledger_entries db). le_ledger_transaction_id e \<noteq> lt_id t)"
proof -
  let ?r = "fresh_posting_row mid p PoPosted at (Some at)"
  let ?row = "\<lparr>lt_id = seq_ledger_transactions db, lt_merchant_id = mid, lt_uuid = pp_tx_id p,
                lt_reference_type = pp_reference_type p, lt_reference_id = pp_reference_id p,
                lt_description = pp_description p, lt_status = LtPosted, lt_posted_at = at\<rparr>"
  let ?db2 = "db\<lparr>op_ledger_postings := upsert_posting ?r (op_ledger_postings db),
                 op_ledger_transactions := op_ledger_transactions db @ [?row],
                 seq_ledger_transactions := seq_ledger_transactions db + 1\<rparr>"
  let ?es = "map (entry_stmt p at) (List.enumerate 1 (pp_entries p))"
  from fresh have "pp_tx_id p \<notin> set (map lt_uuid (op_ledger_transactions db))"
    by (simp add: find_ltx_def find_None_keys)
  then have run: "run_batch (buildLedgerAuditStatements mid p at) db = run_batch ?es ?db2"
    by (simp add: buildLedgerAuditStatements_def)
  have f: "find_ltx (pp_tx_id p) ?db2 = Some ?row"
    using fresh by (simp add: find_ltx_def find_append)
  have old: "le_ledger_transaction_id e \<noteq> seq_ledger_transactions db"
    if "e \<in> set (op_ledger_entries db)" for e
    using wf that by (fastforce simp: audit_wf_def)
  have h: "\<not> has_entry (lt_id ?row) k ?db2" for k by (auto simp: has_entry_def dest: old)
  from run_entry_stmts_fresh [OF f, of 1 at "pp_entries p"] h obtain rows where rows:
    "op_ledger_entries (run_batch ?es ?db2) = op_ledger_entries db @ rows"
    "map leg_of rows = payload_legs mid (lt_id ?row) p"
    by (auto simp: payload_legs_def)
  have "find_ltx (pp_tx_id p) (run_batch ?es ?db2) = Some ?row"
    using f by (simp add: find_ltx_def run_entry_stmts_frame)
  with rows old show ?thesis unfolding run by (intro exI [of _ ?row] exI [of _ rows]) simp
qed

end
