(* ===== verification/LedgerDO.thy ===== *)
theory LedgerDO
  imports LedgerAudit
begin

text \<open>
  \<open>do/ledger-do.ts\<close>: the per-merchant ledger object.  Its SQLite storage, its alarm, its
  key-value entries and its in-memory fields are one record; every method is a function from
  the object (and the D1 database where the method writes there) to its result and the new
  state.  \<open>now\<close> is the clock during the call; \<open>d1_ok\<close> says whether the D1 batch of the call
  succeeds, since the network and D1's own constraint checks decide that.

  \<open>blockConcurrencyWhile\<close> serialises the calls, so a run of the object is a sequence of these
  functions.  JavaScript and SQLite integers are unbounded here; \<open>posting_sums_safe\<close> below bounds
  the sums of the shape check.
\<close>

section \<open>State\<close>

record account_row =
  acc_code :: string
  acc_name :: string
  acc_type :: account_type
  acc_currency :: string
  acc_balance_minor :: int
  acc_updated_at :: "iso option"

record posted_row =
  px_tx_id :: string
  px_reference_type :: reference_type
  px_reference_id :: "string option"
  px_currency :: string
  px_description :: string
  px_posted_at :: iso

record journal_row =
  je_tx_id :: string
  je_account_code :: string
  je_direction :: direction
  je_amount_minor :: int
  je_posted_at :: iso

datatype outbox_status = ObPending | ObSynced

record outbox_row =
  ob_id :: nat
  ob_event_id :: string
  ob_event_type :: string
  ob_payload :: posting_payload
  ob_payload_posted_at :: iso
  ob_status :: outbox_status
  ob_retry_count :: nat
  ob_last_error :: "string option"
  ob_created_at :: iso
  ob_synced_at :: "iso option"
  ob_next_retry_at :: "time_ms option"

record fault_flags =
  fail_d1_pending :: bool
  fail_do_writes :: bool
  fail_d1_posted :: bool
  fail_outbox_drain :: bool

record ledger_do =
  do_accounts :: "account_row list"
  do_posted :: "posted_row list"
  do_journal :: "journal_row list"
  do_outbox :: "outbox_row list"
  do_outbox_seq :: nat
  do_name :: string
  do_alarm :: "time_ms option"
  do_lastSnapshotAt :: "time_ms option"
  do_lastOutboxCleanupAt :: "time_ms option"
  do_faults :: "fault_flags option"
  do_merchantId :: "int option"
  do_seededCurrency :: "string option"

record ledger_env =
  LEDGER_OUTBOX_ENABLED :: "string option"
  ENVIRONMENT :: string

section \<open>Constants\<close>

definition MAX_AMOUNT_MINOR :: int where "MAX_AMOUNT_MINOR = 9000000000000"
definition SNAPSHOT_INTERVAL_MS :: int where "SNAPSHOT_INTERVAL_MS = 24 * 60 * 60 * 1000"
definition OUTBOX_DRAIN_KICK_MS :: int where "OUTBOX_DRAIN_KICK_MS = 100"
definition OUTBOX_DRAIN_RETRY_MS :: int where "OUTBOX_DRAIN_RETRY_MS = 1000"
definition OUTBOX_DRAIN_MAX_BACKOFF_MS :: int where "OUTBOX_DRAIN_MAX_BACKOFF_MS = 60000"
definition OUTBOX_BATCH_POSTINGS :: nat where "OUTBOX_BATCH_POSTINGS = 20"
definition OUTBOX_MAX_STATEMENTS :: nat where "OUTBOX_MAX_STATEMENTS = 100"
definition OUTBOX_RETENTION_MS :: int where "OUTBOX_RETENTION_MS = 7 * 24 * 60 * 60 * 1000"
definition OUTBOX_STUCK_RETRY_THRESHOLD :: nat where "OUTBOX_STUCK_RETRY_THRESHOLD = 10"
definition OUTBOX_STUCK_AGE_MS :: int where "OUTBOX_STUCK_AGE_MS = 5 * 60 * 1000"

lemmas outbox_consts =
  SNAPSHOT_INTERVAL_MS_def OUTBOX_DRAIN_KICK_MS_def OUTBOX_DRAIN_RETRY_MS_def
  OUTBOX_DRAIN_MAX_BACKOFF_MS_def OUTBOX_BATCH_POSTINGS_def OUTBOX_MAX_STATEMENTS_def
  OUTBOX_RETENTION_MS_def OUTBOX_STUCK_RETRY_THRESHOLD_def OUTBOX_STUCK_AGE_MS_def

section \<open>Construction\<close>

text \<open>An object whose storage has never been written, under its platform name.\<close>

definition empty_do :: "string \<Rightarrow> ledger_do" where
  "empty_do name = \<lparr>do_accounts = [], do_posted = [], do_journal = [], do_outbox = [],
     do_outbox_seq = 1, do_name = name, do_alarm = None, do_lastSnapshotAt = None,
     do_lastOutboxCleanupAt = None, do_faults = None, do_merchantId = None,
     do_seededCurrency = None\<rparr>"

text \<open>
  The constructor runs when an isolate loads the object: the tables persist, the in-memory
  fields start empty, and an alarm is set if there is none.
\<close>

definition construct :: "time_ms \<Rightarrow> ledger_do \<Rightarrow> ledger_do" where
  "construct now d = d\<lparr>do_faults := None, do_merchantId := None, do_seededCurrency := None,
     do_alarm := (case do_alarm d of None \<Rightarrow> Some (now + SNAPSHOT_INTERVAL_MS) | Some a \<Rightarrow> Some a)\<rparr>"

section \<open>Posting\<close>

datatype do_error = ValidationError posting_error_code string | OtherError string

text \<open>\<open>validatePostingShape\<close>: the loop over the entries carries the two sums.\<close>

fun validate_entries :: "posting_entry list \<Rightarrow> int \<Rightarrow> int \<Rightarrow> (posting_error_code \<times> string) + (int \<times> int)" where
  "validate_entries [] debits credits = Inr (debits, credits)"
| "validate_entries (e # es) debits credits =
     (if pe_direction e \<noteq> Debit \<and> pe_direction e \<noteq> Credit
      then Inl (INVALID, ''bad direction '' @ [CHR 0x27] @ direction_str (pe_direction e) @ [CHR 0x27])
      else if \<not> js_isInteger (pe_amount_minor e) \<or> js_int (pe_amount_minor e) \<le> 0
              \<or> js_int (pe_amount_minor e) > MAX_AMOUNT_MINOR
      then Inl (INVALID, ''amount_minor for '' @ pe_account_code e @ '' must be a positive integer <= '' @ int_str MAX_AMOUNT_MINOR)
      else if pe_account_code e = []
      then Inl (INVALID, ''account_code is required on every entry'')
      else if pe_direction e = Debit
      then validate_entries es (debits + js_int (pe_amount_minor e)) credits
      else validate_entries es debits (credits + js_int (pe_amount_minor e)))"

definition validatePostingShape :: "posting_payload \<Rightarrow> (posting_error_code \<times> string) + unit" where
  "validatePostingShape p =
     (if pp_tx_id p = [] then Inl (INVALID, ''tx_id is required'')
      else if length (pp_entries p) < 2 then Inl (INVALID, ''a posting requires at least 2 entries'')
      else case validate_entries (pp_entries p) 0 0 of
             Inl e \<Rightarrow> Inl e
           | Inr (debits, credits) \<Rightarrow>
               if debits \<noteq> credits
               then Inl (UNBALANCED, ''debits ('' @ int_str debits @ '') != credits ('' @ int_str credits @ '')'')
               else Inr ())"

definition seed_account :: "string \<Rightarrow> chart_account \<Rightarrow> account_row" where
  "seed_account cur a = \<lparr>acc_code = chart_code a, acc_name = chart_name a, acc_type = chart_type a,
     acc_currency = cur, acc_balance_minor = 0, acc_updated_at = None\<rparr>"

definition seed_accounts :: "string \<Rightarrow> account_row list \<Rightarrow> account_row list" where
  "seed_accounts cur accs =
     fold (\<lambda>a rs. insert_or_ignore acc_code (seed_account cur a) rs) DEFAULT_CHART_OF_ACCOUNTS accs"

definition seedChart :: "string \<Rightarrow> ledger_do \<Rightarrow> ledger_do" where
  "seedChart cur d =
     (if do_seededCurrency d = Some cur then d
      else d\<lparr>do_accounts := seed_accounts cur (do_accounts d), do_seededCurrency := Some cur\<rparr>)"

definition find_account :: "account_row list \<Rightarrow> string \<Rightarrow> account_row option" where
  "find_account accs code = List.find (\<lambda>a. acc_code a = code) accs"

definition entry_increases :: "account_type \<Rightarrow> direction \<Rightarrow> bool" where
  "entry_increases t dir = (if dir = Debit then isDebitNormal t else \<not> isDebitNormal t)"

definition delta_of :: "account_type \<Rightarrow> posting_entry \<Rightarrow> int" where
  "delta_of t e = (if entry_increases t (pe_direction e) then 1 else -1) * js_int (pe_amount_minor e)"

fun collect_deltas :: "account_row list \<Rightarrow> string \<Rightarrow> posting_entry list \<Rightarrow> (string \<times> int) list
    \<Rightarrow> (posting_error_code \<times> string) + (string \<times> int) list" where
  "collect_deltas accs cur [] ds = Inr ds"
| "collect_deltas accs cur (e # es) ds =
     (case find_account accs (pe_account_code e) of
        None \<Rightarrow> Inl (UNKNOWN_ACCOUNT, ''account '' @ pe_account_code e @ '' is not in this tenant's chart'')
      | Some a \<Rightarrow>
          if acc_currency a \<noteq> cur
          then Inl (CURRENCY_MISMATCH, ''account '' @ pe_account_code e @ '' is '' @ acc_currency a @ '', posting is '' @ cur)
          else collect_deltas accs cur es
                 (AList.update (pe_account_code e)
                    ((case map_of ds (pe_account_code e) of None \<Rightarrow> 0 | Some x \<Rightarrow> x) + delta_of (acc_type a) e) ds))"

fun check_funds :: "account_row list \<Rightarrow> (string \<times> int) list \<Rightarrow> (posting_error_code \<times> string) + unit" where
  "check_funds accs [] = Inr ()"
| "check_funds accs ((code, delta) # ds) =
     (case find_account accs code of
        None \<Rightarrow> Inl (INTERNAL, ''account row missing'')
      | Some a \<Rightarrow>
          if acc_balance_minor a + delta < 0
          then Inl (INSUFFICIENT_FUNDS, ''account '' @ code @ '' balance would go negative ('' @ int_str (acc_balance_minor a + delta) @ '')'')
          else check_funds accs ds)"

definition checkBalances :: "posting_entry list \<Rightarrow> string \<Rightarrow> account_row list
    \<Rightarrow> (posting_error_code \<times> string) + (string \<times> int) list" where
  "checkBalances es cur accs =
     (case collect_deltas accs cur es [] of
        Inl e \<Rightarrow> Inl e
      | Inr ds \<Rightarrow> (case check_funds accs ds of Inl e \<Rightarrow> Inl e | Inr _ \<Rightarrow> Inr ds))"

text \<open>
  \<open>getMerchantId\<close> caches the number it reads off the object's name.  Names are made by
  \<open>ledgerStub\<close> as \<open>merchant-{id}\<close>, so \<open>Number\<close> is modelled on digit strings.
\<close>

definition name_merchant_id :: "string \<Rightarrow> int option" where
  "name_merchant_id name =
     (if take 9 name = ''merchant-'' then
        let ds = drop 9 name
        in if ds \<noteq> [] \<and> (\<forall>c \<in> set ds. is_digit c) \<and> digits_val ds > 0
           then Some (int (digits_val ds)) else None
      else None)"

definition getMerchantId :: "ledger_do \<Rightarrow> int option \<times> ledger_do" where
  "getMerchantId d =
     (case do_merchantId d of
        Some m \<Rightarrow> if m > 0 then (Some m, d)
                  else (case name_merchant_id (do_name d) of
                          None \<Rightarrow> (None, d)
                        | Some i \<Rightarrow> (Some i, d\<lparr>do_merchantId := Some i\<rparr>))
      | None \<Rightarrow> (case name_merchant_id (do_name d) of
                          None \<Rightarrow> (None, d)
                        | Some i \<Rightarrow> (Some i, d\<lparr>do_merchantId := Some i\<rparr>)))"

definition event_id :: "int \<Rightarrow> string \<Rightarrow> string" where
  "event_id mid tx = ''m'' @ int_str mid @ '':posting:'' @ tx"

definition journal_of :: "posting_payload \<Rightarrow> iso \<Rightarrow> journal_row list" where
  "journal_of p at = map (\<lambda>e. \<lparr>je_tx_id = pp_tx_id p, je_account_code = pe_account_code e,
     je_direction = pe_direction e, je_amount_minor = js_int (pe_amount_minor e), je_posted_at = at\<rparr>)
     (pp_entries p)"

definition apply_delta :: "iso \<Rightarrow> string \<times> int \<Rightarrow> account_row list \<Rightarrow> account_row list" where
  "apply_delta at = (\<lambda>(code, delta). update_where (\<lambda>a. acc_code a = code)
     (\<lambda>a. a\<lparr>acc_balance_minor := acc_balance_minor a + delta, acc_updated_at := Some at\<rparr>))"

definition outbox_event :: "nat \<Rightarrow> int \<Rightarrow> posting_payload \<Rightarrow> iso \<Rightarrow> outbox_row" where
  "outbox_event i mid p at = \<lparr>ob_id = i, ob_event_id = event_id mid (pp_tx_id p),
     ob_event_type = ''POSTING'', ob_payload = p, ob_payload_posted_at = at, ob_status = ObPending,
     ob_retry_count = 0, ob_last_error = None, ob_created_at = at, ob_synced_at = None,
     ob_next_retry_at = None\<rparr>"

text \<open>
  The body of \<open>transactionSync\<close>: all four writes, or none when a uniqueness constraint
  (\<open>tx_id\<close>, \<open>event_id\<close>) fires.
\<close>

definition commit_posting :: "int \<Rightarrow> posting_payload \<Rightarrow> iso \<Rightarrow> (string \<times> int) list \<Rightarrow> ledger_do \<Rightarrow> ledger_do option" where
  "commit_posting mid p at ds d =
     (if pp_tx_id p \<in> set (map px_tx_id (do_posted d))
         \<or> event_id mid (pp_tx_id p) \<in> set (map ob_event_id (do_outbox d)) then None
      else Some (d\<lparr>
        do_posted := do_posted d @
          [\<lparr>px_tx_id = pp_tx_id p, px_reference_type = pp_reference_type p,
            px_reference_id = pp_reference_id p, px_currency = pp_currency p,
            px_description = pp_description p, px_posted_at = at\<rparr>],
        do_journal := do_journal d @ journal_of p at,
        do_accounts := fold (apply_delta at) ds (do_accounts d),
        do_outbox := do_outbox d @ [outbox_event (do_outbox_seq d) mid p at],
        do_outbox_seq := do_outbox_seq d + 1\<rparr>))"

text \<open>The guarded alarm nudge: an alarm inside the back-off window is left alone.\<close>

definition kickOutboxAlarm :: "time_ms \<Rightarrow> ledger_do \<Rightarrow> ledger_do" where
  "kickOutboxAlarm now d =
     (case do_alarm d of
        None \<Rightarrow> d\<lparr>do_alarm := Some (now + OUTBOX_DRAIN_KICK_MS)\<rparr>
      | Some current \<Rightarrow>
          if current > now \<and> current - now \<le> OUTBOX_DRAIN_MAX_BACKOFF_MS then d
          else if current > now + OUTBOX_DRAIN_KICK_MS
               then d\<lparr>do_alarm := Some (now + OUTBOX_DRAIN_KICK_MS)\<rparr> else d)"

definition mark_event_synced :: "string \<Rightarrow> iso \<Rightarrow> ledger_do \<Rightarrow> ledger_do" where
  "mark_event_synced ev at d = d\<lparr>do_outbox := update_where (\<lambda>x. ob_event_id x = ev)
     (\<lambda>x. x\<lparr>ob_status := ObSynced, ob_synced_at := Some at\<rparr>) (do_outbox d)\<rparr>"

definition posted_result :: "posting_payload \<Rightarrow> iso \<Rightarrow> int option \<Rightarrow> posting_result" where
  "posted_result p at ltid = \<lparr>res_status = Posted, res_tx_id = pp_tx_id p, res_posted_at = at,
     res_ledger_transaction_id = ltid, res_error_code = None, res_error = None\<rparr>"

definition duplicate_result :: "posting_payload \<Rightarrow> iso \<Rightarrow> posting_result" where
  "duplicate_result p at = \<lparr>res_status = Duplicate, res_tx_id = pp_tx_id p, res_posted_at = at,
     res_ledger_transaction_id = None, res_error_code = None, res_error = None\<rparr>"

definition failed_result :: "posting_payload \<Rightarrow> iso \<Rightarrow> posting_error_code \<Rightarrow> string \<Rightarrow> posting_result" where
  "failed_result p at code msg = \<lparr>res_status = Failed, res_tx_id = pp_tx_id p, res_posted_at = at,
     res_ledger_transaction_id = None, res_error_code = Some code, res_error = Some msg\<rparr>"

text \<open>Step E: nudge the alarm, or write the audit trail at once when the outbox is switched off.\<close>

definition finish_posting :: "ledger_env \<Rightarrow> time_ms \<Rightarrow> bool \<Rightarrow> int \<Rightarrow> posting_payload \<Rightarrow> ledger_do \<times> d1
    \<Rightarrow> (do_error + posting_result) \<times> (ledger_do \<times> d1)" where
  "finish_posting env now d1_ok mid p = (\<lambda>(d, db).
     if LEDGER_OUTBOX_ENABLED env = Some ''false'' then
       if d1_ok then
         let (ltid, db') = writeLedgerAuditTrail p now db
         in (Inr (posted_result p now (Some ltid)),
             (mark_event_synced (event_id mid (pp_tx_id p)) now d, db'))
       else (Inl (OtherError ''D1_ERROR''), (d, db))
     else (Inr (posted_result p now None), (kickOutboxAlarm now d, db)))"

definition postInner :: "ledger_env \<Rightarrow> time_ms \<Rightarrow> bool \<Rightarrow> posting_payload \<Rightarrow> ledger_do \<times> d1
    \<Rightarrow> (do_error + posting_result) \<times> (ledger_do \<times> d1)" where
  "postInner env now d1_ok p = (\<lambda>(d0, db).
     let d = seedChart (pp_currency p) d0 in
     case validatePostingShape p of
       Inl (code, msg) \<Rightarrow> (Inl (ValidationError code msg), (d, db))
     | Inr _ \<Rightarrow>
       (case List.find (\<lambda>r. px_tx_id r = pp_tx_id p) (do_posted d) of
          Some r \<Rightarrow> (Inr (duplicate_result p (px_posted_at r)), (d, db))
        | None \<Rightarrow>
          (case checkBalances (pp_entries p) (pp_currency p) (do_accounts d) of
             Inl (code, msg) \<Rightarrow> (Inl (ValidationError code msg), (d, db))
           | Inr ds \<Rightarrow>
             if (case do_faults d of None \<Rightarrow> False | Some f \<Rightarrow> fail_do_writes f)
             then (Inl (OtherError ''INJECTED:fail_do_writes''), (d\<lparr>do_faults := None\<rparr>, db))
             else
               let d' = (if pp_merchant_id p > 0 then d\<lparr>do_merchantId := Some (pp_merchant_id p)\<rparr> else d);
                   (m, d'') = getMerchantId d';
                   mid = (case m of None \<Rightarrow> pp_merchant_id p | Some i \<Rightarrow> i)
               in (case commit_posting mid p now ds d'' of
                     None \<Rightarrow> (Inl (OtherError ''UNIQUE constraint failed''), (d'', db))
                   | Some d3 \<Rightarrow> finish_posting env now d1_ok mid p (d3, db)))))"

text \<open>\<open>postTransaction\<close> never throws: its \<open>catch\<close> turns an exception into a structured failure.\<close>

definition settle :: "posting_payload \<Rightarrow> time_ms \<Rightarrow> (do_error + posting_result) \<times> 's \<Rightarrow> posting_result \<times> 's" where
  "settle p now out =
     (case out of
        (Inr r, s') \<Rightarrow> (r, s')
      | (Inl (ValidationError code msg), s') \<Rightarrow> (failed_result p now code msg, s')
      | (Inl (OtherError msg), s') \<Rightarrow> (failed_result p now INTERNAL msg, s'))"

definition postTransaction :: "ledger_env \<Rightarrow> time_ms \<Rightarrow> bool \<Rightarrow> posting_payload \<Rightarrow> ledger_do \<times> d1
    \<Rightarrow> posting_result \<times> (ledger_do \<times> d1)" where
  "postTransaction env now d1_ok p s = settle p now (postInner env now d1_ok p s)"

section \<open>Reads\<close>

definition getBalances :: "ledger_do \<Rightarrow> account_row list" where
  "getBalances d = sort_key acc_code (do_accounts d)"

definition getTransactionStatus :: "string \<Rightarrow> ledger_do \<Rightarrow> bool \<times> iso option" where
  "getTransactionStatus tx d =
     (let rows = filter (\<lambda>r. px_tx_id r = tx) (do_posted d)
      in (rows \<noteq> [], case rows of [] \<Rightarrow> None | r # _ \<Rightarrow> Some (px_posted_at r)))"

definition je_debit :: "journal_row \<Rightarrow> int" where
  "je_debit j = (if je_direction j = Debit then je_amount_minor j else 0)"

definition je_credit :: "journal_row \<Rightarrow> int" where
  "je_credit j = (if je_direction j = Credit then je_amount_minor j else 0)"

definition je_net :: "journal_row \<Rightarrow> int" where
  "je_net j = (if je_direction j = Debit then je_amount_minor j else - je_amount_minor j)"

definition derived_net :: "journal_row list \<Rightarrow> string \<Rightarrow> int" where
  "derived_net js code = sum_by (\<lambda>j. if je_account_code j = code then je_net j else 0) js"

record trial_account =
  ta_code :: string
  ta_name :: string
  ta_type :: account_type
  ta_balance_minor :: int
  ta_derived_balance_minor :: int

record trial_result =
  tb_balanced :: bool
  tb_total_debit_minor :: int
  tb_total_credit_minor :: int
  tb_accounts :: "trial_account list"

definition trialBalance :: "ledger_do \<Rightarrow> trial_result" where
  "trialBalance d =
     (let js = do_journal d;
          accs = map (\<lambda>a. \<lparr>ta_code = acc_code a, ta_name = acc_name a, ta_type = acc_type a,
                     ta_balance_minor = acc_balance_minor a,
                     ta_derived_balance_minor =
                       (if isDebitNormal (acc_type a) then derived_net js (acc_code a)
                        else - derived_net js (acc_code a))\<rparr>) (sort_key acc_code (do_accounts d));
          td = sum_by je_debit js; tc = sum_by je_credit js
      in \<lparr>tb_balanced = (td = tc \<and> (\<forall>a \<in> set accs. ta_balance_minor a = ta_derived_balance_minor a)),
          tb_total_debit_minor = td, tb_total_credit_minor = tc, tb_accounts = accs\<rparr>)"

definition recentPostedTxIds :: "time_ms \<Rightarrow> iso option \<Rightarrow> ledger_do \<Rightarrow> string list" where
  "recentPostedTxIds now since d =
     (let cutoff = (case since of None \<Rightarrow> now - 24 * 60 * 60 * 1000 | Some t \<Rightarrow> t)
      in map px_tx_id (filter (\<lambda>r. px_posted_at r > cutoff) (do_posted d)))"

section \<open>Outbox drain\<close>

definition retry_backoff :: "nat \<Rightarrow> int" where
  "retry_backoff retries =
     min OUTBOX_DRAIN_MAX_BACKOFF_MS (OUTBOX_DRAIN_RETRY_MS * 2 ^ (min retries 10))"

definition mark_one_retry :: "time_ms \<Rightarrow> string \<Rightarrow> nat \<Rightarrow> outbox_row list \<Rightarrow> outbox_row list" where
  "mark_one_retry now err i rows =
     (let retries = (case List.find (\<lambda>x. ob_id x = i) rows of None \<Rightarrow> 0 | Some r \<Rightarrow> ob_retry_count r) + 1
      in update_where (\<lambda>x. ob_id x = i)
           (\<lambda>x. x\<lparr>ob_retry_count := retries, ob_last_error := Some (take 500 err),
                  ob_next_retry_at := Some (now + retry_backoff retries)\<rparr>) rows)"

definition markOutboxRetry :: "time_ms \<Rightarrow> nat list \<Rightarrow> string \<Rightarrow> ledger_do \<Rightarrow> ledger_do" where
  "markOutboxRetry now ids err d = d\<lparr>do_outbox := fold (mark_one_retry now err) ids (do_outbox d)\<rparr>"

definition drain_eligible :: "bool \<Rightarrow> time_ms \<Rightarrow> outbox_row \<Rightarrow> bool" where
  "drain_eligible force now r \<longleftrightarrow>
     ob_status r = ObPending \<and>
     (force \<or> (case ob_next_retry_at r of None \<Rightarrow> True | Some t \<Rightarrow> t \<le> now))"

definition pending_batch :: "bool \<Rightarrow> time_ms \<Rightarrow> ledger_do \<Rightarrow> outbox_row list" where
  "pending_batch force now d =
     take OUTBOX_BATCH_POSTINGS (sort_key ob_id (filter (drain_eligible force now) (do_outbox d)))"

text \<open>Rows are added to the batch in order until one would pass the statement bound.\<close>

fun compose_batch :: "outbox_row list \<Rightarrow> ledger_stmt list \<Rightarrow> outbox_row list \<Rightarrow> ledger_stmt list \<times> outbox_row list" where
  "compose_batch [] stmts included = (stmts, included)"
| "compose_batch (r # rs) stmts included =
     (let b = buildLedgerAuditStatements (pp_merchant_id (ob_payload r)) (ob_payload r) (ob_payload_posted_at r)
      in if length stmts + length b > OUTBOX_MAX_STATEMENTS then (stmts, included)
         else compose_batch rs (stmts @ b) (included @ [r]))"

definition sync_row :: "iso \<Rightarrow> outbox_row \<Rightarrow> outbox_row" where
  "sync_row at r = r\<lparr>ob_status := ObSynced, ob_synced_at := Some at, ob_last_error := None,
     ob_next_retry_at := None\<rparr>"

definition mark_synced :: "iso \<Rightarrow> outbox_row list \<Rightarrow> ledger_do \<Rightarrow> ledger_do" where
  "mark_synced at included d = d\<lparr>do_outbox :=
     fold (\<lambda>r rows. update_where (\<lambda>x. ob_id x = ob_id r) (sync_row at) rows) included (do_outbox d)\<rparr>"

definition drain_merchant :: "outbox_row \<Rightarrow> ledger_do \<Rightarrow> int option \<times> ledger_do" where
  "drain_merchant first d =
     (case getMerchantId d of
        (Some m, d') \<Rightarrow> (Some m, d')
      | (None, d') \<Rightarrow>
          if pp_merchant_id (ob_payload first) > 0
          then (Some (pp_merchant_id (ob_payload first)),
                d'\<lparr>do_merchantId := Some (pp_merchant_id (ob_payload first))\<rparr>)
          else (None, d'))"

definition drainOutbox :: "bool \<Rightarrow> time_ms \<Rightarrow> bool \<Rightarrow> ledger_do \<times> d1 \<Rightarrow> (nat \<times> nat) \<times> (ledger_do \<times> d1)" where
  "drainOutbox force now d1_ok = (\<lambda>(d0, db).
     let pending = pending_batch force now d0 in
     case pending of
       [] \<Rightarrow> ((0, 0), (d0, db))
     | first # _ \<Rightarrow>
       (case drain_merchant first d0 of
          (None, d) \<Rightarrow> ((0, length pending),
                        (markOutboxRetry now (map ob_id pending) ''NO_MERCHANT_CONTEXT'' d, db))
        | (Some m, d) \<Rightarrow>
          (let (stmts, included) = compose_batch pending [] [] in
           if included = [] then
             ((0, 1), (markOutboxRetry now [ob_id first] ''BATCH_TOO_LARGE'' d, db))
           else if (case do_faults d of None \<Rightarrow> False | Some f \<Rightarrow> fail_outbox_drain f) then
             ((0, length included),
              (markOutboxRetry now (map ob_id included) ''INJECTED:fail_outbox_drain'' (d\<lparr>do_faults := None\<rparr>), db))
           else if \<not> d1_ok then
             ((0, length included), (markOutboxRetry now (map ob_id included) ''D1_ERROR'' d, db))
           else ((length included, 0), (mark_synced now included d, run_batch stmts db)))))"

section \<open>Retention, statistics, snapshots and the alarm\<close>

definition maybeCleanupOutbox :: "time_ms \<Rightarrow> ledger_do \<Rightarrow> ledger_do" where
  "maybeCleanupOutbox now d =
     (let last = (case do_lastOutboxCleanupAt d of None \<Rightarrow> 0 | Some t \<Rightarrow> t)
      in if now - last < 60 * 60 * 1000 then d
         else d\<lparr>do_outbox := filter (\<lambda>r. \<not> (ob_status r = ObSynced \<and>
                    (case ob_synced_at r of None \<Rightarrow> False | Some t \<Rightarrow> t < now - OUTBOX_RETENTION_MS))) (do_outbox d),
                do_lastOutboxCleanupAt := Some now\<rparr>)"

record outbox_stats =
  os_pending :: nat
  os_stuck :: nat
  os_max_age_seconds :: int
  os_max_retry :: nat

definition outboxStats :: "time_ms \<Rightarrow> ledger_do \<Rightarrow> outbox_stats" where
  "outboxStats now d =
     (let rows = filter (\<lambda>r. ob_status r = ObPending) (do_outbox d);
          step = (\<lambda>r (age, retry, stuck).
             let a = now - ob_created_at r in
             (if a > age then a else age,
              if ob_retry_count r > retry then ob_retry_count r else retry,
              if a > OUTBOX_STUCK_AGE_MS \<or> ob_retry_count r \<ge> OUTBOX_STUCK_RETRY_THRESHOLD
              then stuck + 1 else stuck));
          (age, retry, stuck) = fold step rows (0, 0, 0)
      in \<lparr>os_pending = length rows, os_stuck = stuck, os_max_age_seconds = age div 1000, os_max_retry = retry\<rparr>)"

definition day_of :: "time_ms \<Rightarrow> int" where
  "day_of t = t div 86400000"

text \<open>\<open>snapshotBalances\<close>: the flag says whether the method returned or the D1 batch threw.\<close>

definition snapshotBalances :: "time_ms \<Rightarrow> bool \<Rightarrow> ledger_do \<times> d1 \<Rightarrow> bool \<times> (ledger_do \<times> d1)" where
  "snapshotBalances now d1_ok = (\<lambda>(d0, db).
     case getMerchantId d0 of
       (None, d) \<Rightarrow> (True, (d, db))
     | (Some m, d) \<Rightarrow>
         if do_accounts d = [] then (True, (d, db))
         else if \<not> d1_ok then (False, (d, db))
         else (True, (d, db\<lparr>op_ledger_balance_snapshots :=
           fold (\<lambda>a rows. insert_or_ignore (\<lambda>s. (sn_merchant_id s, sn_account_code s, sn_as_of_day s))
                  \<lparr>sn_merchant_id = m, sn_account_code = acc_code a, sn_currency = acc_currency a,
                   sn_balance_minor = acc_balance_minor a, sn_as_of_day = day_of now\<rparr> rows)
             (do_accounts d) (op_ledger_balance_snapshots db)\<rparr>)))"

definition next_retry_min :: "time_ms \<Rightarrow> ledger_do \<Rightarrow> time_ms option" where
  "next_retry_min now d =
     (case map (\<lambda>r. case ob_next_retry_at r of None \<Rightarrow> now | Some t \<Rightarrow> t)
             (filter (\<lambda>r. ob_status r = ObPending) (do_outbox d)) of
        [] \<Rightarrow> None
      | t # ts \<Rightarrow> Some (fold min ts t))"

definition scheduleNextAlarm :: "time_ms \<Rightarrow> ledger_do \<Rightarrow> ledger_do" where
  "scheduleNextAlarm now d =
     (let target = (case next_retry_min now d of
                      Some n \<Rightarrow> if n \<le> now then now + OUTBOX_DRAIN_KICK_MS else n
                    | None \<Rightarrow> (case do_lastSnapshotAt d of None \<Rightarrow> 0 | Some t \<Rightarrow> t) + SNAPSHOT_INTERVAL_MS)
      in (case do_alarm d of
            None \<Rightarrow> d\<lparr>do_alarm := Some target\<rparr>
          | Some current \<Rightarrow> if current > target then d\<lparr>do_alarm := Some target\<rparr> else d))"

definition snapshot_if_due :: "time_ms \<Rightarrow> bool \<Rightarrow> ledger_do \<times> d1 \<Rightarrow> ledger_do \<times> d1" where
  "snapshot_if_due now d1_ok = (\<lambda>(d, db).
     if now - (case do_lastSnapshotAt d of None \<Rightarrow> 0 | Some t \<Rightarrow> t) \<ge> SNAPSHOT_INTERVAL_MS then
       (case snapshotBalances now d1_ok (d, db) of
          (True, (d', db')) \<Rightarrow> (d'\<lparr>do_lastSnapshotAt := Some now\<rparr>, db')
        | (False, s) \<Rightarrow> s)
     else (d, db))"

text \<open>
  The alarm handler.  The platform clears the alarm before it calls the handler, so the handler
  that reschedules sees none.  \<open>ok1\<close> and \<open>ok2\<close> are the fates of its two D1 batches.
\<close>

definition alarm :: "time_ms \<Rightarrow> bool \<Rightarrow> bool \<Rightarrow> ledger_do \<times> d1 \<Rightarrow> ledger_do \<times> d1" where
  "alarm now ok1 ok2 s =
     (let (d, db) = snapshot_if_due now ok2 (snd (drainOutbox False now ok1 s))
      in (scheduleNextAlarm now (maybeCleanupOutbox now d), db))"

definition fire_alarm :: "time_ms \<Rightarrow> bool \<Rightarrow> bool \<Rightarrow> ledger_do \<times> d1 \<Rightarrow> ledger_do \<times> d1" where
  "fire_alarm now ok1 ok2 = (\<lambda>(d, db). alarm now ok1 ok2 (d\<lparr>do_alarm := None\<rparr>, db))"

section \<open>Failure injection (refused in production)\<close>

definition testInjectFault :: "ledger_env \<Rightarrow> fault_flags \<Rightarrow> ledger_do \<Rightarrow> string + ledger_do" where
  "testInjectFault env f d =
     (if ENVIRONMENT env = ''production'' then Inl ''fault injection disabled in production''
      else Inr (d\<lparr>do_faults := Some f\<rparr>))"


definition testSetOutboxSynced :: "ledger_env \<Rightarrow> nat \<Rightarrow> iso \<Rightarrow> ledger_do \<Rightarrow> string + ledger_do" where
  "testSetOutboxSynced env i at d =
     (if ENVIRONMENT env = ''production'' then Inl ''disabled in production''
      else Inr (d\<lparr>do_outbox := update_where (\<lambda>x. ob_id x = i)
                   (\<lambda>x. x\<lparr>ob_status := ObSynced, ob_synced_at := Some at\<rparr>) (do_outbox d)\<rparr>))"

definition testSetAlarm :: "ledger_env \<Rightarrow> time_ms \<Rightarrow> ledger_do \<Rightarrow> string + ledger_do" where
  "testSetAlarm env target d =
     (if ENVIRONMENT env = ''production'' then Inl ''disabled in production''
      else Inr (d\<lparr>do_alarm := Some target\<rparr>))"

definition testTriggerAlarm :: "ledger_env \<Rightarrow> time_ms \<Rightarrow> bool \<Rightarrow> bool \<Rightarrow> ledger_do \<times> d1 \<Rightarrow> string + (ledger_do \<times> d1)" where
  "testTriggerAlarm env now ok1 ok2 = (\<lambda>(d, db).
     if ENVIRONMENT env = ''production'' then Inl ''disabled in production''
     else Inr (alarm now ok1 ok2 (d\<lparr>do_lastOutboxCleanupAt := None\<rparr>, db)))"

end
