(* ===== verification/LedgerInvariant.thy ===== *)
theory LedgerInvariant
  imports LedgerDO
begin

text \<open>
  The book-keeping invariant of the ledger object and that every method keeps it: accounts are
  unique and never negative, every stored balance is the one its journal derives, the journal
  balances transaction by transaction, and every outbox row belongs to a posted transaction and
  carries the payload the journal was written from.
\<close>

section \<open>The shape check\<close>

definition entry_valid :: "posting_entry \<Rightarrow> bool" where
  "entry_valid e \<longleftrightarrow> (pe_direction e = Debit \<or> pe_direction e = Credit) \<and>
     js_isInteger (pe_amount_minor e) \<and> 0 < js_int (pe_amount_minor e) \<and>
     js_int (pe_amount_minor e) \<le> MAX_AMOUNT_MINOR \<and> pe_account_code e \<noteq> []"

definition entry_debit :: "posting_entry \<Rightarrow> int" where
  "entry_debit e = (if pe_direction e = Debit then js_int (pe_amount_minor e) else 0)"

definition entry_credit :: "posting_entry \<Rightarrow> int" where
  "entry_credit e = (if pe_direction e = Credit then js_int (pe_amount_minor e) else 0)"

lemma validate_entries_Inr:
  "validate_entries es d c = Inr (d', c') \<longleftrightarrow>
     (\<forall>e \<in> set es. entry_valid e) \<and> d' = d + sum_by entry_debit es \<and> c' = c + sum_by entry_credit es"
proof (induction es arbitrary: d c)
  case Nil
  then show ?case by auto
next
  case (Cons e es)
  then show ?case by (auto simp: entry_valid_def entry_debit_def entry_credit_def not_le)
qed

lemma validatePostingShape_ok:
  "validatePostingShape p = Inr () \<longleftrightarrow>
     pp_tx_id p \<noteq> [] \<and> 2 \<le> length (pp_entries p) \<and> (\<forall>e \<in> set (pp_entries p). entry_valid e) \<and>
     sum_by entry_debit (pp_entries p) = sum_by entry_credit (pp_entries p)"
proof (cases "validate_entries (pp_entries p) 0 0")
  case (Inl x)
  then have "\<not> (\<forall>e \<in> set (pp_entries p). entry_valid e)"
    using validate_entries_Inr [of "pp_entries p" 0 0 "0 + sum_by entry_debit (pp_entries p)"
        "0 + sum_by entry_credit (pp_entries p)"] by auto
  with Inl show ?thesis by (auto simp: validatePostingShape_def)
next
  case (Inr y)
  obtain d c where "y = (d, c)" by (cases y)
  with Inr validate_entries_Inr [of "pp_entries p" 0 0 d c] show ?thesis
    by (auto simp: validatePostingShape_def)
qed

section \<open>Balance deltas\<close>

definition delta_at :: "account_row list \<Rightarrow> posting_entry list \<Rightarrow> string \<Rightarrow> int" where
  "delta_at accs es code =
     sum_by (\<lambda>e. if pe_account_code e = code
                 then (case find_account accs code of None \<Rightarrow> 0 | Some a \<Rightarrow> delta_of (acc_type a) e)
                 else 0) es"

definition alist_at :: "(string \<times> int) list \<Rightarrow> string \<Rightarrow> int" where
  "alist_at ds code = (case map_of ds code of None \<Rightarrow> 0 | Some x \<Rightarrow> x)"

lemma alist_at_update [simp]:
  "alist_at (AList.update k v ds) code = (if code = k then v else alist_at ds code)"
  by (simp add: alist_at_def update_conv')

lemma collect_deltas_Inr:
  assumes "collect_deltas accs cur es ds = Inr ds'"
  shows "(distinct (map fst ds) \<longrightarrow> distinct (map fst ds')) \<and>
         set (map fst ds') = set (map fst ds) \<union> pe_account_code ` set es \<and>
         (\<forall>code. alist_at ds' code = alist_at ds code + delta_at accs es code) \<and>
         (\<forall>e \<in> set es. \<exists>a. find_account accs (pe_account_code e) = Some a \<and> acc_currency a = cur)"
  using assms
proof (induction es arbitrary: ds)
  case Nil
  then show ?case by (simp add: delta_at_def)
next
  case (Cons e es)
  from Cons.prems obtain a where a: "find_account accs (pe_account_code e) = Some a" "acc_currency a = cur"
    and rec: "collect_deltas accs cur es
        (AList.update (pe_account_code e) (alist_at ds (pe_account_code e) + delta_of (acc_type a) e) ds) = Inr ds'"
    by (auto simp: alist_at_def split: option.splits if_splits)
  note IH = Cons.IH [OF rec]
  have "delta_at accs (e # es) code = (if pe_account_code e = code then delta_of (acc_type a) e else 0)
      + delta_at accs es code" for code
    using a by (auto simp: delta_at_def)
  with IH a show ?case by (auto simp: distinct_update dom_update)
qed

lemma check_funds_Inr:
  "check_funds accs ds = Inr () \<Longrightarrow> (code, delta) \<in> set ds \<Longrightarrow>
     \<exists>a. find_account accs code = Some a \<and> 0 \<le> acc_balance_minor a + delta"
proof (induction ds)
  case (Cons x ds)
  then show ?case by (cases x) (auto split: option.splits if_splits)
qed simp

lemma fold_apply_delta:
  assumes "distinct (map fst ds)"
  shows "fold (apply_delta at) ds accs =
     map (\<lambda>a. case map_of ds (acc_code a) of None \<Rightarrow> a
              | Some x \<Rightarrow> a\<lparr>acc_balance_minor := acc_balance_minor a + x, acc_updated_at := Some at\<rparr>) accs"
  using assms
proof (induction ds arbitrary: accs)
  case Nil
  then show ?case by simp
next
  case (Cons x ds)
  obtain code delta where x: "x = (code, delta)" by (cases x)
  with Cons.prems have "map_of ds code = None" by (auto simp: map_of_eq_None_iff)
  with Cons show ?case
    by (auto simp: x apply_delta_def update_where_def map_idI split: option.splits)
qed

section \<open>The invariant\<close>

definition codes_of :: "ledger_do \<Rightarrow> string set" where
  "codes_of d = acc_code ` set (do_accounts d)"

definition posted_ids :: "ledger_do \<Rightarrow> string set" where
  "posted_ids d = px_tx_id ` set (do_posted d)"

definition derived_balance :: "journal_row list \<Rightarrow> account_row \<Rightarrow> int" where
  "derived_balance js a =
     (if isDebitNormal (acc_type a) then derived_net js (acc_code a) else - derived_net js (acc_code a))"

definition accounts_ok :: "ledger_do \<Rightarrow> bool" where
  "accounts_ok d \<longleftrightarrow> distinct (map acc_code (do_accounts d)) \<and>
     (\<forall>a \<in> set (do_accounts d). 0 \<le> acc_balance_minor a \<and> acc_balance_minor a = derived_balance (do_journal d) a)"

definition journal_ok :: "ledger_do \<Rightarrow> bool" where
  "journal_ok d \<longleftrightarrow>
     (\<forall>j \<in> set (do_journal d). je_tx_id j \<in> posted_ids d \<and> je_account_code j \<in> codes_of d \<and>
        (je_direction j = Debit \<or> je_direction j = Credit) \<and> 0 < je_amount_minor j) \<and>
     (\<forall>tx. sum_by je_debit (filter (\<lambda>j. je_tx_id j = tx) (do_journal d)) =
           sum_by je_credit (filter (\<lambda>j. je_tx_id j = tx) (do_journal d)))"

definition posted_ok :: "ledger_do \<Rightarrow> bool" where
  "posted_ok d \<longleftrightarrow> distinct (map px_tx_id (do_posted d))"

definition outbox_row_ok :: "ledger_do \<Rightarrow> outbox_row \<Rightarrow> bool" where
  "outbox_row_ok d r \<longleftrightarrow>
     pp_tx_id (ob_payload r) \<in> posted_ids d \<and>
     (\<exists>mid. ob_event_id r = event_id mid (pp_tx_id (ob_payload r))) \<and>
     filter (\<lambda>j. je_tx_id j = pp_tx_id (ob_payload r)) (do_journal d)
       = journal_of (ob_payload r) (ob_payload_posted_at r) \<and>
     ob_id r < do_outbox_seq d"

definition outbox_ok :: "ledger_do \<Rightarrow> bool" where
  "outbox_ok d \<longleftrightarrow>
     sorted_wrt (<) (map ob_id (do_outbox d)) \<and>
     distinct (map (\<lambda>r. pp_tx_id (ob_payload r)) (do_outbox d)) \<and>
     (\<forall>r \<in> set (do_outbox d). outbox_row_ok d r)"

definition chart_ok :: "ledger_do \<Rightarrow> bool" where
  "chart_ok d \<longleftrightarrow> do_accounts d = [] \<or>
     (map (\<lambda>a. (acc_code a, acc_type a)) (do_accounts d) =
        map (\<lambda>c. (chart_code c, chart_type c)) DEFAULT_CHART_OF_ACCOUNTS \<and>
      (\<exists>cur. \<forall>a \<in> set (do_accounts d). acc_currency a = cur))"

definition ledger_inv :: "ledger_do \<Rightarrow> bool" where
  "ledger_inv d \<longleftrightarrow> accounts_ok d \<and> journal_ok d \<and> posted_ok d \<and> outbox_ok d \<and> chart_ok d"

lemmas inv_defs = ledger_inv_def accounts_ok_def journal_ok_def posted_ok_def outbox_ok_def chart_ok_def

section \<open>Seeding the chart\<close>

lemma seed_account_code [simp]: "acc_code (seed_account cur c) = chart_code c"
  by (simp add: seed_account_def)

lemma seed_accounts_fold:
  assumes "distinct (map chart_code cs)" and "\<forall>c \<in> set cs. chart_code c \<notin> set (map acc_code accs)"
  shows "fold (\<lambda>a rs. insert_or_ignore acc_code (seed_account cur a) rs) cs accs = accs @ map (seed_account cur) cs"
  using assms
proof (induction cs arbitrary: accs)
  case (Cons c cs)
  then have "insert_or_ignore acc_code (seed_account cur c) accs = accs @ [seed_account cur c]"
    by (simp add: insert_or_ignore_def)
  moreover have "\<forall>x \<in> set cs. chart_code x \<notin> set (map acc_code (accs @ [seed_account cur c]))"
    using Cons.prems by (auto simp: image_iff)
  ultimately show ?case using Cons.prems Cons.IH [of "accs @ [seed_account cur c]"] by simp
qed simp

lemma seed_accounts_full:
  assumes "\<forall>c \<in> set cs. chart_code c \<in> set (map acc_code accs)"
  shows "fold (\<lambda>a rs. insert_or_ignore acc_code (seed_account cur a) rs) cs accs = accs"
  using assms by (induction cs) (auto simp: insert_or_ignore_def seed_account_def)

lemma chart_codes:
  assumes "map (\<lambda>a. (acc_code a, acc_type a)) accs = map (\<lambda>c. (chart_code c, chart_type c)) cs"
  shows "map acc_code accs = map chart_code cs"
  using arg_cong [OF assms, of "map fst"] by (simp add: comp_def)

lemma seed_accounts_cases:
  assumes "chart_ok d"
  shows "seed_accounts cur (do_accounts d) =
     (if do_accounts d = [] then map (seed_account cur) DEFAULT_CHART_OF_ACCOUNTS else do_accounts d)"
proof (cases "do_accounts d = []")
  case True
  with distinct_chart_codes show ?thesis
    by (simp add: seed_accounts_def seed_accounts_fold)
next
  case False
  with assms have "map acc_code (do_accounts d) = map chart_code DEFAULT_CHART_OF_ACCOUNTS"
    by (auto simp: chart_ok_def intro: chart_codes)
  then have "\<forall>c \<in> set DEFAULT_CHART_OF_ACCOUNTS. chart_code c \<in> set (map acc_code (do_accounts d))"
    by simp
  with False show ?thesis by (simp add: seed_accounts_def seed_accounts_full)
qed

lemma derived_net_absent: "code \<notin> je_account_code ` set js \<Longrightarrow> derived_net js code = 0"
  unfolding derived_net_def by (induction js) auto

lemma seedChart_inv:
  assumes "ledger_inv d"
  shows "ledger_inv (seedChart cur d)"
proof (cases "do_seededCurrency d = Some cur \<or> do_accounts d \<noteq> []")
  case True
  then show ?thesis
    using assms seed_accounts_cases [of d cur]
    by (auto simp: seedChart_def inv_defs posted_ids_def codes_of_def outbox_row_ok_def)
next
  case False
  then have e: "do_accounts d = []" "do_seededCurrency d \<noteq> Some cur" by auto
  then have j: "do_journal d = []"
    using assms by (cases "do_journal d") (auto simp: inv_defs codes_of_def)
  have s: "seedChart cur d = d\<lparr>do_accounts := map (seed_account cur) DEFAULT_CHART_OF_ACCOUNTS,
      do_seededCurrency := Some cur\<rparr>"
    using e assms seed_accounts_cases [of d cur] by (simp add: seedChart_def ledger_inv_def)
  have "acc_code \<circ> seed_account cur = chart_code"
    "(\<lambda>a. (acc_code a, acc_type a)) \<circ> seed_account cur = (\<lambda>c. (chart_code c, chart_type c))"
    by (auto simp: seed_account_def)
  with assms j distinct_chart_codes show ?thesis
    by (auto simp: s inv_defs posted_ids_def outbox_row_ok_def derived_balance_def derived_net_def seed_account_def)
qed

lemma seedChart_fields [simp]:
  "do_posted (seedChart cur d) = do_posted d" "do_journal (seedChart cur d) = do_journal d"
  "do_outbox (seedChart cur d) = do_outbox d" "do_outbox_seq (seedChart cur d) = do_outbox_seq d"
  "do_faults (seedChart cur d) = do_faults d" "do_name (seedChart cur d) = do_name d"
  "do_alarm (seedChart cur d) = do_alarm d" "do_merchantId (seedChart cur d) = do_merchantId d"
  by (simp_all add: seedChart_def)

section \<open>Committing a posting\<close>

lemma find_account_distinct:
  "distinct (map acc_code accs) \<Longrightarrow> a \<in> set accs \<Longrightarrow> find_account accs (acc_code a) = Some a"
  unfolding find_account_def by (rule find_unique)

lemma find_account_in: "find_account accs code = Some a \<Longrightarrow> a \<in> set accs \<and> acc_code a = code"
  unfolding find_account_def by (drule find_Some_iff)

definition entry_net :: "posting_entry \<Rightarrow> int" where
  "entry_net e = (if pe_direction e = Debit then js_int (pe_amount_minor e) else - js_int (pe_amount_minor e))"

lemma delta_of_net:
  "delta_of t e = (if isDebitNormal t then entry_net e else - entry_net e)"
  by (auto simp: delta_of_def entry_increases_def entry_net_def)

lemma delta_at_net:
  assumes "find_account accs code = Some a"
  shows "delta_at accs es code = (if isDebitNormal (acc_type a) then 1 else -1) *
           sum_by (\<lambda>e. if pe_account_code e = code then entry_net e else 0) es"
  using assms by (induction es) (auto simp: delta_at_def delta_of_net)

lemma derived_net_append: "derived_net (js @ ks) code = derived_net js code + derived_net ks code"
  by (simp add: derived_net_def)

lemma derived_net_journal_of:
  "derived_net (journal_of p at) code = sum_by (\<lambda>e. if pe_account_code e = code then entry_net e else 0) (pp_entries p)"
  unfolding derived_net_def journal_of_def sum_by_map
  by (rule sum_by_cong) (simp add: je_net_def entry_net_def)

lemma checkBalances_Inr:
  assumes "checkBalances es cur accs = Inr ds"
  shows "distinct (map fst ds)" and "fst ` set ds = pe_account_code ` set es"
    and "\<And>code. alist_at ds code = delta_at accs es code"
    and "\<And>e. e \<in> set es \<Longrightarrow> \<exists>a. find_account accs (pe_account_code e) = Some a \<and> acc_currency a = cur"
    and "\<And>code x. (code, x) \<in> set ds \<Longrightarrow> \<exists>a. find_account accs code = Some a \<and> 0 \<le> acc_balance_minor a + x"
proof -
  from assms have c: "collect_deltas accs cur es [] = Inr ds" and f: "check_funds accs ds = Inr ()"
    by (auto simp: checkBalances_def split: sum.splits)
  note cd = collect_deltas_Inr [OF c]
  from cd show "distinct (map fst ds)" and "fst ` set ds = pe_account_code ` set es"
    and "\<And>code. alist_at ds code = delta_at accs es code"
    and "\<And>e. e \<in> set es \<Longrightarrow> \<exists>a. find_account accs (pe_account_code e) = Some a \<and> acc_currency a = cur"
    by (auto simp: alist_at_def)
  show "\<And>code x. (code, x) \<in> set ds \<Longrightarrow> \<exists>a. find_account accs code = Some a \<and> 0 \<le> acc_balance_minor a + x"
    by (rule check_funds_Inr [OF f])
qed

lemma apply_deltas_balance:
  assumes "distinct (map fst ds)"
  shows "fold (apply_delta at) ds accs =
     map (\<lambda>a. a\<lparr>acc_balance_minor := acc_balance_minor a + alist_at ds (acc_code a),
                acc_updated_at := (if acc_code a \<in> fst ` set ds then Some at else acc_updated_at a)\<rparr>) accs"
  unfolding fold_apply_delta [OF assms]
  by (rule map_cong) (auto simp: alist_at_def map_of_eq_None_iff split: option.split dest: map_of_SomeD intro: rev_image_eqI)

lemma commit_accounts_ok:
  assumes inv: "accounts_ok d" and cb: "checkBalances (pp_entries p) (pp_currency p) (do_accounts d) = Inr ds"
    and a: "a \<in> set (fold (apply_delta at) ds (do_accounts d))"
  shows "0 \<le> acc_balance_minor a \<and> acc_balance_minor a = derived_balance (do_journal d @ journal_of p at) a"
proof -
  note C = checkBalances_Inr [OF cb]
  from a obtain b where b: "b \<in> set (do_accounts d)" and ab: "acc_code a = acc_code b" "acc_type a = acc_type b"
    "acc_balance_minor a = acc_balance_minor b + alist_at ds (acc_code b)"
    by (auto simp: apply_deltas_balance [OF C(1)])
  from inv b have b0: "0 \<le> acc_balance_minor b" and bd: "acc_balance_minor b = derived_balance (do_journal d) b"
    unfolding accounts_ok_def by blast+
  from inv b have fb: "find_account (do_accounts d) (acc_code b) = Some b"
    by (auto simp: accounts_ok_def intro: find_account_distinct)
  have nonneg: "0 \<le> acc_balance_minor a"
  proof (cases "map_of ds (acc_code b)")
    case None
    with b0 ab show ?thesis by (simp add: alist_at_def)
  next
    case (Some x)
    then have "(acc_code b, x) \<in> set ds" by (rule map_of_SomeD)
    from C(5) [OF this] fb ab Some show ?thesis by (simp add: alist_at_def)
  qed
  then show ?thesis
    using ab bd by (simp add: C(3) delta_at_net [OF fb] derived_balance_def derived_net_append derived_net_journal_of)
qed

lemma journal_of_filter:
  "filter (\<lambda>j. je_tx_id j = tx) (journal_of p at) = (if tx = pp_tx_id p then journal_of p at else [])"
  by (auto simp: journal_of_def filter_map comp_def)

lemma journal_of_sums:
  "sum_by je_debit (journal_of p at) = sum_by entry_debit (pp_entries p)"
  "sum_by je_credit (journal_of p at) = sum_by entry_credit (pp_entries p)"
  unfolding journal_of_def sum_by_map
  by (rule sum_by_cong, simp add: je_debit_def je_credit_def entry_debit_def entry_credit_def)+

lemma journal_of_in:
  "j \<in> set (journal_of p at) \<Longrightarrow> \<exists>e \<in> set (pp_entries p). je_tx_id j = pp_tx_id p \<and>
     je_account_code j = pe_account_code e \<and> je_direction j = pe_direction e \<and>
     je_amount_minor j = js_int (pe_amount_minor e)"
  by (auto simp: journal_of_def)

lemma event_id_inj: "event_id m x = event_id n y \<longleftrightarrow> m = n \<and> x = y"
proof
  assume "event_id m x = event_id n y"
  then have "int_str m @ CHR '':'' # (''posting:'' @ x) = int_str n @ CHR '':'' # (''posting:'' @ y)"
    by (simp add: event_id_def)
  from separator_inj [OF this] show "m = n \<and> x = y" by simp
qed simp

text \<open>No uniqueness constraint can fire on a transaction id the object has not posted.\<close>

lemma event_id_fresh:
  assumes "outbox_ok d" and "tx \<notin> posted_ids d"
  shows "event_id mid tx \<notin> set (map ob_event_id (do_outbox d))"
  using assms by (fastforce simp: outbox_ok_def outbox_row_ok_def event_id_inj)

lemma commit_posting_Some:
  assumes "outbox_ok d" and "pp_tx_id p \<notin> posted_ids d"
  shows "\<exists>d'. commit_posting mid p at ds d = Some d'"
  using assms event_id_fresh [OF assms] by (auto simp: commit_posting_def posted_ids_def)

lemma commit_fields:
  assumes "commit_posting mid p at ds d = Some d'"
  shows "do_accounts d' = fold (apply_delta at) ds (do_accounts d)"
    "do_journal d' = do_journal d @ journal_of p at"
    "do_outbox d' = do_outbox d @ [outbox_event (do_outbox_seq d) mid p at]"
    "do_outbox_seq d' = Suc (do_outbox_seq d)"
    "map px_tx_id (do_posted d') = map px_tx_id (do_posted d) @ [pp_tx_id p]"
    "posted_ids d' = insert (pp_tx_id p) (posted_ids d)"
    "pp_tx_id p \<notin> posted_ids d" "do_faults d' = do_faults d" "do_merchantId d' = do_merchantId d"
  using assms by (auto simp: commit_posting_def posted_ids_def split: if_splits)

lemma commit_journal_ok:
  assumes inv: "ledger_inv d" and shape: "validatePostingShape p = Inr ()"
    and cb: "checkBalances (pp_entries p) (pp_currency p) (do_accounts d) = Inr ds"
    and c: "commit_posting mid p at ds d = Some d'"
  shows "journal_ok d'"
proof -
  note F = commit_fields [OF c] and C = checkBalances_Inr [OF cb]
  have codes: "codes_of d' = codes_of d"
    by (simp add: codes_of_def F(1) apply_deltas_balance [OF C(1)] image_comp comp_def)
  have new: "je_tx_id j \<in> posted_ids d' \<and> je_account_code j \<in> codes_of d' \<and>
      (je_direction j = Debit \<or> je_direction j = Credit) \<and> 0 < je_amount_minor j"
    if "j \<in> set (journal_of p at)" for j
  proof -
    from journal_of_in [OF that] obtain e where e: "e \<in> set (pp_entries p)" "je_tx_id j = pp_tx_id p"
      "je_account_code j = pe_account_code e" "je_direction j = pe_direction e"
      "je_amount_minor j = js_int (pe_amount_minor e)" by blast
    from C(4) [OF e(1)] obtain a where "find_account (do_accounts d) (pe_account_code e) = Some a" by blast
    then have "pe_account_code e \<in> codes_of d" unfolding codes_of_def by (metis find_account_in image_eqI)
    with e shape show ?thesis by (auto simp: codes F validatePostingShape_ok entry_valid_def)
  qed
  have none: "filter (\<lambda>j. je_tx_id j = pp_tx_id p) (do_journal d) = []"
    using inv F(7) by (auto simp: inv_defs filter_empty_conv)
  show ?thesis
    unfolding journal_ok_def
  proof (intro conjI ballI allI)
    fix tx
    show "sum_by je_debit (filter (\<lambda>j. je_tx_id j = tx) (do_journal d')) =
          sum_by je_credit (filter (\<lambda>j. je_tx_id j = tx) (do_journal d'))"
      using inv shape none
      by (auto simp: F(2) journal_of_filter journal_of_sums validatePostingShape_ok inv_defs)
  qed (use inv new codes F in \<open>auto simp: inv_defs\<close>)
qed

lemma commit_outbox_ok:
  assumes inv: "ledger_inv d" and c: "commit_posting mid p at ds d = Some d'"
  shows "outbox_ok d'"
proof -
  note F = commit_fields [OF c]
  let ?r = "outbox_event (do_outbox_seq d) mid p at"
  have none: "filter (\<lambda>j. je_tx_id j = pp_tx_id p) (do_journal d) = []"
    using inv F(7) by (auto simp: inv_defs filter_empty_conv)
  have old: "outbox_row_ok d' r" if "r \<in> set (do_outbox d)" for r
    using inv that F(7) by (auto simp: inv_defs outbox_row_ok_def F journal_of_filter)
  have new: "outbox_row_ok d' ?r"
    using none by (auto simp: outbox_row_ok_def outbox_event_def F journal_of_filter)
  from inv have "sorted_wrt (<) (map ob_id (do_outbox d))"
    and "distinct (map (\<lambda>r. pp_tx_id (ob_payload r)) (do_outbox d))"
    and ids: "\<forall>r \<in> set (do_outbox d). ob_id r < do_outbox_seq d"
    and txs: "\<forall>r \<in> set (do_outbox d). pp_tx_id (ob_payload r) \<in> posted_ids d"
    by (auto simp: inv_defs outbox_row_ok_def)
  with old new F(7) show ?thesis
    by (auto simp: outbox_ok_def F(3) sorted_wrt_append outbox_event_def)
qed

lemma commit_inv:
  assumes inv: "ledger_inv d" and shape: "validatePostingShape p = Inr ()"
    and cb: "checkBalances (pp_entries p) (pp_currency p) (do_accounts d) = Inr ds"
    and c: "commit_posting mid p at ds d = Some d'"
  shows "ledger_inv d'"
proof -
  note F = commit_fields [OF c] and C = checkBalances_Inr [OF cb]
  have types: "map (\<lambda>a. (acc_code a, acc_type a)) (do_accounts d') = map (\<lambda>a. (acc_code a, acc_type a)) (do_accounts d)"
    by (simp add: F(1) apply_deltas_balance [OF C(1)])
  have codes: "map acc_code (do_accounts d') = map acc_code (do_accounts d)"
    by (simp add: F(1) apply_deltas_balance [OF C(1)])
  have ok: "accounts_ok d" using inv by (simp add: ledger_inv_def)
  then have "distinct (map acc_code (do_accounts d'))" by (simp only: codes accounts_ok_def)
  then have "accounts_ok d'"
    using commit_accounts_ok [OF ok cb, of _ at] unfolding accounts_ok_def F(1,2) by blast
  moreover have "posted_ok d'" using inv F(5,7) by (simp add: inv_defs posted_ids_def)
  moreover have "chart_ok d'"
  proof (cases "do_accounts d = []")
    case True
    then show ?thesis using codes by (simp add: chart_ok_def)
  next
    case False
    with inv obtain cur where "\<forall>a \<in> set (do_accounts d). acc_currency a = cur"
      and "map (\<lambda>a. (acc_code a, acc_type a)) (do_accounts d) =
        map (\<lambda>c. (chart_code c, chart_type c)) DEFAULT_CHART_OF_ACCOUNTS"
      by (auto simp: ledger_inv_def chart_ok_def)
    moreover from this(1) have "\<forall>a \<in> set (do_accounts d'). acc_currency a = cur"
      by (auto simp: F(1) apply_deltas_balance [OF C(1)])
    ultimately show ?thesis using types by (auto simp: chart_ok_def)
  qed
  ultimately show ?thesis
    using commit_journal_ok [OF assms] commit_outbox_ok [OF inv c] by (simp add: ledger_inv_def)
qed

section \<open>Every method keeps the invariant\<close>

text \<open>The invariant reads the storage only, so the in-memory fields and the alarm may change freely.\<close>

definition same_book :: "ledger_do \<Rightarrow> ledger_do \<Rightarrow> bool" where
  "same_book d d' \<longleftrightarrow> do_accounts d' = do_accounts d \<and> do_posted d' = do_posted d \<and>
     do_journal d' = do_journal d \<and> do_outbox_seq d' = do_outbox_seq d"

definition same_store :: "ledger_do \<Rightarrow> ledger_do \<Rightarrow> bool" where
  "same_store d d' \<longleftrightarrow> same_book d d' \<and> do_outbox d' = do_outbox d"

lemma same_book_refl [simp]: "same_book d d"
  by (simp add: same_book_def)

lemma same_store_refl [simp]: "same_store d d"
  by (simp add: same_store_def)

lemma same_book_trans: "same_book a b \<Longrightarrow> same_book b c \<Longrightarrow> same_book a c"
  by (simp add: same_book_def)

lemma same_store_trans: "same_store a b \<Longrightarrow> same_store b c \<Longrightarrow> same_store a c"
  by (auto simp: same_store_def intro: same_book_trans)

lemma same_store_book: "same_store d d' \<Longrightarrow> same_book d d'"
  by (simp add: same_store_def)

lemma same_book_parts:
  "same_book d d' \<Longrightarrow> accounts_ok d' = accounts_ok d \<and> journal_ok d' = journal_ok d \<and>
     posted_ok d' = posted_ok d \<and> chart_ok d' = chart_ok d \<and> outbox_row_ok d' = outbox_row_ok d"
  by (auto simp: same_book_def accounts_ok_def journal_ok_def posted_ok_def chart_ok_def
      outbox_row_ok_def posted_ids_def codes_of_def fun_eq_iff)

lemma same_store_inv: "same_store d d' \<Longrightarrow> ledger_inv d' = ledger_inv d"
  using same_book_parts [of d d'] by (auto simp: same_store_def ledger_inv_def outbox_ok_def)

text \<open>Outbox rows may be dropped and their delivery columns rewritten.\<close>

lemma outbox_rewrite_inv:
  assumes inv: "ledger_inv d" and book: "same_book d d'"
    and rows: "do_outbox d' = update_where q f (do_outbox d)"
    and f: "\<And>r. ob_id (f r) = ob_id r \<and> ob_event_id (f r) = ob_event_id r \<and>
        ob_payload (f r) = ob_payload r \<and> ob_payload_posted_at (f r) = ob_payload_posted_at r"
  shows "ledger_inv d'"
proof -
  have ids: "map ob_id (do_outbox d') = map ob_id (do_outbox d)"
    "map (\<lambda>r. pp_tx_id (ob_payload r)) (do_outbox d') = map (\<lambda>r. pp_tx_id (ob_payload r)) (do_outbox d)"
    using f by (simp_all add: rows map_update_where)
  have "outbox_row_ok d' r" if "r \<in> set (do_outbox d')" for r
    using that inv f same_book_parts [OF book]
    by (auto simp: rows set_update_where ledger_inv_def outbox_ok_def outbox_row_ok_def)
  with inv ids same_book_parts [OF book] show ?thesis by (simp add: ledger_inv_def outbox_ok_def)
qed

lemma outbox_filter_inv:
  assumes inv: "ledger_inv d" and book: "same_book d d'"
    and rows: "do_outbox d' = filter q (do_outbox d)"
  shows "ledger_inv d'"
proof -
  from inv have "sorted_wrt (<) (map ob_id (do_outbox d'))"
    by (auto simp: rows ledger_inv_def outbox_ok_def sorted_wrt_map intro: sorted_wrt_filter)
  moreover from inv have "distinct (map (\<lambda>r. pp_tx_id (ob_payload r)) (do_outbox d'))"
    by (auto simp: rows ledger_inv_def outbox_ok_def distinct_map_filter)
  ultimately show ?thesis
    using inv same_book_parts [OF book] by (auto simp: rows ledger_inv_def outbox_ok_def)
qed

lemma getMerchantId_store [simp]: "same_store d (snd (getMerchantId d))"
  by (auto simp: getMerchantId_def same_store_def same_book_def split: option.splits)

lemma getMerchantId_faults [simp]: "do_faults (snd (getMerchantId d)) = do_faults d"
  by (auto simp: getMerchantId_def split: option.splits)

lemma kickOutboxAlarm_store [simp]: "same_store d (kickOutboxAlarm now d)"
  by (auto simp: kickOutboxAlarm_def same_store_def same_book_def split: option.splits)

lemma construct_store [simp]: "same_store d (construct now d)"
  by (simp add: construct_def same_store_def same_book_def)

lemma scheduleNextAlarm_store [simp]: "same_store d (scheduleNextAlarm now d)"
  by (auto simp: scheduleNextAlarm_def same_store_def same_book_def Let_def split: option.splits)

lemma mark_event_synced_inv: "ledger_inv d \<Longrightarrow> ledger_inv (mark_event_synced ev at d)"
  by (rule outbox_rewrite_inv [where d = d and q = "\<lambda>x. ob_event_id x = ev"
        and f = "\<lambda>x. x\<lparr>ob_status := ObSynced, ob_synced_at := Some at\<rparr>"])
     (auto simp: mark_event_synced_def same_book_def)

lemma finish_posting_inv:
  assumes "ledger_inv d" and "finish_posting env now ok mid p (d, db) = (r, (d', db'))"
  shows "ledger_inv d'"
  using assms same_store_inv [OF kickOutboxAlarm_store, of now d]
  by (auto simp: finish_posting_def mark_event_synced_inv split: if_splits prod.splits)

lemma postInner_inv:
  assumes inv: "ledger_inv d" and run: "postInner env now ok p (d, db) = (r, (d', db'))"
  shows "ledger_inv d'"
proof -
  let ?s = "seedChart (pp_currency p) d"
  let ?m = "if pp_merchant_id p > 0 then ?s\<lparr>do_merchantId := Some (pp_merchant_id p)\<rparr> else ?s"
  let ?g = "snd (getMerchantId ?m)"
  let ?mid = "case fst (getMerchantId ?m) of None \<Rightarrow> pp_merchant_id p | Some i \<Rightarrow> i"
  have s: "ledger_inv ?s" using inv by (rule seedChart_inv)
  have "same_store ?s ?m" by (simp add: same_store_def same_book_def)
  then have g: "same_store ?s ?g" by (rule same_store_trans) simp
  then have gi: "ledger_inv ?g" using s same_store_inv by blast
  have f: "ledger_inv (?s\<lparr>do_faults := None\<rparr>)"
    using s same_store_inv [of ?s "?s\<lparr>do_faults := None\<rparr>"] by (simp add: same_store_def same_book_def)
  have acc: "do_accounts ?g = do_accounts ?s" using g by (simp add: same_store_def same_book_def)
  show ?thesis
  proof (cases "validatePostingShape p")
    case (Inl e)
    with run s show ?thesis by (auto simp: postInner_def Let_def split: prod.splits)
  next
    case shape: (Inr u)
    show ?thesis
    proof (cases "List.find (\<lambda>r. px_tx_id r = pp_tx_id p) (do_posted d)")
      case (Some x)
      with shape run s show ?thesis by (auto simp: postInner_def Let_def)
    next
      case None
      show ?thesis
      proof (cases "checkBalances (pp_entries p) (pp_currency p) (do_accounts ?s)")
        case (Inl e)
        with shape None run s show ?thesis by (auto simp: postInner_def Let_def split: prod.splits)
      next
        case cb: (Inr ds)
        show ?thesis
        proof (cases "commit_posting ?mid p now ds ?g")
          case c: None
          with shape None cb run f gi show ?thesis
            by (auto simp: postInner_def Let_def case_prod_beta split: if_splits)
        next
          case c: (Some d3)
          from cb acc have "checkBalances (pp_entries p) (pp_currency p) (do_accounts ?g) = Inr ds" by simp
          from commit_inv [OF gi _ this c] shape have "ledger_inv d3" by simp
          with shape None cb c run f show ?thesis
            by (auto simp: postInner_def Let_def case_prod_beta split: if_splits intro: finish_posting_inv)
        qed
      qed
    qed
  qed
qed

lemma postTransaction_inv:
  assumes "ledger_inv d"
  shows "ledger_inv (fst (snd (postTransaction env now ok p (d, db))))"
proof -
  obtain r d' db' where run: "postInner env now ok p (d, db) = (r, (d', db'))"
    by (metis prod.exhaust)
  from postInner_inv [OF assms run] show ?thesis
    by (cases r) (auto simp: postTransaction_def settle_def run split: do_error.splits)
qed

lemma fold_outbox_rewrite_inv:
  assumes "ledger_inv d"
    and step: "\<And>x rows. \<exists>q f. g x rows = update_where q f rows \<and>
      (\<forall>r. ob_id (f r) = ob_id r \<and> ob_event_id (f r) = ob_event_id r \<and>
        ob_payload (f r) = ob_payload r \<and> ob_payload_posted_at (f r) = ob_payload_posted_at r)"
  shows "ledger_inv (d\<lparr>do_outbox := fold g xs (do_outbox d)\<rparr>)"
  using assms(1)
proof (induction xs arbitrary: d)
  case Nil
  then show ?case using same_store_inv [of d "d\<lparr>do_outbox := do_outbox d\<rparr>"]
    by (simp add: same_store_def same_book_def)
next
  case (Cons x xs)
  let ?d = "d\<lparr>do_outbox := g x (do_outbox d)\<rparr>"
  from step [of x "do_outbox d"] obtain q f where qf: "g x (do_outbox d) = update_where q f (do_outbox d)"
    "\<forall>r. ob_id (f r) = ob_id r \<and> ob_event_id (f r) = ob_event_id r \<and>
        ob_payload (f r) = ob_payload r \<and> ob_payload_posted_at (f r) = ob_payload_posted_at r" by blast
  have "ledger_inv ?d"
    by (rule outbox_rewrite_inv [OF Cons.prems, of _ q f]) (use qf in \<open>auto simp: same_book_def\<close>)
  from Cons.IH [OF this] show ?case by simp
qed

lemma markOutboxRetry_inv: "ledger_inv d \<Longrightarrow> ledger_inv (markOutboxRetry now ids err d)"
  unfolding markOutboxRetry_def
proof (erule fold_outbox_rewrite_inv)
  fix x :: nat and rows :: "outbox_row list"
  let ?n = "(case List.find (\<lambda>r. ob_id r = x) rows of None \<Rightarrow> 0 | Some r \<Rightarrow> ob_retry_count r) + 1"
  show "\<exists>q f. mark_one_retry now err x rows = update_where q f rows \<and>
      (\<forall>r. ob_id (f r) = ob_id r \<and> ob_event_id (f r) = ob_event_id r \<and>
        ob_payload (f r) = ob_payload r \<and> ob_payload_posted_at (f r) = ob_payload_posted_at r)"
    by (rule exI [of _ "\<lambda>r. ob_id r = x"],
        rule exI [of _ "\<lambda>r. r\<lparr>ob_retry_count := ?n, ob_last_error := Some (take 500 err),
           ob_next_retry_at := Some (now + retry_backoff ?n)\<rparr>"])
       (simp add: mark_one_retry_def Let_def)
qed

lemma mark_synced_inv: "ledger_inv d \<Longrightarrow> ledger_inv (mark_synced at included d)"
  unfolding mark_synced_def
proof (erule fold_outbox_rewrite_inv)
  fix x :: outbox_row and rows
  show "\<exists>q f. update_where (\<lambda>r. ob_id r = ob_id x) (sync_row at) rows = update_where q f rows \<and>
      (\<forall>r. ob_id (f r) = ob_id r \<and> ob_event_id (f r) = ob_event_id r \<and>
        ob_payload (f r) = ob_payload r \<and> ob_payload_posted_at (f r) = ob_payload_posted_at r)"
    by (rule exI [of _ "\<lambda>r. ob_id r = ob_id x"], rule exI [of _ "sync_row at"]) (simp add: sync_row_def)
qed

lemma drain_merchant_store [simp]: "same_store d (snd (drain_merchant r d))"
proof -
  obtain m d' where g: "getMerchantId d = (m, d')" by (cases "getMerchantId d")
  have "same_store d d'" using getMerchantId_store [of d] by (simp add: g)
  moreover have "same_store d' (d'\<lparr>do_merchantId := x\<rparr>)" for x by (simp add: same_store_def same_book_def)
  ultimately show ?thesis
    by (cases m) (auto simp: drain_merchant_def g intro: same_store_trans)
qed

lemma faults_reset_inv: "ledger_inv (d\<lparr>do_faults := x\<rparr>) = ledger_inv d"
  by (rule same_store_inv) (simp add: same_store_def same_book_def)

lemma drainOutbox_inv:
  assumes "ledger_inv d"
  shows "ledger_inv (fst (snd (drainOutbox force now ok (d, db))))"
proof (cases "pending_batch force now d")
  case Nil
  with assms show ?thesis by (simp add: drainOutbox_def)
next
  case (Cons r rs)
  obtain m d' where dm: "drain_merchant r d = (m, d')" by (cases "drain_merchant r d")
  with drain_merchant_store [of d r] assms same_store_inv have "ledger_inv d'" by force
  then show ?thesis
    by (cases m) (simp_all add: drainOutbox_def Cons dm Let_def case_prod_beta markOutboxRetry_inv
        mark_synced_inv faults_reset_inv)
qed

lemma maybeCleanupOutbox_inv: "ledger_inv d \<Longrightarrow> ledger_inv (maybeCleanupOutbox now d)"
  unfolding maybeCleanupOutbox_def Let_def
  by (auto intro!: outbox_filter_inv [where d = d] simp: same_book_def split: option.splits)

lemma snapshot_store: "same_store d (fst (snd (snapshotBalances now ok (d, db))))"
proof -
  obtain m d' where g: "getMerchantId d = (m, d')" by (cases "getMerchantId d")
  with getMerchantId_store [of d] show ?thesis
    by (cases m) (auto simp: snapshotBalances_def)
qed

lemma snapshot_if_due_store: "same_store d (fst (snapshot_if_due now ok (d, db)))"
proof -
  obtain b d' db' where s: "snapshotBalances now ok (d, db) = (b, (d', db'))" by (metis prod.exhaust)
  have "same_store d d'" using snapshot_store [of d now ok db] by (simp add: s)
  moreover have "same_store d' (d'\<lparr>do_lastSnapshotAt := x\<rparr>)" for x by (simp add: same_store_def same_book_def)
  ultimately show ?thesis
    by (cases b) (auto simp: snapshot_if_due_def s intro: same_store_trans)
qed

lemma alarm_inv:
  assumes "ledger_inv d"
  shows "ledger_inv (fst (alarm now ok1 ok2 (d, db)))"
proof -
  have 1: "ledger_inv (fst (snd (drainOutbox False now ok1 (d, db))))" using assms by (rule drainOutbox_inv)
  obtain x d1 db1 where dr: "drainOutbox False now ok1 (d, db) = (x, (d1, db1))" by (metis prod.exhaust)
  obtain d2 db2 where sn: "snapshot_if_due now ok2 (d1, db1) = (d2, db2)" by (metis prod.exhaust)
  have "ledger_inv d2"
    using 1 snapshot_if_due_store [of d1 now ok2 db1] same_store_inv by (simp add: dr sn)
  then have "ledger_inv (maybeCleanupOutbox now d2)" by (rule maybeCleanupOutbox_inv)
  then show ?thesis
    using same_store_inv [OF scheduleNextAlarm_store] by (simp add: alarm_def dr sn)
qed

lemma alarm_field_store [simp]:
  "same_store d (d\<lparr>do_alarm := a\<rparr>)" "same_store d (d\<lparr>do_lastOutboxCleanupAt := t\<rparr>)"
  by (simp_all add: same_store_def same_book_def)

lemma fire_alarm_inv: "ledger_inv d \<Longrightarrow> ledger_inv (fst (fire_alarm now ok1 ok2 (d, db)))"
  using same_store_inv [OF alarm_field_store(1)] by (simp add: fire_alarm_def alarm_inv)

lemma testTriggerAlarm_inv:
  "ledger_inv d \<Longrightarrow> testTriggerAlarm env now ok1 ok2 (d, db) = Inr s \<Longrightarrow> ledger_inv (fst s)"
  using same_store_inv [OF alarm_field_store(2)] by (auto simp: testTriggerAlarm_def alarm_inv split: if_splits)

lemma testSetOutboxSynced_inv:
  "ledger_inv d \<Longrightarrow> testSetOutboxSynced env i at d = Inr d' \<Longrightarrow> ledger_inv d'"
  by (rule outbox_rewrite_inv [where d = d and q = "\<lambda>x. ob_id x = i"
        and f = "\<lambda>x. x\<lparr>ob_status := ObSynced, ob_synced_at := Some at\<rparr>"])
     (auto simp: testSetOutboxSynced_def same_book_def split: if_splits)

lemma ledger_inv_empty [simp]: "ledger_inv (empty_do name)"
  by (simp add: empty_do_def inv_defs)

end
