(* ===== verification/LedgerRuns.thy ===== *)
theory LedgerRuns
  imports LedgerInvariant
begin

text \<open>
  Runs of the ledger object: the outcome of \<open>postTransaction\<close> branch by branch, the calls that
  can reach the object in any order (postings, drains, alarms, snapshots, isolate restarts,
  injected faults, foreign D1 writes), the states they reach, and what holds in all of them.
  The at-most-once contract of a posting is a locale, interpreted on the object.
\<close>

section \<open>The branches of a posting\<close>

abbreviation outbox_enabled :: "ledger_env \<Rightarrow> bool" where
  "outbox_enabled env \<equiv> LEDGER_OUTBOX_ENABLED env \<noteq> Some ''false''"

abbreviation writes_fault :: "ledger_do \<Rightarrow> bool" where
  "writes_fault d \<equiv> (case do_faults d of None \<Rightarrow> False | Some f \<Rightarrow> fail_do_writes f)"

lemma find_posted_None: "List.find (\<lambda>r. px_tx_id r = tx) (do_posted d) = None \<longleftrightarrow> tx \<notin> posted_ids d"
  by (simp add: find_None_keys posted_ids_def)

lemma post_invalid:
  assumes "validatePostingShape p = Inl (c, m)"
  shows "postTransaction env now ok p (d, db) = (failed_result p now c m, (seedChart (pp_currency p) d, db))"
  using assms by (simp add: postTransaction_def settle_def postInner_def Let_def)

lemma post_duplicate:
  assumes "validatePostingShape p = Inr ()" and "List.find (\<lambda>r. px_tx_id r = pp_tx_id p) (do_posted d) = Some r"
  shows "postTransaction env now ok p (d, db) =
     (duplicate_result p (px_posted_at r), (seedChart (pp_currency p) d, db))"
  using assms by (simp add: postTransaction_def settle_def postInner_def Let_def)

lemma post_refused:
  assumes "validatePostingShape p = Inr ()" and "pp_tx_id p \<notin> posted_ids d"
    and "checkBalances (pp_entries p) (pp_currency p) (do_accounts (seedChart (pp_currency p) d)) = Inl (c, m)"
  shows "postTransaction env now ok p (d, db) = (failed_result p now c m, (seedChart (pp_currency p) d, db))"
  using assms by (simp add: postTransaction_def settle_def postInner_def Let_def find_posted_None [symmetric])

lemma post_fault:
  assumes "validatePostingShape p = Inr ()" and "pp_tx_id p \<notin> posted_ids d"
    and "checkBalances (pp_entries p) (pp_currency p) (do_accounts (seedChart (pp_currency p) d)) = Inr ds"
    and "writes_fault d"
  shows "postTransaction env now ok p (d, db) =
     (failed_result p now INTERNAL ''INJECTED:fail_do_writes'', ((seedChart (pp_currency p) d)\<lparr>do_faults := None\<rparr>, db))"
  using assms by (simp add: postTransaction_def settle_def postInner_def Let_def find_posted_None [symmetric])

lemma post_commit:
  assumes inv: "ledger_inv d"
    and "validatePostingShape p = Inr ()" and new: "pp_tx_id p \<notin> posted_ids d"
    and "checkBalances (pp_entries p) (pp_currency p) (do_accounts (seedChart (pp_currency p) d)) = Inr ds"
    and "\<not> writes_fault d"
  obtains mid g d3 where "same_store (seedChart (pp_currency p) d) g" and "commit_posting mid p now ds g = Some d3"
    and "\<And>env ok db. postTransaction env now ok p (d, db) =
       settle p now (finish_posting env now ok mid p (d3, db))"
proof -
  let ?s = "seedChart (pp_currency p) d"
  let ?m = "if pp_merchant_id p > 0 then ?s\<lparr>do_merchantId := Some (pp_merchant_id p)\<rparr> else ?s"
  let ?g = "snd (getMerchantId ?m)"
  let ?mid = "case fst (getMerchantId ?m) of None \<Rightarrow> pp_merchant_id p | Some i \<Rightarrow> i"
  have "same_store ?s ?m" by (simp add: same_store_def same_book_def)
  then have g: "same_store ?s ?g" by (rule same_store_trans) simp
  then have "ledger_inv ?g" using same_store_inv seedChart_inv [OF inv] by blast
  moreover have "pp_tx_id p \<notin> posted_ids ?g"
    using new g by (simp add: posted_ids_def same_store_def same_book_def)
  ultimately obtain d3 where c: "commit_posting ?mid p now ds ?g = Some d3"
    using commit_posting_Some by (metis ledger_inv_def)
  obtain m g' where m: "getMerchantId ?m = (m, g')" by (cases "getMerchantId ?m")
  have "postInner env now ok p (d, db) = finish_posting env now ok ?mid p (d3, db)" for env ok db
    using assms(2-) c m
    by (simp add: postInner_def Let_def find_posted_None [symmetric] split del: if_split)
  then show thesis by (intro that [OF g c]) (simp add: postTransaction_def)
qed

text \<open>
  The outcome of a posting: either it leaves the books alone, up to the lazily seeded chart, or
  it commits; a committed posting is reported \<open>failed\<close> only when the outbox is off and D1 fails.
\<close>

definition committed :: "posting_payload \<Rightarrow> iso \<Rightarrow> ledger_do \<Rightarrow> ledger_do \<Rightarrow> bool" where
  "committed p now d d' \<longleftrightarrow>
     validatePostingShape p = Inr () \<and> pp_tx_id p \<notin> posted_ids d \<and>
     (\<exists>ds. checkBalances (pp_entries p) (pp_currency p) (do_accounts (seedChart (pp_currency p) d)) = Inr ds \<and>
           do_accounts d' = fold (apply_delta now) ds (do_accounts (seedChart (pp_currency p) d))) \<and>
     do_journal d' = do_journal d @ journal_of p now \<and>
     do_posted d' = do_posted d @ [\<lparr>px_tx_id = pp_tx_id p, px_reference_type = pp_reference_type p,
            px_reference_id = pp_reference_id p, px_currency = pp_currency p,
            px_description = pp_description p, px_posted_at = now\<rparr>] \<and>
     (\<exists>r. do_outbox d' = do_outbox d @ [r] \<and> ob_payload r = p \<and> ob_payload_posted_at r = now)"

lemma mark_event_synced_fresh:
  assumes "commit_posting mid p at ds d = Some d'"
  shows "do_outbox (mark_event_synced (event_id mid (pp_tx_id p)) t d') =
     do_outbox d @ [(outbox_event (do_outbox_seq d) mid p at)\<lparr>ob_status := ObSynced, ob_synced_at := Some t\<rparr>]"
proof -
  from assms have "event_id mid (pp_tx_id p) \<notin> set (map ob_event_id (do_outbox d))"
    by (auto simp: commit_posting_def split: if_splits)
  then have "update_where (\<lambda>x. ob_event_id x = event_id mid (pp_tx_id p)) f (do_outbox d) = do_outbox d" for f
    by (intro update_where_id) (metis image_eqI list.set_map)
  then show ?thesis
    by (simp add: mark_event_synced_def commit_fields(3) [OF assms] outbox_event_def)
qed

lemma commit_committed:
  assumes "validatePostingShape p = Inr ()" and "pp_tx_id p \<notin> posted_ids d"
    and "checkBalances (pp_entries p) (pp_currency p) (do_accounts (seedChart (pp_currency p) d)) = Inr ds"
    and g: "same_store (seedChart (pp_currency p) d) g" and c: "commit_posting mid p now ds g = Some d3"
    and d4: "same_book d3 d4" "\<exists>r. do_outbox d4 = do_outbox g @ [r] \<and> ob_payload r = p \<and> ob_payload_posted_at r = now"
  shows "committed p now d d4"
proof -
  have "do_posted d3 = do_posted g @ [\<lparr>px_tx_id = pp_tx_id p, px_reference_type = pp_reference_type p,
            px_reference_id = pp_reference_id p, px_currency = pp_currency p,
            px_description = pp_description p, px_posted_at = now\<rparr>]"
    using c by (auto simp: commit_posting_def split: if_splits)
  moreover have "do_accounts g = do_accounts (seedChart (pp_currency p) d)" "do_posted g = do_posted d"
    "do_journal g = do_journal d" "do_outbox g = do_outbox d"
    using g by (simp_all add: same_store_def same_book_def)
  ultimately show ?thesis
    using assms(1-3) d4 commit_fields(1,2) [OF c] by (simp add: committed_def same_book_def)
qed

lemma post_outcome:
  assumes inv: "ledger_inv d" and run: "postTransaction env now ok p (d, db) = (r, (d', db'))"
  shows "res_tx_id r = pp_tx_id p" and
    "(res_status r \<noteq> Posted \<and> same_store (seedChart (pp_currency p) d) d' \<and> db' = db) \<or>
     (committed p now d d' \<and> (res_status r = Posted \<or> \<not> outbox_enabled env \<and> \<not> ok \<and> res_status r = Failed))"
proof -
  let ?s = "seedChart (pp_currency p) d"
  note results = failed_result_def duplicate_result_def posted_result_def
  have "res_tx_id r = pp_tx_id p \<and>
    ((res_status r \<noteq> Posted \<and> same_store ?s d' \<and> db' = db) \<or>
     (committed p now d d' \<and> (res_status r = Posted \<or> \<not> outbox_enabled env \<and> \<not> ok \<and> res_status r = Failed)))"
  proof (cases "validatePostingShape p")
    case (Inl e)
    with post_invalid [of p "fst e" "snd e" env now ok d db] run show ?thesis by (simp add: results)
  next
    case shape: (Inr u)
    show ?thesis
    proof (cases "List.find (\<lambda>r. px_tx_id r = pp_tx_id p) (do_posted d)")
      case (Some x)
      with shape post_duplicate [of p d x env now ok db] run show ?thesis by (simp add: results)
    next
      case None
      then have new: "pp_tx_id p \<notin> posted_ids d" using find_posted_None by blast
      show ?thesis
      proof (cases "checkBalances (pp_entries p) (pp_currency p) (do_accounts ?s)")
        case (Inl e)
        with shape new post_refused [of p d "fst e" "snd e" env now ok db] run show ?thesis
          by (simp add: results)
      next
        case cb: (Inr ds)
        show ?thesis
        proof (cases "writes_fault d")
          case True
          with shape new cb post_fault [of p d ds env now ok db] run show ?thesis
            by (auto simp: results same_store_def same_book_def)
        next
          case False
          from shape have sh: "validatePostingShape p = Inr ()" by simp
          obtain mid g d3 where g: "same_store ?s g" and c: "commit_posting mid p now ds g = Some d3"
            and eq: "\<And>env ok db. postTransaction env now ok p (d, db) =
               settle p now (finish_posting env now ok mid p (d3, db))"
            using post_commit [where now = now, OF inv sh new cb False] by metis
          have "committed p now d d3" by (rule commit_committed [OF sh new cb g c]) (auto simp: commit_fields(3) [OF c] outbox_event_def)
          moreover have "committed p now d (kickOutboxAlarm now d3)"
            by (rule commit_committed [OF sh new cb g c])
               (use kickOutboxAlarm_store [of d3 now] in \<open>auto simp: same_store_def commit_fields(3) [OF c] outbox_event_def\<close>)
          moreover have "committed p now d (mark_event_synced (event_id mid (pp_tx_id p)) now d3)"
            by (rule commit_committed [OF sh new cb g c])
               (use mark_event_synced_fresh [OF c, of now] in \<open>auto simp: mark_event_synced_def same_book_def outbox_event_def\<close>)
          ultimately show ?thesis
            using run eq [of env ok db] by (auto simp: finish_posting_def settle_def results split: if_splits prod.splits)
        qed
      qed
    qed
  qed
  then show "res_tx_id r = pp_tx_id p" and
    "(res_status r \<noteq> Posted \<and> same_store ?s d' \<and> db' = db) \<or>
     (committed p now d d' \<and> (res_status r = Posted \<or> \<not> outbox_enabled env \<and> \<not> ok \<and> res_status r = Failed))"
    by blast+
qed

section \<open>Calls and reachable states\<close>

text \<open>
  What can happen to an object between two states: a call of one of its methods, its alarm, the
  eviction and reload of its isolate, an injected fault, or a write to D1 by somebody else.
\<close>

datatype do_call =
    CPost ledger_env time_ms bool posting_payload
  | CDrain bool time_ms bool
  | CAlarm time_ms bool bool
  | CSnapshot time_ms bool
  | CRestart time_ms
  | CInject ledger_env fault_flags
  | CTestSynced ledger_env nat iso
  | CTestAlarm ledger_env time_ms
  | CTestTrigger ledger_env time_ms bool bool
  | CForeign d1

fun do_exec :: "do_call \<Rightarrow> ledger_do \<times> d1 \<Rightarrow> posting_result option \<times> (ledger_do \<times> d1)" where
  "do_exec (CPost env now ok p) s = (let (r, s') = postTransaction env now ok p s in (Some r, s'))"
| "do_exec (CDrain force now ok) s = (None, snd (drainOutbox force now ok s))"
| "do_exec (CAlarm now ok1 ok2) s = (None, fire_alarm now ok1 ok2 s)"
| "do_exec (CSnapshot now ok) s = (None, snd (snapshotBalances now ok s))"
| "do_exec (CRestart now) (d, db) = (None, (construct now d, db))"
| "do_exec (CInject env f) (d, db) =
     (None, (case testInjectFault env f d of Inl _ \<Rightarrow> d | Inr d' \<Rightarrow> d', db))"
| "do_exec (CTestSynced env i at) (d, db) =
     (None, (case testSetOutboxSynced env i at d of Inl _ \<Rightarrow> d | Inr d' \<Rightarrow> d', db))"
| "do_exec (CTestAlarm env t) (d, db) =
     (None, (case testSetAlarm env t d of Inl _ \<Rightarrow> d | Inr d' \<Rightarrow> d', db))"
| "do_exec (CTestTrigger env now ok1 ok2) s =
     (None, (case testTriggerAlarm env now ok1 ok2 s of Inl _ \<Rightarrow> s | Inr s' \<Rightarrow> s'))"
| "do_exec (CForeign db') (d, db) = (None, (d, db'))"

fun run_calls :: "('c \<Rightarrow> 's \<Rightarrow> 'r \<times> 's) \<Rightarrow> 'c list \<Rightarrow> 's \<Rightarrow> 'r list \<times> 's" where
  "run_calls f [] s = ([], s)"
| "run_calls f (c # cs) s =
     (let (r, s') = f c s; (rs, s'') = run_calls f cs s' in (r # rs, s''))"

inductive do_reachable :: "string \<Rightarrow> ledger_do \<times> d1 \<Rightarrow> bool" for name where
  created: "do_reachable name (construct now (empty_do name), db)"
| call: "do_reachable name s \<Longrightarrow> do_reachable name (snd (do_exec c s))"

inductive_cases do_reachableE: "do_reachable name s"

lemma do_reachable_run: "do_reachable name s \<Longrightarrow> do_reachable name (snd (run_calls do_exec cs s))"
  by (induction cs arbitrary: s)
     (simp_all add: Let_def case_prod_beta do_reachable.call del: split_paired_All)

lemma do_exec_inv: "ledger_inv (fst s) \<Longrightarrow> ledger_inv (fst (snd (do_exec c s)))"
proof (cases s; cases c)
  fix d db env now ok p
  assume "ledger_inv (fst s)" "s = (d, db)" "c = CPost env now ok p"
  then show ?thesis using postTransaction_inv [of d env now ok p db] by (simp add: case_prod_beta)
next
  fix d db env f
  assume "ledger_inv (fst s)" "s = (d, db)" "c = CInject env f"
  then show ?thesis by (auto simp: testInjectFault_def faults_reset_inv)
next
  fix d db env t
  assume "ledger_inv (fst s)" "s = (d, db)" "c = CTestAlarm env t"
  then show ?thesis using same_store_inv [OF alarm_field_store(1)] by (auto simp: testSetAlarm_def)
next
  fix d db env i at
  assume "ledger_inv (fst s)" "s = (d, db)" "c = CTestSynced env i at"
  then show ?thesis using testSetOutboxSynced_inv by (auto split: sum.splits)
next
  fix d db env now ok1 ok2
  assume "ledger_inv (fst s)" "s = (d, db)" "c = CTestTrigger env now ok1 ok2"
  then show ?thesis using testTriggerAlarm_inv by (auto split: sum.splits)
qed (auto simp: drainOutbox_inv fire_alarm_inv same_store_inv [OF construct_store] same_store_inv [OF snapshot_store])

theorem reachable_inv: "do_reachable name s \<Longrightarrow> ledger_inv (fst s)"
  by (induction rule: do_reachable.induct) (auto intro: do_exec_inv simp: same_store_inv [OF construct_store])

section \<open>The at-most-once contract\<close>

text \<open>
  A service that accepts keyed requests: \<open>accepted\<close> is the key a response newly accepts, \<open>ids\<close> the
  keys accepted so far, \<open>effect\<close> what the state records under a key.
\<close>

locale at_most_once =
  fixes exec :: "'c \<Rightarrow> 's \<Rightarrow> 'r \<times> 's"
    and inv :: "'s \<Rightarrow> bool"
    and ids :: "'s \<Rightarrow> 'k set"
    and accepted :: "'r \<Rightarrow> 'k option"
  assumes inv_exec: "inv s \<Longrightarrow> inv (snd (exec c s))"
    and ids_grow: "inv s \<Longrightarrow> ids s \<subseteq> ids (snd (exec c s))"
    and accepted_new: "inv s \<Longrightarrow> accepted (fst (exec c s)) = Some k \<Longrightarrow> k \<notin> ids s \<and> k \<in> ids (snd (exec c s))"
begin

lemma inv_run: "inv s \<Longrightarrow> inv (snd (run_calls exec cs s))"
  by (induction cs arbitrary: s) (auto simp: Let_def case_prod_beta inv_exec)

lemma ids_run: "inv s \<Longrightarrow> ids s \<subseteq> ids (snd (run_calls exec cs s))"
proof (induction cs arbitrary: s)
  case (Cons c cs)
  from Cons.IH [OF inv_exec [OF Cons.prems, of c]] ids_grow [OF Cons.prems, of c] show ?case
    by (auto simp: Let_def case_prod_beta)
qed simp

lemma accepted_at_most_once:
  assumes "inv s"
  shows "length (filter (\<lambda>r. accepted r = Some k) (fst (run_calls exec cs s))) \<le> (if k \<in> ids s then 0 else 1)"
  using assms
proof (induction cs arbitrary: s)
  case (Cons c cs)
  let ?s = "snd (exec c s)"
  note IH = Cons.IH [OF inv_exec [OF Cons.prems, of c]]
  show ?case
  proof (cases "accepted (fst (exec c s)) = Some k")
    case True
    from accepted_new [OF Cons.prems this] IH True show ?thesis by (auto simp: Let_def case_prod_beta)
  next
    case False
    with IH ids_grow [OF Cons.prems, of c] show ?thesis
      by (auto simp: Let_def case_prod_beta split: if_splits)
  qed
qed simp

end

locale immutable_effects = at_most_once exec inv ids accepted
  for exec :: "'c \<Rightarrow> 's \<Rightarrow> 'r \<times> 's" and inv :: "'s \<Rightarrow> bool" and ids :: "'s \<Rightarrow> 'k set"
    and accepted :: "'r \<Rightarrow> 'k option" +
  fixes effect :: "'k \<Rightarrow> 's \<Rightarrow> 'e"
  assumes effect_exec: "inv s \<Longrightarrow> k \<in> ids s \<Longrightarrow> effect k (snd (exec c s)) = effect k s"
begin

lemma effect_run: "inv s \<Longrightarrow> k \<in> ids s \<Longrightarrow> effect k (snd (run_calls exec cs s)) = effect k s"
proof (induction cs arbitrary: s)
  case (Cons c cs)
  from Cons.IH [OF inv_exec [OF Cons.prems(1), of c]] Cons.prems ids_grow [OF Cons.prems(1), of c]
  show ?case by (auto simp: Let_def case_prod_beta effect_exec)
qed simp

end

section \<open>The ledger object keeps the contract\<close>

lemma same_book_simps [simp]:
  "same_book d (markOutboxRetry now is err d') = same_book d d'"
  "same_book d (mark_synced at rs d') = same_book d d'"
  "same_book d (maybeCleanupOutbox now d') = same_book d d'"
  "same_book d (d'\<lparr>do_faults := f\<rparr>) = same_book d d'"
  "same_book d (d'\<lparr>do_alarm := a\<rparr>) = same_book d d'"
  "same_book (d\<lparr>do_alarm := a\<rparr>) d' = same_book d d'"
  by (auto simp: same_book_def markOutboxRetry_def mark_synced_def maybeCleanupOutbox_def Let_def)

lemma drainOutbox_book: "same_book d (fst (snd (drainOutbox force now ok (d, db))))"
proof (cases "pending_batch force now d")
  case Nil
  then show ?thesis by (simp add: drainOutbox_def)
next
  case (Cons r rs)
  obtain m d' where dm: "drain_merchant r d = (m, d')" by (cases "drain_merchant r d")
  with drain_merchant_store [of d r] have "same_book d d'" by (simp add: same_store_def)
  then show ?thesis by (cases m) (simp_all add: drainOutbox_def Cons dm Let_def case_prod_beta)
qed

lemma alarm_book: "same_book d (fst (alarm now ok1 ok2 (d, db)))"
proof -
  obtain x d1 db1 where dr: "drainOutbox False now ok1 (d, db) = (x, (d1, db1))" by (metis prod.exhaust)
  obtain d2 db2 where sn: "snapshot_if_due now ok2 (d1, db1) = (d2, db2)" by (metis prod.exhaust)
  have "same_book d d1" using drainOutbox_book [of d False now ok1 db] by (simp add: dr)
  moreover have "same_book d1 d2"
    using snapshot_if_due_store [of d1 now ok2 db1] by (simp add: sn same_store_def)
  moreover have "same_book d2 (scheduleNextAlarm now (maybeCleanupOutbox now d2))"
    using scheduleNextAlarm_store [of "maybeCleanupOutbox now d2" now] same_store_book same_book_trans
    by (metis same_book_refl same_book_simps(3))
  ultimately show ?thesis
    using same_book_trans by (auto simp: alarm_def dr sn)
qed

lemma fire_alarm_book: "same_book d (fst (fire_alarm now ok1 ok2 (d, db)))"
  using alarm_book [of "d\<lparr>do_alarm := None\<rparr>" now ok1 ok2 db] by (simp add: fire_alarm_def)

lemma test_hooks_book:
  "testTriggerAlarm env now ok1 ok2 (d, db) = Inr s \<Longrightarrow> same_book d (fst s)"
  "testSetOutboxSynced env i at d = Inr d' \<Longrightarrow> same_book d d'"
  "testSetAlarm env t d = Inr d' \<Longrightarrow> same_book d d'"
  using alarm_book [of "d\<lparr>do_lastOutboxCleanupAt := None\<rparr>" now ok1 ok2 db]
  by (auto simp: testTriggerAlarm_def testSetOutboxSynced_def testSetAlarm_def same_book_def split: if_splits)

lemma do_exec_book:
  assumes "\<And>env now ok p. c \<noteq> CPost env now ok p"
  shows "same_book (fst s) (fst (snd (do_exec c s)))" and "fst (do_exec c s) = None"
proof -
  obtain d db where s: "s = (d, db)" by (cases s)
  have "same_book (fst s) (fst (snd (do_exec c s))) \<and> fst (do_exec c s) = None"
    using assms
    by (cases c) (auto simp: s drainOutbox_book fire_alarm_book same_store_book [OF snapshot_store]
        same_store_book [OF construct_store] testInjectFault_def test_hooks_book split: sum.split)
  then show "same_book (fst s) (fst (snd (do_exec c s)))" and "fst (do_exec c s) = None" by blast+
qed

definition accepted_tx :: "posting_result option \<Rightarrow> string option" where
  "accepted_tx r = (case r of
     Some x \<Rightarrow> if res_status x = Posted then Some (res_tx_id x) else None | None \<Rightarrow> None)"

definition recorded :: "string \<Rightarrow> ledger_do \<times> d1 \<Rightarrow> journal_row list \<times> (bool \<times> iso option)" where
  "recorded tx s = (filter (\<lambda>j. je_tx_id j = tx) (do_journal (fst s)), getTransactionStatus tx (fst s))"

lemma status_posted: "fst (getTransactionStatus tx d) \<longleftrightarrow> tx \<in> posted_ids d"
  by (auto simp: getTransactionStatus_def posted_ids_def Let_def filter_empty_conv)

lemma book_recorded:
  "same_book (fst s) (fst s') \<Longrightarrow> recorded tx s' = recorded tx s \<and> posted_ids (fst s') = posted_ids (fst s)"
  by (simp add: same_book_def recorded_def posted_ids_def getTransactionStatus_def)

lemma committed_recorded:
  assumes "committed p now (fst s) (fst s')"
  shows "posted_ids (fst s') = insert (pp_tx_id p) (posted_ids (fst s))"
    and "tx \<noteq> pp_tx_id p \<Longrightarrow> recorded tx s' = recorded tx s"
  using assms by (auto simp: committed_def posted_ids_def recorded_def getTransactionStatus_def journal_of_filter)

lemma do_exec_effects:
  assumes inv: "ledger_inv (fst s)" and ex: "do_exec c s = (r, s')"
  shows "posted_ids (fst s) \<subseteq> posted_ids (fst s')"
    and "accepted_tx r = Some k \<Longrightarrow> k \<notin> posted_ids (fst s) \<and> k \<in> posted_ids (fst s')"
    and "k \<in> posted_ids (fst s) \<Longrightarrow> recorded k s' = recorded k s"
proof -
  have "posted_ids (fst s) \<subseteq> posted_ids (fst s') \<and>
    (accepted_tx r = Some k \<longrightarrow> k \<notin> posted_ids (fst s) \<and> k \<in> posted_ids (fst s')) \<and>
    (k \<in> posted_ids (fst s) \<longrightarrow> recorded k s' = recorded k s)"
  proof (cases "\<exists>env now ok p. c = CPost env now ok p")
    case False
    with do_exec_book [of c s] ex book_recorded [of s s'] show ?thesis by (auto simp: accepted_tx_def)
  next
    case True
    then obtain env now ok p where c: "c = CPost env now ok p" by blast
    obtain x where x: "r = Some x" "postTransaction env now ok p (fst s, snd s) = (x, (fst s', snd s'))"
      using ex by (auto simp: c case_prod_beta)
    note out = post_outcome [OF inv x(2)]
    from out(2) show ?thesis
    proof
      assume no: "res_status x \<noteq> Posted \<and> same_store (seedChart (pp_currency p) (fst s)) (fst s') \<and> snd s' = snd s"
      then have "do_posted (fst s') = do_posted (fst s)" "do_journal (fst s') = do_journal (fst s)"
        by (simp_all add: same_store_def same_book_def)
      with no x show ?thesis by (simp add: accepted_tx_def recorded_def posted_ids_def getTransactionStatus_def)
    next
      assume "committed p now (fst s) (fst s') \<and>
        (res_status x = Posted \<or> \<not> outbox_enabled env \<and> \<not> ok \<and> res_status x = Failed)"
      then have co: "committed p now (fst s) (fst s')" ..
      then have "pp_tx_id p \<notin> posted_ids (fst s)" by (simp add: committed_def)
      then have "k \<in> posted_ids (fst s) \<Longrightarrow> recorded k s' = recorded k s"
        using committed_recorded(2) [OF co, of k] by auto
      with \<open>pp_tx_id p \<notin> posted_ids (fst s)\<close> show ?thesis
        using committed_recorded(1) [OF co] out(1) x(1) by (auto simp: accepted_tx_def split: if_splits)
    qed
  qed
  then show "posted_ids (fst s) \<subseteq> posted_ids (fst s')"
    and "accepted_tx r = Some k \<Longrightarrow> k \<notin> posted_ids (fst s) \<and> k \<in> posted_ids (fst s')"
    and "k \<in> posted_ids (fst s) \<Longrightarrow> recorded k s' = recorded k s" by blast+
qed

interpretation lo: immutable_effects do_exec "\<lambda>s. ledger_inv (fst s)" "\<lambda>s. posted_ids (fst s)"
  accepted_tx recorded
proof
  fix s :: "ledger_do \<times> d1" and c k
  assume inv: "ledger_inv (fst s)"
  obtain r s' where ex: "do_exec c s = (r, s')" by (cases "do_exec c s")
  note E = do_exec_effects [OF inv ex]
  show "ledger_inv (fst (snd (do_exec c s)))" using inv by (rule do_exec_inv)
  show "posted_ids (fst s) \<subseteq> posted_ids (fst (snd (do_exec c s)))" using E(1) ex by simp
  show "k \<notin> posted_ids (fst s) \<and> k \<in> posted_ids (fst (snd (do_exec c s)))"
    if "accepted_tx (fst (do_exec c s)) = Some k" using that E(2) ex by simp
  show "recorded k (snd (do_exec c s)) = recorded k s" if "k \<in> posted_ids (fst s)" using that E(3) ex by simp
qed

section \<open>Every posted transaction has its legs\<close>

definition legs_of :: "string \<Rightarrow> ledger_do \<Rightarrow> journal_row list" where
  "legs_of tx d = filter (\<lambda>j. je_tx_id j = tx) (do_journal d)"

definition posted_legs :: "ledger_do \<Rightarrow> bool" where
  "posted_legs d \<longleftrightarrow> (\<forall>tx \<in> posted_ids d. 2 \<le> length (legs_of tx d))"

lemma do_exec_legs:
  assumes inv: "ledger_inv (fst s)" and legs: "posted_legs (fst s)"
  shows "posted_legs (fst (snd (do_exec c s)))"
proof (cases "\<exists>env now ok p. c = CPost env now ok p")
  case True
  then obtain env now dok p where c: "c = CPost env now dok p" by blast
  obtain r d' db' where run: "postTransaction env now dok p (fst s, snd s) = (r, (d', db'))" by (metis prod.exhaust)
  have "posted_legs d'"
    using post_outcome(2) [OF inv run]
  proof
    assume "res_status r \<noteq> Posted \<and> same_store (seedChart (pp_currency p) (fst s)) d' \<and> db' = snd s"
    with legs show ?thesis by (simp add: same_store_def same_book_def posted_legs_def posted_ids_def legs_of_def)
  next
    assume "committed p now (fst s) d' \<and> (res_status r = Posted \<or> \<not> outbox_enabled env \<and> \<not> dok \<and> res_status r = Failed)"
    then have co: "committed p now (fst s) d'" ..
    then have "2 \<le> length (journal_of p now)" by (simp add: committed_def validatePostingShape_ok journal_of_def)
    with co legs show ?thesis
      by (auto simp: committed_def posted_legs_def posted_ids_def legs_of_def journal_of_filter)
  qed
  with run show ?thesis by (simp add: c)
next
  case False
  then have "same_book (fst s) (fst (snd (do_exec c s)))" using do_exec_book(1) [of c s] by auto
  with legs show ?thesis by (simp add: same_book_def posted_legs_def posted_ids_def legs_of_def)
qed

lemma reachable_legs: "do_reachable name s \<Longrightarrow> posted_legs (fst s)"
proof (induction rule: do_reachable.induct)
  case (created now db)
  then show ?case by (simp add: posted_legs_def posted_ids_def construct_def empty_do_def)
next
  case (call s c)
  then show ?case using do_exec_legs [of s c] reachable_inv [of name s] by blast
qed

lemma posted_accounts:
  assumes "ledger_inv d" and "posted_legs d" and "tx \<in> posted_ids d"
  shows "do_accounts d \<noteq> []"
proof -
  from assms(2,3) have "legs_of tx d \<noteq> []" by (auto simp: posted_legs_def)
  then obtain j where "j \<in> set (do_journal d)" by (auto simp: legs_of_def filter_empty_conv)
  with assms(1) have "codes_of d \<noteq> {}" by (auto simp: ledger_inv_def journal_ok_def)
  then show ?thesis by (auto simp: codes_of_def)
qed

lemma find_filter: "List.find q xs = Some x \<Longrightarrow> \<exists>ys. filter q xs = x # ys"
  by (induction xs) (auto split: if_splits)

lemma status_find:
  "List.find (\<lambda>r. px_tx_id r = tx) (do_posted d) = Some x \<Longrightarrow> getTransactionStatus tx d = (True, Some (px_posted_at x))"
  by (drule find_filter) (auto simp: getTransactionStatus_def)

lemma seedChart_seeded:
  "ledger_inv d \<Longrightarrow> do_accounts d \<noteq> [] \<Longrightarrow> same_store d (seedChart cur d)"
  using seed_accounts_cases [of d cur]
  by (auto simp: seedChart_def same_store_def same_book_def ledger_inv_def)

end
