(* ===== verification/LedgerSpec.thy ===== *)
theory LedgerSpec
  imports LedgerRuns
begin

text \<open>
  What the ledger object promises, as a book: the currency it is pinned to, the transactions it
  has accepted and a balance per account code.  \<open>spec_post\<close> says in one equation what a posting
  does to the book; \<open>post_refines\<close> shows that \<open>postTransaction\<close> implements it.
\<close>

section \<open>The abstract book\<close>

record book =
  bk_currency :: "string option"
  bk_posted :: "string set"
  bk_balance :: "string \<Rightarrow> int"

definition chart_type_of :: "string \<Rightarrow> account_type option" where
  "chart_type_of code = map_of (map (\<lambda>c. (chart_code c, chart_type c)) DEFAULT_CHART_OF_ACCOUNTS) code"

text \<open>A debit raises a debit-normal account and lowers a credit-normal one; a credit the reverse.\<close>

definition signed_amount :: "account_type \<Rightarrow> posting_entry \<Rightarrow> int" where
  "signed_amount t e =
     (if (pe_direction e = Debit) = isDebitNormal t then js_int (pe_amount_minor e) else - js_int (pe_amount_minor e))"

definition posting_effect :: "posting_entry list \<Rightarrow> string \<Rightarrow> int" where
  "posting_effect es code =
     (case chart_type_of code of
        None \<Rightarrow> 0
      | Some t \<Rightarrow> sum_by (signed_amount t) (filter (\<lambda>e. pe_account_code e = code) es))"

definition well_formed_posting :: "posting_payload \<Rightarrow> bool" where
  "well_formed_posting p \<longleftrightarrow>
     pp_tx_id p \<noteq> [] \<and> 2 \<le> length (pp_entries p) \<and> (\<forall>e \<in> set (pp_entries p). entry_valid e) \<and>
     sum_by entry_debit (pp_entries p) = sum_by entry_credit (pp_entries p)"

definition spec_post :: "posting_payload \<Rightarrow> book \<Rightarrow> posting_status \<times> book" where
  "spec_post p b0 =
     (let b = b0\<lparr>bk_currency := Some (case bk_currency b0 of None \<Rightarrow> pp_currency p | Some c \<Rightarrow> c)\<rparr> in
      if \<not> well_formed_posting p then (Failed, b)
      else if pp_tx_id p \<in> bk_posted b then (Duplicate, b)
      else if (\<forall>e \<in> set (pp_entries p). chart_type_of (pe_account_code e) \<noteq> None \<and>
                 0 \<le> bk_balance b (pe_account_code e) + posting_effect (pp_entries p) (pe_account_code e))
              \<and> bk_currency b = Some (pp_currency p)
      then (Posted, b\<lparr>bk_posted := insert (pp_tx_id p) (bk_posted b),
                      bk_balance := (\<lambda>code. bk_balance b code + posting_effect (pp_entries p) code)\<rparr>)
      else (Failed, b))"

definition balance_of :: "ledger_do \<Rightarrow> string \<Rightarrow> int" where
  "balance_of d code = (case find_account (do_accounts d) code of None \<Rightarrow> 0 | Some a \<Rightarrow> acc_balance_minor a)"

definition book_currency :: "ledger_do \<Rightarrow> string option" where
  "book_currency d = (case do_accounts d of [] \<Rightarrow> None | a # _ \<Rightarrow> Some (acc_currency a))"

definition book_of :: "ledger_do \<Rightarrow> book" where
  "book_of d = \<lparr>bk_currency = book_currency d, bk_posted = posted_ids d, bk_balance = balance_of d\<rparr>"

section \<open>Account look-up in a seeded chart\<close>

lemma find_pairs:
  "map (\<lambda>a. (k a, t a)) xs = map (\<lambda>c. (k' c, t' c)) ys \<Longrightarrow>
     map_of (map (\<lambda>c. (k' c, t' c)) ys) x = map_option t (List.find (\<lambda>a. k a = x) xs)"
  by (induction xs arbitrary: ys) auto

lemma seeded_find_type:
  assumes "chart_ok d" and "do_accounts d \<noteq> []"
  shows "chart_type_of code = map_option acc_type (find_account (do_accounts d) code)"
  using assms find_pairs [of acc_code acc_type "do_accounts d" chart_code chart_type DEFAULT_CHART_OF_ACCOUNTS code]
  by (simp add: chart_ok_def chart_type_of_def find_account_def)

lemma seeded_currency:
  assumes "chart_ok d" and "a \<in> set (do_accounts d)"
  shows "book_currency d = Some (acc_currency a)"
  using assms by (cases "do_accounts d") (auto simp: chart_ok_def book_currency_def)

section \<open>The chart is there once a currency has been seeded\<close>

definition seeded_ok :: "ledger_do \<Rightarrow> bool" where
  "seeded_ok d \<longleftrightarrow> do_seededCurrency d = None \<or> do_accounts d \<noteq> []"

lemma seededCurrency_simps [simp]:
  "do_seededCurrency (snd (getMerchantId d)) = do_seededCurrency d"
  "do_seededCurrency (markOutboxRetry now is err d) = do_seededCurrency d"
  "do_seededCurrency (mark_synced at rs d) = do_seededCurrency d"
  "do_seededCurrency (maybeCleanupOutbox now d) = do_seededCurrency d"
  "do_seededCurrency (scheduleNextAlarm now d) = do_seededCurrency d"
  by (auto simp: getMerchantId_def markOutboxRetry_def mark_synced_def maybeCleanupOutbox_def
      scheduleNextAlarm_def Let_def split: option.splits)

lemma seededCurrency_drain_merchant [simp]:
  "do_seededCurrency (snd (drain_merchant r d)) = do_seededCurrency d"
proof -
  obtain m d' where g: "getMerchantId d = (m, d')" by (cases "getMerchantId d")
  then have "do_seededCurrency d' = do_seededCurrency d" using seededCurrency_simps(1) [of d] by simp
  then show ?thesis by (cases m) (simp_all add: drain_merchant_def g)
qed

lemma seededCurrency_drain [simp]:
  "do_seededCurrency (fst (snd (drainOutbox force now ok (d, db)))) = do_seededCurrency d"
proof (cases "pending_batch force now d")
  case (Cons r rs)
  obtain m d' where dm: "drain_merchant r d = (m, d')" by (cases "drain_merchant r d")
  then have "do_seededCurrency d' = do_seededCurrency d" using seededCurrency_drain_merchant [of r d] by simp
  then show ?thesis by (cases m) (simp_all add: drainOutbox_def Cons dm Let_def case_prod_beta)
qed (simp add: drainOutbox_def)

lemma seededCurrency_snapshot [simp]:
  "do_seededCurrency (fst (snd (snapshotBalances now ok (d, db)))) = do_seededCurrency d"
proof -
  obtain m d' where g: "getMerchantId d = (m, d')" by (cases "getMerchantId d")
  then have "do_seededCurrency d' = do_seededCurrency d" using seededCurrency_simps(1) [of d] by simp
  then show ?thesis by (cases m) (simp_all add: snapshotBalances_def g)
qed

lemma seededCurrency_alarm [simp]:
  "do_seededCurrency (fst (alarm now ok1 ok2 (d, db))) = do_seededCurrency d"
proof -
  obtain x d1 db1 where dr: "drainOutbox False now ok1 (d, db) = (x, (d1, db1))" by (metis prod.exhaust)
  obtain b d2 db2 where sn: "snapshotBalances now ok2 (d1, db1) = (b, (d2, db2))" by (metis prod.exhaust)
  have "do_seededCurrency d1 = do_seededCurrency d" using seededCurrency_drain [of False now ok1 d db] by (simp add: dr)
  moreover have "do_seededCurrency d2 = do_seededCurrency d1" using seededCurrency_snapshot [of now ok2 d1 db1] by (simp add: sn)
  ultimately show ?thesis by (cases b) (simp_all add: alarm_def dr snapshot_if_due_def sn)
qed

lemma seed_not_empty: "chart_ok d \<Longrightarrow> seeded_ok d \<Longrightarrow> do_accounts (seedChart cur d) \<noteq> []"
  using seed_accounts_cases [of d cur] by (auto simp: seedChart_def chart_not_Nil seeded_ok_def)

lemma committed_accounts_length:
  "committed p now d d' \<Longrightarrow> length (do_accounts d') = length (do_accounts (seedChart (pp_currency p) d))"
  by (auto simp: committed_def apply_deltas_balance [OF checkBalances_Inr(1)])

lemma do_exec_seeded:
  assumes inv: "ledger_inv (fst s)" and ok: "seeded_ok (fst s)"
  shows "seeded_ok (fst (snd (do_exec c s)))"
proof (cases "\<exists>env now ok p. c = CPost env now ok p")
  case True
  then obtain env now dok p where c: "c = CPost env now dok p" by blast
  obtain r d' db' where run: "postTransaction env now dok p (fst s, snd s) = (r, (d', db'))" by (metis prod.exhaust)
  have ne: "do_accounts (seedChart (pp_currency p) (fst s)) \<noteq> []"
    using inv ok by (simp add: seed_not_empty ledger_inv_def)
  from post_outcome(2) [OF inv run] have "length (do_accounts d') = length (do_accounts (seedChart (pp_currency p) (fst s)))"
    by (auto simp: same_store_def same_book_def dest: committed_accounts_length)
  with ne run show ?thesis by (auto simp: c seeded_ok_def)
next
  case False
  then have "do_accounts (fst (snd (do_exec c s))) = do_accounts (fst s)"
    using do_exec_book(1) [of c s] by (auto simp: same_book_def)
  moreover have "do_seededCurrency (fst (snd (do_exec c s))) \<in> {None, do_seededCurrency (fst s)}"
    using False by (cases s; cases c) (auto simp: construct_def testInjectFault_def fire_alarm_def testTriggerAlarm_def
        testSetOutboxSynced_def testSetAlarm_def)
  ultimately show ?thesis using ok by (auto simp: seeded_ok_def)
qed

lemma reachable_seeded: "do_reachable name s \<Longrightarrow> seeded_ok (fst s)"
  by (induction rule: do_reachable.induct)
     (auto simp: seeded_ok_def construct_def do_exec_seeded [unfolded seeded_ok_def] reachable_inv)

section \<open>The balance check, as a condition on the book\<close>

lemma collect_deltas_total:
  "(\<forall>e \<in> set es. \<exists>a. find_account accs (pe_account_code e) = Some a \<and> acc_currency a = cur) \<Longrightarrow>
     \<exists>ds'. collect_deltas accs cur es ds = Inr ds'"
  by (induction es arbitrary: ds) auto

lemma check_funds_total:
  "(\<forall>(code, x) \<in> set ds. \<exists>a. find_account accs code = Some a \<and> 0 \<le> acc_balance_minor a + x) \<Longrightarrow>
     check_funds accs ds = Inr ()"
  by (induction ds) auto

lemma alist_at_mem: "distinct (map fst ds) \<Longrightarrow> (code, x) \<in> set ds \<Longrightarrow> alist_at ds code = x"
  by (simp add: alist_at_def)

lemma checkBalances_iff:
  "(\<exists>ds. checkBalances es cur accs = Inr ds) \<longleftrightarrow>
     (\<forall>e \<in> set es. \<exists>a. find_account accs (pe_account_code e) = Some a \<and> acc_currency a = cur \<and>
        0 \<le> acc_balance_minor a + delta_at accs es (pe_account_code e))"
proof
  assume "\<exists>ds. checkBalances es cur accs = Inr ds"
  then obtain ds where cb: "checkBalances es cur accs = Inr ds" ..
  note C = checkBalances_Inr [OF cb]
  show "\<forall>e \<in> set es. \<exists>a. find_account accs (pe_account_code e) = Some a \<and> acc_currency a = cur \<and>
        0 \<le> acc_balance_minor a + delta_at accs es (pe_account_code e)"
  proof
    fix e assume e: "e \<in> set es"
    with C(2) obtain x where x: "(pe_account_code e, x) \<in> set ds" by (metis (no_types, lifting) imageE imageI prod.collapse)
    then have "delta_at accs es (pe_account_code e) = x" using C(1,3) alist_at_mem by metis
    with C(4) [OF e] C(5) [OF x] show "\<exists>a. find_account accs (pe_account_code e) = Some a \<and> acc_currency a = cur \<and>
        0 \<le> acc_balance_minor a + delta_at accs es (pe_account_code e)" by auto
  qed
next
  assume all: "\<forall>e \<in> set es. \<exists>a. find_account accs (pe_account_code e) = Some a \<and> acc_currency a = cur \<and>
        0 \<le> acc_balance_minor a + delta_at accs es (pe_account_code e)"
  then obtain ds where ds: "collect_deltas accs cur es [] = Inr ds"
    using collect_deltas_total [of es accs cur "[]"] by blast
  note D = collect_deltas_Inr [OF ds]
  have "check_funds accs ds = Inr ()"
  proof (rule check_funds_total, clarify)
    fix code x assume m: "(code, x) \<in> set ds"
    then have "x = delta_at accs es code" using D alist_at_mem [of ds code x] by (simp add: alist_at_def [of "[]"])
    moreover have "code \<in> pe_account_code ` set es" using D m by force
    ultimately show "\<exists>a. find_account accs code = Some a \<and> 0 \<le> acc_balance_minor a + x" using all by blast
  qed
  then show "\<exists>ds. checkBalances es cur accs = Inr ds" by (simp add: checkBalances_def ds)
qed

lemma delta_signed: "entry_valid e \<Longrightarrow> delta_of t e = signed_amount t e"
  by (auto simp: delta_of_def signed_amount_def entry_increases_def entry_valid_def)

lemma delta_at_effect:
  assumes "chart_ok d" and "do_accounts d \<noteq> []" and "\<forall>e \<in> set es. entry_valid e"
  shows "delta_at (do_accounts d) es code = posting_effect es code"
proof (cases "find_account (do_accounts d) code")
  case None
  have "delta_at (do_accounts d) es code = 0" by (induction es) (simp_all add: delta_at_def None)
  then show ?thesis by (simp add: posting_effect_def seeded_find_type [OF assms(1,2)] None)
next
  case (Some a)
  from assms(3) have "delta_at (do_accounts d) es code =
      sum_by (signed_amount (acc_type a)) (filter (\<lambda>e. pe_account_code e = code) es)"
    by (induction es) (auto simp: delta_at_def Some delta_signed)
  then show ?thesis by (simp add: posting_effect_def seeded_find_type [OF assms(1,2)] Some)
qed

lemma find_map_upd:
  "(\<And>a. acc_code (f a) = acc_code a) \<Longrightarrow> find_account (map f accs) code = map_option f (find_account accs code)"
  unfolding find_account_def by (induction accs) auto

lemma book_seed:
  assumes "ledger_inv d" and "seeded_ok d"
  shows "book_of (seedChart cur d) =
     (book_of d)\<lparr>bk_currency := Some (case bk_currency (book_of d) of None \<Rightarrow> cur | Some c \<Rightarrow> c)\<rparr>"
proof (cases "do_accounts d")
  case Nil
  then have "do_accounts (seedChart cur d) = map (seed_account cur) DEFAULT_CHART_OF_ACCOUNTS"
    using assms seed_accounts_cases [of d cur] by (auto simp: seedChart_def seeded_ok_def ledger_inv_def)
  moreover have "(case find_account (map (seed_account cur) cs) code of None \<Rightarrow> 0 | Some a \<Rightarrow> acc_balance_minor a) = 0" for cs code
    unfolding find_account_def by (induction cs) (auto simp: seed_account_def)
  moreover have "book_currency (seedChart cur d) = Some cur"
    using calculation(1) by (simp add: book_currency_def DEFAULT_CHART_OF_ACCOUNTS_def seed_account_def)
  ultimately show ?thesis
    by (auto simp: book_of_def Nil balance_of_def book_currency_def find_account_def posted_ids_def)
next
  case (Cons a as)
  then have "do_accounts (seedChart cur d) = do_accounts d"
    using assms seed_accounts_cases [of d cur] by (auto simp: seedChart_def ledger_inv_def)
  then show ?thesis by (simp add: book_of_def Cons balance_of_def book_currency_def posted_ids_def fun_eq_iff)
qed

lemma book_same_store: "same_store d d' \<Longrightarrow> book_of d' = book_of d"
  by (simp add: same_store_def same_book_def book_of_def book_currency_def balance_of_def posted_ids_def fun_eq_iff)

lemma book_committed:
  assumes co: "committed p now d d'" and inv: "ledger_inv d" and ok: "seeded_ok d"
  shows "book_of d' = (let b = book_of (seedChart (pp_currency p) d) in
     b\<lparr>bk_posted := insert (pp_tx_id p) (bk_posted b),
       bk_balance := (\<lambda>code. bk_balance b code + posting_effect (pp_entries p) code)\<rparr>)"
proof -
  let ?s = "seedChart (pp_currency p) d"
  from co obtain ds where cb: "checkBalances (pp_entries p) (pp_currency p) (do_accounts ?s) = Inr ds"
    and acc: "do_accounts d' = fold (apply_delta now) ds (do_accounts ?s)"
    by (auto simp: committed_def)
  note C = checkBalances_Inr [OF cb]
  have ch: "chart_ok ?s" "do_accounts ?s \<noteq> []"
    using seedChart_inv [OF inv] seed_not_empty [OF _ ok] inv by (auto simp: ledger_inv_def)
  have valid: "\<forall>e \<in> set (pp_entries p). entry_valid e"
    using co by (simp add: committed_def validatePostingShape_ok)
  have eff: "alist_at ds code = posting_effect (pp_entries p) code" for code
    using C(3) [of code] delta_at_effect [OF ch valid, of code] by simp
  have absent: "find_account (do_accounts ?s) code = None \<Longrightarrow> posting_effect (pp_entries p) code = 0" for code
    by (simp add: posting_effect_def seeded_find_type [OF ch])
  have "balance_of d' code = balance_of ?s code + posting_effect (pp_entries p) code" for code
    using absent [of code] find_account_in [of "do_accounts ?s" code]
    by (cases "find_account (do_accounts ?s) code")
       (auto simp: balance_of_def acc apply_deltas_balance [OF C(1)] find_map_upd eff)
  moreover have "book_currency d' = book_currency ?s"
    by (cases "do_accounts ?s") (simp_all add: book_currency_def acc apply_deltas_balance [OF C(1)])
  moreover have "posted_ids d' = insert (pp_tx_id p) (posted_ids ?s)"
    using co by (auto simp: committed_def posted_ids_def)
  ultimately show ?thesis by (simp add: book_of_def Let_def fun_eq_iff)
qed

section \<open>Refinement\<close>

lemma post_status_posted:
  assumes "ledger_inv d" and "validatePostingShape p = Inr ()" and "pp_tx_id p \<notin> posted_ids d"
    and "checkBalances (pp_entries p) (pp_currency p) (do_accounts (seedChart (pp_currency p) d)) = Inr ds"
    and "\<not> writes_fault d" and "outbox_enabled env"
  shows "res_status (fst (postTransaction env now ok p (d, db))) = Posted"
  by (rule post_commit [where now = now, OF assms(1-5)])
     (use assms(6) in \<open>simp add: settle_def finish_posting_def posted_result_def\<close>)

lemma spec_condition:
  assumes inv: "ledger_inv d" and ok: "seeded_ok d" and wf: "well_formed_posting p"
  shows "(\<exists>ds. checkBalances (pp_entries p) (pp_currency p) (do_accounts (seedChart (pp_currency p) d)) = Inr ds) \<longleftrightarrow>
    (let b = book_of (seedChart (pp_currency p) d) in
     (\<forall>e \<in> set (pp_entries p). chart_type_of (pe_account_code e) \<noteq> None \<and>
        0 \<le> bk_balance b (pe_account_code e) + posting_effect (pp_entries p) (pe_account_code e))
     \<and> bk_currency b = Some (pp_currency p))"
proof -
  let ?s = "seedChart (pp_currency p) d"
  have ch: "chart_ok ?s" "do_accounts ?s \<noteq> []"
    using seedChart_inv [OF inv] seed_not_empty [OF _ ok] inv by (auto simp: ledger_inv_def)
  have valid: "\<forall>e \<in> set (pp_entries p). entry_valid e" and some: "pp_entries p \<noteq> []"
    using wf by (auto simp: well_formed_posting_def)
  have cur: "find_account (do_accounts ?s) code = Some a \<Longrightarrow> book_currency ?s = Some (acc_currency a)" for code a
    using seeded_currency [OF ch(1)] find_account_in by metis
  obtain e0 where e0: "e0 \<in> set (pp_entries p)" using some by (cases "pp_entries p") auto
  show ?thesis
    unfolding checkBalances_iff delta_at_effect [OF ch valid]
    using e0 by (fastforce simp: Let_def book_of_def seeded_find_type [OF ch] balance_of_def dest: cur)
qed

lemma well_formed_iff: "validatePostingShape p = Inr () \<longleftrightarrow> well_formed_posting p"
  by (simp add: validatePostingShape_ok well_formed_posting_def)

lemma post_refines_inv:
  assumes inv: "ledger_inv d" and ok: "seeded_ok d" and env: "outbox_enabled env" and nf: "\<not> writes_fault d"
    and run: "postTransaction env now dok p (d, db) = (r, (d', db'))"
  shows "(res_status r, book_of d') = spec_post p (book_of d)"
proof -
  let ?s = "seedChart (pp_currency p) d"
  note seed = book_seed [OF inv ok, of "pp_currency p", symmetric]
  have posted: "bk_posted (book_of ?s) = posted_ids d" by (simp add: book_of_def posted_ids_def)
  consider c m where "validatePostingShape p = Inl (c, m)"
    | x where "validatePostingShape p = Inr ()" "List.find (\<lambda>r. px_tx_id r = pp_tx_id p) (do_posted d) = Some x"
    | "validatePostingShape p = Inr ()" "pp_tx_id p \<notin> posted_ids d"
    using find_posted_None [of "pp_tx_id p" d]
    by (cases "validatePostingShape p"; cases "List.find (\<lambda>r. px_tx_id r = pp_tx_id p) (do_posted d)") auto
  then show ?thesis
  proof cases
    case 1
    then have "\<not> well_formed_posting p" using well_formed_iff [of p] by simp
    with 1 post_invalid [of p c m env now dok d db] run show ?thesis
      by (simp add: spec_post_def seed failed_result_def Let_def)
  next
    case 2
    then have "pp_tx_id p \<in> posted_ids d" using find_posted_None [of "pp_tx_id p" d] by auto
    with 2 post_duplicate [of p d x env now dok db] run show ?thesis
      by (simp add: spec_post_def seed posted duplicate_result_def Let_def well_formed_iff)
  next
    case 3
    note cond = spec_condition [OF inv ok, of p, unfolded Let_def] and wf = 3(1) [unfolded well_formed_iff]
    show ?thesis
    proof (cases "checkBalances (pp_entries p) (pp_currency p) (do_accounts ?s)")
      case (Inl e)
      then have "\<not> (\<exists>ds. checkBalances (pp_entries p) (pp_currency p) (do_accounts ?s) = Inr ds)" by simp
      with Inl 3 post_refused [of p d "fst e" "snd e" env now dok db] run cond [OF wf] wf show ?thesis
        by (auto simp: spec_post_def seed posted failed_result_def Let_def)
    next
      case (Inr ds)
      have st: "res_status r = Posted" using post_status_posted [OF inv 3 Inr nf env, of now dok db] run by simp
      then have co: "committed p now d d'" using post_outcome(2) [OF inv run] by auto
      from Inr st 3 cond [OF wf] wf show ?thesis
        by (auto simp: spec_post_def seed posted Let_def book_committed [OF co inv ok])
    qed
  qed
qed

end
