(* ===== verification/LedgerCorrect.thy ===== *)
theory LedgerCorrect
  imports LedgerSpec
begin

text \<open>
  The properties of the ledger object that the rest of the system relies on: the trial balance
  of every reachable state, the functional effect of a posting and of each refusal, at-most-once
  posting and immutable records over any run, the single currency of a book, and the bounds
  that keep the sums of the shape check inside JavaScript's safe integers.
\<close>

section \<open>A run to evaluate\<close>

definition demo_entry :: "string \<Rightarrow> direction \<Rightarrow> int \<Rightarrow> posting_entry" where
  "demo_entry code dir amt = \<lparr>pe_account_code = code, pe_d1_account_id = 1, pe_direction = dir,
     pe_amount = int_str amt, pe_amount_minor = JInt amt\<rparr>"

definition demo_payload :: "string \<Rightarrow> string \<Rightarrow> int \<Rightarrow> posting_payload" where
  "demo_payload tx cur amt = \<lparr>pp_tx_id = tx, pp_merchant_id = 7, pp_reference_type = RPayment,
     pp_reference_id = Some ''PAY1'', pp_description = ''Payment'', pp_currency = cur,
     pp_entries = [demo_entry ''1010'' Debit amt, demo_entry ''4000'' Credit amt]\<rparr>"

definition demo_env :: ledger_env where
  "demo_env = \<lparr>LEDGER_OUTBOX_ENABLED = None, ENVIRONMENT = ''staging''\<rparr>"

definition demo_start :: "ledger_do \<times> d1" where
  "demo_start = (construct 0 (empty_do ''merchant-7''), empty_d1)"

definition demo_state :: "ledger_do \<times> d1" where
  "demo_state = snd (do_exec (CPost demo_env 1000 True (demo_payload ''t1'' ''BDT'' 500)) demo_start)"

lemma demo_start_reachable: "do_reachable ''merchant-7'' demo_start"
  by (simp add: demo_start_def do_reachable.created)

lemma demo_reachable: "do_reachable ''merchant-7'' demo_state"
  using demo_start_reachable by (simp only: demo_state_def do_reachable.call)

lemma demo_posted: "map px_tx_id (do_posted (fst demo_state)) = [''t1''] \<and> length (do_outbox (fst demo_state)) = 1
   \<and> length (do_journal (fst demo_state)) = 2"
  by code_simp

section \<open>The trial balance\<close>

lemma sum_by_partition: "sum_by f xs = sum_by f (filter q xs) + sum_by f (filter (\<lambda>x. \<not> q x) xs)"
  by (induction xs) auto

lemma sum_by_groups:
  assumes "\<And>k. sum_by f (filter (\<lambda>x. key x = k) xs) = sum_by g (filter (\<lambda>x. key x = k) xs)"
  shows "sum_by f xs = sum_by g xs"
  using assms
proof (induction xs rule: length_induct)
  case (1 xs)
  show ?case
  proof (cases xs)
    case (Cons y ys)
    let ?r = "filter (\<lambda>x. key x \<noteq> key y) xs"
    have "filter (\<lambda>x. key x = k) ?r = (if k = key y then [] else filter (\<lambda>x. key x = k) xs)" for k
      by (auto simp: filter_empty_conv intro: filter_cong)
    then have "sum_by f (filter (\<lambda>x. key x = k) ?r) = sum_by g (filter (\<lambda>x. key x = k) ?r)" for k
      using "1.prems" by simp
    moreover have "length ?r < length xs" by (simp add: Cons le_imp_less_Suc)
    ultimately have "sum_by f ?r = sum_by g ?r" using "1.IH" by blast
    with "1.prems" show ?thesis
      using sum_by_partition [of f xs "\<lambda>x. key x = key y"] sum_by_partition [of g xs "\<lambda>x. key x = key y"] by simp
  qed simp
qed

lemma inv_trial_balance:
  assumes "ledger_inv d"
  shows "tb_balanced (trialBalance d)"
    and "tb_total_debit_minor (trialBalance d) = tb_total_credit_minor (trialBalance d)"
    and "\<forall>a \<in> set (tb_accounts (trialBalance d)). 0 \<le> ta_balance_minor a"
proof -
  have sums: "sum_by je_debit (do_journal d) = sum_by je_credit (do_journal d)"
    by (rule sum_by_groups [of _ je_tx_id]) (use assms in \<open>simp add: ledger_inv_def journal_ok_def\<close>)
  have "\<forall>a \<in> set (do_accounts d). 0 \<le> acc_balance_minor a"
    and der: "\<forall>a \<in> set (do_accounts d). acc_balance_minor a = derived_balance (do_journal d) a"
    using assms unfolding ledger_inv_def accounts_ok_def by blast+
  then show "\<forall>a \<in> set (tb_accounts (trialBalance d)). 0 \<le> ta_balance_minor a"
    by (simp add: trialBalance_def Let_def)
  show "tb_total_debit_minor (trialBalance d) = tb_total_credit_minor (trialBalance d)"
    using sums by (simp add: trialBalance_def Let_def)
  show "tb_balanced (trialBalance d)"
    using sums der by (simp add: trialBalance_def Let_def derived_balance_def)
qed

text \<open>C1: in every state the object can reach, by any interleaving of postings, drains, alarms,
  snapshots, restarts, injected faults and foreign D1 writes, \<open>trialBalance\<close> reports balanced
  books (each stored balance is the one the journal derives, total debits are total credits) and
  no account is negative.\<close>

theorem trial_balance_always_balanced:
  assumes "do_reachable name (d, db)"
  shows "tb_balanced (trialBalance d) \<and>
         tb_total_debit_minor (trialBalance d) = tb_total_credit_minor (trialBalance d) \<and>
         (\<forall>a \<in> set (tb_accounts (trialBalance d)). 0 \<le> ta_balance_minor a)"
  using inv_trial_balance [of d] reachable_inv [OF assms] by simp

theorem trial_balance_always_balanced_witness:
  "do_reachable ''merchant-7'' (fst demo_state, snd demo_state) \<and> do_journal (fst demo_state) \<noteq> [] \<and>
   tb_balanced (trialBalance (fst demo_state))"
  using trial_balance_always_balanced [of "''merchant-7''" "fst demo_state" "snd demo_state"]
    demo_reachable demo_posted by auto

section \<open>Postings\<close>

text \<open>C2: refinement.  In every reachable state, with the outbox on and no injected write fault,
  \<open>postTransaction\<close> answers and changes the book exactly as the specification \<open>spec_post\<close> says:
  it posts if and only if the payload is well formed, new, in the book's currency, on known
  accounts and leaves every touched account non-negative; D1 is not touched.\<close>

theorem post_refines:
  assumes "do_reachable name (d, db)" and "outbox_enabled env" and "\<not> writes_fault d"
    and "postTransaction env now dok p (d, db) = (r, (d', db'))"
  shows "(res_status r, book_of d') = spec_post p (book_of d) \<and> res_tx_id r = pp_tx_id p"
  using post_refines_inv [OF _ _ assms(2-4)] post_outcome(1) [OF _ assms(4)]
    reachable_inv [OF assms(1)] reachable_seeded [OF assms(1)] by simp

theorem post_refines_witness:
  "(case postTransaction demo_env 2000 True (demo_payload ''t2'' ''BDT'' 300) demo_state of
      (r, (d', db')) \<Rightarrow> (res_status r, book_of d') =
         spec_post (demo_payload ''t2'' ''BDT'' 300) (book_of (fst demo_state)) \<and> res_status r = Posted)"
proof -
  obtain r d' db' where run: "postTransaction demo_env 2000 True (demo_payload ''t2'' ''BDT'' 300) (fst demo_state, snd demo_state) = (r, (d', db'))"
    by (metis prod.exhaust)
  have "outbox_enabled demo_env" by code_simp
  moreover have "\<not> writes_fault (fst demo_state)" by code_simp
  moreover have "res_status (fst (postTransaction demo_env 2000 True (demo_payload ''t2'' ''BDT'' 300) demo_state)) = Posted"
    by code_simp
  ultimately show ?thesis
    using post_refines [OF _ _ _ run] demo_reachable run by simp
qed

text \<open>C3: at most once.  Whatever calls follow a reachable state, a transaction id is reported
  \<open>posted\<close> at most once among them, never if it was posted before, and its journal legs and
  posting time are never changed afterwards.\<close>

theorem posting_at_most_once:
  assumes "do_reachable name s"
  shows "length (filter (\<lambda>r. accepted_tx r = Some tx) (fst (run_calls do_exec cs s)))
           \<le> (if fst (getTransactionStatus tx (fst s)) then 0 else 1) \<and>
         (fst (getTransactionStatus tx (fst s)) \<longrightarrow>
            recorded tx (snd (run_calls do_exec cs s)) = recorded tx s)"
  using lo.accepted_at_most_once [of s tx cs] lo.effect_run [of s tx cs] reachable_inv [OF assms]
  by (simp add: status_posted)

definition demo_calls :: "do_call list" where
  "demo_calls = [CPost demo_env 2000 True (demo_payload ''t2'' ''BDT'' 300), CRestart 2500,
     CPost demo_env 3000 True (demo_payload ''t2'' ''BDT'' 999)]"

theorem posting_at_most_once_witness:
  "length (filter (\<lambda>r. accepted_tx r = Some ''t2'') (fst (run_calls do_exec demo_calls demo_state))) = 1 \<and>
   length (filter (\<lambda>r. accepted_tx r = Some ''t1'') (fst (run_calls do_exec demo_calls demo_state))) = 0 \<and>
   recorded ''t1'' (snd (run_calls do_exec demo_calls demo_state)) = recorded ''t1'' demo_state"
proof -
  have "fst (getTransactionStatus ''t1'' (fst demo_state))" by code_simp
  moreover have "length (filter (\<lambda>r. accepted_tx r = Some ''t2'') (fst (run_calls do_exec demo_calls demo_state))) = 1"
    by code_simp
  ultimately show ?thesis
    using posting_at_most_once [OF demo_reachable, of "''t1''" demo_calls] by simp
qed

text \<open>C5: replaying a well-formed posting whose id is already posted answers \<open>duplicate\<close> with the
  original posting time and leaves the stored tables and D1 as they were, whatever its content.\<close>

theorem duplicate_replay:
  assumes "do_reachable name (d, db)" and "well_formed_posting p" and "pp_tx_id p \<in> posted_ids d"
  shows "\<exists>at d'. getTransactionStatus (pp_tx_id p) d = (True, Some at) \<and> same_store d d' \<and>
     postTransaction env now ok p (d, db) = (duplicate_result p at, (d', db))"
proof -
  have inv: "ledger_inv d" using reachable_inv [OF assms(1)] by simp
  from assms(3) obtain x where x: "List.find (\<lambda>r. px_tx_id r = pp_tx_id p) (do_posted d) = Some x"
    using find_posted_None [of "pp_tx_id p" d] by auto
  note st = status_find [OF x]
  have "same_store d (seedChart (pp_currency p) d)"
    using posted_accounts [OF inv _ assms(3)] reachable_legs [OF assms(1)] by (simp add: inv seedChart_seeded)
  with st post_duplicate [OF _ x, of env now ok db] assms(2) show ?thesis
    by (auto simp: well_formed_iff)
qed

theorem duplicate_replay_witness:
  "\<exists>d'. same_store (fst demo_state) d' \<and>
     postTransaction demo_env 9000 True (demo_payload ''t1'' ''USD'' 7) (fst demo_state, snd demo_state) =
       (duplicate_result (demo_payload ''t1'' ''USD'' 7) 1000, (d', snd demo_state))"
proof -
  have "well_formed_posting (demo_payload ''t1'' ''USD'' 7)" by code_simp
  moreover have "pp_tx_id (demo_payload ''t1'' ''USD'' 7) \<in> posted_ids (fst demo_state)" by code_simp
  moreover have "getTransactionStatus ''t1'' (fst demo_state) = (True, Some 1000)" by code_simp
  moreover have "pp_tx_id (demo_payload ''t1'' ''USD'' 7) = ''t1''" by (simp add: demo_payload_def)
  ultimately show ?thesis
    using duplicate_replay [of "''merchant-7''" "fst demo_state" "snd demo_state" "demo_payload ''t1'' ''USD'' 7" demo_env 9000 True]
      demo_reachable by auto
qed

text \<open>C4: a posting is atomic.  With the outbox on, a \<open>failed\<close> answer, an injected fault included,
  means that nothing was posted, journalled or queued, no balance moved and D1 is unchanged.\<close>

theorem failed_posting_atomic:
  assumes "do_reachable name (d, db)" and "outbox_enabled env"
    and "postTransaction env now ok p (d, db) = (r, (d', db'))" and "res_status r = Failed"
  shows "do_posted d' = do_posted d \<and> do_journal d' = do_journal d \<and> do_outbox d' = do_outbox d \<and>
         balance_of d' = balance_of d \<and> db' = db"
proof -
  have inv: "ledger_inv d" using reachable_inv [OF assms(1)] by simp
  from post_outcome(2) [OF inv assms(3)] assms(2,4)
  have s: "same_store (seedChart (pp_currency p) d) d'" "db' = db" by auto
  then have "balance_of d' = balance_of d"
    using book_same_store [OF s(1)] book_seed [OF inv, of "pp_currency p"] reachable_seeded [OF assms(1)]
    by (simp add: book_of_def)
  with s show ?thesis by (simp add: same_store_def same_book_def)
qed

theorem failed_posting_atomic_witness:
  "(case postTransaction demo_env 2000 True (demo_payload ''t2'' ''USD'' 300) (fst demo_state, snd demo_state) of
      (r, (d', db')) \<Rightarrow> res_status r = Failed \<and> do_journal d' = do_journal (fst demo_state) \<and>
                         balance_of d' = balance_of (fst demo_state))"
proof -
  obtain r d' db' where run: "postTransaction demo_env 2000 True (demo_payload ''t2'' ''USD'' 300) (fst demo_state, snd demo_state) = (r, (d', db'))"
    by (metis prod.exhaust)
  have "outbox_enabled demo_env" by code_simp
  moreover have "res_status (fst (postTransaction demo_env 2000 True (demo_payload ''t2'' ''USD'' 300) (fst demo_state, snd demo_state))) = Failed"
    by code_simp
  ultimately show ?thesis
    using failed_posting_atomic [OF _ _ run] demo_reachable run by simp
qed

text \<open>C6: every posted transaction of a reachable state has at least two journal legs, all with
  positive amounts on accounts of the chart, and its debits equal its credits.\<close>

theorem posted_transaction_balanced:
  assumes "do_reachable name (d, db)" and "tx \<in> posted_ids d"
  shows "2 \<le> length (legs_of tx d) \<and>
         sum_by je_debit (legs_of tx d) = sum_by je_credit (legs_of tx d) \<and>
         (\<forall>j \<in> set (legs_of tx d). 0 < je_amount_minor j \<and> chart_type_of (je_account_code j) \<noteq> None)"
proof -
  have inv: "ledger_inv d" and legs: "posted_legs d"
    using reachable_inv [OF assms(1)] reachable_legs [OF assms(1)] by simp_all
  have ne: "do_accounts d \<noteq> []" by (rule posted_accounts [OF inv legs assms(2)])
  have "chart_type_of (je_account_code j) \<noteq> None" if "j \<in> set (do_journal d)" for j
  proof -
    from that inv have "je_account_code j \<in> codes_of d" by (auto simp: ledger_inv_def journal_ok_def)
    then have "find_account (do_accounts d) (je_account_code j) \<noteq> None"
      by (auto simp: codes_of_def find_account_def find_None_keys)
    then show ?thesis using seeded_find_type [OF _ ne] inv by (simp add: ledger_inv_def)
  qed
  with inv legs assms(2) show ?thesis
    by (auto simp: posted_legs_def legs_of_def ledger_inv_def journal_ok_def)
qed

theorem posted_transaction_balanced_witness:
  "2 \<le> length (legs_of ''t1'' (fst demo_state)) \<and>
   sum_by je_debit (legs_of ''t1'' (fst demo_state)) = sum_by je_credit (legs_of ''t1'' (fst demo_state))"
  using posted_transaction_balanced [of "''merchant-7''" "fst demo_state" "snd demo_state" "''t1''"]
    demo_reachable demo_posted by (auto simp: posted_ids_def)

section \<open>The currency of a book\<close>

lemma exec_currency:
  assumes inv: "ledger_inv (fst s)" and cur: "book_currency (fst s) = Some c"
  shows "book_currency (fst (snd (do_exec k s))) = Some c"
proof (cases "\<exists>env now ok p. k = CPost env now ok p")
  case True
  then obtain env now dok p where k: "k = CPost env now dok p" by blast
  obtain r d' db' where run: "postTransaction env now dok p (fst s, snd s) = (r, (d', db'))" by (metis prod.exhaust)
  have ne: "do_accounts (fst s) \<noteq> []" using cur by (auto simp: book_currency_def)
  then have ok: "seeded_ok (fst s)" by (simp add: seeded_ok_def)
  have seed: "bk_currency (book_of (seedChart (pp_currency p) (fst s))) = Some c"
    using book_seed [OF inv ok, of "pp_currency p"] cur by (simp add: book_of_def)
  from post_outcome(2) [OF inv run] have "bk_currency (book_of d') = Some c"
    using seed book_committed [OF _ inv ok, of p now d'] by (auto simp: Let_def dest: book_same_store)
  with run show ?thesis by (simp add: k book_of_def)
next
  case False
  then have "same_book (fst s) (fst (snd (do_exec k s)))" using do_exec_book(1) [of k s] by auto
  with cur show ?thesis by (simp add: same_book_def book_currency_def)
qed

lemma run_currency:
  "ledger_inv (fst s) \<Longrightarrow> book_currency (fst s) = Some c \<Longrightarrow>
     book_currency (fst (snd (run_calls do_exec cs s))) = Some c"
  by (induction cs arbitrary: s) (simp_all add: Let_def case_prod_beta exec_currency do_exec_inv del: split_paired_All)

text \<open>A merchant's book has one currency.  The first posting attempt, even one that is
  refused, pins it; no later sequence of calls changes it, and a posting in any other currency is
  never \<open>posted\<close> afterwards.\<close>

theorem book_single_currency:
  assumes "do_reachable name s" and "book_currency (fst s) = Some c"
  shows "book_currency (fst (snd (run_calls do_exec cs s))) = Some c \<and>
         (\<forall>env now ok p. pp_currency p \<noteq> c \<longrightarrow>
            res_status (fst (postTransaction env now ok p (snd (run_calls do_exec cs s)))) \<noteq> Posted)"
proof (intro conjI allI impI notI)
  let ?t = "snd (run_calls do_exec cs s)"
  have re: "do_reachable name ?t" using assms(1) by (rule do_reachable_run)
  have cur: "book_currency (fst ?t) = Some c" using reachable_inv [OF assms(1)] assms(2) by (rule run_currency)
  then show "book_currency (fst ?t) = Some c" .
  fix env now ok p
  assume ne: "pp_currency p \<noteq> c" and st: "res_status (fst (postTransaction env now ok p ?t)) = Posted"
  obtain r d' db' where run: "postTransaction env now ok p (fst ?t, snd ?t) = (r, (d', db'))" by (metis prod.exhaust)
  have inv: "ledger_inv (fst ?t)" using re by (rule reachable_inv)
  have co: "committed p now (fst ?t) d'" using post_outcome(2) [OF inv run] st run by auto
  then have "\<exists>ds. checkBalances (pp_entries p) (pp_currency p) (do_accounts (seedChart (pp_currency p) (fst ?t))) = Inr ds"
    and wf: "well_formed_posting p" by (auto simp: committed_def well_formed_iff)
  then have "bk_currency (book_of (seedChart (pp_currency p) (fst ?t))) = Some (pp_currency p)"
    using spec_condition [OF inv reachable_seeded [OF re] wf] by (simp add: Let_def)
  with book_seed [OF inv reachable_seeded [OF re], of "pp_currency p"] cur ne show False
    by (simp add: book_of_def)
qed

theorem book_single_currency_witness:
  "book_currency (fst (snd (do_exec (CPost demo_env 1 True (demo_payload [] ''USD'' 5)) demo_start))) = Some ''USD'' \<and>
   res_status (fst (postTransaction demo_env 2 True (demo_payload ''t1'' ''BDT'' 5)
     (snd (do_exec (CPost demo_env 1 True (demo_payload [] ''USD'' 5)) demo_start)))) \<noteq> Posted"
proof -
  let ?s = "snd (do_exec (CPost demo_env 1 True (demo_payload [] ''USD'' 5)) demo_start)"
  have "do_reachable ''merchant-7'' ?s" using demo_start_reachable by (rule do_reachable.call)
  moreover have "book_currency (fst ?s) = Some ''USD''" by code_simp
  moreover have "pp_currency (demo_payload ''t1'' ''BDT'' 5) \<noteq> ''USD''" by code_simp
  ultimately show ?thesis using book_single_currency [of "''merchant-7''" ?s "''USD''" "[]"] by simp
qed

section \<open>Bounds and error codes\<close>

lemma entry_bounds:
  "entry_valid e \<Longrightarrow> 0 \<le> entry_debit e \<and> entry_debit e \<le> MAX_AMOUNT_MINOR \<and>
     0 \<le> entry_credit e \<and> entry_credit e \<le> MAX_AMOUNT_MINOR"
  by (auto simp: entry_valid_def entry_debit_def entry_credit_def MAX_AMOUNT_MINOR_def)

text \<open>C7: with at most 1000 entries every running sum of the shape check stays within
  \<open>Number.MAX_SAFE_INTEGER\<close>, so the comparison of debits and credits is exact in JavaScript.\<close>

theorem posting_sums_safe:
  assumes "length es \<le> 1000" and "k \<le> length es" and "validate_entries (take k es) 0 0 = Inr (debits, credits)"
  shows "0 \<le> debits \<and> debits \<le> 2 ^ 53 - 1 \<and> 0 \<le> credits \<and> credits \<le> 2 ^ 53 - 1"
proof -
  from assms(3) have v: "\<forall>e \<in> set (take k es). entry_valid e"
    and s: "debits = sum_by entry_debit (take k es)" "credits = sum_by entry_credit (take k es)"
    by (simp_all add: validate_entries_Inr)
  have "0 \<le> debits" "0 \<le> credits"
    using v entry_bounds by (auto simp: s intro!: sum_by_nonneg)
  moreover have "debits \<le> int (length (take k es)) * MAX_AMOUNT_MINOR"
    "credits \<le> int (length (take k es)) * MAX_AMOUNT_MINOR"
    unfolding s by (rule sum_by_bound; use v entry_bounds in blast)+
  moreover have "int (length (take k es)) \<le> 1000" using assms(1,2) by simp
  ultimately show ?thesis by (auto simp: MAX_AMOUNT_MINOR_def)
qed

theorem posting_sums_safe_witness:
  "validate_entries (take 2 (pp_entries (demo_payload ''t1'' ''BDT'' 9000000000000))) 0 0
     = Inr (9000000000000, 9000000000000) \<and> (9000000000000::int) \<le> 2 ^ 53 - 1"
proof -
  have "validate_entries (take 2 (pp_entries (demo_payload ''t1'' ''BDT'' 9000000000000))) 0 0
     = Inr (9000000000000, 9000000000000)" by (simp add: demo_payload_def demo_entry_def MAX_AMOUNT_MINOR_def)
  moreover have "length (pp_entries (demo_payload ''t1'' ''BDT'' 9000000000000)) = 2" by (simp add: demo_payload_def)
  ultimately show ?thesis
    using posting_sums_safe [of "pp_entries (demo_payload ''t1'' ''BDT'' 9000000000000)" 2 9000000000000 9000000000000]
    by simp
qed


text \<open>The code a refused posting carries, read off the book.\<close>

definition spec_error :: "posting_payload \<Rightarrow> book \<Rightarrow> posting_error_code" where
  "spec_error p b =
     (if pp_tx_id p = [] \<or> length (pp_entries p) < 2 \<or> (\<exists>e \<in> set (pp_entries p). \<not> entry_valid e) then INVALID
      else if sum_by entry_debit (pp_entries p) \<noteq> sum_by entry_credit (pp_entries p) then UNBALANCED
      else case List.find (\<lambda>e. chart_type_of (pe_account_code e) = None \<or>
                  (bk_currency b \<noteq> None \<and> bk_currency b \<noteq> Some (pp_currency p))) (pp_entries p) of
             Some e \<Rightarrow> if chart_type_of (pe_account_code e) = None then UNKNOWN_ACCOUNT else CURRENCY_MISMATCH
           | None \<Rightarrow> INSUFFICIENT_FUNDS)"

lemma validate_entries_Inl: "validate_entries es d c = Inl (code, m) \<Longrightarrow> code = INVALID"
  by (induction es arbitrary: d c) (auto split: if_splits)

lemma validate_entries_invalid: "(\<exists>x. validate_entries es d c = Inl x) \<longleftrightarrow> (\<exists>e \<in> set es. \<not> entry_valid e)"
proof (cases "validate_entries es d c")
  case (Inl x)
  then show ?thesis
    using validate_entries_Inr [of es d c "d + sum_by entry_debit es" "c + sum_by entry_credit es"] by auto
next
  case (Inr y)
  then show ?thesis using validate_entries_Inr [of es d c "fst y" "snd y"] by auto
qed

lemma shape_error:
  assumes "validatePostingShape p = Inl (code, m)"
  shows "code = spec_error p b"
proof (cases "validate_entries (pp_entries p) 0 0")
  case (Inl x)
  then have "\<exists>e \<in> set (pp_entries p). \<not> entry_valid e" using validate_entries_invalid by blast
  with assms Inl validate_entries_Inl show ?thesis
    by (cases x) (auto simp: validatePostingShape_def spec_error_def split: if_splits)
next
  case (Inr y)
  then have v: "\<forall>e \<in> set (pp_entries p). entry_valid e" using validate_entries_invalid [of "pp_entries p" 0 0] by auto
  obtain d c where y: "y = (d, c)" by (cases y)
  have "d = sum_by entry_debit (pp_entries p)" "c = sum_by entry_credit (pp_entries p)"
    using Inr validate_entries_Inr [of "pp_entries p" 0 0 d c] by (simp_all add: y)
  with assms Inr v show ?thesis
    by (auto simp: validatePostingShape_def spec_error_def y split: if_splits)
qed

lemma collect_error:
  "collect_deltas accs cur es ds = Inl (code, m) \<Longrightarrow>
     \<exists>e. List.find (\<lambda>e. case find_account accs (pe_account_code e) of None \<Rightarrow> True | Some a \<Rightarrow> acc_currency a \<noteq> cur) es = Some e \<and>
         code = (if find_account accs (pe_account_code e) = None then UNKNOWN_ACCOUNT else CURRENCY_MISMATCH)"
proof (induction es arbitrary: ds)
  case (Cons x es)
  show ?case
  proof (cases "find_account accs (pe_account_code x)")
    case None
    with Cons.prems show ?thesis by simp
  next
    case (Some a)
    with Cons show ?thesis by (cases "acc_currency a = cur") auto
  qed
qed simp

lemma funds_error:
  "check_funds accs ds = Inl (code, m) \<Longrightarrow> (\<forall>k \<in> fst ` set ds. find_account accs k \<noteq> None) \<Longrightarrow> code = INSUFFICIENT_FUNDS"
  by (induction ds) (auto split: option.splits if_splits)

lemma find_cong: "(\<And>x. x \<in> set xs \<Longrightarrow> q x = q' x) \<Longrightarrow> List.find q xs = List.find q' xs"
  by (induction xs) auto

lemma balance_error:
  assumes inv: "ledger_inv d" and ok: "seeded_ok d" and wf: "well_formed_posting p"
    and cb: "checkBalances (pp_entries p) (pp_currency p) (do_accounts (seedChart (pp_currency p) d)) = Inl (code, m)"
  shows "code = spec_error p (book_of d)"
proof -
  let ?s = "seedChart (pp_currency p) d"
  let ?bad = "\<lambda>e. case find_account (do_accounts ?s) (pe_account_code e) of None \<Rightarrow> True | Some a \<Rightarrow> acc_currency a \<noteq> pp_currency p"
  have ch: "chart_ok ?s" "do_accounts ?s \<noteq> []"
    using seedChart_inv [OF inv] seed_not_empty [OF _ ok] inv by (auto simp: ledger_inv_def)
  have cur: "acc_currency a = (case bk_currency (book_of d) of None \<Rightarrow> pp_currency p | Some c \<Rightarrow> c)"
    if "find_account (do_accounts ?s) k = Some a" for k a
    using seeded_currency [OF ch(1)] find_account_in [OF that] book_seed [OF inv ok, of "pp_currency p"]
    by (auto simp: book_of_def)
  have bad: "?bad e \<longleftrightarrow> chart_type_of (pe_account_code e) = None \<or>
     (bk_currency (book_of d) \<noteq> None \<and> bk_currency (book_of d) \<noteq> Some (pp_currency p))" for e
    by (cases "find_account (do_accounts ?s) (pe_account_code e)")
       (auto simp: seeded_find_type [OF ch] dest: cur split: option.splits)
  have err: "spec_error p (book_of d) = (case List.find ?bad (pp_entries p) of
      Some e \<Rightarrow> if chart_type_of (pe_account_code e) = None then UNKNOWN_ACCOUNT else CURRENCY_MISMATCH
    | None \<Rightarrow> INSUFFICIENT_FUNDS)"
    using wf unfolding bad by (auto simp: spec_error_def well_formed_posting_def)
  show ?thesis
  proof (cases "collect_deltas (do_accounts ?s) (pp_currency p) (pp_entries p) []")
    case (Inl x)
    then have x: "x = (code, m)" using cb by (simp add: checkBalances_def)
    from collect_error [OF Inl [unfolded x]] show ?thesis
      unfolding err by (auto simp: seeded_find_type [OF ch])
  next
    case (Inr ds)
    note D = collect_deltas_Inr [OF Inr]
    have "check_funds (do_accounts ?s) ds = Inl (code, m)"
      using cb Inr by (simp add: checkBalances_def split: sum.splits)
    moreover have "\<forall>k \<in> fst ` set ds. find_account (do_accounts ?s) k \<noteq> None"
      using D by auto
    ultimately have "code = INSUFFICIENT_FUNDS" by (rule funds_error)
    moreover have "List.find ?bad (pp_entries p) = None"
      using D by (auto simp: find_None_iff split: option.splits)
    ultimately show ?thesis unfolding err by simp
  qed
qed

text \<open>Every refusal carries the right code.  With the outbox on and no injected fault, a failed
  posting reports \<open>INVALID\<close> for a malformed payload, \<open>UNBALANCED\<close> when debits and credits differ,
  otherwise the code of the first entry on an unknown account or in another currency, and
  \<open>INSUFFICIENT_FUNDS\<close> only when every entry is acceptable; the worker can read the code back from
  the message it travels in.\<close>

theorem posting_refusal_code:
  assumes "do_reachable name (d, db)" and "outbox_enabled env" and "\<not> writes_fault d"
    and "postTransaction env now dok p (d, db) = (r, (d', db'))" and "res_status r = Failed"
  shows "res_error_code r = Some (spec_error p (book_of d)) \<and>
         parsePostingErrorCode (posting_error_message (spec_error p (book_of d)) detail) = Some (spec_error p (book_of d))"
proof -
  have inv: "ledger_inv d" and ok: "seeded_ok d" using reachable_inv [OF assms(1)] reachable_seeded [OF assms(1)] by simp_all
  let ?s = "seedChart (pp_currency p) d"
  have "res_error_code r = Some (spec_error p (book_of d))"
  proof (cases "validatePostingShape p")
    case (Inl x)
    with post_invalid [of p "fst x" "snd x" env now dok d db] assms(4) shape_error [of p "fst x" "snd x"] show ?thesis
      by (auto simp: failed_result_def)
  next
    case (Inr u)
    then have sh: "validatePostingShape p = Inr ()" by simp
    have new: "pp_tx_id p \<notin> posted_ids d"
      using post_duplicate [OF sh, of d _ env now dok db] find_posted_None [of "pp_tx_id p" d] assms(4,5)
      by (cases "List.find (\<lambda>r. px_tx_id r = pp_tx_id p) (do_posted d)") (auto simp: duplicate_result_def)
    show ?thesis
    proof (cases "checkBalances (pp_entries p) (pp_currency p) (do_accounts ?s)")
      case (Inl x)
      with post_refused [OF sh new, of "fst x" "snd x" env now dok db] assms(4)
        balance_error [OF inv ok, of p "fst x" "snd x"] sh show ?thesis
        by (auto simp: failed_result_def well_formed_iff)
    next
      case (Inr ds)
      with post_status_posted [OF inv sh new Inr assms(3,2), of now dok db] assms(4,5) show ?thesis by simp
    qed
  qed
  then show ?thesis using find_code by (simp only: parsePostingErrorCode_def bracketed_code_message option.case)
qed

theorem posting_refusal_code_witness:
  "res_error_code (fst (postTransaction demo_env 2000 True (demo_payload ''t2'' ''USD'' 300) (fst demo_state, snd demo_state)))
     = Some CURRENCY_MISMATCH"
proof -
  let ?p = "demo_payload ''t2'' ''USD'' 300"
  obtain r d' db' where run: "postTransaction demo_env 2000 True ?p (fst demo_state, snd demo_state) = (r, (d', db'))"
    by (metis prod.exhaust)
  have "outbox_enabled demo_env" by code_simp
  moreover have "\<not> writes_fault (fst demo_state)" by code_simp
  moreover have "res_status (fst (postTransaction demo_env 2000 True ?p (fst demo_state, snd demo_state))) = Failed" by code_simp
  moreover have "spec_error ?p (book_of (fst demo_state)) = CURRENCY_MISMATCH" by code_simp
  ultimately show ?thesis using posting_refusal_code [OF _ _ _ run] demo_reachable run by simp
qed

end
