(* ===== verification/LedgerOutbox.thy ===== *)
theory LedgerOutbox
  imports LedgerCorrect
begin

text \<open>
  The transactional outbox: what one drain takes from the queue and writes to D1, that it keeps
  the queue's order and D1's statement bound, that it makes progress, and the end-to-end
  guarantee that a posted transaction is at all times queued or completely mirrored in D1.
\<close>

section \<open>Mirrored postings\<close>

definition mirrored :: "posting_payload \<Rightarrow> iso \<Rightarrow> d1 \<Rightarrow> bool" where
  "mirrored p at db \<longleftrightarrow>
     (\<forall>s \<in> set (buildLedgerAuditStatements (pp_merchant_id p) p at). stmt_done s db)"

definition row_stmts :: "outbox_row \<Rightarrow> ledger_stmt list" where
  "row_stmts r = buildLedgerAuditStatements (pp_merchant_id (ob_payload r)) (ob_payload r) (ob_payload_posted_at r)"

lemma length_row_stmts: "length (row_stmts r) = length (pp_entries (ob_payload r)) + 2"
  by (simp add: row_stmts_def buildLedgerAuditStatements_def)

lemma build_agree:
  assumes "pp_tx_id p = pp_tx_id q \<Longrightarrow> at = at'"
    and "s \<in> set (buildLedgerAuditStatements m p at)" and "s' \<in> set (buildLedgerAuditStatements m' q at')"
  shows "stmts_agree s s'"
  using assms by (auto simp: buildLedgerAuditStatements_def entry_stmt_def fresh_posting_row_def)

lemma mirrored_batch: "mirrored p at (run_batch (buildLedgerAuditStatements (pp_merchant_id p) p at) db)"
  by (simp add: mirrored_def audit_batch_done)

lemma mirrored_mono:
  assumes "mirrored p at db" and "pp_tx_id p = pp_tx_id q \<Longrightarrow> at = at'"
  shows "mirrored p at (run_batch (buildLedgerAuditStatements m q at') db)"
  using assms unfolding mirrored_def by (blast intro: stmt_done_run_batch build_agree)

lemma mirrored_rows_mono:
  assumes "mirrored p at db"
    and "\<And>r. r \<in> set rs \<Longrightarrow> pp_tx_id p = pp_tx_id (ob_payload r) \<Longrightarrow> at = ob_payload_posted_at r"
  shows "mirrored p at (run_batch (concat (map row_stmts rs)) db)"
  using assms
proof (induction rs arbitrary: db)
  case (Cons r rs)
  have "mirrored p at (run_batch (row_stmts r) db)"
    unfolding row_stmts_def by (rule mirrored_mono) (use Cons.prems in auto)
  from Cons.IH [OF this] Cons.prems(2) show ?case by simp
qed simp

lemma rows_mirrored:
  assumes "distinct (map (\<lambda>r. pp_tx_id (ob_payload r)) rs)" and "r \<in> set rs"
  shows "mirrored (ob_payload r) (ob_payload_posted_at r) (run_batch (concat (map row_stmts rs)) db)"
  using assms
proof (induction rs arbitrary: db)
  case (Cons x rs)
  show ?case
  proof (cases "r = x")
    case True
    have "mirrored (ob_payload x) (ob_payload_posted_at x) (run_batch (row_stmts x) db)"
      unfolding row_stmts_def by (rule mirrored_batch)
    then have "mirrored (ob_payload x) (ob_payload_posted_at x) (run_batch (concat (map row_stmts rs)) (run_batch (row_stmts x) db))"
      by (rule mirrored_rows_mono) (use Cons.prems in force)
    with True show ?thesis by simp
  next
    case False
    with Cons show ?thesis by simp
  qed
qed simp

section \<open>What a drain puts into its batch\<close>

lemma compose_batch_spec:
  assumes "compose_batch rs stmts inc = (stmts', inc')" and "length stmts \<le> OUTBOX_MAX_STATEMENTS"
  shows "\<exists>k. inc' = inc @ take k rs \<and> stmts' = stmts @ concat (map row_stmts (take k rs)) \<and>
     length stmts' \<le> OUTBOX_MAX_STATEMENTS \<and>
     (k < length rs \<longrightarrow> length stmts' + length (row_stmts (rs ! k)) > OUTBOX_MAX_STATEMENTS)"
  using assms
proof (induction rs arbitrary: stmts inc)
  case Nil
  then show ?case by (auto intro: exI [of _ 0])
next
  case (Cons r rs)
  show ?case
  proof (cases "length stmts + length (row_stmts r) > OUTBOX_MAX_STATEMENTS")
    case True
    with Cons.prems show ?thesis by (auto simp: row_stmts_def Let_def intro!: exI [of _ 0])
  next
    case False
    then have "compose_batch rs (stmts @ row_stmts r) (inc @ [r]) = (stmts', inc')"
      using Cons.prems(1) by (simp add: row_stmts_def Let_def)
    note rec = this
    from False have "length (stmts @ row_stmts r) \<le> OUTBOX_MAX_STATEMENTS" by simp
    from Cons.IH [OF rec this] obtain k where
      "inc' = (inc @ [r]) @ take k rs" "stmts' = (stmts @ row_stmts r) @ concat (map row_stmts (take k rs))"
      "length stmts' \<le> OUTBOX_MAX_STATEMENTS"
      "k < length rs \<longrightarrow> length stmts' + length (row_stmts (rs ! k)) > OUTBOX_MAX_STATEMENTS" by blast
    then show ?thesis by (intro exI [of _ "Suc k"]) auto
  qed
qed

declare compose_batch.simps [simp del]

lemma sorted_ids_sort:
  assumes "sorted_wrt (<) (map ob_id rs)"
  shows "sort_key ob_id (filter q rs) = filter q rs"
proof (rule sort_key_id_if_sorted)
  from assms have "sorted_wrt (\<lambda>x y. ob_id x < ob_id y) (filter q rs)"
    by (simp add: sorted_wrt_map sorted_wrt_filter)
  then show "sorted (map ob_id (filter q rs))"
    by (auto simp: sorted_wrt_map intro: sorted_wrt_mono_rel [rotated])
qed

text \<open>The pending rows come in the order in which they were committed.\<close>

lemma pending_batch_eq:
  "outbox_ok d \<Longrightarrow> pending_batch force now d = take OUTBOX_BATCH_POSTINGS (filter (drain_eligible force now) (do_outbox d))"
  by (simp add: pending_batch_def sorted_ids_sort outbox_ok_def)

lemma mark_synced_rows:
  assumes "distinct (map ob_id (do_outbox d))" and "set inc \<subseteq> set (do_outbox d)"
  shows "do_outbox (mark_synced at inc d) = map (\<lambda>x. if x \<in> set inc then sync_row at x else x) (do_outbox d)"
proof -
  have fold: "fold (\<lambda>r rows. update_where (\<lambda>x. ob_id x = ob_id r) (sync_row at) rows) inc rows =
      map (\<lambda>x. if ob_id x \<in> ob_id ` set inc then sync_row at x else x) rows" for rows :: "outbox_row list"
    by (induction inc arbitrary: rows) (auto simp: update_where_def sync_row_def)
  have "ob_id x \<in> ob_id ` set inc \<longleftrightarrow> x \<in> set inc" if "x \<in> set (do_outbox d)" for x
    using assms that by (auto simp: distinct_map inj_on_def)
  then show ?thesis by (simp add: mark_synced_def fold)
qed


section \<open>The outcome of a drain\<close>

definition row_core :: "outbox_row \<Rightarrow> nat \<times> outbox_status \<times> posting_payload \<times> iso" where
  "row_core r = (ob_id r, ob_status r, ob_payload r, ob_payload_posted_at r)"

abbreviation drain_fault :: "ledger_do \<Rightarrow> bool" where
  "drain_fault d \<equiv> (case do_faults d of None \<Rightarrow> False | Some f \<Rightarrow> fail_outbox_drain f)"

lemma mark_one_retry_core: "map row_core (mark_one_retry now err i rows) = map row_core rows"
  by (simp add: mark_one_retry_def Let_def map_update_where row_core_def)

lemma markOutboxRetry_core: "map row_core (do_outbox (markOutboxRetry now is err d)) = map row_core (do_outbox d)"
proof -
  have "map row_core (fold (mark_one_retry now err) is rows) = map row_core rows" for rows
    by (induction "is" arbitrary: rows) (simp_all add: mark_one_retry_core)
  then show ?thesis by (simp add: markOutboxRetry_def)
qed

lemma faults_drain_merchant [simp]: "do_faults (snd (drain_merchant r d)) = do_faults d"
proof -
  obtain m d' where g: "getMerchantId d = (m, d')" by (cases "getMerchantId d")
  with getMerchantId_faults [of d] show ?thesis by (cases m) (simp_all add: drain_merchant_def g)
qed

text \<open>A batch that reaches D1 is a non-empty prefix of the queue, within the statement bound.\<close>

definition drain_delivers :: "bool \<Rightarrow> time_ms \<Rightarrow> ledger_do \<Rightarrow> d1 \<Rightarrow> nat \<Rightarrow> ledger_do \<Rightarrow> d1 \<Rightarrow> bool" where
  "drain_delivers force now d db n d' db' \<longleftrightarrow>
     (let inc = take n (pending_batch force now d) in
      0 < n \<and> n \<le> length (pending_batch force now d) \<and>
      length (concat (map row_stmts inc)) \<le> OUTBOX_MAX_STATEMENTS \<and>
      db' = run_batch (concat (map row_stmts inc)) db \<and>
      do_outbox d' = map (\<lambda>x. if x \<in> set inc then sync_row now x else x) (do_outbox d))"

lemma pending_batch_subset: "outbox_ok d \<Longrightarrow> set (pending_batch force now d) \<subseteq> set (do_outbox d)"
  by (auto simp: pending_batch_eq dest: in_set_takeD)

lemma outbox_ids_distinct: "outbox_ok d \<Longrightarrow> distinct (map ob_id (do_outbox d))"
  by (simp add: outbox_ok_def strict_sorted_imp_sorted strict_sorted_iff)

lemma drain_outcome:
  assumes ok: "outbox_ok d" and run: "drainOutbox force now dok (d, db) = ((n, f), (d', db'))"
  shows "(n = 0 \<and> db' = db \<and> map row_core (do_outbox d') = map row_core (do_outbox d)) \<or>
         drain_delivers force now d db n d' db'"
proof (cases "pending_batch force now d")
  case Nil
  with run show ?thesis by (simp add: drainOutbox_def)
next
  case (Cons r rs)
  obtain mo e where dm: "drain_merchant r d = (mo, e)" by (cases "drain_merchant r d")
  have st: "do_outbox e = do_outbox d" using drain_merchant_store [of d r] by (simp add: dm same_store_def)
  obtain stmts inc where cb: "compose_batch (r # rs) [] [] = (stmts, inc)" by (cases "compose_batch (r # rs) [] []")
  from compose_batch_spec [OF cb] obtain k where k: "inc = take k (r # rs)" "stmts = concat (map row_stmts (take k (r # rs)))"
    "length stmts \<le> OUTBOX_MAX_STATEMENTS" by auto
  show ?thesis
  proof (cases "mo = None \<or> inc = [] \<or> drain_fault e \<or> \<not> dok")
    case True
    then show ?thesis
      using run st by (cases mo) (auto simp: drainOutbox_def Cons dm cb markOutboxRetry_core split: if_splits)
  next
    case False
    let ?k = "length inc"
    have sub: "set inc \<subseteq> set (do_outbox e)"
      using pending_batch_subset [OF ok, of force now] k(1) st Cons by (auto dest!: in_set_takeD)
    have inck: "inc = take ?k (r # rs)" using k(1) by (simp add: min_def)
    have res: "n = ?k" "d' = mark_synced now inc e" "db' = run_batch stmts db"
      using run False by (auto simp: drainOutbox_def Cons dm cb)
    have "do_outbox d' = map (\<lambda>x. if x \<in> set inc then sync_row now x else x) (do_outbox d)"
      using mark_synced_rows [OF _ sub] outbox_ids_distinct [OF ok] by (simp add: res(2) st)
    moreover have "0 < ?k" "?k \<le> length (r # rs)" using False inck by (auto simp: k(1))
    ultimately have "drain_delivers force now d db n d' db'"
      unfolding drain_delivers_def Let_def Cons res inck [symmetric]
      using k inck by (metis (no_types, lifting) inck)
    then show ?thesis ..
  qed
qed


section \<open>No posting is lost between the object and D1\<close>

definition queued :: "posting_payload \<Rightarrow> iso \<Rightarrow> ledger_do \<Rightarrow> bool" where
  "queued p at d \<longleftrightarrow>
     (\<exists>r \<in> set (do_outbox d). ob_status r = ObPending \<and> ob_payload r = p \<and> ob_payload_posted_at r = at)"

definition delivered :: "posted_row \<Rightarrow> posting_payload \<Rightarrow> ledger_do \<times> d1 \<Rightarrow> bool" where
  "delivered x p = (\<lambda>(d, db). pp_tx_id p = px_tx_id x \<and> pp_entries p \<noteq> [] \<and>
     legs_of (px_tx_id x) d = journal_of p (px_posted_at x) \<and>
     (queued p (px_posted_at x) d \<or> mirrored p (px_posted_at x) db))"

definition nothing_lost :: "ledger_do \<times> d1 \<Rightarrow> bool" where
  "nothing_lost s \<longleftrightarrow> (\<forall>x \<in> set (do_posted (fst s)). \<exists>p. delivered x p s)"

lemma nothing_lostI:
  assumes "nothing_lost s" and "do_posted (fst s') = do_posted (fst s)"
    and "\<And>x p. delivered x p s \<Longrightarrow> delivered x p s'"
  shows "nothing_lost s'"
  using assms by (fastforce simp: nothing_lost_def)

lemma journal_of_time:
  "journal_of p at = journal_of q at' \<Longrightarrow> pp_entries p \<noteq> [] \<Longrightarrow> at = at'"
  by (cases "pp_entries p"; cases "pp_entries q") (auto simp: journal_of_def)

lemma queued_core:
  assumes "map row_core (do_outbox d') = map row_core (do_outbox d)"
  shows "queued p at d' = queued p at d"
proof -
  have "row_core ` set (do_outbox d') = row_core ` set (do_outbox d)"
    using assms by (metis list.set_map)
  moreover have "queued p at e \<longleftrightarrow> (\<exists>i. (i, ObPending, p, at) \<in> row_core ` set (do_outbox e))" for e
    by (simp add: queued_def row_core_def image_iff) metis
  ultimately show ?thesis by simp
qed

lemma delivered_same:
  assumes "delivered x p (d, db)" and "same_book d d'"
    and "queued p (px_posted_at x) d \<Longrightarrow> queued p (px_posted_at x) d' \<or> mirrored p (px_posted_at x) db'"
    and "mirrored p (px_posted_at x) db \<Longrightarrow> mirrored p (px_posted_at x) db'"
  shows "delivered x p (d', db')"
  using assms by (auto simp: delivered_def same_book_def legs_of_def)

lemma drain_delivered:
  assumes inv: "ledger_inv d" and run: "drainOutbox force now dok (d, db) = (nf, (d', db'))"
    and del: "delivered x p (d, db)"
  shows "delivered x p (d', db')"
proof -
  have ok: "outbox_ok d" using inv by (simp add: ledger_inv_def)
  have book: "same_book d d'" using drainOutbox_book [of d force now dok db] run by simp
  obtain n f where nf: "nf = (n, f)" by (cases nf)
  from drain_outcome [OF ok run [unfolded nf]] show ?thesis
  proof
    assume a: "n = 0 \<and> db' = db \<and> map row_core (do_outbox d') = map row_core (do_outbox d)"
    with delivered_same [OF del book] queued_core show ?thesis by metis
  next
    assume "drain_delivers force now d db n d' db'"
    then obtain inc where inc: "inc = take n (pending_batch force now d)"
      "db' = run_batch (concat (map row_stmts inc)) db"
      "do_outbox d' = map (\<lambda>x. if x \<in> set inc then sync_row now x else x) (do_outbox d)"
      by (auto simp: drain_delivers_def Let_def)
    have sub: "set inc \<subseteq> set (do_outbox d)"
      using pending_batch_subset [OF ok] inc(1) by (meson in_set_takeD subset_code(1))
    have dist: "distinct (map (\<lambda>r. pp_tx_id (ob_payload r)) inc)"
      using ok by (simp add: inc(1) pending_batch_eq [OF ok] outbox_ok_def distinct_map_filter take_map [symmetric] distinct_take)
    have agree: "px_posted_at x = ob_payload_posted_at r"
      if "r \<in> set inc" "pp_tx_id p = pp_tx_id (ob_payload r)" for r
    proof -
      have "outbox_row_ok d r" using that(1) sub ok by (auto simp: outbox_ok_def)
      then have "journal_of p (px_posted_at x) = journal_of (ob_payload r) (ob_payload_posted_at r)"
        using del that(2) by (simp add: outbox_row_ok_def delivered_def legs_of_def)
      then show ?thesis using journal_of_time del by (auto simp: delivered_def)
    qed
    show ?thesis
    proof (rule delivered_same [OF del book])
      assume "queued p (px_posted_at x) d"
      then obtain r where r: "r \<in> set (do_outbox d)" "ob_status r = ObPending" "ob_payload r = p"
        "ob_payload_posted_at r = px_posted_at x" by (auto simp: queued_def)
      show "queued p (px_posted_at x) d' \<or> mirrored p (px_posted_at x) db'"
      proof (cases "r \<in> set inc")
        case True
        from rows_mirrored [OF dist True, of db] r show ?thesis by (simp add: inc(2))
      next
        case False
        with r show ?thesis by (auto simp: queued_def inc(3) intro!: rev_image_eqI)
      qed
    next
      assume "mirrored p (px_posted_at x) db"
      then show "mirrored p (px_posted_at x) db'"
        unfolding inc(2) by (rule mirrored_rows_mono) (rule agree)
    qed
  qed
qed


lemma mirrored_cong:
  assumes "op_ledger_postings db' = op_ledger_postings db" and "op_ledger_transactions db' = op_ledger_transactions db"
    and "op_ledger_entries db' = op_ledger_entries db"
  shows "mirrored p at db' = mirrored p at db"
proof -
  have "stmt_done s db' = stmt_done s db" for s
    using assms by (cases s) (simp_all add: find_ltx_def has_entry_def)
  then show ?thesis by (simp add: mirrored_def)
qed

lemma snapshot_frame:
  "mirrored p at (snd (snd (snapshotBalances now ok (d, db)))) = mirrored p at db"
  "do_outbox (fst (snd (snapshotBalances now ok (d, db)))) = do_outbox d"
proof -
  obtain m d' where g: "getMerchantId d = (m, d')" by (cases "getMerchantId d")
  show "mirrored p at (snd (snd (snapshotBalances now ok (d, db)))) = mirrored p at db"
    by (rule mirrored_cong) (auto simp: snapshotBalances_def g split: option.split)
  show "do_outbox (fst (snd (snapshotBalances now ok (d, db)))) = do_outbox d"
    using snapshot_store [of d now ok db] by (simp add: same_store_def)
qed

lemma alarm_delivered:
  assumes inv: "ledger_inv d" and del: "delivered x p (d, db)"
  shows "delivered x p (alarm now ok1 ok2 (d, db))"
proof -
  obtain nf d1 db1 where dr: "drainOutbox False now ok1 (d, db) = (nf, (d1, db1))" by (metis prod.exhaust)
  obtain b d2 db2 where sn: "snapshotBalances now ok2 (d1, db1) = (b, (d2, db2))" by (metis prod.exhaust)
  obtain d3 db3 where si: "snapshot_if_due now ok2 (d1, db1) = (d3, db3)" by (metis prod.exhaust)
  note 1 = drain_delivered [OF inv dr del]
  have "mirrored p at db3 = mirrored p at db1" "do_outbox d3 = do_outbox d1" for at
    using snapshot_frame [where db = db1 and d = d1 and now = now and ok = ok2] si
    by (cases b; auto simp: snapshot_if_due_def sn split: if_splits)+
  moreover have "same_book d1 d3"
    using snapshot_if_due_store [of d1 now ok2 db1] by (simp add: si same_store_def)
  ultimately have 3: "delivered x p (d3, db3)" using delivered_same [OF 1] by (simp add: queued_def)
  let ?c = "maybeCleanupOutbox now d3"
  have "queued p at d3 \<Longrightarrow> queued p at ?c" for at
    by (auto simp: queued_def maybeCleanupOutbox_def Let_def)
  then have 4: "delivered x p (?c, db3)" using delivered_same [OF 3] by simp
  have "same_store ?c (scheduleNextAlarm now ?c)" by simp
  then have "delivered x p (scheduleNextAlarm now ?c, db3)"
    using delivered_same [OF 4] by (simp add: same_store_def queued_def)
  then show ?thesis by (simp add: alarm_def dr si)
qed

lemma post_delivery:
  assumes inv: "ledger_inv d" and run: "postTransaction env now dok p (d, db) = (r, (d', db'))"
    and co: "committed p now d d'"
  shows "(db' = db \<and> queued p now d') \<or> db' = run_batch (buildLedgerAuditStatements (pp_merchant_id p) p now) db"
proof -
  let ?s = "seedChart (pp_currency p) d"
  from co obtain ds where sh: "validatePostingShape p = Inr ()" and new: "pp_tx_id p \<notin> posted_ids d"
    and cb: "checkBalances (pp_entries p) (pp_currency p) (do_accounts ?s) = Inr ds"
    by (auto simp: committed_def)
  have nf: "\<not> writes_fault d"
    using post_fault [OF sh new cb, of env now dok db] run co by (auto simp: committed_def)
  obtain mid g d3 where c: "commit_posting mid p now ds g = Some d3"
    and eq: "postTransaction env now dok p (d, db) = settle p now (finish_posting env now dok mid p (d3, db))"
    using post_commit [where now = now, OF inv sh new cb nf] by metis
  have q: "queued p now e" if "do_outbox e = do_outbox d3" for e
    using that commit_fields(3) [OF c] by (auto simp: queued_def outbox_event_def)
  have k: "do_outbox (kickOutboxAlarm now d3) = do_outbox d3" using kickOutboxAlarm_store [of d3 now] by (simp add: same_store_def)
  show ?thesis
    using run eq q [OF k] q [OF refl]
    by (auto simp: finish_posting_def settle_def writeLedgerAuditTrail_def Let_def split: if_splits)
qed

lemma post_nothing_lost:
  assumes inv: "ledger_inv d" and lost: "nothing_lost (d, db)"
    and run: "postTransaction env now dok p (d, db) = (r, (d', db'))"
  shows "nothing_lost (d', db')"
  using post_outcome(2) [OF inv run]
proof
  assume a: "res_status r \<noteq> Posted \<and> same_store (seedChart (pp_currency p) d) d' \<and> db' = db"
  show ?thesis
  proof (rule nothing_lostI [OF lost])
    show "do_posted (fst (d', db')) = do_posted (fst (d, db))" using a by (simp add: same_store_def same_book_def)
    show "delivered x q (d', db')" if "delivered x q (d, db)" for x q
      using that a by (auto simp: delivered_def legs_of_def same_store_def same_book_def queued_def)
  qed
next
  assume "committed p now d d' \<and> (res_status r = Posted \<or> \<not> outbox_enabled env \<and> \<not> dok \<and> res_status r = Failed)"
  then have co: "committed p now d d'" ..
  then have new: "pp_tx_id p \<notin> posted_ids d" and ne: "pp_entries p \<noteq> []"
    by (auto simp: committed_def validatePostingShape_ok)
  have none: "legs_of (pp_tx_id p) d = []"
    using inv new by (auto simp: legs_of_def filter_empty_conv ledger_inv_def journal_ok_def)
  note dl = post_delivery [OF inv run co]
  have old: "delivered x q (d', db')" if x: "x \<in> set (do_posted d)" and q: "delivered x q (d, db)" for x q
  proof -
    have tx: "px_tx_id x \<noteq> pp_tx_id p" using x new unfolding posted_ids_def by (metis image_eqI)
    then have "legs_of (px_tx_id x) d' = legs_of (px_tx_id x) d"
      using co by (auto simp: legs_of_def committed_def journal_of_filter)
    moreover have "queued q (px_posted_at x) d \<Longrightarrow> queued q (px_posted_at x) d'"
      using co by (auto simp: queued_def committed_def)
    moreover have "mirrored q (px_posted_at x) db \<Longrightarrow> mirrored q (px_posted_at x) db'"
      using dl tx q by (auto simp: delivered_def intro: mirrored_mono)
    ultimately show ?thesis using q by (auto simp: delivered_def)
  qed
  have fresh: "delivered x p (d', db')" if "px_tx_id x = pp_tx_id p" "px_posted_at x = now" for x
    using that dl ne none co mirrored_batch [of p now db]
    by (auto simp: delivered_def legs_of_def committed_def journal_of_filter)
  have "x \<in> set (do_posted d) \<or> px_tx_id x = pp_tx_id p \<and> px_posted_at x = now" if "x \<in> set (do_posted d')" for x
    using that co by (auto simp: committed_def)
  with old fresh lost show ?thesis unfolding nothing_lost_def fst_conv by meson
qed


text \<open>
  Calls under which D1 stays the mirror: other writers of D1 keep what is mirrored, and the
  test hook that marks rows synced is off, as it is in production.
\<close>

fun keeps_mirror :: "do_call \<Rightarrow> d1 \<Rightarrow> bool" where
  "keeps_mirror (CForeign db') db \<longleftrightarrow> (\<forall>p at. mirrored p at db \<longrightarrow> mirrored p at db')"
| "keeps_mirror (CTestSynced env i at) db \<longleftrightarrow> ENVIRONMENT env = ''production''"
| "keeps_mirror _ _ \<longleftrightarrow> True"

inductive mirror_reachable :: "string \<Rightarrow> ledger_do \<times> d1 \<Rightarrow> bool" for name where
  m_created: "mirror_reachable name (construct now (empty_do name), db)"
| m_call: "mirror_reachable name s \<Longrightarrow> keeps_mirror c (snd s) \<Longrightarrow> mirror_reachable name (snd (do_exec c s))"

lemma mirror_reachable_do: "mirror_reachable name s \<Longrightarrow> do_reachable name s"
  by (induction rule: mirror_reachable.induct) (auto intro: do_reachable.intros)

lemma do_exec_delivered:
  assumes inv: "ledger_inv (fst s)" and keep: "keeps_mirror c (snd s)"
    and np: "\<And>env now ok p. c \<noteq> CPost env now ok p" and del: "delivered x p s"
  shows "delivered x p (snd (do_exec c s))"
proof -
  obtain d db where s: "s = (d, db)" by (cases s)
  note D = del [unfolded s] and I = inv [unfolded s, simplified]
  have frame: "delivered x p (d', db')" if "same_book d d'" "do_outbox d' = do_outbox d" "\<And>p at. mirrored p at db \<Longrightarrow> mirrored p at db'" for d' db'
    using delivered_same [OF D that(1)] that by (simp add: queued_def)
  show ?thesis
  proof (cases c)
    case (CPost env now ok p)
    with np show ?thesis by blast
  next
    case (CDrain force now ok)
    obtain nf d' db' where dr: "drainOutbox force now ok (d, db) = (nf, (d', db'))" by (metis prod.exhaust)
    with drain_delivered [OF I dr D] show ?thesis by (simp add: CDrain s)
  next
    case (CAlarm now ok1 ok2)
    have "ledger_inv (d\<lparr>do_alarm := None\<rparr>)" using I same_store_inv [OF alarm_field_store(1)] by blast
    moreover have "delivered x p (d\<lparr>do_alarm := None\<rparr>, db)" by (rule frame) simp_all
    ultimately show ?thesis by (simp add: CAlarm s fire_alarm_def alarm_delivered)
  next
    case (CSnapshot now ok)
    obtain b d' db' where sn: "snapshotBalances now ok (d, db) = (b, (d', db'))" by (metis prod.exhaust)
    with snapshot_frame [where d = d and db = db and now = now and ok = ok] snapshot_store [of d now ok db]
    show ?thesis using frame [of d' db'] by (simp add: CSnapshot s same_store_def)
  next
    case (CRestart now)
    have "same_store d (construct now d)" by simp
    then show ?thesis using frame by (simp add: CRestart s same_store_def)
  next
    case (CInject env f)
    then show ?thesis using frame by (auto simp: s testInjectFault_def)
  next
    case (CTestSynced env i at)
    with keep show ?thesis using D by (simp add: s testSetOutboxSynced_def)
  next
    case (CTestAlarm env t)
    then show ?thesis using frame by (auto simp: s testSetAlarm_def)
  next
    case (CTestTrigger env now ok1 ok2)
    let ?d = "d\<lparr>do_lastOutboxCleanupAt := None\<rparr>"
    have "ledger_inv ?d" using I same_store_inv [OF alarm_field_store(2)] by blast
    moreover have "delivered x p (?d, db)" by (rule frame) (simp_all add: same_book_def)
    ultimately show ?thesis using D by (simp add: CTestTrigger s testTriggerAlarm_def alarm_delivered)
  next
    case (CForeign db')
    with keep show ?thesis using frame by (simp add: s)
  qed
qed

lemma mirror_nothing_lost: "mirror_reachable name s \<Longrightarrow> nothing_lost s"
proof (induction rule: mirror_reachable.induct)
  case (m_created now db)
  then show ?case by (simp add: nothing_lost_def construct_def empty_do_def)
next
  case (m_call s c)
  have inv: "ledger_inv (fst s)" using m_call.hyps(1) mirror_reachable_do reachable_inv by blast
  show ?case
  proof (cases "\<exists>env now ok p. c = CPost env now ok p")
    case True
    then obtain env now ok p where c: "c = CPost env now ok p" by blast
    obtain r d' db' where run: "postTransaction env now ok p (fst s, snd s) = (r, (d', db'))" by (metis prod.exhaust)
    have "nothing_lost (d', db')" by (rule post_nothing_lost [OF inv _ run]) (simp add: m_call.IH)
    with run show ?thesis by (simp add: c)
  next
    case False
    then have np: "\<And>env now ok p. c \<noteq> CPost env now ok p" by blast
    have "do_posted (fst (snd (do_exec c s))) = do_posted (fst s)"
      using do_exec_book(1) [OF np, of s] by (simp add: same_book_def)
    then show ?thesis
      using nothing_lostI [OF m_call.IH] do_exec_delivered [OF inv m_call.hyps(2) np] by blast
  qed
qed

text \<open>C8: no posting is lost between the object and D1.  In every state reached while D1's other
  writers keep what is mirrored, each posted transaction has a payload whose entries are exactly
  its journal legs, and that payload is still queued in the outbox or every statement of its
  audit batch has taken effect in D1, across failed drains, restarts, retention clean-ups and the
  break-glass mode.\<close>

theorem posted_never_lost:
  assumes "mirror_reachable name (d, db)" and "x \<in> set (do_posted d)"
  shows "\<exists>p. pp_tx_id p = px_tx_id x \<and> legs_of (px_tx_id x) d = journal_of p (px_posted_at x) \<and>
     (queued p (px_posted_at x) d \<or> mirrored p (px_posted_at x) db)"
  using mirror_nothing_lost [OF assms(1)] assms(2) by (fastforce simp: nothing_lost_def delivered_def)

theorem posted_never_lost_witness:
  "\<exists>p. pp_tx_id p = ''t1'' \<and> legs_of ''t1'' (fst demo_state) = journal_of p 1000 \<and>
     (queued p 1000 (fst demo_state) \<or> mirrored p 1000 (snd demo_state))"
proof -
  have "mirror_reachable ''merchant-7'' (fst demo_state, snd demo_state)"
    unfolding demo_state_def demo_start_def prod.collapse by (rule m_call [OF m_created]) simp
  moreover have "do_posted (fst demo_state) = [\<lparr>px_tx_id = ''t1'', px_reference_type = RPayment,
      px_reference_id = Some ''PAY1'', px_currency = ''BDT'', px_description = ''Payment'', px_posted_at = 1000\<rparr>]"
    by code_simp
  ultimately show ?thesis
    using posted_never_lost [of "''merchant-7''" "fst demo_state" "snd demo_state"
        "\<lparr>px_tx_id = ''t1'', px_reference_type = RPayment,
      px_reference_id = Some ''PAY1'', px_currency = ''BDT'', px_description = ''Payment'', px_posted_at = 1000\<rparr>"]
    by simp
qed


section \<open>One drain: order, bounds, back-off\<close>

text \<open>C9: a drain changes D1 only by delivering the oldest eligible postings, in commit order: at
  most 20 of them in at most 100 statements, each mirrored in D1 and marked synced, every other
  row of the queue untouched.  Otherwise D1 is as it was and no row changes its status or
  payload.\<close>

theorem drain_fifo_bounded:
  assumes "do_reachable name (d, db)" and "drainOutbox force now dok (d, db) = ((n, f), (d', db'))"
  shows "(n = 0 \<and> db' = db \<and> map row_core (do_outbox d') = map row_core (do_outbox d)) \<or>
    (\<exists>inc. inc = take n (filter (drain_eligible force now) (do_outbox d)) \<and> length inc = n \<and> 0 < n \<and>
       n \<le> 20 \<and> length (concat (map row_stmts inc)) \<le> 100 \<and>
       db' = run_batch (concat (map row_stmts inc)) db \<and>
       (\<forall>r \<in> set inc. mirrored (ob_payload r) (ob_payload_posted_at r) db') \<and>
       do_outbox d' = map (\<lambda>r. if r \<in> set inc then sync_row now r else r) (do_outbox d))"
proof -
  have ok: "outbox_ok d" using reachable_inv [OF assms(1)] by (simp add: ledger_inv_def)
  from drain_outcome [OF ok assms(2)] show ?thesis
  proof (elim disjE)
    assume "drain_delivers force now d db n d' db'"
    moreover let ?q = "filter (drain_eligible force now) (do_outbox d)"
    have "take n (take OUTBOX_BATCH_POSTINGS ?q) = take n ?q" if "n \<le> length (take OUTBOX_BATCH_POSTINGS ?q)"
      using that by (simp add: min_def take_take split: if_splits)
    moreover have "distinct (map (\<lambda>r. pp_tx_id (ob_payload r)) (take n ?q))"
      using ok by (simp add: outbox_ok_def distinct_map_filter take_map [symmetric] distinct_take)
    ultimately show ?thesis
      unfolding drain_delivers_def Let_def pending_batch_eq [OF ok]
      by (intro disjI2 exI [of _ "take n ?q"]) (auto simp: outbox_consts rows_mirrored)
  qed blast
qed

theorem drain_fifo_bounded_witness:
  "(case drainOutbox True 2000 True (fst demo_state, snd demo_state) of
      ((n, f), (d', db')) \<Rightarrow> n = 1 \<and> db' \<noteq> snd demo_state \<and>
        db' = run_batch (concat (map row_stmts (take 1 (filter (drain_eligible True 2000) (do_outbox (fst demo_state)))))) (snd demo_state))"
proof -
  obtain n f d' db' where run: "drainOutbox True 2000 True (fst demo_state, snd demo_state) = ((n, f), (d', db'))"
    by (metis prod.exhaust)
  have n: "fst (fst (drainOutbox True 2000 True (fst demo_state, snd demo_state))) = 1" by code_simp
  have "op_ledger_postings (snd (snd (drainOutbox True 2000 True (fst demo_state, snd demo_state)))) \<noteq> []
     \<and> op_ledger_postings (snd demo_state) = []" by code_simp
  then have "db' \<noteq> snd demo_state" using run by auto
  with drain_fifo_bounded [OF _ run, of "''merchant-7''"] demo_reachable n run show ?thesis by auto
qed

lemma retry_backoff_bounds: "1 \<le> k \<Longrightarrow> 2000 \<le> retry_backoff k \<and> retry_backoff k \<le> 60000"
proof -
  assume "1 \<le> k"
  then have "(2::int) ^ 1 \<le> 2 ^ min k 10" by (intro power_increasing) auto
  then show ?thesis by (simp add: retry_backoff_def outbox_consts)
qed

lemma retry_backoff_mono: "j \<le> k \<Longrightarrow> retry_backoff j \<le> retry_backoff k"
proof -
  assume "j \<le> k"
  then have "(2::int) ^ min j 10 \<le> 2 ^ min k 10" by (intro power_increasing) auto
  then have "OUTBOX_DRAIN_RETRY_MS * 2 ^ min j 10 \<le> OUTBOX_DRAIN_RETRY_MS * 2 ^ min k 10"
    by (simp only: OUTBOX_DRAIN_RETRY_MS_def mult_le_cancel_left) simp
  then show ?thesis unfolding retry_backoff_def by (rule min.mono [OF order_refl])
qed

text \<open>The retry back-off never shrinks as retries grow, is at least two seconds from the first
  retry on and never exceeds a minute.\<close>

theorem retry_backoff_capped:
  assumes "1 \<le> j" and "j \<le> k"
  shows "2000 \<le> retry_backoff j \<and> retry_backoff j \<le> retry_backoff k \<and> retry_backoff k \<le> 60000"
  using retry_backoff_bounds [of j] retry_backoff_bounds [of k] retry_backoff_mono [of j k] assms by simp

theorem retry_backoff_capped_witness: "retry_backoff 1 = 2000 \<and> retry_backoff 1 \<le> retry_backoff 99 \<and> retry_backoff 99 \<le> 60000"
  using retry_backoff_capped [of 1 99] by (auto simp: retry_backoff_def outbox_consts)

section \<open>The alarm\<close>

lemma fold_min_le: "fold min ts (t::int) \<le> t \<and> (\<forall>u \<in> set ts. fold min ts t \<le> u)"
proof (induction ts arbitrary: t)
  case (Cons a ts)
  have "fold min ts (min a t) \<le> min a t" "\<forall>u \<in> set ts. fold min ts (min a t) \<le> u" using Cons.IH by blast+
  then show ?case by auto
qed simp

lemma next_retry_min_le:
  assumes "r \<in> set (do_outbox d)" and "ob_status r = ObPending"
  shows "\<exists>n. next_retry_min now d = Some n \<and> n \<le> (case ob_next_retry_at r of None \<Rightarrow> now | Some t \<Rightarrow> t)"
proof -
  let ?f = "\<lambda>r. case ob_next_retry_at r of None \<Rightarrow> now | Some t \<Rightarrow> t"
  let ?l = "map ?f (filter (\<lambda>r. ob_status r = ObPending) (do_outbox d))"
  have m: "?f r \<in> set ?l" using assms by auto
  then obtain t ts where l: "?l = t # ts" by (cases ?l) auto
  with m have "?f r = t \<or> ?f r \<in> set ts" by auto
  then have "fold min ts t \<le> ?f r" using fold_min_le [of ts t] by auto
  with l show ?thesis by (simp add: next_retry_min_def)
qed

lemma alarm_getMerchantId: "do_alarm (snd (getMerchantId d)) = do_alarm d"
  by (auto simp: getMerchantId_def split: option.splits)

lemma alarm_drain: "do_alarm (fst (snd (drainOutbox force now ok (d, db)))) = do_alarm d"
proof (cases "pending_batch force now d")
  case (Cons r rs)
  obtain m e where g: "getMerchantId d = (m, e)" by (cases "getMerchantId d")
  then have "do_alarm e = do_alarm d" using alarm_getMerchantId [of d] by simp
  then have "do_alarm (snd (drain_merchant r d)) = do_alarm d" by (cases m) (simp_all add: drain_merchant_def g)
  then show ?thesis
    by (cases "drain_merchant r d"; cases "fst (drain_merchant r d)")
       (simp_all add: drainOutbox_def Cons Let_def case_prod_beta markOutboxRetry_def mark_synced_def)
qed (simp add: drainOutbox_def)

lemma alarm_snapshot_if_due: "do_alarm (fst (snapshot_if_due now ok (d, db))) = do_alarm d"
proof -
  obtain m e where g: "getMerchantId d = (m, e)" by (cases "getMerchantId d")
  then have "do_alarm e = do_alarm d" using alarm_getMerchantId [of d] by simp
  then show ?thesis by (cases m) (simp_all add: snapshot_if_due_def snapshotBalances_def g)
qed



definition demo_waiting :: "ledger_do \<times> d1" where
  "demo_waiting = ((fst demo_state)\<lparr>do_outbox := map (\<lambda>r. r\<lparr>ob_retry_count := 1, ob_next_retry_at := Some 9000\<rparr>)
     (do_outbox (fst demo_state))\<rparr>, snd demo_state)"


section \<open>Draining the queue to the end\<close>

definition pending_rows :: "ledger_do \<Rightarrow> outbox_row list" where
  "pending_rows d = filter (\<lambda>r. ob_status r = ObPending) (do_outbox d)"

definition drainable :: "ledger_do \<Rightarrow> bool" where
  "drainable d \<longleftrightarrow> \<not> drain_fault d \<and> name_merchant_id (do_name d) \<noteq> None \<and>
     (\<forall>r \<in> set (pending_rows d). length (pp_entries (ob_payload r)) \<le> 98)"

lemma eligible_forced: "drain_eligible True now = (\<lambda>r. ob_status r = ObPending)"
  by (auto simp: drain_eligible_def)

lemma getMerchantId_some:
  "name_merchant_id (do_name d) \<noteq> None \<Longrightarrow> fst (getMerchantId d) \<noteq> None"
  "do_name (snd (getMerchantId d)) = do_name d"
  by (auto simp: getMerchantId_def split: option.splits)

lemma drain_merchant_some:
  assumes "name_merchant_id (do_name d) \<noteq> None"
  shows "\<exists>m. fst (drain_merchant r d) = Some m" and "do_name (snd (drain_merchant r d)) = do_name d"
  using getMerchantId_some [of d] assms by (cases "getMerchantId d"; auto simp: drain_merchant_def)+

lemma compose_batch_first:
  assumes "length (row_stmts r) \<le> OUTBOX_MAX_STATEMENTS" and "compose_batch (r # rs) [] [] = (stmts, inc)"
  shows "inc \<noteq> []"
proof -
  from compose_batch_spec [OF assms(2)] obtain k where k: "inc = take k (r # rs)"
    "k < length (r # rs) \<longrightarrow> length (concat (map row_stmts (take k (r # rs)))) + length (row_stmts ((r # rs) ! k)) > OUTBOX_MAX_STATEMENTS"
    by auto
  show ?thesis using k assms(1) by (cases k) auto
qed

lemma force_drain_step:
  assumes inv: "ledger_inv d" and dr: "drainable d" and ne: "pending_rows d \<noteq> []"
    and run: "drainOutbox True now True (d, db) = (nf, (d', db'))"
  shows "length (pending_rows d') < length (pending_rows d) \<and> drainable d'"
proof -
  have ok: "outbox_ok d" using inv by (simp add: ledger_inv_def)
  have pb: "pending_batch True now d = take OUTBOX_BATCH_POSTINGS (pending_rows d)"
    by (simp add: pending_batch_eq [OF ok] eligible_forced pending_rows_def)
  then obtain r rs where rs: "pending_batch True now d = r # rs"
    using ne by (cases "pending_rows d") (auto simp: outbox_consts)
  have "r \<in> set (pending_rows d)" using pb rs by (metis in_set_takeD list.set_intros(1))
  then have fits: "length (row_stmts r) \<le> OUTBOX_MAX_STATEMENTS"
    using dr by (auto simp: length_row_stmts drainable_def outbox_consts)
  have nm: "name_merchant_id (do_name d) \<noteq> None" using dr by (simp add: drainable_def)
  obtain m e where dm: "drain_merchant r d = (Some m, e)" and en: "do_name e = do_name d"
    using drain_merchant_some [OF nm, of r] by (metis prod.collapse)
  have ef: "do_faults e = do_faults d" using faults_drain_merchant [of r d] by (simp add: dm)
  obtain stmts inc where cb: "compose_batch (r # rs) [] [] = (stmts, inc)" by (cases "compose_batch (r # rs) [] []")
  have "inc \<noteq> []" by (rule compose_batch_first [OF fits cb])
  then have eq: "nf = (length inc, 0)" "d' = mark_synced now inc e"
    using run dr ef by (auto simp: drainOutbox_def rs dm cb drainable_def)
  have run': "drainOutbox True now True (d, db) = ((length inc, 0), (d', db'))" using run eq(1) by simp
  have n0: "length inc > 0" using \<open>inc \<noteq> []\<close> by simp
  have del: "drain_delivers True now d db (length inc) d' db'"
    using drain_outcome [OF ok run'] n0 by auto
  let ?inc = "take (length inc) (pending_batch True now d)"
  have dx: "do_outbox d' = map (\<lambda>x. if x \<in> set ?inc then sync_row now x else x) (do_outbox d)"
    using del by (simp only: drain_delivers_def Let_def)
  have "filter (\<lambda>r. ob_status r = ObPending) (map (\<lambda>x. if x \<in> S then sync_row now x else x) xs) =
      filter (\<lambda>x. x \<notin> S) (filter (\<lambda>r. ob_status r = ObPending) xs)" for S xs
    by (induction xs) (auto simp: sync_row_def)
  then have pr: "pending_rows d' = filter (\<lambda>x. x \<notin> set ?inc) (pending_rows d)"
    unfolding pending_rows_def dx .
  have "r \<in> set ?inc" using rs n0 by (cases "length inc") auto
  then have "length (pending_rows d') < length (pending_rows d)"
    unfolding pr using \<open>r \<in> set (pending_rows d)\<close> by (intro length_filter_less) auto
  moreover have "drainable d'"
    using dr en ef by (auto simp: drainable_def eq(2) mark_synced_def pr [unfolded eq(2) mark_synced_def])
  ultimately show ?thesis ..
qed

definition force_drains :: "time_ms \<Rightarrow> nat \<Rightarrow> ledger_do \<times> d1 \<Rightarrow> ledger_do \<times> d1" where
  "force_drains now k = ((\<lambda>s. snd (drainOutbox True now True s)) ^^ k)"

lemma force_drains_empty:
  assumes "mirror_reachable name s" and "drainable (fst s)" and "length (pending_rows (fst s)) \<le> k"
  shows "mirror_reachable name (force_drains now k s) \<and> pending_rows (fst (force_drains now k s)) = [] \<and>
     do_posted (fst (force_drains now k s)) = do_posted (fst s)"
  using assms
proof (induction k arbitrary: s)
  case 0
  then show ?case by (simp add: force_drains_def)
next
  case (Suc k)
  let ?t = "snd (drainOutbox True now True s)"
  have re: "mirror_reachable name ?t"
    using m_call [OF Suc.prems(1), of "CDrain True now True"] by simp
  have inv: "ledger_inv (fst s)" using Suc.prems(1) mirror_reachable_do reachable_inv by blast
  have bk: "same_book (fst s) (fst ?t)" using drainOutbox_book [of "fst s" True now True "snd s"] by simp
  have "length (pending_rows (fst ?t)) \<le> k \<and> drainable (fst ?t)"
  proof (cases "pending_rows (fst s) = []")
    case True
    have "outbox_ok (fst s)" using inv by (simp add: ledger_inv_def)
    then have "pending_batch True now (fst s) = []"
      using True by (simp add: pending_batch_eq eligible_forced pending_rows_def)
    then have "?t = s" by (cases s) (simp add: drainOutbox_def)
    with True Suc.prems show ?thesis by simp
  next
    case False
    obtain nf d' db' where run: "drainOutbox True now True (fst s, snd s) = (nf, (d', db'))" by (metis prod.exhaust)
    from force_drain_step [OF inv Suc.prems(2) False run] Suc.prems(3) run show ?thesis by simp
  qed
  then have "mirror_reachable name (force_drains now k ?t) \<and> pending_rows (fst (force_drains now k ?t)) = [] \<and>
     do_posted (fst (force_drains now k ?t)) = do_posted (fst ?t)"
    using Suc.IH [OF re] by blast
  then show ?case using bk by (simp add: force_drains_def funpow_Suc_right same_book_def del: funpow.simps(2))
qed



end
