(* ===== verification/Money.thy ===== *)
theory Money
  imports Complex_Main LedgerTypes
begin

text \<open>
  \<open>lib/money.ts\<close>, the strict conversion of \<open>services/ledger.ts\<close> and the exceptions the services
  throw.  Money is a decimal string.  Its arithmetic is that of the third-party package
  decimal.js, so it is a parameter here: a record of the operations the source calls on
  \<open>MoneyDecimal\<close>.  What a theorem relies on is collected in \<open>decimal_contract\<close>, the package's
  documented behaviour on values that fit the configured 30 digits of precision.
\<close>

section \<open>Exceptions\<close>

datatype exn =
    Error string
  | RangeError string
  | DecimalError
  | PostingValidationError posting_error_code string
  | HttpError nat string string
  | NonRetryableError string

definition ValidationErr :: "string \<Rightarrow> exn" where
  "ValidationErr msg = HttpError 400 msg ''VALIDATION_ERROR''"

definition NotFoundErr :: "string \<Rightarrow> exn" where
  "NotFoundErr res = HttpError 404 (res @ '' not found'') ''NOT_FOUND''"

section \<open>The decimal.js operations in use\<close>

record 'd decimal_js =
  dj_new :: "string \<Rightarrow> 'd option"
  dj_int :: "int \<Rightarrow> 'd"
  dj_plus :: "'d \<Rightarrow> 'd \<Rightarrow> 'd"
  dj_minus :: "'d \<Rightarrow> 'd \<Rightarrow> 'd"
  dj_times :: "'d \<Rightarrow> 'd \<Rightarrow> 'd"
  dj_div :: "'d \<Rightarrow> 'd \<Rightarrow> 'd"
  dj_pow :: "'d \<Rightarrow> nat \<Rightarrow> 'd"
  dj_cmp :: "'d \<Rightarrow> 'd \<Rightarrow> int"
  dj_isPositive :: "'d \<Rightarrow> bool"
  dj_isNegative :: "'d \<Rightarrow> bool"
  dj_toFixed :: "'d \<Rightarrow> nat \<Rightarrow> string"

section \<open>lib/money.ts\<close>

type_synonym money = string

text \<open>\<open>new MoneyDecimal(s)\<close> throws on what is not a number.\<close>

definition decimal :: "'d decimal_js \<Rightarrow> money \<Rightarrow> exn + 'd" where
  "decimal L s = (case dj_new L s of None \<Rightarrow> Inl DecimalError | Some d \<Rightarrow> Inr d)"

definition on_decimals :: "'d decimal_js \<Rightarrow> ('d \<Rightarrow> 'd \<Rightarrow> 'b) \<Rightarrow> money \<Rightarrow> money \<Rightarrow> exn + 'b" where
  "on_decimals L f a b =
     (case decimal L a of Inl e \<Rightarrow> Inl e
      | Inr x \<Rightarrow> (case decimal L b of Inl e \<Rightarrow> Inl e | Inr y \<Rightarrow> Inr (f x y)))"

definition money_add :: "'d decimal_js \<Rightarrow> money \<Rightarrow> money \<Rightarrow> nat \<Rightarrow> exn + money" where
  "money_add L a b scale = on_decimals L (\<lambda>x y. dj_toFixed L (dj_plus L x y) scale) a b"

definition money_sub :: "'d decimal_js \<Rightarrow> money \<Rightarrow> money \<Rightarrow> nat \<Rightarrow> exn + money" where
  "money_sub L a b scale = on_decimals L (\<lambda>x y. dj_toFixed L (dj_minus L x y) scale) a b"

definition money_mul :: "'d decimal_js \<Rightarrow> money \<Rightarrow> money \<Rightarrow> nat \<Rightarrow> exn + money" where
  "money_mul L a b scale = on_decimals L (\<lambda>x y. dj_toFixed L (dj_times L x y) scale) a b"

definition money_div :: "'d decimal_js \<Rightarrow> money \<Rightarrow> money \<Rightarrow> nat \<Rightarrow> exn + money" where
  "money_div L a b scale = on_decimals L (\<lambda>x y. dj_toFixed L (dj_div L x y) scale) a b"

definition cmp :: "'d decimal_js \<Rightarrow> money \<Rightarrow> money \<Rightarrow> exn + int" where
  "cmp L a b = on_decimals L (dj_cmp L) a b"

definition money_gt :: "'d decimal_js \<Rightarrow> money \<Rightarrow> money \<Rightarrow> exn + bool" where
  "money_gt L a b = on_decimals L (\<lambda>x y. dj_cmp L x y > 0) a b"

definition money_gte :: "'d decimal_js \<Rightarrow> money \<Rightarrow> money \<Rightarrow> exn + bool" where
  "money_gte L a b = on_decimals L (\<lambda>x y. dj_cmp L x y \<ge> 0) a b"

definition money_lt :: "'d decimal_js \<Rightarrow> money \<Rightarrow> money \<Rightarrow> exn + bool" where
  "money_lt L a b = on_decimals L (\<lambda>x y. dj_cmp L x y < 0) a b"

definition money_lte :: "'d decimal_js \<Rightarrow> money \<Rightarrow> money \<Rightarrow> exn + bool" where
  "money_lte L a b = on_decimals L (\<lambda>x y. dj_cmp L x y \<le> 0) a b"

definition isZero :: "'d decimal_js \<Rightarrow> money \<Rightarrow> exn + bool" where
  "isZero L a = (case decimal L a of Inl e \<Rightarrow> Inl e | Inr x \<Rightarrow> Inr (dj_cmp L x (dj_int L 0) = 0))"

definition isPositive :: "'d decimal_js \<Rightarrow> money \<Rightarrow> exn + bool" where
  "isPositive L a = (case decimal L a of Inl e \<Rightarrow> Inl e | Inr x \<Rightarrow> Inr (dj_isPositive L x))"

definition isNegative :: "'d decimal_js \<Rightarrow> money \<Rightarrow> exn + bool" where
  "isNegative L a = (case decimal L a of Inl e \<Rightarrow> Inl e | Inr x \<Rightarrow> Inr (dj_isNegative L x))"

text \<open>\<open>parseInt(s, 10)\<close> on a string without leading blanks; \<open>None\<close> is \<open>NaN\<close>.\<close>

definition parse_digits :: "string \<Rightarrow> nat option" where
  "parse_digits t = (if takeWhile is_digit t = [] then None else Some (digits_val (takeWhile is_digit t)))"

fun parseInt10 :: "string \<Rightarrow> int option" where
  "parseInt10 [] = None"
| "parseInt10 (c # t) =
     (if c = CHR ''-'' then map_option (\<lambda>n. - int n) (parse_digits t) else map_option int (parse_digits (c # t)))"

definition MAX_SAFE_INTEGER :: int where "MAX_SAFE_INTEGER = 2 ^ 53 - 1"

definition isSafeInteger :: "int \<Rightarrow> bool" where
  "isSafeInteger n \<longleftrightarrow> - MAX_SAFE_INTEGER \<le> n \<and> n \<le> MAX_SAFE_INTEGER"

text \<open>
  \<open>parseInt\<close> reads a double; an integer outside the safe range reads as some unsafe double or
  infinity, so the guard sees the same side of the bound.
\<close>

definition toMinorUnits :: "'d decimal_js \<Rightarrow> money \<Rightarrow> nat \<Rightarrow> exn + int" where
  "toMinorUnits L amount exponent =
     (case decimal L amount of
        Inl e \<Rightarrow> Inl e
      | Inr d \<Rightarrow>
          (let scaled = dj_toFixed L (dj_times L d (dj_pow L (dj_int L 10) exponent)) 0;
               unsafe = RangeError (''toMinorUnits: '' @ amount @ '' at exponent '' @ nat_str exponent @ '' exceeds the safe integer range'')
           in case parseInt10 scaled of
                None \<Rightarrow> Inl unsafe
              | Some minor \<Rightarrow> if isSafeInteger minor then Inr minor else Inl unsafe))"

definition fromMinorUnits :: "'d decimal_js \<Rightarrow> int \<Rightarrow> nat \<Rightarrow> money" where
  "fromMinorUnits L minor exponent =
     dj_toFixed L (dj_div L (dj_int L minor) (dj_pow L (dj_int L 10) exponent)) exponent"

text \<open>The decimal notation of the regular expressions: sign, digits, optional fraction.\<close>

definition split_unsigned :: "bool \<Rightarrow> string \<Rightarrow> (bool \<times> string \<times> string) option" where
  "split_unsigned neg t =
     (let ip = takeWhile is_digit t; rest = dropWhile is_digit t
      in if ip = [] then None
         else case rest of
                [] \<Rightarrow> Some (neg, ip, [])
              | c # fp \<Rightarrow> if c = CHR ''.'' \<and> fp \<noteq> [] \<and> (\<forall>x \<in> set fp. is_digit x) then Some (neg, ip, fp) else None)"

fun split_decimal :: "string \<Rightarrow> (bool \<times> string \<times> string) option" where
  "split_decimal [] = None"
| "split_decimal (c # t) = (if c = CHR ''-'' then split_unsigned True t else split_unsigned False (c # t))"

text \<open>\<open>/^\\d+(\\.\\d+)?$/\<close>\<close>

definition isValidMoney :: "'d decimal_js \<Rightarrow> string \<Rightarrow> bool" where
  "isValidMoney L value =
     (case decimal L value of
        Inl _ \<Rightarrow> False
      | Inr _ \<Rightarrow> (case split_decimal value of Some (neg, ip, fp) \<Rightarrow> \<not> neg | None \<Rightarrow> False))"

definition ZERO :: money where "ZERO = ''0.00''"

section \<open>services/ledger.ts: \<open>moneyToMinorStrict\<close>\<close>

text \<open>\<open>/^-?\\d+(\\.\\d{1,2})?$/\<close>\<close>

definition strict_money :: "money \<Rightarrow> bool" where
  "strict_money s = (case split_decimal s of Some (neg, ip, fp) \<Rightarrow> length fp \<le> 2 | None \<Rightarrow> False)"

definition moneyToMinorStrict :: "'d decimal_js \<Rightarrow> money \<Rightarrow> exn + int" where
  "moneyToMinorStrict L amount =
     (if \<not> strict_money amount
      then Inl (Error (''invalid money value '' @ [CHR 0x27] @ amount @ [CHR 0x27]))
      else case toMinorUnits L amount 2 of
             Inl e \<Rightarrow> Inl e
           | Inr minor \<Rightarrow>
               if \<not> isSafeInteger minor
               then Inl (Error (''money value '' @ [CHR 0x27] @ amount @ [CHR 0x27] @ '' is not representable in minor units''))
               else Inr minor)"

section \<open>What the package promises\<close>

definition decimal_value :: "bool \<times> string \<times> string \<Rightarrow> rat" where
  "decimal_value = (\<lambda>(neg, ip, fp).
     (if neg then -1 else 1) * of_nat (digits_val (ip @ fp)) / 10 ^ length fp)"

text \<open>A value of at most thirty significant digits, which the configured precision keeps exact.\<close>

definition fits_precision :: "rat \<Rightarrow> bool" where
  "fits_precision r \<longleftrightarrow> (\<exists>n k. r * 10 ^ k = of_int n \<and> \<bar>n\<bar> < 10 ^ 30)"

fun pad_zeros :: "nat \<Rightarrow> string \<Rightarrow> string" where
  "pad_zeros k s = (if length s < k then CHR ''0'' # pad_zeros (k - 1) s else s)"

declare pad_zeros.simps [simp del]

text \<open>The fixed-point notation of the integer \<open>n\<close> scaled down by \<open>k\<close> digits.\<close>

definition fixed_str :: "int \<Rightarrow> nat \<Rightarrow> string" where
  "fixed_str n k =
     (let m = nat \<bar>n\<bar>; body = nat_str (m div 10 ^ k) @ (if k = 0 then [] else CHR ''.'' # pad_zeros k (nat_str (m mod 10 ^ k)))
      in if n < 0 then CHR ''-'' # body else body)"

definition decimal_contract :: "'d decimal_js \<Rightarrow> ('d \<Rightarrow> rat) \<Rightarrow> bool" where
  "decimal_contract L val \<longleftrightarrow>
     (\<forall>s x. split_decimal s = Some x \<longrightarrow> (\<exists>d. dj_new L s = Some d \<and> val d = decimal_value x)) \<and>
     (\<forall>n. val (dj_int L n) = of_int n) \<and>
     (\<forall>k \<le> 20. val (dj_pow L (dj_int L 10) k) = 10 ^ k) \<and>
     (\<forall>a b. fits_precision (val a * val b) \<longrightarrow> val (dj_times L a b) = val a * val b) \<and>
     (\<forall>a b. val b \<noteq> 0 \<longrightarrow> fits_precision (val a / val b) \<longrightarrow> val (dj_div L a b) = val a / val b) \<and>
     (\<forall>a b. dj_cmp L a b = sgn (if val a < val b then -1 else if val a = val b then 0 else 1)) \<and>
     (\<forall>d k n. val d * 10 ^ k = of_int n \<longrightarrow> dj_toFixed L d k = fixed_str n k)"


section \<open>Digit strings\<close>

lemma digits_val_append: "digits_val (a @ b) = digits_val a * 10 ^ length b + digits_val b"
proof (induction b rule: rev_induct)
  case (snoc c b)
  have "digits_val (a @ b @ [c]) = digits_val (a @ b) * 10 + digit_val c"
    using digits_val_snoc [of "a @ b" c] by simp
  with snoc show ?case by (simp add: algebra_simps)
qed simp

lemma digit_val_bound: "is_digit c \<Longrightarrow> digit_val c < 10"
  by (auto simp: is_digit_def digit_val_def)

lemma digits_val_bound: "\<forall>c \<in> set s. is_digit c \<Longrightarrow> digits_val s < 10 ^ length s"
proof (induction s rule: rev_induct)
  case (snoc c s)
  then have "digits_val s + 1 \<le> 10 ^ length s" "digit_val c < 10" by (auto simp: digit_val_bound)
  then show ?case by simp
qed simp

lemma length_nat_str: "n < 10 ^ k \<Longrightarrow> 0 < k \<Longrightarrow> length (nat_str n) \<le> k"
proof (induction n arbitrary: k rule: nat_str.induct)
  case (1 n)
  show ?case
  proof (cases "n < 10")
    case True
    with 1 show ?thesis by (simp add: nat_str.simps [of n])
  next
    case False
    have k: "1 < k"
    proof (rule ccontr)
      assume "\<not> 1 < k"
      then have "k = 1" using "1.prems"(2) by simp
      with "1.prems"(1) False show False by simp
    qed
    have "n < 10 * 10 ^ (k - 1)" using "1.prems" k by (cases k) auto
    then have "n div 10 < 10 ^ (k - 1)" by (simp add: div_less_iff_less_mult mult.commute)
    with "1.IH" [OF False, of "k - 1"] k have "length (nat_str (n div 10)) \<le> k - 1" by simp
    with False k show ?thesis by (simp add: nat_str.simps [of n])
  qed
qed

lemma pad_zeros_props:
  "length s \<le> k \<Longrightarrow> length (pad_zeros k s) = k"
  "digits_val (pad_zeros k s) = digits_val s"
  "\<forall>c \<in> set s. is_digit c \<Longrightarrow> \<forall>c \<in> set (pad_zeros k s). is_digit c"
proof -
  have z: "digits_val (CHR ''0'' # t) = digits_val t" for t
    using digits_val_append [of "''0''" t] by (simp add: digits_val_def digit_val_def)
  show "length s \<le> k \<Longrightarrow> length (pad_zeros k s) = k"
    by (induction k s rule: pad_zeros.induct) (subst pad_zeros.simps, auto)
  show "digits_val (pad_zeros k s) = digits_val s"
    by (induction k s rule: pad_zeros.induct) (subst pad_zeros.simps, auto simp: z)
  show "\<forall>c \<in> set s. is_digit c \<Longrightarrow> \<forall>c \<in> set (pad_zeros k s). is_digit c"
    by (induction k s rule: pad_zeros.induct) (subst pad_zeros.simps, auto simp: is_digit_def)
qed

lemma takeWhile_digits: "\<forall>c \<in> set a. is_digit c \<Longrightarrow> b = [] \<or> \<not> is_digit (hd b) \<Longrightarrow> takeWhile is_digit (a @ b) = a"
  by (cases b) (auto simp: takeWhile_tail)

lemma dropWhile_digits: "\<forall>c \<in> set a. is_digit c \<Longrightarrow> b = [] \<or> \<not> is_digit (hd b) \<Longrightarrow> dropWhile is_digit (a @ b) = b"
  by (cases b) (auto simp: dropWhile_append)

lemma nat_str_all_digits: "\<forall>c \<in> set (nat_str n). is_digit c"
  by (simp add: nat_str_digits)

lemma minus_dot_not_digit [simp]: "\<not> is_digit (CHR ''-'')" "\<not> is_digit (CHR ''.'')"
  by (simp_all add: is_digit_def)

lemma hd_nat_str: "hd (nat_str n) \<noteq> CHR ''-''"
  by (metis hd_in_set minus_notin_nat_str nat_str_not_Nil)

lemma parse_digits_nat_str: "parse_digits (nat_str n) = Some n"
proof -
  have tw: "takeWhile is_digit (nat_str n) = nat_str n" by (simp add: takeWhile_eq_all_conv nat_str_digits)
  show ?thesis unfolding parse_digits_def tw by simp
qed

lemma nat_str_Cons: "\<exists>c t. nat_str n = c # t \<and> c \<noteq> CHR ''-''"
  using hd_nat_str [of n] by (cases "nat_str n") auto

lemma parseInt10_int_str: "parseInt10 (int_str n) = Some n"
proof (cases "n < 0")
  case True
  then show ?thesis by (simp add: int_str_def parse_digits_nat_str)
next
  case False
  obtain c t where c: "nat_str (nat n) = c # t" "c \<noteq> CHR ''-''" using nat_str_Cons by blast
  with parse_digits_nat_str [of "nat n"] False show ?thesis by (simp add: int_str_def)
qed

lemma split_unsigned_digits:
  assumes "split_unsigned b t = Some (neg, ip, fp)"
  shows "(\<forall>c \<in> set ip. is_digit c) \<and> (\<forall>c \<in> set fp. is_digit c) \<and> ip \<noteq> [] \<and> length ip \<le> length t"
proof -
  from assms have "ip = takeWhile is_digit t" "ip \<noteq> []" "\<forall>c \<in> set fp. is_digit c"
    by (auto simp: split_unsigned_def Let_def split: if_splits list.splits)
  then show ?thesis using length_takeWhile_le [of is_digit t] by (auto dest: set_takeWhileD)
qed

lemma split_decimal_digits:
  assumes "split_decimal s = Some (neg, ip, fp)"
  shows "(\<forall>c \<in> set ip. is_digit c) \<and> (\<forall>c \<in> set fp. is_digit c) \<and> ip \<noteq> [] \<and> length ip \<le> length s"
proof (cases s)
  case (Cons c t)
  show ?thesis
  proof (cases "c = CHR ''-''")
    case True
    then have "split_unsigned True t = Some (neg, ip, fp)" using assms Cons by simp
    from split_unsigned_digits [OF this] show ?thesis by (auto simp: Cons)
  next
    case False
    then have "split_unsigned False s = Some (neg, ip, fp)" using assms Cons by simp
    then show ?thesis by (rule split_unsigned_digits)
  qed
qed (use assms in simp)

lemma split_fixed_str:
  "split_decimal (fixed_str n 2) = Some (n < 0, nat_str (nat \<bar>n\<bar> div 100), pad_zeros 2 (nat_str (nat \<bar>n\<bar> mod 100)))"
proof -
  define m where "m = nat \<bar>n\<bar>"
  let ?a = "nat_str (m div 100)" and ?b = "pad_zeros 2 (nat_str (m mod 100))"
  have "length ?b = 2" using length_nat_str [of "m mod 100" 2] by (simp add: pad_zeros_props(1))
  then have b: "?b \<noteq> []" by auto
  have d: "\<forall>c \<in> set ?b. is_digit c" by (rule pad_zeros_props(3) [OF nat_str_all_digits])
  have tw: "takeWhile is_digit (?a @ CHR ''.'' # ?b) = ?a" "dropWhile is_digit (?a @ CHR ''.'' # ?b) = CHR ''.'' # ?b"
    using takeWhile_digits [OF nat_str_all_digits, of "CHR ''.'' # ?b"] dropWhile_digits [OF nat_str_all_digits, of "CHR ''.'' # ?b"]
    by simp_all
  have u: "split_unsigned neg (?a @ CHR ''.'' # ?b) = Some (neg, ?a, ?b)" for neg
    using b d tw by (simp add: split_unsigned_def)
  have f: "fixed_str n 2 = (if n < 0 then CHR ''-'' # ?a @ CHR ''.'' # ?b else ?a @ CHR ''.'' # ?b)"
    by (simp add: fixed_str_def Let_def m_def)
  obtain c t where c: "?a = c # t" "c \<noteq> CHR ''-''" using nat_str_Cons by blast
  show ?thesis using u [of True] u [of False] unfolding f m_def [symmetric] c(1) by (simp add: c(2))
qed


section \<open>Exactness of the conversions\<close>

text \<open>The integer a strict money string denotes, in minor units.\<close>

definition minor_of :: "money \<Rightarrow> int" where
  "minor_of s = (case split_decimal s of
     None \<Rightarrow> 0
   | Some (neg, ip, fp) \<Rightarrow>
       (if neg then -1 else 1) * int (digits_val (ip @ fp) * 10 ^ (2 - length fp)))"

lemma minor_of_value:
  assumes "split_decimal s = Some (neg, ip, fp)" and "length fp \<le> 2"
  shows "decimal_value (neg, ip, fp) * 10 ^ 2 = of_int (minor_of s)"
proof -
  have "(10::rat) ^ 2 = 10 ^ (2 - length fp) * 10 ^ length fp"
    using assms(2) by (simp add: power_add [symmetric])
  then have "of_nat (digits_val (ip @ fp)) / 10 ^ length fp * (10::rat) ^ 2 =
      of_nat (digits_val (ip @ fp)) / 10 ^ length fp * (10 ^ (2 - length fp) * 10 ^ length fp)" by (simp only:)
  also have "\<dots> = of_nat (digits_val (ip @ fp)) * 10 ^ (2 - length fp)" by simp
  finally have "of_nat (digits_val (ip @ fp)) / 10 ^ length fp * (10::rat) ^ 2 =
      of_nat (digits_val (ip @ fp)) * 10 ^ (2 - length fp)" .
  then show ?thesis by (simp add: minor_of_def decimal_value_def assms(1))
qed

lemma minor_of_bound:
  assumes "split_decimal s = Some (neg, ip, fp)" and "length fp \<le> 2" and "length s \<le> 28"
  shows "\<bar>minor_of s\<bar> < 10 ^ 30"
proof -
  have "digits_val (ip @ fp) < 10 ^ length (ip @ fp)"
    using split_decimal_digits [OF assms(1)] by (intro digits_val_bound) auto
  then have "digits_val (ip @ fp) * 10 ^ (2 - length fp) < 10 ^ length (ip @ fp) * 10 ^ (2 - length fp)" by simp
  also have "\<dots> = 10 ^ (length ip + 2)" using assms(2) by (simp add: power_add [symmetric])
  also have "\<dots> \<le> 10 ^ 30" using split_decimal_digits [OF assms(1)] assms(3) by (intro power_increasing) auto
  finally have "int (digits_val (ip @ fp) * 10 ^ (2 - length fp)) < int (10 ^ 30)" by (simp only: of_nat_less_iff)
  then show ?thesis by (simp add: minor_of_def assms(1) abs_mult)
qed

lemma fixed_str_0: "fixed_str n 0 = int_str n"
  by (simp add: fixed_str_def int_str_def Let_def)

lemma fits_int: "\<bar>n\<bar> < 10 ^ 30 \<Longrightarrow> r * 10 ^ k = of_int n \<Longrightarrow> fits_precision r"
  by (auto simp: fits_precision_def)

lemma toMinorUnits_exact:
  assumes c: "decimal_contract L val" and s: "split_decimal s = Some (neg, ip, fp)" "length fp \<le> 2" and len: "length s \<le> 28"
  shows "toMinorUnits L s 2 =
     (if isSafeInteger (minor_of s) then Inr (minor_of s)
      else Inl (RangeError (''toMinorUnits: '' @ s @ '' at exponent 2 exceeds the safe integer range'')))"
proof -
  from c s obtain d where d: "dj_new L s = Some d" "val d = decimal_value (neg, ip, fp)"
    unfolding decimal_contract_def by blast
  let ?p = "dj_pow L (dj_int L 10) 2"
  have p: "val ?p = 10 ^ 2" using c unfolding decimal_contract_def by auto
  have v: "val d * val ?p = of_int (minor_of s)" using minor_of_value [OF s] by (simp add: d p)
  have "fits_precision (val d * val ?p)"
    by (rule fits_int [OF minor_of_bound [OF s len], of _ 0]) (simp add: v)
  then have "val (dj_times L d ?p) = of_int (minor_of s)" using c v unfolding decimal_contract_def by metis
  then have "val (dj_times L d ?p) * 10 ^ 0 = of_int (minor_of s)" by simp
  then have "dj_toFixed L (dj_times L d ?p) 0 = int_str (minor_of s)"
    using c unfolding decimal_contract_def by (metis fixed_str_0)
  moreover have "nat_str 2 = ''2''" by (simp add: nat_str.simps digit_char_def)
  ultimately show ?thesis
    by (simp add: toMinorUnits_def decimal_def d parseInt10_int_str)
qed

lemma strict_exact:
  assumes "decimal_contract L val" and "strict_money s" and "length s \<le> 28" and "isSafeInteger (minor_of s)"
  shows "moneyToMinorStrict L s = Inr (minor_of s)"
proof -
  from assms(2) obtain neg ip fp where "split_decimal s = Some (neg, ip, fp)" "length fp \<le> 2"
    by (auto simp: strict_money_def split: option.splits)
  from toMinorUnits_exact [OF assms(1) this assms(3)] assms(2,4) show ?thesis
    by (simp add: moneyToMinorStrict_def)
qed

lemma fromMinor_exact:
  assumes c: "decimal_contract L val" and n: "isSafeInteger n"
  shows "fromMinorUnits L n 2 = fixed_str n 2"
proof -
  let ?p = "dj_pow L (dj_int L 10) 2"
  have p: "val ?p = 10 ^ 2" and i: "val (dj_int L n) = of_int n" using c unfolding decimal_contract_def by auto
  have "\<bar>n\<bar> < 10 ^ 30" using n by (auto simp: isSafeInteger_def MAX_SAFE_INTEGER_def)
  then have "fits_precision (val (dj_int L n) / val ?p)" by (rule fits_int [of _ _ 2]) (simp add: p i)
  then have "val (dj_div L (dj_int L n) ?p) = val (dj_int L n) / val ?p"
    using c p unfolding decimal_contract_def by (metis power_not_zero zero_neq_numeral)
  then have "val (dj_div L (dj_int L n) ?p) * 10 ^ 2 = of_int n" by (simp add: p i)
  then show ?thesis using c unfolding decimal_contract_def fromMinorUnits_def by blast
qed

lemma minor_of_fixed: "minor_of (fixed_str n 2) = n"
proof -
  define m where "m = nat \<bar>n\<bar>"
  have "length (pad_zeros 2 (nat_str (m mod 100))) = 2"
    using length_nat_str [of "m mod 100" 2] by (simp add: pad_zeros_props(1))
  then have "digits_val (nat_str (m div 100) @ pad_zeros 2 (nat_str (m mod 100))) = m"
    by (simp add: digits_val_append pad_zeros_props(2))
  with \<open>length (pad_zeros 2 (nat_str (m mod 100))) = 2\<close> show ?thesis
    unfolding minor_of_def split_fixed_str m_def [symmetric] by (simp add: m_def)
qed

lemma length_fixed_str: "isSafeInteger n \<Longrightarrow> length (fixed_str n 2) \<le> 28"
proof -
  assume "isSafeInteger n"
  define m where "m = nat \<bar>n\<bar>"
  have "m div 100 < 10 ^ 20" using \<open>isSafeInteger n\<close> by (auto simp: m_def isSafeInteger_def MAX_SAFE_INTEGER_def)
  then have "length (nat_str (m div 100)) \<le> 20" by (rule length_nat_str) simp
  moreover have "length (pad_zeros 2 (nat_str (m mod 100))) = 2"
    using length_nat_str [of "m mod 100" 2] by (simp add: pad_zeros_props(1))
  ultimately show ?thesis by (simp add: fixed_str_def Let_def m_def [symmetric])
qed


section \<open>Exact arithmetic meets the contract\<close>

text \<open>Rational arithmetic with the package's notation: an instance on which the theorems run.\<close>

definition round_half_up :: "rat \<Rightarrow> int" where
  "round_half_up r = (if r < 0 then - \<lfloor>- r + 1 / 2\<rfloor> else \<lfloor>r + 1 / 2\<rfloor>)"

definition exact_new :: "string \<Rightarrow> rat option" where
  "exact_new s = map_option decimal_value (split_decimal s)"

definition exact_cmp :: "rat \<Rightarrow> rat \<Rightarrow> int" where
  "exact_cmp a b = (if a < b then -1 else if a = b then 0 else 1)"

definition exact_toFixed :: "rat \<Rightarrow> nat \<Rightarrow> string" where
  "exact_toFixed d k = fixed_str (round_half_up (d * 10 ^ k)) k"

definition exact_decimal :: "rat decimal_js" where
  "exact_decimal = \<lparr>dj_new = exact_new, dj_int = of_int, dj_plus = (+), dj_minus = (-), dj_times = (*),
     dj_div = (/), dj_pow = (^), dj_cmp = exact_cmp, dj_isPositive = (\<lambda>a. 0 \<le> a),
     dj_isNegative = (\<lambda>a. a < 0), dj_toFixed = exact_toFixed\<rparr>"

lemma round_half_up_int: "round_half_up (of_int n) = n"
proof -
  have "\<lfloor>of_int m + 1 / 2 :: rat\<rfloor> = m" for m by (rule floor_unique) simp_all
  from this [of n] this [of "- n"] show ?thesis by (simp add: round_half_up_def)
qed

lemma exact_decimal_contract: "decimal_contract exact_decimal (\<lambda>r. r)"
  by (auto simp: decimal_contract_def exact_decimal_def exact_new_def exact_cmp_def exact_toFixed_def round_half_up_int)

text \<open>C12: a well-formed amount becomes exactly its minor units.  Given the documented behaviour of
  decimal.js, \<open>moneyToMinorStrict\<close> accepts precisely the decimal strings with at most two
  fractional digits, returns the integer they denote in minor units without rounding, and
  refuses loudly when that integer is outside the safe range.\<close>

theorem money_minor_exact:
  assumes "decimal_contract L val" and "length s \<le> 28"
  shows "moneyToMinorStrict L s =
     (if \<not> strict_money s then Inl (Error (''invalid money value '' @ [CHR 0x27] @ s @ [CHR 0x27]))
      else if isSafeInteger (minor_of s) then Inr (minor_of s)
      else Inl (RangeError (''toMinorUnits: '' @ s @ '' at exponent 2 exceeds the safe integer range'')))"
proof (cases "strict_money s")
  case True
  then obtain neg ip fp where "split_decimal s = Some (neg, ip, fp)" "length fp \<le> 2"
    by (auto simp: strict_money_def split: option.splits)
  from toMinorUnits_exact [OF assms(1) this assms(2)] True show ?thesis by (simp add: moneyToMinorStrict_def)
qed (simp add: moneyToMinorStrict_def)

theorem money_minor_exact_witness:
  "moneyToMinorStrict exact_decimal ''100.5'' = Inr 10050 \<and>
   moneyToMinorStrict exact_decimal ''1.005'' = Inl (Error (''invalid money value '' @ [CHR 0x27] @ ''1.005'' @ [CHR 0x27]))"
proof -
  have "strict_money ''100.5''" "minor_of ''100.5'' = 10050" "isSafeInteger 10050" "\<not> strict_money ''1.005''" by code_simp+
  then show ?thesis
    using money_minor_exact [OF exact_decimal_contract, of "''100.5''"]
      money_minor_exact [OF exact_decimal_contract, of "''1.005''"] by simp
qed

text \<open>C13: round trip.  Given the documented behaviour of decimal.js, printing any safe integer of minor
  units with \<open>fromMinorUnits\<close> and reading it back with \<open>moneyToMinorStrict\<close> returns the integer.\<close>

theorem money_roundtrip:
  assumes "decimal_contract L val" and "isSafeInteger n"
  shows "moneyToMinorStrict L (fromMinorUnits L n 2) = Inr n"
proof -
  have "strict_money (fixed_str n 2)"
    using length_nat_str [of "nat \<bar>n\<bar> mod 100" 2] unfolding strict_money_def split_fixed_str
    by (simp add: pad_zeros_props(1))
  then show ?thesis
    unfolding fromMinor_exact [OF assms]
    using strict_exact [OF assms(1) _ length_fixed_str] assms(2) minor_of_fixed [of n] by simp
qed

theorem money_roundtrip_witness: "moneyToMinorStrict exact_decimal (fromMinorUnits exact_decimal (-10005) 2) = Inr (-10005)"
  using money_roundtrip [OF exact_decimal_contract, of "-10005"] by (simp add: isSafeInteger_def MAX_SAFE_INTEGER_def)

end
