(* ===== verification/World.thy ===== *)
theory World
  imports LedgerOutbox Money
begin

text \<open>
  What a request sees of the platform: the D1 database, one ledger object per merchant behind
  the \<open>LEDGER_DO\<close> namespace, the webhook queue, the workflow instances, the pages sent to the
  on-call channel.  Each remote call consumes one \<open>fate\<close>: it arrives, is lost before it takes
  effect, or takes effect and its reply is lost; when the list is used up, calls arrive.  The
  services are programs over this world, so every failure point between two calls is covered.
\<close>

datatype fate = Arrives | Lost | ReplyLost

record webhook_payload =
  wp_event :: string
  wp_transaction_id :: string
  wp_gateway_trx_id :: string
  wp_amount :: string
  wp_currency :: string
  wp_fee :: string
  wp_gateway :: string
  wp_gateway_type :: string
  wp_status :: string
  wp_customer_name :: string
  wp_customer_email :: string
  wp_customer_phone :: string
  wp_metadata :: "(string \<times> string) list"
  wp_timestamp :: iso

record webhook_message =
  wm_webhook_id :: int
  wm_merchant_id :: int
  wm_url :: string
  wm_secret :: string
  wm_event :: string
  wm_payload :: webhook_payload
  wm_attempt :: nat

record app_env =
  ae_ledger :: ledger_env
  ae_ENABLED_GATEWAYS :: "string option"
  ae_APP_URL :: string
  ae_DEFAULT_MFS_NUMBER :: "string option"
  ae_DEFAULT_WEBHOOK_URL :: "string option"
  ae_ALLOW_LOCAL_WEBHOOK_TARGETS :: "string option"

record world =
  w_env :: app_env
  w_now :: time_ms
  w_db :: d1
  w_objects :: "int \<Rightarrow> ledger_do"
  w_d1_up :: bool
  w_queue :: "webhook_message list"
  w_refund_instances :: "(string \<times> int) list"
  w_sweep_instances :: "(string \<times> string) list"
  w_pages :: "string list"
  w_fates :: "fate list"

type_synonym 'a svc = "(world, exn, 'a) prog"

definition next_fate :: "world \<Rightarrow> fate \<times> world" where
  "next_fate w = (case w_fates w of [] \<Rightarrow> (Arrives, w) | f # fs \<Rightarrow> (f, w\<lparr>w_fates := fs\<rparr>))"

definition remote :: "(world \<Rightarrow> 'a \<times> world) \<Rightarrow> 'a svc" where
  "remote op w =
     (case next_fate w of
        (Arrives, w1) \<Rightarrow> (Inr (fst (op w1)), snd (op w1))
      | (Lost, w1) \<Rightarrow> (Inl (Error ''Network connection lost''), w1)
      | (ReplyLost, w1) \<Rightarrow> (Inl (Error ''Network connection lost''), snd (op w1)))"

text \<open>\<open>env.DB\<close>: a read or a write of D1, and an \<open>INSERT .. run()\<close> that answers with \<open>meta\<close>.\<close>

definition d1_get :: "(d1 \<Rightarrow> 'a) \<Rightarrow> 'a svc" where
  "d1_get f = remote (\<lambda>w. (f (w_db w), w))"

definition d1_run :: "(d1 \<Rightarrow> 'a \<times> d1) \<Rightarrow> 'a svc" where
  "d1_run f = remote (\<lambda>w. (fst (f (w_db w)), w\<lparr>w_db := snd (f (w_db w))\<rparr>))"

definition d1_put :: "(d1 \<Rightarrow> d1) \<Rightarrow> unit svc" where
  "d1_put f = d1_run (\<lambda>db. ((), f db))"

text \<open>\<open>getLedgerDO\<close>: a call on the stub of one merchant's object.\<close>

definition ledger_call :: "int \<Rightarrow> (world \<Rightarrow> ledger_do \<times> d1 \<Rightarrow> 'a \<times> (ledger_do \<times> d1)) \<Rightarrow> 'a svc" where
  "ledger_call m f = remote (\<lambda>w.
     case f w (w_objects w m, w_db w) of
       (a, (d, db)) \<Rightarrow> (a, w\<lparr>w_objects := (w_objects w)(m := d), w_db := db\<rparr>))"

definition stub_postTransaction :: "int \<Rightarrow> posting_payload \<Rightarrow> posting_result svc" where
  "stub_postTransaction m p =
     ledger_call m (\<lambda>w. postTransaction (ae_ledger (w_env w)) (w_now w) (w_d1_up w) p)"

definition stub_drainOutbox :: "int \<Rightarrow> (nat \<times> nat) svc" where
  "stub_drainOutbox m = ledger_call m (\<lambda>w. drainOutbox True (w_now w) (w_d1_up w))"

definition stub_read :: "int \<Rightarrow> (time_ms \<Rightarrow> ledger_do \<Rightarrow> 'a) \<Rightarrow> 'a svc" where
  "stub_read m f = ledger_call m (\<lambda>w (d, db). (f (w_now w) d, (d, db)))"

text \<open>\<open>page\<close> writes a log line; it cannot fail.\<close>

definition page :: "string \<Rightarrow> unit svc" where
  "page code = writing (\<lambda>w. w\<lparr>w_pages := w_pages w @ [code]\<rparr>)"

section \<open>Worlds whose objects are sound\<close>

definition obj_ok :: "ledger_do \<Rightarrow> bool" where
  "obj_ok d \<longleftrightarrow> ledger_inv d \<and> seeded_ok d \<and> posted_legs d"

definition world_ok :: "world \<Rightarrow> bool" where
  "world_ok w \<longleftrightarrow> (\<forall>m. obj_ok (w_objects w m))"

lemma reachable_obj_ok: "do_reachable name s \<Longrightarrow> obj_ok (fst s)"
  by (simp add: obj_ok_def reachable_inv reachable_seeded reachable_legs)

lemma exec_obj_ok:
  assumes "obj_ok (fst s)"
  shows "obj_ok (fst (snd (do_exec c s)))" and "posted_ids (fst s) \<subseteq> posted_ids (fst (snd (do_exec c s)))"
  using assms do_exec_inv [of s c] do_exec_seeded [of s c] do_exec_legs [of s c] lo.ids_grow [of s c]
  by (auto simp: obj_ok_def)

text \<open>Posted transactions stay posted: the order in which services only ever move forward.\<close>

definition posted_in :: "world \<Rightarrow> int \<Rightarrow> string \<Rightarrow> bool" where
  "posted_in w m tx \<longleftrightarrow> tx \<in> posted_ids (w_objects w m)"

definition ledger_mono :: "world \<Rightarrow> world \<Rightarrow> bool" where
  "ledger_mono w w' \<longleftrightarrow> (\<forall>m. posted_ids (w_objects w m) \<subseteq> posted_ids (w_objects w' m))"

lemma next_fate_frame:
  "next_fate w = (f, w') \<Longrightarrow> w_db w' = w_db w \<and> w_objects w' = w_objects w \<and> w_env w' = w_env w \<and>
     w_now w' = w_now w \<and> w_d1_up w' = w_d1_up w \<and> w_queue w' = w_queue w \<and>
     w_refund_instances w' = w_refund_instances w \<and> w_sweep_instances w' = w_sweep_instances w \<and> w_pages w' = w_pages w"
  by (auto simp: next_fate_def split: list.splits)

text \<open>
  The rule for a remote call: what the operation guarantees must hold whether or not it ran,
  and the normal return sees the operation's own result.
\<close>

lemma triple_remote:
  assumes "\<And>w. P w \<Longrightarrow> Q (fst (op w)) (snd (op w))"
    and "\<And>w. P w \<Longrightarrow> E (Error ''Network connection lost'') w"
    and "\<And>w. P w \<Longrightarrow> E (Error ''Network connection lost'') (snd (op w))"
    and "\<And>w f w'. P w \<Longrightarrow> next_fate w = (f, w') \<Longrightarrow> P w'"
  shows "triple P (remote op) Q E"
proof (rule tripleI)
  fix w assume P: "P w"
  obtain f w' where nf: "next_fate w = (f, w')" by (cases "next_fate w")
  have "P w'" using assms(4) [OF P nf] .
  then show "case remote op w of (Inl e, w') \<Rightarrow> E e w' | (Inr a, w') \<Rightarrow> Q a w'"
    using assms(1-3) by (cases f) (auto simp: remote_def nf)
qed

section \<open>Invariants across remote calls\<close>

definition fate_stable :: "(world \<Rightarrow> bool) \<Rightarrow> bool" where
  "fate_stable P \<longleftrightarrow> (\<forall>w fs. P w \<longrightarrow> P (w\<lparr>w_fates := fs\<rparr>))"

lemma fate_stableD: "fate_stable P \<Longrightarrow> P w \<Longrightarrow> next_fate w = (f, w') \<Longrightarrow> P w'"
  by (auto simp: fate_stable_def next_fate_def split: list.splits)

lemma triple_call:
  assumes "fate_stable P" and "\<And>w. P w \<Longrightarrow> Q (fst (op w)) (snd (op w))"
    and "\<And>e w. P w \<Longrightarrow> E e w" and "\<And>e w. P w \<Longrightarrow> E e (snd (op w))"
  shows "triple P (remote op) Q E"
  by (rule triple_remote) (use assms fate_stableD [OF assms(1)] in blast)+

lemma triple_d1_get:
  assumes "fate_stable P" and "\<And>w. P w \<Longrightarrow> Q (f (w_db w)) w" and "\<And>e w. P w \<Longrightarrow> E e w"
  shows "triple P (d1_get f) Q E"
  unfolding d1_get_def by (rule triple_call) (use assms in auto)

lemma preserves_d1_get: "fate_stable I \<Longrightarrow> preserves I (d1_get f)"
  by (rule triple_d1_get)

lemma preserves_d1_run:
  assumes "fate_stable I" and "\<And>w. I w \<Longrightarrow> I (w\<lparr>w_db := snd (f (w_db w))\<rparr>)"
  shows "preserves I (d1_run f)"
  unfolding d1_run_def by (rule triple_call) (use assms in auto)

lemma preserves_d1_put:
  assumes "fate_stable I" and "\<And>w. I w \<Longrightarrow> I (w\<lparr>w_db := f (w_db w)\<rparr>)"
  shows "preserves I (d1_put f)"
  unfolding d1_put_def by (rule preserves_d1_run) (use assms in auto)

text \<open>The invariant of the services: sound objects that have kept everything posted in \<open>w0\<close>.\<close>

definition ledger_safe :: "world \<Rightarrow> world \<Rightarrow> bool" where
  "ledger_safe w0 w \<longleftrightarrow> world_ok w \<and> ledger_mono w0 w"

lemma ledger_safe_refl: "world_ok w \<Longrightarrow> ledger_safe w w"
  by (simp add: ledger_safe_def ledger_mono_def)

lemma ledger_safe_stable: "fate_stable (ledger_safe w0)"
  by (simp add: fate_stable_def ledger_safe_def world_ok_def ledger_mono_def)

lemma ledger_safe_posted: "ledger_safe w0 w \<Longrightarrow> posted_in w0 m tx \<Longrightarrow> posted_in w m tx"
  by (auto simp: ledger_safe_def ledger_mono_def posted_in_def)

lemma ledger_safe_upd [simp]:
  "ledger_safe w0 (w\<lparr>w_db := x\<rparr>) = ledger_safe w0 w"
  "ledger_safe w0 (w\<lparr>w_fates := fs\<rparr>) = ledger_safe w0 w"
  "ledger_safe w0 (w\<lparr>w_queue := q\<rparr>) = ledger_safe w0 w"
  "ledger_safe w0 (w\<lparr>w_pages := ps\<rparr>) = ledger_safe w0 w"
  "ledger_safe w0 (w\<lparr>w_refund_instances := rs\<rparr>) = ledger_safe w0 w"
  "ledger_safe w0 (w\<lparr>w_sweep_instances := ss\<rparr>) = ledger_safe w0 w"
  "ledger_safe w0 (w\<lparr>w_now := t\<rparr>) = ledger_safe w0 w"
  by (simp_all add: ledger_safe_def world_ok_def ledger_mono_def)

lemma ledger_safe_object:
  assumes "ledger_safe w0 w" and "obj_ok d" and "posted_ids (w_objects w m) \<subseteq> posted_ids d"
  shows "ledger_safe w0 (w\<lparr>w_objects := (w_objects w)(m := d), w_db := db\<rparr>)"
  using assms by (auto simp: ledger_safe_def world_ok_def ledger_mono_def)

lemma post_not_failed:
  assumes inv: "ledger_inv d" and run: "postTransaction env now dok p (d, db) = (r, (d', db'))" and st: "res_status r \<noteq> Failed"
  shows "pp_tx_id p \<in> posted_ids d'"
proof (cases "res_status r = Posted")
  case True
  with post_outcome(2) [OF inv run] have "committed p now d d'" by auto
  then show ?thesis using committed_recorded(1) [of p now "(d, db)" "(d', db')"] by simp
next
  case False
  then have dup: "res_status r = Duplicate" using st by (cases "res_status r") auto
  then have ss: "same_store (seedChart (pp_currency p) d) d'" using post_outcome(2) [OF inv run] by auto
  have "pp_tx_id p \<in> posted_ids d"
  proof (rule ccontr)
    assume new: "pp_tx_id p \<notin> posted_ids d"
    have "res_status (fst (postTransaction env now dok p (d, db))) \<noteq> Duplicate"
    proof (cases "validatePostingShape p")
      case (Inl e)
      with post_invalid [of p "fst e" "snd e" env now dok d db] show ?thesis by (simp add: failed_result_def)
    next
      case (Inr u)
      then have sh: "validatePostingShape p = Inr ()" by simp
      show ?thesis
      proof (cases "checkBalances (pp_entries p) (pp_currency p) (do_accounts (seedChart (pp_currency p) d))")
        case (Inl e)
        with post_refused [OF sh new, of "fst e" "snd e" env now dok db] show ?thesis by (simp add: failed_result_def)
      next
        case (Inr ds)
        show ?thesis
        proof (cases "writes_fault d")
          case True
          with post_fault [OF sh new Inr] show ?thesis by (simp add: failed_result_def)
        next
          case False
          show ?thesis
            by (rule post_commit [where now = now, OF inv sh new Inr False])
               (auto simp: settle_def finish_posting_def posted_result_def failed_result_def writeLedgerAuditTrail_def Let_def)
        qed
      qed
    qed
    with dup run show False by simp
  qed
  with ss show ?thesis by (simp add: posted_ids_def same_store_def same_book_def)
qed

section \<open>Code equations in applied form\<close>

lemma remote_run:
  "remote op w = (case next_fate w of (f, w1) \<Rightarrow>
     (case f of Lost \<Rightarrow> (Inl (Error ''Network connection lost''), w1)
      | _ \<Rightarrow> (case op w1 of (a, w2) \<Rightarrow> (if f = Arrives then Inr a else Inl (Error ''Network connection lost''), w2))))"
  by (simp add: remote_def split: prod.split fate.split)

lemmas stub_postTransaction_run [code] = stub_postTransaction_def [THEN fun_cong, unfolded ledger_call_def remote_run]
lemmas stub_drainOutbox_run [code] = stub_drainOutbox_def [THEN fun_cong, unfolded ledger_call_def remote_run]

end
