(* ===== verification/Gateways.thy ===== *)
theory Gateways
  imports World
begin

text \<open>
  The gateway component: the catalog reader (\<open>gateways/catalog.ts\<close>), the platform gate
  \<open>ENABLED_GATEWAYS\<close> (\<open>gateways/enabled.ts\<close>), the adapter interface and registry
  (\<open>gateways/base.ts\<close>), the planned stubs (\<open>gateways/planned\<close>) and the registration order of
  \<open>gateways/index.ts\<close>.  The catalog rows and the list of generated adapters are generated
  files; every definition takes them as an argument (\<open>gateway_build\<close>), so what is proved holds
  for any catalog.  An adapter is the record of the operations of \<open>BaseGatewayAdapter\<close>; its
  answers may depend on the time of the call, which stands for the provider's own state.
\<close>

section \<open>Strings\<close>

text \<open>\<open>toLowerCase\<close> and \<open>toUpperCase\<close> on ASCII; \<open>\\s\<close>; \<open>trim\<close>; \<open>split\<close> on a run of separators.\<close>

definition lower_char :: "char \<Rightarrow> char" where
  "lower_char c = (let n = (of_char c :: nat) in if 65 \<le> n \<and> n \<le> 90 then char_of (n + 32) else c)"

definition upper_char :: "char \<Rightarrow> char" where
  "upper_char c = (let n = (of_char c :: nat) in if 97 \<le> n \<and> n \<le> 122 then char_of (n - 32) else c)"

definition toLowerCase :: "string \<Rightarrow> string" where
  "toLowerCase = map lower_char"

definition toUpperCase :: "string \<Rightarrow> string" where
  "toUpperCase = map upper_char"

definition is_space :: "char \<Rightarrow> bool" where
  "is_space c \<longleftrightarrow> (let n = (of_char c :: nat) in n = 32 \<or> 9 \<le> n \<and> n \<le> 13)"

definition trim :: "string \<Rightarrow> string" where
  "trim s = rev (dropWhile is_space (rev (dropWhile is_space s)))"

function split_runs :: "(char \<Rightarrow> bool) \<Rightarrow> string \<Rightarrow> string list" where
  "split_runs p s = takeWhile (\<lambda>c. \<not> p c) s #
     (case dropWhile (\<lambda>c. \<not> p c) s of [] \<Rightarrow> [] | _ # r \<Rightarrow> split_runs p (dropWhile p r))"
  by pat_completeness auto
termination
proof (relation "measure (length \<circ> snd)", simp)
  fix p and s r :: string and c
  assume "dropWhile (\<lambda>c. \<not> p c) s = c # r"
  then have "length s \<ge> length (c # r)" using length_dropWhile_le [of "\<lambda>c. \<not> p c" s] by simp
  then show "((p, dropWhile p r), (p, s)) \<in> measure (length \<circ> snd)"
    using length_dropWhile_le [of p r] by simp
qed

declare split_runs.simps [simp del]

section \<open>The catalog\<close>

record catalog_field_tuple =
  cf_name :: string
  cf_label :: string
  cf_type :: string
  cf_required :: nat
  cf_options :: "(string \<times> string) list option"

datatype catalog_status = Implemented | Ported | Planned

record catalog_entry =
  ce_slug :: string
  ce_name :: string
  ce_version :: string
  ce_description :: string
  ce_category :: string
  ce_color :: string
  ce_currencies :: "string list"
  ce_capabilities :: "string list"
  ce_status :: catalog_status
  ce_flags :: "string list"
  ce_fields :: "catalog_field_tuple list"

record gateway_build =
  gb_catalog :: "catalog_entry list"
  gb_raw_generated :: "string list"

datatype field_type = Text | Password | Select | Checkbox | Textarea

record catalog_field =
  fd_name :: string
  fd_label :: string
  fd_type :: field_type
  fd_required :: bool
  fd_options :: "(string \<times> string) list option"

record catalog_view =
  cv_entry :: catalog_entry
  cv_fields :: "catalog_field list"

definition field_type_of :: "string \<Rightarrow> field_type" where
  "field_type_of t =
     (if t = ''t'' then Text else if t = ''p'' then Password else if t = ''s'' then Select
      else if t = ''c'' then Checkbox else if t = ''ta'' then Textarea else Text)"

definition expandField :: "catalog_field_tuple \<Rightarrow> catalog_field" where
  "expandField t = \<lparr>fd_name = cf_name t, fd_label = cf_label t, fd_type = field_type_of (cf_type t),
     fd_required = (cf_required t = 1), fd_options = cf_options t\<rparr>"

definition catalog_view_of :: "catalog_entry \<Rightarrow> catalog_view" where
  "catalog_view_of e = \<lparr>cv_entry = e, cv_fields = map expandField (ce_fields e)\<rparr>"

definition catalogGateways :: "gateway_build \<Rightarrow> catalog_view list" where
  "catalogGateways b = map catalog_view_of (gb_catalog b)"

definition catalogFind :: "gateway_build \<Rightarrow> string \<Rightarrow> catalog_view option" where
  "catalogFind b slug = map_option catalog_view_of (List.find (\<lambda>e. ce_slug e = slug) (gb_catalog b))"

definition EXTRA_ALIASES :: "(string \<times> string) list" where
  "EXTRA_ALIASES = [(''paypal'', ''paypal''), (''paypal-checkout'', ''paypal''), (''bkash'', ''bkash-api''),
     (''nagad'', ''nagad-merchant-api''), (''ssl'', ''sslcommerz''), (''mercadopago'', ''mercadopago'')]"

definition add_alias :: "string \<times> string \<Rightarrow> (string \<times> string) list \<Rightarrow> (string \<times> string) list" where
  "add_alias p al = (case map_of al (snd p) of
      Some t \<Rightarrow> if t \<noteq> [] then AList.update (fst p) (snd p) al else al | None \<Rightarrow> al)"

definition catalogAliases :: "gateway_build \<Rightarrow> (string \<times> string) list" where
  "catalogAliases b = fold add_alias EXTRA_ALIASES
     (fold (\<lambda>e. AList.update (ce_slug e) (ce_slug e)) (gb_catalog b) [])"

definition catalogSlugs :: "gateway_build \<Rightarrow> string list" where
  "catalogSlugs b = map ce_slug (gb_catalog b)"

definition push_group :: "catalog_entry \<Rightarrow> (string \<times> catalog_view list) list \<Rightarrow> (string \<times> catalog_view list) list" where
  "push_group e gs = AList.update (ce_category e)
     ((case map_of gs (ce_category e) of Some vs \<Rightarrow> vs | None \<Rightarrow> []) @ [catalog_view_of e]) gs"

definition catalogByCategory :: "gateway_build \<Rightarrow> (string \<times> catalog_view list) list" where
  "catalogByCategory b = fold push_group (gb_catalog b) []"

definition count_status :: "gateway_build \<Rightarrow> catalog_status \<Rightarrow> nat" where
  "count_status b s = length (filter (\<lambda>e. ce_status e = s) (gb_catalog b))"

definition catalogCounts :: "gateway_build \<Rightarrow> nat \<times> nat \<times> nat \<times> nat" where
  "catalogCounts b = (length (gb_catalog b), count_status b Implemented, count_status b Ported, count_status b Planned)"

section \<open>Registered slugs\<close>

definition CORE_GATEWAY_SLUGS :: "string list" where
  "CORE_GATEWAY_SLUGS = [''stripe'', ''paypal'', ''bkash-api'', ''razorpay'', ''nagad-merchant-api'']"

definition HAND_PORTED_GATEWAY_SLUGS :: "string list" where
  "HAND_PORTED_GATEWAY_SLUGS = [''rocket'', ''sslcommerz'', ''aamarpay'', ''shurjopay'', ''portwallet'']"

definition plannedGatewaySlugs :: "gateway_build \<Rightarrow> string list" where
  "plannedGatewaySlugs b = map ce_slug (filter (\<lambda>e. ce_status e = Planned) (gb_catalog b))"

definition GENERATED_GATEWAY_SLUGS :: "gateway_build \<Rightarrow> string list" where
  "GENERATED_GATEWAY_SLUGS b = filter (\<lambda>s. s \<notin> set (plannedGatewaySlugs b)) (gb_raw_generated b)"

definition IMPLEMENTED_GATEWAY_SLUGS :: "gateway_build \<Rightarrow> string list" where
  "IMPLEMENTED_GATEWAY_SLUGS b = sort (remdups (CORE_GATEWAY_SLUGS @ HAND_PORTED_GATEWAY_SLUGS @
     GENERATED_GATEWAY_SLUGS b @ plannedGatewaySlugs b))"

definition PORTED_GATEWAY_SLUGS :: "gateway_build \<Rightarrow> string list" where
  "PORTED_GATEWAY_SLUGS b = sort (remdups (CORE_GATEWAY_SLUGS @ HAND_PORTED_GATEWAY_SLUGS @ GENERATED_GATEWAY_SLUGS b))"

section \<open>The platform gate\<close>

record gateway_selection =
  gs_enabled :: "string list"
  gs_dropped :: "string list"
  gs_allEnabled :: bool
  gs_raw :: string

definition DEFAULT_ENABLED_GATEWAY_SLUGS :: "string list" where
  "DEFAULT_ENABLED_GATEWAY_SLUGS = [''bkash-api'', ''nagad-merchant-api'', ''sslcommerz'', ''aamarpay'',
     ''shurjopay'', ''portwallet'', ''stripe'']"

definition is_separator :: "char \<Rightarrow> bool" where
  "is_separator c \<longleftrightarrow> c = CHR '','' \<or> c = CHR '';'' \<or> is_space c"

definition tokenize :: "string \<Rightarrow> string list" where
  "tokenize raw = filter (\<lambda>t. t \<noteq> []) (map (\<lambda>t. toLowerCase (trim t)) (split_runs is_separator raw))"

text \<open>
  \<open>GATEWAY_ALIASES[token]\<close> reads a plain object, so a name of \<open>Object.prototype\<close> that is in
  lower case answers with an inherited member, which is truthy but no string.
\<close>

datatype js_member = Absent | Own string | Inherited

definition lookup_alias :: "gateway_build \<Rightarrow> string \<Rightarrow> js_member" where
  "lookup_alias b k = (case map_of (catalogAliases b) k of
      Some v \<Rightarrow> Own v
    | None \<Rightarrow> if k = ''constructor'' \<or> k = ''__proto__'' then Inherited else Absent)"

definition add_token :: "gateway_build \<Rightarrow> string \<Rightarrow> string list \<times> string list \<Rightarrow> string list \<times> string list" where
  "add_token b token acc = (case lookup_alias b token of
      Own canonical \<Rightarrow>
        if canonical = [] then (fst acc, snd acc @ [token])
        else if canonical \<in> set (IMPLEMENTED_GATEWAY_SLUGS b)
        then (if canonical \<in> set (fst acc) then acc else (fst acc @ [canonical], snd acc))
        else acc
    | Inherited \<Rightarrow> acc
    | Absent \<Rightarrow> (fst acc, snd acc @ [token]))"

definition parseEnabledGateways :: "gateway_build \<Rightarrow> string option \<Rightarrow> gateway_selection" where
  "parseEnabledGateways b raw =
     (let value = trim (case raw of None \<Rightarrow> [] | Some r \<Rightarrow> r); tokens = tokenize value in
      if value = [] then \<lparr>gs_enabled = DEFAULT_ENABLED_GATEWAY_SLUGS, gs_dropped = [], gs_allEnabled = False, gs_raw = value\<rparr>
      else if tokens = [''all''] \<or> tokens = [''*'']
      then \<lparr>gs_enabled = IMPLEMENTED_GATEWAY_SLUGS b, gs_dropped = [], gs_allEnabled = True, gs_raw = value\<rparr>
      else (let (enabled, dropped) = fold (add_token b) tokens ([], [])
            in \<lparr>gs_enabled = enabled, gs_dropped = dropped, gs_allEnabled = False, gs_raw = value\<rparr>))"

type_synonym selection_cache = "(string \<times> gateway_selection) option"

definition gatewaySelection :: "gateway_build \<Rightarrow> string option \<Rightarrow> selection_cache \<Rightarrow> gateway_selection \<times> selection_cache" where
  "gatewaySelection b raw cache =
     (let key = trim (case raw of None \<Rightarrow> [] | Some r \<Rightarrow> r); fresh = parseEnabledGateways b raw in
      case cache of
        Some (k, s) \<Rightarrow> if k = key then (s, cache) else (fresh, Some (key, fresh))
      | None \<Rightarrow> (fresh, Some (key, fresh)))"

text \<open>\<open>GATEWAY_ALIASES[slug.toLowerCase()] ?? slug\<close>; an inherited member is no registry slug.\<close>

definition canonical_slug :: "gateway_build \<Rightarrow> string \<Rightarrow> string option" where
  "canonical_slug b slug = (case lookup_alias b (toLowerCase slug) of Own v \<Rightarrow> Some v | Inherited \<Rightarrow> None | Absent \<Rightarrow> Some slug)"

definition isGatewayEnabled :: "gateway_build \<Rightarrow> string option \<Rightarrow> string \<Rightarrow> selection_cache \<Rightarrow> bool \<times> selection_cache" where
  "isGatewayEnabled b raw slug cache =
     (case gatewaySelection b raw cache of (sel, cache') \<Rightarrow>
        ((case canonical_slug b slug of None \<Rightarrow> False | Some c \<Rightarrow> c \<in> set (gs_enabled sel)), cache'))"

definition GatewayDisabledErr :: "string \<Rightarrow> exn" where
  "GatewayDisabledErr slug = HttpError 422 (''Gateway '' @ [CHR 0x27] @ slug @ [CHR 0x27] @
     '' is not enabled on this deployment. Add it to the ENABLED_GATEWAYS environment variable (see docs/GATEWAYS.md).'') ''GATEWAY_DISABLED''"

definition GatewayNotPortedErr :: "string \<Rightarrow> exn" where
  "GatewayNotPortedErr slug = HttpError 422 (''Gateway '' @ [CHR 0x22] @ slug @ [CHR 0x22] @
     '' is listed in the catalog but its adapter port is not complete in this build. It cannot process payments yet '' @
     [CHR 0xE2, CHR 0x80, CHR 0x94] @ '' see docs/GATEWAYS.md (planned gateways).'') ''GATEWAY_NOT_PORTED''"

definition assertGatewayEnabled :: "gateway_build \<Rightarrow> string option \<Rightarrow> string \<Rightarrow> selection_cache \<Rightarrow> (exn + unit) \<times> selection_cache" where
  "assertGatewayEnabled b raw slug cache =
     (case isGatewayEnabled b raw slug cache of (ok, cache') \<Rightarrow>
        (if ok then Inr () else Inl (GatewayDisabledErr slug), cache'))"

definition gatewayStatus :: "gateway_build \<Rightarrow> string \<Rightarrow> catalog_status option" where
  "gatewayStatus b slug = (case canonical_slug b slug of None \<Rightarrow> None
      | Some c \<Rightarrow> map_option (\<lambda>v. ce_status (cv_entry v)) (catalogFind b c))"

definition assertGatewayPorted :: "gateway_build \<Rightarrow> string \<Rightarrow> exn + unit" where
  "assertGatewayPorted b slug = (case canonical_slug b slug of None \<Rightarrow> Inr ()
      | Some c \<Rightarrow> (if map_option (\<lambda>v. ce_status (cv_entry v)) (catalogFind b c) = Some Planned
                 then Inl (GatewayNotPortedErr c) else Inr ()))"

definition starts_with :: "string \<Rightarrow> string \<Rightarrow> bool" where
  "starts_with s p \<longleftrightarrow> take (length p) s = p"

definition suggestCanonical :: "gateway_build \<Rightarrow> string \<Rightarrow> string option" where
  "suggestCanonical b token =
     (let lower = toLowerCase token in
      if length lower < 3 then None
      else case sort_key length (filter (\<lambda>k. k \<noteq> token \<and> (starts_with k lower \<or> starts_with lower k)) (map fst (catalogAliases b))) of
             [] \<Rightarrow> None | c # _ \<Rightarrow> Some c)"

section \<open>Adapters and their registry\<close>

record initiate_params =
  ip_amount :: money
  ip_currency :: string
  ip_trx_id :: string
  ip_redirect_url :: string
  ip_cancel_url :: string

type_synonym credentials = "(string \<times> string) list"

record initiate_result =
  ir_redirect_url :: "string option"
  ir_form_html :: "string option"
  ir_session_id :: "string option"

datatype verify_status = VCompleted | VFailed | VPending | VCancelled

record verify_result =
  vr_success :: bool
  vr_gateway_trx_id :: string
  vr_amount :: "money option"
  vr_currency :: "string option"
  vr_status :: verify_status
  vr_error :: "string option"
  vr_trx_id :: "string option"

record refund_result =
  rr_success :: bool
  rr_refund_id :: "string option"
  rr_error :: "string option"

datatype refund_query = QCompleted | QPending | QFailed

record gateway_metadata =
  md_name :: string
  md_slug :: string
  md_version :: string
  md_description :: string
  md_author :: string
  md_supported_currencies :: "string list"
  md_capabilities :: "string list"

record adapter =
  ad_metadata :: gateway_metadata
  ad_initiate :: "time_ms \<Rightarrow> initiate_params \<Rightarrow> credentials \<Rightarrow> exn + initiate_result"
  ad_verify :: "time_ms \<Rightarrow> (string \<times> string) list \<Rightarrow> credentials \<Rightarrow> exn + verify_result"
  ad_verifyWebhook :: "time_ms \<Rightarrow> string \<Rightarrow> (string \<times> string) list \<Rightarrow> credentials \<Rightarrow> exn + bool"
  ad_refund :: "time_ms \<Rightarrow> string \<Rightarrow> money \<Rightarrow> credentials \<Rightarrow> exn + refund_result"
  ad_queryRefundStatus :: "time_ms \<Rightarrow> string \<Rightarrow> credentials \<Rightarrow> exn + refund_query"

definition supports :: "adapter \<Rightarrow> string \<Rightarrow> bool" where
  "supports a feature \<longleftrightarrow> feature \<in> set (md_capabilities (ad_metadata a))"

definition supportedCurrencies :: "adapter \<Rightarrow> string list" where
  "supportedCurrencies a = md_supported_currencies (ad_metadata a)"

text \<open>The defaults of the abstract class, which an adapter without the feature inherits.\<close>

definition base_verifyWebhook :: "time_ms \<Rightarrow> string \<Rightarrow> (string \<times> string) list \<Rightarrow> credentials \<Rightarrow> exn + bool" where
  "base_verifyWebhook t body headers creds = Inr False"

definition base_refund :: "time_ms \<Rightarrow> string \<Rightarrow> money \<Rightarrow> credentials \<Rightarrow> exn + refund_result" where
  "base_refund t trx amount creds = Inr \<lparr>rr_success = False, rr_refund_id = None, rr_error = Some ''refund_not_supported''\<rparr>"

definition base_queryRefundStatus :: "time_ms \<Rightarrow> string \<Rightarrow> credentials \<Rightarrow> exn + refund_query" where
  "base_queryRefundStatus t rid creds = Inr QPending"

type_synonym gateway_registry = "(string \<times> adapter) list"

definition register :: "string \<Rightarrow> adapter \<Rightarrow> gateway_registry \<Rightarrow> gateway_registry" where
  "register slug a reg = AList.update slug a reg"

definition resolve :: "gateway_registry \<Rightarrow> string \<Rightarrow> exn + adapter" where
  "resolve reg slug = (case map_of reg slug of
      None \<Rightarrow> Inl (Error (''Gateway adapter not registered: '' @ slug)) | Some a \<Rightarrow> Inr a)"

definition list_slugs :: "gateway_registry \<Rightarrow> string list" where
  "list_slugs reg = map fst reg"

definition has_slug :: "gateway_registry \<Rightarrow> string \<Rightarrow> bool" where
  "has_slug reg slug \<longleftrightarrow> map_of reg slug \<noteq> None"

text \<open>The fail-closed stub of a planned provider.\<close>

definition stub_initiate :: "string \<Rightarrow> time_ms \<Rightarrow> initiate_params \<Rightarrow> credentials \<Rightarrow> exn + initiate_result" where
  "stub_initiate slug t params creds = Inl (GatewayNotPortedErr slug)"

definition stub_verify :: "time_ms \<Rightarrow> (string \<times> string) list \<Rightarrow> credentials \<Rightarrow> exn + verify_result" where
  "stub_verify t cb creds = Inr \<lparr>vr_success = False, vr_gateway_trx_id = [], vr_amount = None, vr_currency = None,
     vr_status = VFailed, vr_error = None, vr_trx_id = None\<rparr>"

definition PlannedGatewayStub :: "catalog_entry \<Rightarrow> adapter" where
  "PlannedGatewayStub e = \<lparr>
     ad_metadata = \<lparr>md_name = ce_name e, md_slug = ce_slug e, md_version = ce_version e,
       md_description = ce_description e, md_author = ''EdgePay Gateway Suite (AGPLv3) (planned)'',
       md_supported_currencies = ce_currencies e, md_capabilities = ce_capabilities e\<rparr>,
     ad_initiate = stub_initiate (ce_slug e), ad_verify = stub_verify, ad_verifyWebhook = base_verifyWebhook,
     ad_refund = base_refund, ad_queryRefundStatus = base_queryRefundStatus\<rparr>"

definition register_planned :: "catalog_entry \<Rightarrow> gateway_registry \<times> string list \<Rightarrow> gateway_registry \<times> string list" where
  "register_planned e acc =
     (if ce_status e \<noteq> Planned \<or> has_slug (fst acc) (ce_slug e) then acc
      else (register (ce_slug e) (PlannedGatewayStub e) (fst acc), snd acc @ [ce_slug e]))"

definition registerPlannedGateways :: "gateway_build \<Rightarrow> gateway_registry \<Rightarrow> gateway_registry \<times> string list" where
  "registerPlannedGateways b reg = fold register_planned (gb_catalog b) (reg, [])"

definition registerGenerated :: "gateway_build \<Rightarrow> string \<Rightarrow> adapter \<Rightarrow> gateway_registry \<Rightarrow> gateway_registry" where
  "registerGenerated b slug a reg = (if slug \<in> set (plannedGatewaySlugs b) then reg else register slug a reg)"

text \<open>
  Module load: the ten hand-written adapters, the generated ones, the planned stubs last.  The
  adapters themselves are the argument \<open>impl\<close>.
\<close>

definition load_registry :: "gateway_build \<Rightarrow> (string \<Rightarrow> adapter) \<Rightarrow> gateway_registry" where
  "load_registry b impl =
     fst (registerPlannedGateways b
       (fold (\<lambda>s. registerGenerated b s (impl s)) (gb_raw_generated b)
         (fold (\<lambda>s. register s (impl s)) (CORE_GATEWAY_SLUGS @ HAND_PORTED_GATEWAY_SLUGS) [])))"

section \<open>What the registry holds\<close>

lemma find_SomeD: "List.find P xs = Some x \<Longrightarrow> P x \<and> x \<in> set xs"
  by (induction xs) (auto split: if_splits)

lemma map_of_register [simp]: "map_of (register s a reg) k = (if k = s then Some a else map_of reg k)"
  by (simp add: register_def update_conv')

lemma has_slug_iff: "has_slug reg s \<longleftrightarrow> s \<in> dom (map_of reg)"
  by (auto simp: has_slug_def)

lemma fold_register_map:
  "map_of (fold (\<lambda>s. register s (impl s)) ss reg) k = (if k \<in> set ss then Some (impl k) else map_of reg k)"
  by (induction ss arbitrary: reg) auto

lemma fold_generated_map:
  "map_of (fold (\<lambda>s. registerGenerated b s (impl s)) ss reg) k =
     (if k \<in> set ss \<and> k \<notin> set (plannedGatewaySlugs b) then Some (impl k) else map_of reg k)"
  by (induction ss arbitrary: reg) (auto simp: registerGenerated_def)

lemma fold_planned_map:
  "map_of (fst (fold register_planned es acc)) k = (case map_of (fst acc) k of
      Some a \<Rightarrow> Some a
    | None \<Rightarrow> map_option PlannedGatewayStub (List.find (\<lambda>e. ce_status e = Planned \<and> ce_slug e = k) es))"
  by (induction es arbitrary: acc) (auto simp: register_planned_def has_slug_def split: option.splits)

definition hand_written :: "string \<Rightarrow> bool" where
  "hand_written s \<longleftrightarrow> s \<in> set (CORE_GATEWAY_SLUGS @ HAND_PORTED_GATEWAY_SLUGS)"

lemma load_registry_map:
  "map_of (load_registry b impl) k =
     (if hand_written k \<or> k \<in> set (GENERATED_GATEWAY_SLUGS b) then Some (impl k)
      else map_option PlannedGatewayStub (List.find (\<lambda>e. ce_status e = Planned \<and> ce_slug e = k) (gb_catalog b)))"
  by (simp add: load_registry_def registerPlannedGateways_def fold_planned_map fold_generated_map fold_register_map
      GENERATED_GATEWAY_SLUGS_def hand_written_def split: option.splits)

text \<open>The list \<open>IMPLEMENTED_GATEWAY_SLUGS\<close> names exactly the slugs that resolve after module load, each
  once and in order, and every planned provider without a hand-written adapter resolves to a
  stub that refuses to initiate and never verifies a payment, even when a generated adapter for
  it exists.\<close>

theorem registry_matches_slugs:
  "{s. \<exists>a. resolve (load_registry b impl) s = Inr a} = set (IMPLEMENTED_GATEWAY_SLUGS b) \<and>
   sorted (IMPLEMENTED_GATEWAY_SLUGS b) \<and> distinct (IMPLEMENTED_GATEWAY_SLUGS b) \<and>
   {s. s \<in> set (plannedGatewaySlugs b) \<and> s \<notin> set (CORE_GATEWAY_SLUGS @ HAND_PORTED_GATEWAY_SLUGS)} \<subseteq>
     {s. \<exists>a. resolve (load_registry b impl) s = Inr a \<and>
        (\<forall>t p c. ad_initiate a t p c = Inl (GatewayNotPortedErr s)) \<and>
        (\<forall>t d c. \<exists>v. ad_verify a t d c = Inr v \<and> \<not> vr_success v)}"
proof (intro conjI)
  have found: "(\<exists>e. List.find (\<lambda>e. ce_status e = Planned \<and> ce_slug e = k) (gb_catalog b) = Some e) \<longleftrightarrow> k \<in> set (plannedGatewaySlugs b)" for k
    using find_None_iff [of "\<lambda>e. ce_status e = Planned \<and> ce_slug e = k" "gb_catalog b"]
    by (auto simp: plannedGatewaySlugs_def)
  have res: "(\<exists>a. resolve (load_registry b impl) s = Inr a) \<longleftrightarrow>
      hand_written s \<or> s \<in> set (GENERATED_GATEWAY_SLUGS b) \<or> s \<in> set (plannedGatewaySlugs b)" for s
    using found [of s] by (auto simp: resolve_def load_registry_map split: option.splits)
  show "{s. \<exists>a. resolve (load_registry b impl) s = Inr a} = set (IMPLEMENTED_GATEWAY_SLUGS b)"
    unfolding res by (auto simp: IMPLEMENTED_GATEWAY_SLUGS_def hand_written_def)
  show "sorted (IMPLEMENTED_GATEWAY_SLUGS b)" "distinct (IMPLEMENTED_GATEWAY_SLUGS b)"
    by (simp_all add: IMPLEMENTED_GATEWAY_SLUGS_def)
  show "{s. s \<in> set (plannedGatewaySlugs b) \<and> s \<notin> set (CORE_GATEWAY_SLUGS @ HAND_PORTED_GATEWAY_SLUGS)} \<subseteq>
     {s. \<exists>a. resolve (load_registry b impl) s = Inr a \<and>
        (\<forall>t p c. ad_initiate a t p c = Inl (GatewayNotPortedErr s)) \<and>
        (\<forall>t d c. \<exists>v. ad_verify a t d c = Inr v \<and> \<not> vr_success v)}"
  proof clarify
    fix s assume s: "s \<in> set (plannedGatewaySlugs b)" "s \<notin> set (CORE_GATEWAY_SLUGS @ HAND_PORTED_GATEWAY_SLUGS)"
    then obtain e where e: "List.find (\<lambda>e. ce_status e = Planned \<and> ce_slug e = s) (gb_catalog b) = Some e"
      using found by blast
    from find_SomeD [OF this] have "ce_slug e = s" by simp
    moreover have "resolve (load_registry b impl) s = Inr (PlannedGatewayStub e)"
      using s by (simp add: resolve_def load_registry_map e hand_written_def GENERATED_GATEWAY_SLUGS_def)
    ultimately show "\<exists>a. resolve (load_registry b impl) s = Inr a \<and>
        (\<forall>t p c. ad_initiate a t p c = Inl (GatewayNotPortedErr s)) \<and>
        (\<forall>t d c. \<exists>v. ad_verify a t d c = Inr v \<and> \<not> vr_success v)"
      by (auto simp: PlannedGatewayStub_def stub_initiate_def stub_verify_def)
  qed
qed

section \<open>What the platform gate enables\<close>

lemma add_token_props:
  "distinct (fst acc) \<Longrightarrow> distinct (fst (add_token b t acc))"
  "set (fst (add_token b t acc)) = set (fst acc) \<union> {c. lookup_alias b t = Own c \<and> c \<noteq> [] \<and> c \<in> set (IMPLEMENTED_GATEWAY_SLUGS b)}"
  "set (snd (add_token b t acc)) = set (snd acc) \<union> (if lookup_alias b t \<in> {Absent, Own []} then {t} else {})"
  by (auto simp: add_token_def split: js_member.splits)

lemma fold_add_token:
  "distinct (fst acc) \<Longrightarrow> distinct (fst (fold (add_token b) ts acc))"
  "set (fst (fold (add_token b) ts acc)) =
     set (fst acc) \<union> {c. \<exists>t \<in> set ts. lookup_alias b t = Own c \<and> c \<noteq> [] \<and> c \<in> set (IMPLEMENTED_GATEWAY_SLUGS b)}"
  "set (snd (fold (add_token b) ts acc)) = set (snd acc) \<union> {t \<in> set ts. lookup_alias b t \<in> {Absent, Own []}}"
proof -
  show "distinct (fst acc) \<Longrightarrow> distinct (fst (fold (add_token b) ts acc))"
    by (induction ts arbitrary: acc) (simp_all add: add_token_props(1))
  show "set (fst (fold (add_token b) ts acc)) =
     set (fst acc) \<union> {c. \<exists>t \<in> set ts. lookup_alias b t = Own c \<and> c \<noteq> [] \<and> c \<in> set (IMPLEMENTED_GATEWAY_SLUGS b)}"
    by (induction ts arbitrary: acc) (auto simp: add_token_props(2))
  show "set (snd (fold (add_token b) ts acc)) = set (snd acc) \<union> {t \<in> set ts. lookup_alias b t \<in> {Absent, Own []}}"
    by (induction ts arbitrary: acc) (auto simp: add_token_props(3) split: if_splits)
qed

text \<open>C15: the platform gate fails closed.  A blank setting enables the seven audited gateways; the single
  token \<open>all\<close> or \<open>*\<close> enables every registered slug; any other value enables, without repetition,
  exactly the registered slugs that its tokens name, so a list of unknown tokens enables
  nothing, and each token that names nothing is reported as dropped.\<close>

theorem gate_fails_closed:
  fixes b raw
  defines "value \<equiv> trim (case raw of None \<Rightarrow> [] | Some r \<Rightarrow> r)" and "sel \<equiv> parseEnabledGateways b raw"
  shows "if value = [] then gs_enabled sel = DEFAULT_ENABLED_GATEWAY_SLUGS
    else if tokenize value \<in> {[''all''], [''*'']} then gs_enabled sel = IMPLEMENTED_GATEWAY_SLUGS b
    else distinct (gs_enabled sel) \<and>
      set (gs_enabled sel) = {c \<in> set (IMPLEMENTED_GATEWAY_SLUGS b). c \<noteq> [] \<and> (\<exists>t \<in> set (tokenize value). lookup_alias b t = Own c)} \<and>
      set (gs_dropped sel) = {t \<in> set (tokenize value). lookup_alias b t \<in> {Absent, Own []}}"
proof -
  obtain en dr where f: "fold (add_token b) (tokenize value) ([], []) = (en, dr)" by fastforce
  from fold_add_token [where acc = "([], [])" and b = b and ts = "tokenize value"]
  have "distinct en" "set en = {c. \<exists>t \<in> set (tokenize value). lookup_alias b t = Own c \<and> c \<noteq> [] \<and> c \<in> set (IMPLEMENTED_GATEWAY_SLUGS b)}"
    "set dr = {t \<in> set (tokenize value). lookup_alias b t \<in> {Absent, Own []}}"
    by (simp_all add: f)
  then show ?thesis
    by (auto simp: sel_def parseEnabledGateways_def Let_def value_def [symmetric] f)
qed

section \<open>The selection cache\<close>

definition cache_ok :: "gateway_build \<Rightarrow> selection_cache \<Rightarrow> bool" where
  "cache_ok b cache \<longleftrightarrow> (\<forall>k s. cache = Some (k, s) \<longrightarrow> s = parseEnabledGateways b (Some k))"

lemma trim_trim [simp]: "trim (trim s) = trim s"
proof -
  have hd: "dropWhile p (rev (dropWhile p (rev (dropWhile p xs)))) = rev (dropWhile p (rev (dropWhile p xs)))" for p and xs :: string
  proof (cases "dropWhile p xs")
    case Nil
    show ?thesis unfolding Nil by simp
  next
    case (Cons y ys)
    then have "\<not> p y" by (metis hd_dropWhile list.distinct(1) list.sel(1))
    then have "dropWhile p (rev ys @ [y]) = dropWhile p (rev ys) @ [y]"
      by (metis dropWhile_append dropWhile_append3 dropWhile_eq_Nil_conv set_rev)
    then show ?thesis unfolding Cons using \<open>\<not> p y\<close> by simp
  qed
  show ?thesis by (simp add: trim_def hd)
qed

lemma parse_trim [simp]:
  "parseEnabledGateways b (Some (trim r)) = parseEnabledGateways b (Some r)"
  "parseEnabledGateways b (Some []) = parseEnabledGateways b None"
  by (simp_all add: parseEnabledGateways_def)

fun selections :: "gateway_build \<Rightarrow> string option list \<Rightarrow> selection_cache \<Rightarrow> gateway_selection list" where
  "selections b [] cache = []"
| "selections b (r # rs) cache = (case gatewaySelection b r cache of (s, cache') \<Rightarrow> s # selections b rs cache')"

lemma selection_step:
  "cache_ok b cache \<Longrightarrow> fst (gatewaySelection b raw cache) = parseEnabledGateways b raw \<and> cache_ok b (snd (gatewaySelection b raw cache))"
  by (auto simp: gatewaySelection_def cache_ok_def Let_def split: option.splits)

lemma selections_parse: "cache_ok b cache \<Longrightarrow> selections b rs cache = map (parseEnabledGateways b) rs"
proof (induction rs arbitrary: cache)
  case (Cons r rs)
  with selection_step [of b cache r] show ?case by (auto split: prod.splits)
qed simp

text \<open>Memoization is transparent.  However the calls of an isolate are ordered, starting from the
  empty cache, every call of \<open>gatewaySelection\<close> returns what parsing its argument afresh returns.\<close>

theorem selection_cache_transparent: "selections b rs None = map (parseEnabledGateways b) rs"
  by (rule selections_parse) (simp add: cache_ok_def)

end
