(* ===== verification/LedgerService.thy ===== *)
theory LedgerService
  imports World
begin

text \<open>
  \<open>services/ledger.ts\<close>: the worker side of the ledger.  \<open>buildPayload\<close> resolves D1 accounts and
  converts amounts, \<open>post\<close> makes the one RPC into the merchant's object and turns a structured
  failure back into an exception, and the two entry points post a payment or a refund under the
  deterministic id that makes them idempotent.  A fresh \<open>randomUuid()\<close> is an argument.
\<close>

section \<open>Inputs\<close>

record post_entry_input =
  in_account_id :: int
  in_direction :: direction
  in_amount :: money

record post_input =
  in_merchant_id :: int
  in_reference_type :: reference_type
  in_reference_id :: "string option"
  in_description :: string
  in_entries :: "post_entry_input list"

section \<open>Building and posting a payload\<close>

fun build_entries :: "'d decimal_js \<Rightarrow> int \<Rightarrow> ledger_account_row list \<Rightarrow> post_entry_input list \<Rightarrow> exn + posting_entry list" where
  "build_entries L mid rows [] = Inr []"
| "build_entries L mid rows (e # es) =
     (case List.find (\<lambda>a. la_id a = in_account_id e) rows of
        None \<Rightarrow> Inl (Error (''Unknown ledger account '' @ int_str (in_account_id e) @ '' for merchant '' @ int_str mid))
      | Some a \<Rightarrow>
          (case moneyToMinorStrict L (in_amount e) of
             Inl x \<Rightarrow> Inl x
           | Inr minor \<Rightarrow>
               (case build_entries L mid rows es of
                  Inl x \<Rightarrow> Inl x
                | Inr ps \<Rightarrow> Inr (\<lparr>pe_account_code = la_code a, pe_d1_account_id = la_id a,
                     pe_direction = in_direction e, pe_amount = in_amount e, pe_amount_minor = JInt minor\<rparr> # ps))))"

definition account_rows :: "int \<Rightarrow> int set \<Rightarrow> d1 \<Rightarrow> ledger_account_row list" where
  "account_rows mid ids db = filter (\<lambda>a. la_merchant_id a = mid \<and> la_id a \<in> ids) (op_ledger_accounts db)"

definition payload_of :: "post_input \<Rightarrow> string option \<Rightarrow> string \<Rightarrow> ledger_account_row list \<Rightarrow> posting_entry list \<Rightarrow> posting_payload" where
  "payload_of input key uuid rows es =
     \<lparr>pp_tx_id = (case key of Some k \<Rightarrow> k
        | None \<Rightarrow> ''m'' @ int_str (in_merchant_id input) @ '':'' @ reference_str (in_reference_type input) @ '':'' @
                  (case in_reference_id input of Some r \<Rightarrow> r | None \<Rightarrow> uuid)),
      pp_merchant_id = in_merchant_id input, pp_reference_type = in_reference_type input,
      pp_reference_id = in_reference_id input, pp_description = in_description input,
      pp_currency = (case rows of [] \<Rightarrow> ''BDT'' | a # _ \<Rightarrow> la_currency a), pp_entries = es\<rparr>"

definition buildPayload :: "'d decimal_js \<Rightarrow> post_input \<Rightarrow> string option \<Rightarrow> string \<Rightarrow> posting_payload svc" where
  "buildPayload L input key uuid =
     andThen (d1_get (account_rows (in_merchant_id input) (in_account_id ` set (in_entries input)))) (\<lambda>rows.
       case build_entries L (in_merchant_id input) rows (in_entries input) of
         Inl e \<Rightarrow> throw e
       | Inr es \<Rightarrow> ret (payload_of input key uuid rows es))"

definition post :: "'d decimal_js \<Rightarrow> post_input \<Rightarrow> string option \<Rightarrow> string \<Rightarrow> posting_result svc" where
  "post L input key uuid =
     andThen (buildPayload L input key uuid) (\<lambda>payload.
     andThen (stub_postTransaction (in_merchant_id input) payload) (\<lambda>result.
       if res_status result = Failed
       then throw (PostingValidationError
              (case res_error_code result of Some c \<Rightarrow> c | None \<Rightarrow> INTERNAL)
              (case res_error result of Some m \<Rightarrow> m | None \<Rightarrow> ''posting failed''))
       else ret result))"

text \<open>\<open>reverse\<close>: the inverse entries of a posted transaction, under an id derived from its uuid.\<close>

definition flip_direction :: "direction \<Rightarrow> direction" where
  "flip_direction d = (if d = Debit then Credit else Debit)"

definition reverse_ledger :: "'d decimal_js \<Rightarrow> int \<Rightarrow> string \<Rightarrow> string \<Rightarrow> posting_result svc" where
  "reverse_ledger L ltid reason uuid =
     andThen (d1_get (\<lambda>db. List.find (\<lambda>t. lt_id t = ltid \<and> lt_status t = LtPosted) (op_ledger_transactions db))) (\<lambda>original.
     case original of
       None \<Rightarrow> throw (Error ''Ledger transaction not found or already reversed'')
     | Some t \<Rightarrow>
       andThen (d1_get (\<lambda>db. filter (\<lambda>e. le_ledger_transaction_id e = ltid) (op_ledger_entries db))) (\<lambda>entries.
       andThen (post L \<lparr>in_merchant_id = lt_merchant_id t, in_reference_type = RAdjustment,
                  in_reference_id = Some (int_str (lt_id t)),
                  in_description = ''REVERSAL of #'' @ int_str (lt_id t) @ '': '' @ reason,
                  in_entries = map (\<lambda>e. \<lparr>in_account_id = le_account_id e,
                     in_direction = flip_direction (le_direction e), in_amount = le_amount e\<rparr>) entries\<rparr>
                (Some (''m'' @ int_str (lt_merchant_id t) @ '':reversal:'' @ lt_uuid t)) uuid) (\<lambda>result.
       andThen (d1_put (\<lambda>db. db\<lparr>op_ledger_transactions :=
                  update_where (\<lambda>x. lt_id x = ltid \<and> lt_status x = LtPosted) (\<lambda>x. x\<lparr>lt_status := LtReversed\<rparr>)
                    (op_ledger_transactions db)\<rparr>)) (\<lambda>_.
       ret result))))"

section \<open>Reads\<close>

definition getAccountBalance :: "'d decimal_js \<Rightarrow> int \<Rightarrow> int \<Rightarrow> money svc" where
  "getAccountBalance L accountId merchantId =
     andThen (d1_get (\<lambda>db. List.find (\<lambda>a. la_id a = accountId \<and> la_merchant_id a = merchantId) (op_ledger_accounts db))) (\<lambda>acct.
     case acct of
       None \<Rightarrow> ret ''0.00''
     | Some a \<Rightarrow>
       andThen (stub_read merchantId (\<lambda>_. getBalances)) (\<lambda>balances.
         ret (case List.find (\<lambda>b. acc_code b = la_code a) balances of
                None \<Rightarrow> ''0.00'' | Some row \<Rightarrow> fromMinorUnits L (acc_balance_minor row) 2)))"

definition ledger_trialBalance :: "'d decimal_js \<Rightarrow> int \<Rightarrow> (bool \<times> money \<times> money) svc" where
  "ledger_trialBalance L merchantId =
     andThen (stub_read merchantId (\<lambda>_. trialBalance)) (\<lambda>t.
       ret (tb_balanced t, fromMinorUnits L (tb_total_debit_minor t) 2, fromMinorUnits L (tb_total_credit_minor t) 2))"

section \<open>Accounts\<close>

definition account_key :: "ledger_account_row \<Rightarrow> int \<times> string \<times> string" where
  "account_key a = (la_merchant_id a, la_code a, la_currency a)"

definition insert_account :: "int \<Rightarrow> string \<Rightarrow> chart_account \<Rightarrow> d1 \<Rightarrow> d1" where
  "insert_account mid cur c db =
     (if (mid, chart_code c, cur) \<in> set (map account_key (op_ledger_accounts db)) then db
      else db\<lparr>op_ledger_accounts := op_ledger_accounts db @
                [\<lparr>la_id = seq_ledger_accounts db, la_merchant_id = mid, la_code = chart_code c,
                  la_name = chart_name c, la_type = chart_type c, la_currency = cur\<rparr>],
              seq_ledger_accounts := seq_ledger_accounts db + 1\<rparr>)"

definition createDefaultChartOfAccounts :: "int \<Rightarrow> string \<Rightarrow> unit svc" where
  "createDefaultChartOfAccounts mid cur = d1_put (fold (insert_account mid cur) DEFAULT_CHART_OF_ACCOUNTS)"

definition getAccountByCode :: "int \<Rightarrow> string \<Rightarrow> string \<Rightarrow> ledger_account_row option svc" where
  "getAccountByCode mid code cur =
     d1_get (\<lambda>db. List.find (\<lambda>a. la_merchant_id a = mid \<and> la_code a = code \<and> la_currency a = cur) (op_ledger_accounts db))"

section \<open>Payments and refunds\<close>

definition em_dash :: string where "em_dash = [CHR 0xE2, CHR 0x80, CHR 0x94]"

definition payment_tx :: "int \<Rightarrow> int \<Rightarrow> string" where
  "payment_tx mid pid = ''m'' @ int_str mid @ '':payment:'' @ int_str pid"

definition refund_tx :: "int \<Rightarrow> string \<Rightarrow> string" where
  "refund_tx mid rid = ''m'' @ int_str mid @ '':refund:'' @ rid"

definition payment_entries :: "ledger_account_row \<Rightarrow> ledger_account_row \<Rightarrow> ledger_account_row \<Rightarrow> money \<Rightarrow> money \<Rightarrow> post_entry_input list" where
  "payment_entries clearing revenue feeExpense amount fee =
     [\<lparr>in_account_id = la_id clearing, in_direction = Debit, in_amount = amount\<rparr>,
      \<lparr>in_account_id = la_id revenue, in_direction = Credit, in_amount = amount\<rparr>] @
     (if fee \<noteq> ''0.00'' then
        [\<lparr>in_account_id = la_id feeExpense, in_direction = Debit, in_amount = fee\<rparr>,
         \<lparr>in_account_id = la_id clearing, in_direction = Credit, in_amount = fee\<rparr>]
      else [])"

definition postPaymentLedgerEntry :: "'d decimal_js \<Rightarrow> int \<Rightarrow> int \<Rightarrow> money \<Rightarrow> money \<Rightarrow> string \<Rightarrow> string \<Rightarrow> (int \<times> string \<times> posting_status) svc" where
  "postPaymentLedgerEntry L mid pid amount fee cur uuid =
     andThen (getAccountByCode mid ''1010'' cur) (\<lambda>clearing.
     andThen (getAccountByCode mid ''4000'' cur) (\<lambda>revenue.
     andThen (getAccountByCode mid ''5000'' cur) (\<lambda>feeExpense.
     case (clearing, revenue, feeExpense) of
       (Some c, Some r, Some f) \<Rightarrow>
         andThen (post L \<lparr>in_merchant_id = mid, in_reference_type = RPayment,
                    in_reference_id = Some (int_str pid),
                    in_description = ''Payment '' @ int_str pid @ '' '' @ em_dash @ '' '' @ amount @ '' '' @ cur,
                    in_entries = payment_entries c r f amount fee\<rparr>
                  (Some (payment_tx mid pid)) uuid) (\<lambda>result.
         ret (case res_ledger_transaction_id result of Some i \<Rightarrow> i | None \<Rightarrow> 0, res_tx_id result, res_status result))
     | _ \<Rightarrow> throw (Error ''Default ledger accounts not initialized for merchant''))))"

definition postRefundLedgerEntry :: "'d decimal_js \<Rightarrow> int \<Rightarrow> string \<Rightarrow> money \<Rightarrow> string \<Rightarrow> string \<Rightarrow> (int \<times> string \<times> posting_status) svc" where
  "postRefundLedgerEntry L mid rid amount cur uuid =
     andThen (getAccountByCode mid ''1010'' cur) (\<lambda>clearing.
     andThen (getAccountByCode mid ''4000'' cur) (\<lambda>revenue.
     case (clearing, revenue) of
       (Some c, Some r) \<Rightarrow>
         andThen (post L \<lparr>in_merchant_id = mid, in_reference_type = RRefund,
                    in_reference_id = Some rid,
                    in_description = ''Refund '' @ rid @ '' '' @ em_dash @ '' '' @ amount @ '' '' @ cur,
                    in_entries = [\<lparr>in_account_id = la_id r, in_direction = Debit, in_amount = amount\<rparr>,
                                  \<lparr>in_account_id = la_id c, in_direction = Credit, in_amount = amount\<rparr>]\<rparr>
                  (Some (refund_tx mid rid)) uuid) (\<lambda>result.
         ret (case res_ledger_transaction_id result of Some i \<Rightarrow> i | None \<Rightarrow> 0, res_tx_id result, res_status result))
     | _ \<Rightarrow> throw (Error ''Default ledger accounts not initialized for merchant'')))"


section \<open>Consistency of an object with its mirror\<close>

fun d1_minor :: "'d decimal_js \<Rightarrow> ledger_account_row list \<Rightarrow> ledger_entry_row list \<Rightarrow> (string \<times> int) list \<Rightarrow> exn + (string \<times> int) list" where
  "d1_minor L accounts [] acc = Inr acc"
| "d1_minor L accounts (e # es) acc =
     (let code = (case List.find (\<lambda>a. la_id a = le_account_id e) accounts of
                    Some a \<Rightarrow> la_code a | None \<Rightarrow> int_str (le_account_id e))
      in case toMinorUnits L (le_amount e) 2 of
           Inl x \<Rightarrow> Inl x
         | Inr minor \<Rightarrow> d1_minor L accounts es
             (AList.update code
                ((case map_of acc code of None \<Rightarrow> 0 | Some v \<Rightarrow> v) + minor * (if le_direction e = Debit then 1 else -1)) acc))"

definition signed_do :: "account_row \<Rightarrow> int" where
  "signed_do b = (if acc_type b = Asset \<or> acc_type b = Expense then acc_balance_minor b else - acc_balance_minor b)"

definition find_discrepancies :: "'d decimal_js \<Rightarrow> ledger_account_row list \<Rightarrow> (string \<times> int) list \<Rightarrow> account_row list \<Rightarrow> discrepancy list" where
  "find_discrepancies L accounts d1 balances =
     map (\<lambda>b. \<lparr>ds_account_id = (case List.find (\<lambda>a. la_code a = acc_code b) accounts of Some a \<Rightarrow> la_id a | None \<Rightarrow> 0),
               ds_code = acc_code b,
               ds_d1_balance = fromMinorUnits L (case map_of d1 (acc_code b) of None \<Rightarrow> 0 | Some v \<Rightarrow> v) 2,
               ds_do_balance = fromMinorUnits L (acc_balance_minor b) 2\<rparr>)
       (filter (\<lambda>b. (case map_of d1 (acc_code b) of None \<Rightarrow> 0 | Some v \<Rightarrow> v) \<noteq> signed_do b) balances)"

definition merchant_entries :: "int \<Rightarrow> d1 \<Rightarrow> ledger_entry_row list" where
  "merchant_entries mid db =
     filter (\<lambda>e. le_merchant_id e = mid \<and> le_account_id e \<in> set (map la_id (op_ledger_accounts db))) (op_ledger_entries db)"

definition verifyDurableObjectConsistency :: "'d decimal_js \<Rightarrow> int \<Rightarrow> (bool \<times> discrepancy list) svc" where
  "verifyDurableObjectConsistency L mid =
     andThen (catching (andThen (stub_drainOutbox mid) (\<lambda>_. ret ())) (\<lambda>_. ret ())) (\<lambda>_.
     andThen (d1_get (\<lambda>db. filter (\<lambda>a. la_merchant_id a = mid) (op_ledger_accounts db))) (\<lambda>accounts.
     andThen (d1_get (merchant_entries mid)) (\<lambda>entries.
     andThen (stub_read mid (\<lambda>_. getBalances)) (\<lambda>doBalances.
     andThen (stub_read mid (\<lambda>_. trialBalance)) (\<lambda>doTrial.
     case d1_minor L accounts entries [] of
       Inl e \<Rightarrow> throw e
     | Inr d1 \<Rightarrow>
         (let ds = find_discrepancies L accounts d1 doBalances
          in ret (ds = [] \<and> tb_balanced doTrial, ds)))))))"

section \<open>Transaction ids\<close>

lemma m_prefix_inj:
  "''m'' @ int_str m @ CHR '':'' # x = ''m'' @ int_str m' @ CHR '':'' # y \<longleftrightarrow> m = m' \<and> x = y"
proof
  assume "''m'' @ int_str m @ CHR '':'' # x = ''m'' @ int_str m' @ CHR '':'' # y"
  then have "int_str m @ CHR '':'' # x = int_str m' @ CHR '':'' # y" by simp
  from separator_inj [OF this] show "m = m' \<and> x = y" by simp
qed simp

text \<open>The ids under which payments and refunds are posted never collide: two payment postings
  share an id only for the same merchant and intent, two refund postings only for the same
  merchant and refund, and a payment id is never a refund id.\<close>

theorem posting_ids_distinct:
  "(payment_tx m i = payment_tx m' i' \<longleftrightarrow> m = m' \<and> i = i') \<and>
   (refund_tx m r = refund_tx m' r' \<longleftrightarrow> m = m' \<and> r = r') \<and>
   payment_tx m i \<noteq> refund_tx m' r'"
  using m_prefix_inj [of m "''payment:'' @ int_str i" m' "''payment:'' @ int_str i'"]
    m_prefix_inj [of m "''refund:'' @ r" m' "''refund:'' @ r'"]
    m_prefix_inj [of m "''payment:'' @ int_str i" m' "''refund:'' @ r'"]
  by (auto simp: payment_tx_def refund_tx_def)

section \<open>What a posting does, exactly\<close>

definition same_state :: "world \<Rightarrow> world \<Rightarrow> bool" where
  "same_state w0 w \<longleftrightarrow> w_objects w = w_objects w0 \<and> w_db w = w_db w0 \<and> w_env w = w_env w0 \<and>
     w_now w = w_now w0 \<and> w_d1_up w = w_d1_up w0"

lemma same_state_stable: "fate_stable (same_state w0)"
  by (simp add: fate_stable_def same_state_def)

lemma same_state_refl: "same_state w w"
  by (simp add: same_state_def)

definition posts :: "'d decimal_js \<Rightarrow> world \<Rightarrow> post_input \<Rightarrow> string option \<Rightarrow> string \<Rightarrow> posting_result \<Rightarrow> world \<Rightarrow> bool" where
  "posts L w0 input key uuid r w \<longleftrightarrow>
     (\<exists>es d db. build_entries L (in_merchant_id input)
          (account_rows (in_merchant_id input) (in_account_id ` set (in_entries input)) (w_db w0)) (in_entries input) = Inr es \<and>
        postTransaction (ae_ledger (w_env w0)) (w_now w0) (w_d1_up w0)
          (payload_of input key uuid (account_rows (in_merchant_id input) (in_account_id ` set (in_entries input)) (w_db w0)) es)
          (w_objects w0 (in_merchant_id input), w_db w0) = (r, (d, db)) \<and>
        res_status r \<noteq> Failed \<and>
        w_objects w = (w_objects w0)(in_merchant_id input := d) \<and> w_db w = db)"

lemma triple_get_exact:
  "triple (same_state w0) (d1_get f) (\<lambda>a w. same_state w0 w \<and> a = f (w_db w0)) (\<lambda>_ _. True)"
  by (rule triple_d1_get [OF same_state_stable]) (auto simp: same_state_def)

lemma triple_pure: "(A \<Longrightarrow> triple P m Q E) \<Longrightarrow> triple (\<lambda>w. P w \<and> A) m Q E"
  by (cases A) (auto simp: triple_def)

lemma stub_post_exact:
  "triple (same_state w0) (stub_postTransaction m p)
     (\<lambda>r w. \<exists>d db. postTransaction (ae_ledger (w_env w0)) (w_now w0) (w_d1_up w0) p (w_objects w0 m, w_db w0) = (r, (d, db)) \<and>
        w_objects w = (w_objects w0)(m := d) \<and> w_db w = db) (\<lambda>_ _. True)"
  unfolding stub_postTransaction_def ledger_call_def
proof (rule triple_call [OF same_state_stable], goal_cases)
  case (1 w)
  obtain r d db where "postTransaction (ae_ledger (w_env w0)) (w_now w0) (w_d1_up w0) p (w_objects w0 m, w_db w0) = (r, (d, db))"
    by (metis prod.exhaust)
  with 1 show ?case by (simp add: same_state_def)
qed auto

lemma post_exact:
  "triple (same_state w0) (post L input key uuid) (posts L w0 input key uuid) (\<lambda>_ _. True)"
  unfolding post_def
proof (rule triple_andThen)
  let ?rows = "account_rows (in_merchant_id input) (in_account_id ` set (in_entries input)) (w_db w0)"
  let ?R = "\<lambda>p. \<exists>es. build_entries L (in_merchant_id input) ?rows (in_entries input) = Inr es \<and> p = payload_of input key uuid ?rows es"
  show "triple (same_state w0) (buildPayload L input key uuid) (\<lambda>p w. same_state w0 w \<and> ?R p) (\<lambda>_ _. True)"
    unfolding buildPayload_def
  proof (rule triple_andThen [OF triple_get_exact], rule triple_pure)
    fix rows assume "rows = ?rows"
    then show "triple (same_state w0)
       (case build_entries L (in_merchant_id input) rows (in_entries input) of Inl e \<Rightarrow> throw e
         | Inr es \<Rightarrow> ret (payload_of input key uuid rows es))
       (\<lambda>p w. same_state w0 w \<and> ?R p) (\<lambda>_ _. True)"
      by (cases "build_entries L (in_merchant_id input) rows (in_entries input)") (auto intro!: triple_throw triple_ret)
  qed
  fix p
  show "triple (\<lambda>w. same_state w0 w \<and> ?R p)
     (andThen (stub_postTransaction (in_merchant_id input) p) (\<lambda>result.
       if res_status result = Failed
       then throw (PostingValidationError
              (case res_error_code result of Some c \<Rightarrow> c | None \<Rightarrow> INTERNAL)
              (case res_error result of Some m \<Rightarrow> m | None \<Rightarrow> ''posting failed''))
       else ret result)) (posts L w0 input key uuid) (\<lambda>_ _. True)"
  proof (rule triple_pure)
    assume R: "?R p"
    show "triple (same_state w0)
     (andThen (stub_postTransaction (in_merchant_id input) p) (\<lambda>result.
       if res_status result = Failed
       then throw (PostingValidationError
              (case res_error_code result of Some c \<Rightarrow> c | None \<Rightarrow> INTERNAL)
              (case res_error result of Some m \<Rightarrow> m | None \<Rightarrow> ''posting failed''))
       else ret result)) (posts L w0 input key uuid) (\<lambda>_ _. True)"
      by (rule triple_andThen [OF stub_post_exact]) (use R in \<open>auto simp: posts_def intro!: triple_throw triple_ret\<close>)
  qed
qed


definition payment_input :: "int \<Rightarrow> int \<Rightarrow> money \<Rightarrow> money \<Rightarrow> string \<Rightarrow> ledger_account_row \<Rightarrow> ledger_account_row \<Rightarrow> ledger_account_row \<Rightarrow> post_input" where
  "payment_input mid pid amount fee cur c r f = \<lparr>in_merchant_id = mid, in_reference_type = RPayment,
     in_reference_id = Some (int_str pid),
     in_description = ''Payment '' @ int_str pid @ '' '' @ em_dash @ '' '' @ amount @ '' '' @ cur,
     in_entries = payment_entries c r f amount fee\<rparr>"

definition d1_account :: "d1 \<Rightarrow> int \<Rightarrow> string \<Rightarrow> string \<Rightarrow> ledger_account_row option" where
  "d1_account db mid code cur =
     List.find (\<lambda>a. la_merchant_id a = mid \<and> la_code a = code \<and> la_currency a = cur) (op_ledger_accounts db)"

lemma getAccountByCode_exact:
  "triple (same_state w0) (getAccountByCode mid code cur)
     (\<lambda>a w. same_state w0 w \<and> a = d1_account (w_db w0) mid code cur) (\<lambda>_ _. True)"
  unfolding getAccountByCode_def d1_account_def by (rule triple_get_exact)

lemma payment_exact:
  "triple (same_state w0) (postPaymentLedgerEntry L mid pid amount fee cur uuid)
     (\<lambda>x w. \<exists>c r f res. d1_account (w_db w0) mid ''1010'' cur = Some c \<and> d1_account (w_db w0) mid ''4000'' cur = Some r \<and>
        d1_account (w_db w0) mid ''5000'' cur = Some f \<and>
        posts L w0 (payment_input mid pid amount fee cur c r f) (Some (payment_tx mid pid)) uuid res w \<and>
        snd (snd x) = res_status res) (\<lambda>_ _. True)"
  unfolding postPaymentLedgerEntry_def
proof (rule triple_andThen [OF getAccountByCode_exact], rule triple_pure,
       rule triple_andThen [OF getAccountByCode_exact], rule triple_pure,
       rule triple_andThen [OF getAccountByCode_exact], rule triple_pure, goal_cases)
  case (1 co ro fo)
  show ?case
  proof (cases "co = None \<or> ro = None \<or> fo = None")
    case True
    then show ?thesis by (cases co; cases ro; cases fo) (auto intro!: triple_throw)
  next
    case False
    then obtain c r f where s: "co = Some c" "ro = Some r" "fo = Some f" by auto
    have d: "d1_account (w_db w0) mid ''1010'' cur = Some c" "d1_account (w_db w0) mid ''4000'' cur = Some r"
        "d1_account (w_db w0) mid ''5000'' cur = Some f"
      using 1 s by simp_all
    show ?thesis
      unfolding s prod.case option.case payment_input_def [symmetric]
      by (rule triple_andThen [OF post_exact], rule triple_ret) (use d in auto)
  qed
qed

lemma account_rows_find:
  assumes "distinct (map la_id (op_ledger_accounts db))" and "d1_account db mid code cur = Some a" and "la_id a \<in> ids"
  shows "List.find (\<lambda>x. la_id x = la_id a) (account_rows mid ids db) = Some a" and "la_code a = code"
proof -
  from assms(2) have a: "a \<in> set (op_ledger_accounts db)" "la_merchant_id a = mid" "la_code a = code"
    unfolding d1_account_def by (auto dest: find_Some_iff)
  then have "a \<in> set (account_rows mid ids db)" using assms(3) by (simp add: account_rows_def)
  moreover have "distinct (map la_id (account_rows mid ids db))"
    using assms(1) by (simp add: account_rows_def distinct_map_filter)
  ultimately show "List.find (\<lambda>x. la_id x = la_id a) (account_rows mid ids db) = Some a"
    using find_unique [of la_id "account_rows mid ids db" a] by simp
  show "la_code a = code" by fact
qed

definition minor_entry :: "string \<Rightarrow> ledger_account_row \<Rightarrow> direction \<Rightarrow> money \<Rightarrow> int \<Rightarrow> posting_entry" where
  "minor_entry code a dir amount minor = \<lparr>pe_account_code = code, pe_d1_account_id = la_id a,
     pe_direction = dir, pe_amount = amount, pe_amount_minor = JInt minor\<rparr>"

text \<open>The entries of a payment: clearing against revenue, and the fee against clearing.\<close>

lemma payment_entries_built:
  assumes keys: "distinct (map la_id (op_ledger_accounts db))"
    and acc: "d1_account db mid ''1010'' cur = Some c" "d1_account db mid ''4000'' cur = Some r" "d1_account db mid ''5000'' cur = Some f"
    and b: "build_entries L mid (account_rows mid (in_account_id ` set (payment_entries c r f amount fee)) db) (payment_entries c r f amount fee) = Inr es"
  shows "\<exists>A F. moneyToMinorStrict L amount = Inr A \<and>
     (if fee = ''0.00'' then F = 0 \<and> es = [minor_entry ''1010'' c Debit amount A, minor_entry ''4000'' r Credit amount A]
      else moneyToMinorStrict L fee = Inr F \<and>
        es = [minor_entry ''1010'' c Debit amount A, minor_entry ''4000'' r Credit amount A,
              minor_entry ''5000'' f Debit fee F, minor_entry ''1010'' c Credit fee F])"
proof -
  let ?ids = "in_account_id ` set (payment_entries c r f amount fee)"
  have ids: "la_id c \<in> ?ids" "la_id r \<in> ?ids" and idf: "fee \<noteq> ''0.00'' \<Longrightarrow> la_id f \<in> ?ids"
    by (auto simp: payment_entries_def)
  note C = account_rows_find [OF keys acc(1) ids(1)] and R = account_rows_find [OF keys acc(2) ids(2)]
  show ?thesis
  proof (cases "fee = ''0.00''")
    case True
    obtain A where A: "moneyToMinorStrict L amount = Inr A"
      using b by (auto simp: payment_entries_def split: option.splits sum.splits)
    show ?thesis using b C R A True by (auto simp: payment_entries_def minor_entry_def)
  next
    case False
    note F = account_rows_find [OF keys acc(3) idf [OF False]]
    have e: "payment_entries c r f amount fee =
      [\<lparr>in_account_id = la_id c, in_direction = Debit, in_amount = amount\<rparr>,
       \<lparr>in_account_id = la_id r, in_direction = Credit, in_amount = amount\<rparr>,
       \<lparr>in_account_id = la_id f, in_direction = Debit, in_amount = fee\<rparr>,
       \<lparr>in_account_id = la_id c, in_direction = Credit, in_amount = fee\<rparr>]"
      using False by (simp add: payment_entries_def)
    obtain A F' where A: "moneyToMinorStrict L amount = Inr A" "moneyToMinorStrict L fee = Inr F'"
      using b C R F unfolding e by (auto split: sum.splits)
    show ?thesis using b C R F A False unfolding e by (auto simp: minor_entry_def)
  qed
qed


lemma posting_effect_other: "code \<notin> pe_account_code ` set es \<Longrightarrow> posting_effect es code = 0"
proof -
  assume "code \<notin> pe_account_code ` set es"
  then have "filter (\<lambda>e. pe_account_code e = code) es = []" by (auto simp: filter_empty_conv)
  then show ?thesis by (simp add: posting_effect_def split: option.splits)
qed

lemma chart_types [simp]:
  "chart_type_of ''1010'' = Some Asset" "chart_type_of ''4000'' = Some Revenue" "chart_type_of ''5000'' = Some Expense"
  by (simp_all add: chart_type_of_def DEFAULT_CHART_OF_ACCOUNTS_def)

definition payment_effect :: "int \<Rightarrow> int \<Rightarrow> string \<Rightarrow> int" where
  "payment_effect A F code =
     (if code = ''1010'' then A - F else if code = ''4000'' then A else if code = ''5000'' then F else 0)"

lemma payment_effect_two:
  "posting_effect [minor_entry ''1010'' c Debit amount A, minor_entry ''4000'' r Credit amount A] code = payment_effect A 0 code"
proof (cases "code = ''1010'' \<or> code = ''4000''")
  case True
  then show ?thesis by (auto simp: posting_effect_def payment_effect_def minor_entry_def signed_amount_def)
qed (simp add: posting_effect_other minor_entry_def payment_effect_def)

lemma payment_effect_four:
  "posting_effect [minor_entry ''1010'' c Debit amount A, minor_entry ''4000'' r Credit amount A,
      minor_entry ''5000'' f Debit fee F, minor_entry ''1010'' c Credit fee F] code = payment_effect A F code"
proof (cases "code = ''1010'' \<or> code = ''4000'' \<or> code = ''5000''")
  case True
  then show ?thesis by (auto simp: posting_effect_def payment_effect_def minor_entry_def signed_amount_def)
qed (simp add: posting_effect_other minor_entry_def payment_effect_def)

lemma posted_balances:
  assumes ok: "obj_ok d" and run: "postTransaction env now dok p (d, db) = (r, (d', db'))" and st: "res_status r = Posted"
  shows "balance_of d' code = balance_of d code + posting_effect (pp_entries p) code"
proof -
  from ok have inv: "ledger_inv d" "seeded_ok d" by (simp_all add: obj_ok_def)
  have "committed p now d d'" using post_outcome(2) [OF inv(1) run] st by auto
  from book_committed [OF this inv] book_seed [OF inv, of "pp_currency p"]
  have "bk_balance (book_of d') code = bk_balance (book_of d) code + posting_effect (pp_entries p) code"
    by (simp add: Let_def)
  then show ?thesis by (simp add: book_of_def)
qed


section \<open>Code equations in applied form\<close>

lemmas buildPayload_run [code] = buildPayload_def [THEN fun_cong, unfolded prog_run]
lemmas post_run [code] = post_def [THEN fun_cong, unfolded prog_run]
lemmas payment_run [code] = postPaymentLedgerEntry_def [THEN fun_cong, unfolded prog_run]
lemmas refund_run [code] = postRefundLedgerEntry_def [THEN fun_cong, unfolded prog_run]

section \<open>A world to evaluate\<close>

definition fresh_object :: "int \<Rightarrow> ledger_do" where
  "fresh_object m = LedgerDO.construct 0 (empty_do (''merchant-'' @ int_str m))"

definition demo_world :: world where
  "demo_world = \<lparr>w_env = \<lparr>ae_ledger = demo_env, ae_ENABLED_GATEWAYS = None, ae_APP_URL = ''https://pay.example'', ae_DEFAULT_MFS_NUMBER = None,
       ae_DEFAULT_WEBHOOK_URL = None, ae_ALLOW_LOCAL_WEBHOOK_TARGETS = None\<rparr>,
     w_now = 1000, w_db = fold (insert_account 7 ''BDT'') DEFAULT_CHART_OF_ACCOUNTS empty_d1,
     w_objects = fresh_object, w_d1_up = True, w_queue = [], w_refund_instances = [], w_sweep_instances = [], w_pages = [], w_fates = []\<rparr>"

lemma fresh_object_ok: "obj_ok (fresh_object m)"
  using reachable_obj_ok [OF do_reachable.created, of 0 "''merchant-'' @ int_str m" empty_d1] by (simp add: fresh_object_def)

lemma demo_world_ok: "world_ok demo_world"
  by (simp add: world_ok_def demo_world_def fresh_object_ok)

lemma demo_payment:
  "fst (postPaymentLedgerEntry exact_decimal 7 3 ''0.10'' ''0.02'' ''BDT'' [] demo_world) = Inr (0, ''m7:payment:3'', Posted)"
  by code_simp

section \<open>The effect of a payment on the books\<close>

text \<open>C14: a payment moves exactly its amount and fee.  When posting the ledger entry of a payment
  returns \<open>posted\<close>, clearing 1010 has grown by the amount less the fee, revenue 4000 by the
  amount and fee expense 5000 by the fee, all in the minor units of the decimal strings; no
  other account of the merchant and no other merchant's object has changed.\<close>

theorem payment_balances:
  assumes ok: "world_ok w" and keys: "distinct (map la_id (op_ledger_accounts (w_db w)))"
    and run: "postPaymentLedgerEntry L mid pid amount fee cur uuid w = (Inr (i, tx, Posted), w')"
  shows "\<exists>A F. moneyToMinorStrict L amount = Inr A \<and>
     (if fee = ''0.00'' then F = 0 else moneyToMinorStrict L fee = Inr F) \<and>
     (\<forall>code. balance_of (w_objects w' mid) code = balance_of (w_objects w mid) code + payment_effect A F code) \<and>
     (\<forall>m. m \<noteq> mid \<longrightarrow> w_objects w' m = w_objects w m)"
proof -
  from tripleD [OF payment_exact same_state_refl run]
  obtain c r f res where acc: "d1_account (w_db w) mid ''1010'' cur = Some c" "d1_account (w_db w) mid ''4000'' cur = Some r"
      "d1_account (w_db w) mid ''5000'' cur = Some f"
    and po: "posts L w (payment_input mid pid amount fee cur c r f) (Some (payment_tx mid pid)) uuid res w'"
    and st: "Posted = res_status res"
    unfolding snd_conv by blast
  let ?rows = "account_rows mid (in_account_id ` set (payment_entries c r f amount fee)) (w_db w)"
  from po obtain es d db where b: "build_entries L mid ?rows (payment_entries c r f amount fee) = Inr es"
    and pt: "postTransaction (ae_ledger (w_env w)) (w_now w) (w_d1_up w)
       (payload_of (payment_input mid pid amount fee cur c r f) (Some (payment_tx mid pid)) uuid ?rows es)
       (w_objects w mid, w_db w) = (res, (d, db))"
    and w': "w_objects w' = (w_objects w)(mid := d)"
    by (auto simp: posts_def payment_input_def)
  have "obj_ok (w_objects w mid)" using ok by (simp add: world_ok_def)
  from posted_balances [OF this pt st [symmetric]]
  have bal: "balance_of d code = balance_of (w_objects w mid) code + posting_effect es code" for code
    by (simp add: payload_of_def)
  from payment_entries_built [OF keys acc b] obtain A F where "moneyToMinorStrict L amount = Inr A"
    and "if fee = ''0.00'' then F = 0 else moneyToMinorStrict L fee = Inr F"
    and "posting_effect es code = payment_effect A F code" for code
    by (auto simp: payment_effect_two payment_effect_four split: if_splits)
  with bal w' show ?thesis by auto
qed

theorem payment_balances_witness:
  "\<exists>w'. postPaymentLedgerEntry exact_decimal 7 3 ''0.10'' ''0.02'' ''BDT'' [] demo_world = (Inr (0, ''m7:payment:3'', Posted), w') \<and>
     balance_of (w_objects w' 7) ''1010'' = balance_of (w_objects demo_world 7) ''1010'' + 8"
proof -
  let ?r = "postPaymentLedgerEntry exact_decimal 7 3 ''0.10'' ''0.02'' ''BDT'' [] demo_world"
  have r: "?r = (Inr (0, ''m7:payment:3'', Posted), snd ?r)" using demo_payment by (metis prod.collapse)
  have k: "distinct (map la_id (op_ledger_accounts (w_db demo_world)))" by code_simp
  have "moneyToMinorStrict exact_decimal ''0.10'' = Inr 10" "moneyToMinorStrict exact_decimal ''0.02'' = Inr 2" by code_simp+
  with payment_balances [OF demo_world_ok k r] have "balance_of (w_objects (snd ?r) 7) ''1010'' = balance_of (w_objects demo_world 7) ''1010'' + 8"
    by (auto simp: payment_effect_def)
  with r show ?thesis by blast
qed

end
