(* ===== verification/Hierarchy.thy ===== *)
theory Hierarchy
  imports LedgerService Gateways
begin

text \<open>
  \<open>services/hierarchy.ts\<close>: the merchant, brand, store and gate hierarchy in D1.  An \<open>INSERT\<close>
  enforces the \<open>UNIQUE\<close> constraints of the schema: a violation throws, and \<open>INSERT OR IGNORE\<close>
  does nothing.  A fresh uuid is an argument.  Shown: the keys stay unique whatever happens to
  the calls, reads are scoped to their merchant, provisioning is idempotent.
\<close>

section \<open>Statements that may violate a constraint\<close>

definition d1_exec :: "(d1 \<Rightarrow> exn + 'a \<times> d1) \<Rightarrow> 'a svc" where
  "d1_exec f = andThen (d1_run (\<lambda>db. case f db of Inl e \<Rightarrow> (Inl e, db) | Inr (a, db') \<Rightarrow> (Inr a, db')))
     (\<lambda>r. case r of Inl e \<Rightarrow> throw e | Inr a \<Rightarrow> ret a)"

definition unique_violation :: exn where
  "unique_violation = Error ''UNIQUE constraint failed''"

section \<open>Brands\<close>

definition brand_clash :: "d1 \<Rightarrow> int \<Rightarrow> string \<Rightarrow> string \<Rightarrow> bool" where
  "brand_clash db mid slug uuid \<longleftrightarrow>
     (\<exists>b \<in> set (op_brands db). br_uuid b = uuid \<or> br_merchant_id b = mid \<and> br_slug b = slug)"

definition insert_brand :: "int \<Rightarrow> string \<Rightarrow> string \<Rightarrow> string \<Rightarrow> string option \<Rightarrow> string option \<Rightarrow> d1 \<Rightarrow> d1" where
  "insert_brand mid uuid name slug color email db = db\<lparr>
     op_brands := op_brands db @ [\<lparr>br_id = seq_brands db, br_merchant_id = mid, br_uuid = uuid, br_name = name,
       br_slug = slug, br_active = True, br_logo_path = None, br_brand_color = color, br_support_email = email,
       br_support_phone = None, br_terms_url = None, br_privacy_url = None\<rparr>],
     seq_brands := seq_brands db + 1\<rparr>"

definition createBrand :: "int \<Rightarrow> string \<Rightarrow> string \<Rightarrow> string option \<Rightarrow> string option \<Rightarrow> string \<Rightarrow> brand_row svc" where
  "createBrand mid name slug color email uuid =
     andThen (d1_exec (\<lambda>db. if brand_clash db mid slug uuid then Inl unique_violation
                            else Inr ((), insert_brand mid uuid name slug color email db))) (\<lambda>_.
     andThen (d1_get (\<lambda>db. List.find (\<lambda>b. br_uuid b = uuid) (op_brands db))) (\<lambda>row.
       case row of None \<Rightarrow> throw (Error ''Brand insert failed'') | Some b \<Rightarrow> ret b))"

definition listBrands :: "int \<Rightarrow> brand_row list svc" where
  "listBrands mid = d1_get (\<lambda>db. sort_key br_id (filter (\<lambda>b. br_merchant_id b = mid \<and> br_active b) (op_brands db)))"

definition getBrand :: "int \<Rightarrow> int \<Rightarrow> brand_row option svc" where
  "getBrand bid mid = d1_get (\<lambda>db. List.find (\<lambda>b. br_id b = bid \<and> br_merchant_id b = mid) (op_brands db))"

section \<open>Stores\<close>

definition store_clash :: "d1 \<Rightarrow> int \<Rightarrow> string \<Rightarrow> string \<Rightarrow> bool" where
  "store_clash db bid slug uuid \<longleftrightarrow>
     (\<exists>s \<in> set (op_stores db). st_uuid s = uuid \<or> st_brand_id s = bid \<and> st_slug s = slug)"

definition insert_store :: "int \<Rightarrow> int \<Rightarrow> string \<Rightarrow> string \<Rightarrow> string \<Rightarrow> string \<Rightarrow> string \<Rightarrow> d1 \<Rightarrow> d1" where
  "insert_store bid mid uuid name slug tz cur db = db\<lparr>
     op_stores := op_stores db @ [\<lparr>st_id = seq_stores db, st_brand_id = bid, st_merchant_id = mid, st_uuid = uuid,
       st_name = name, st_slug = slug, st_timezone = tz, st_default_currency = cur, st_active = True\<rparr>],
     seq_stores := seq_stores db + 1\<rparr>"

definition createStore :: "int \<Rightarrow> int \<Rightarrow> string \<Rightarrow> string \<Rightarrow> string \<Rightarrow> string option \<Rightarrow> string \<Rightarrow> store_row svc" where
  "createStore mid bid name slug cur tz uuid =
     andThen (d1_exec (\<lambda>db. if store_clash db bid slug uuid then Inl unique_violation
                            else Inr ((), insert_store bid mid uuid name slug
                                   (case tz of Some t \<Rightarrow> t | None \<Rightarrow> ''Asia/Dhaka'') cur db))) (\<lambda>_.
     andThen (d1_get (\<lambda>db. List.find (\<lambda>s. st_uuid s = uuid) (op_stores db))) (\<lambda>row.
       case row of None \<Rightarrow> throw (Error ''Store insert failed'') | Some s \<Rightarrow> ret s))"

definition listStores :: "int \<Rightarrow> int \<Rightarrow> store_row list svc" where
  "listStores bid mid = d1_get (\<lambda>db. sort_key st_id
     (filter (\<lambda>s. st_brand_id s = bid \<and> st_merchant_id s = mid \<and> st_active s) (op_stores db)))"

definition getStore :: "int \<Rightarrow> int \<Rightarrow> store_row option svc" where
  "getStore sid mid = d1_get (\<lambda>db. List.find (\<lambda>s. st_id s = sid \<and> st_merchant_id s = mid) (op_stores db))"

definition resolveMainStore :: "int \<Rightarrow> store_row option svc" where
  "resolveMainStore mid = d1_get (\<lambda>db. List.find (\<lambda>s. st_merchant_id s = mid \<and> st_slug s = ''main'' \<and>
     (\<exists>b \<in> set (op_brands db). br_id b = st_brand_id s \<and> br_slug b = ''main'')) (op_stores db))"

section \<open>The default hierarchy\<close>

definition ensure_main_brand :: "int \<Rightarrow> string \<Rightarrow> d1 \<Rightarrow> d1" where
  "ensure_main_brand mid uuid db = (if brand_clash db mid ''main'' uuid then db
     else insert_brand mid uuid ''Main'' ''main'' None None db)"

definition ensure_main_store :: "int \<Rightarrow> int \<Rightarrow> string \<Rightarrow> string \<Rightarrow> d1 \<Rightarrow> d1" where
  "ensure_main_store bid mid cur uuid db = (if store_clash db bid ''main'' uuid then db
     else insert_store bid mid uuid ''Main'' ''main'' ''Asia/Dhaka'' cur db)"

definition find_main_brand :: "int \<Rightarrow> d1 \<Rightarrow> brand_row option" where
  "find_main_brand mid db = List.find (\<lambda>b. br_merchant_id b = mid \<and> br_slug b = ''main'') (op_brands db)"

definition find_main_store :: "int \<Rightarrow> d1 \<Rightarrow> store_row option" where
  "find_main_store mid db = List.find (\<lambda>s. st_merchant_id s = mid \<and> st_slug s = ''main'') (op_stores db)"

definition orElse :: "'a option svc \<Rightarrow> 'a option svc \<Rightarrow> 'a option svc" where
  "orElse a b = andThen a (\<lambda>x. case x of None \<Rightarrow> b | Some _ \<Rightarrow> ret x)"

definition provisionDefaultHierarchy :: "int \<Rightarrow> string \<Rightarrow> string \<Rightarrow> string \<Rightarrow> (int \<times> int) svc" where
  "provisionDefaultHierarchy mid cur uuid_b uuid_s =
     andThen (d1_put (ensure_main_brand mid uuid_b)) (\<lambda>_.
     andThen (orElse (d1_get (find_main_brand mid)) (d1_get (\<lambda>db. List.find (\<lambda>b. br_merchant_id b = mid) (op_brands db)))) (\<lambda>brand.
     case brand of
       None \<Rightarrow> throw (Error (''Failed to resolve or create Main brand for merchant '' @ int_str mid))
     | Some b \<Rightarrow>
       andThen (d1_put (ensure_main_store (br_id b) mid cur uuid_s)) (\<lambda>_.
       andThen (orElse (d1_get (find_main_store mid)) (d1_get (\<lambda>db. List.find (\<lambda>s. st_merchant_id s = mid) (op_stores db)))) (\<lambda>store.
       case store of
         None \<Rightarrow> throw (Error (''Failed to resolve or create Main store for merchant '' @ int_str mid))
       | Some s \<Rightarrow> ret (br_id b, st_id s)))))"

section \<open>Gates\<close>

definition insert_gate :: "int \<Rightarrow> int \<Rightarrow> int \<Rightarrow> string \<Rightarrow> string \<Rightarrow> string option \<Rightarrow> d1 \<Rightarrow> d1" where
  "insert_gate sid mid gid label cur mfs db = db\<lparr>
     op_gates := op_gates db @ [\<lparr>gt_id = seq_gates db, gt_store_id = sid, gt_merchant_id = mid, gt_gateway_id = gid,
       gt_label = label, gt_mfs_number = mfs, gt_currency = cur, gt_status = GateActive\<rparr>],
     seq_gates := seq_gates db + 1\<rparr>"

definition first_row :: "'r list \<Rightarrow> 'r option" where
  "first_row rs = (case rs of [] \<Rightarrow> None | r # _ \<Rightarrow> Some r)"

definition createGate :: "int \<Rightarrow> int \<Rightarrow> int \<Rightarrow> string \<Rightarrow> string \<Rightarrow> string option \<Rightarrow> gate_row svc" where
  "createGate sid mid gid label cur mfs =
     andThen (d1_put (insert_gate sid mid gid label cur mfs)) (\<lambda>_.
     andThen (d1_get (\<lambda>db. first_row (rev (sort_key gt_id
        (filter (\<lambda>g. gt_store_id g = sid \<and> gt_gateway_id g = gid \<and> gt_label g = label) (op_gates db)))))) (\<lambda>row.
       case row of None \<Rightarrow> throw (Error ''Gate insert failed'') | Some g \<Rightarrow> ret g))"

definition listGates :: "int \<Rightarrow> int \<Rightarrow> gate_row list svc" where
  "listGates sid mid = d1_get (\<lambda>db. sort_key gt_id
     (filter (\<lambda>g. gt_store_id g = sid \<and> gt_merchant_id g = mid \<and> gt_status g \<noteq> GateArchived) (op_gates db)))"

definition getGate :: "int \<Rightarrow> int \<Rightarrow> gate_row option svc" where
  "getGate gid mid = d1_get (\<lambda>db. List.find (\<lambda>g. gt_id g = gid \<and> gt_merchant_id g = mid) (op_gates db))"

definition default_gates :: "int \<Rightarrow> int \<Rightarrow> d1 \<Rightarrow> gate_row list" where
  "default_gates mid gid db = filter (\<lambda>g. gt_merchant_id g = mid \<and> gt_gateway_id g = gid \<and> gt_status g = GateActive \<and>
     (\<exists>b \<in> set (op_brands db). br_merchant_id b = gt_merchant_id g \<and> br_slug b = ''main'' \<and>
        (\<exists>s \<in> set (op_stores db). st_brand_id s = br_id b \<and> st_slug s = ''main''))) (op_gates db)"

definition resolveDefaultGate :: "int \<Rightarrow> int \<Rightarrow> gate_row option svc" where
  "resolveDefaultGate mid gid = d1_get (\<lambda>db. first_row (sort_key gt_id (default_gates mid gid db)))"

definition listGatesForStore :: "int \<Rightarrow> gate_row list svc" where
  "listGatesForStore sid = d1_get (\<lambda>db. sort_key gt_id (filter (\<lambda>g. gt_store_id g = sid \<and> gt_status g = GateActive) (op_gates db)))"

record checkout_gate =
  cg_id :: int
  cg_label :: string
  cg_currency :: string
  cg_gateway_id :: int
  cg_gateway_slug :: string
  cg_gateway_type :: string
  cg_destination_number :: "string option"
  cg_instructions :: "string option"

fun coalesce :: "'a option list \<Rightarrow> 'a option" where
  "coalesce [] = None"
| "coalesce (Some x # xs) = Some x"
| "coalesce (None # xs) = coalesce xs"

definition checkout_row :: "gate_row \<Rightarrow> gateway_row \<Rightarrow> manual_gateway_row option \<Rightarrow> checkout_gate" where
  "checkout_row g gw mg = \<lparr>cg_id = gt_id g, cg_label = gt_label g, cg_currency = gt_currency g,
     cg_gateway_id = gt_gateway_id g, cg_gateway_slug = g_slug gw, cg_gateway_type = g_type gw,
     cg_destination_number = coalesce [gt_mfs_number g, Option.bind mg mg_account_number, Option.bind mg mg_payment_number],
     cg_instructions = Option.bind mg mg_instructions\<rparr>"

text \<open>The \<open>LEFT JOIN\<close>: one row per manual gateway of the gate's gateway, or one row of nulls.\<close>

definition manual_rows :: "gate_row \<Rightarrow> d1 \<Rightarrow> manual_gateway_row option list" where
  "manual_rows g db = (case filter (\<lambda>mg. mg_gateway_id mg = gt_gateway_id g) (op_manual_gateways db) of
      [] \<Rightarrow> [None] | ms \<Rightarrow> map Some ms)"

definition checkout_rows :: "gate_row list \<Rightarrow> d1 \<Rightarrow> checkout_gate list" where
  "checkout_rows gs db = concat (map (\<lambda>g. concat (map (\<lambda>gw. map (checkout_row g gw) (manual_rows g db))
     (filter (\<lambda>gw. g_id gw = gt_gateway_id g) (op_gateways db)))) gs)"

definition listGatesForCheckout :: "int \<Rightarrow> checkout_gate list svc" where
  "listGatesForCheckout sid = d1_get (\<lambda>db. checkout_rows
     (sort_key gt_id (filter (\<lambda>g. gt_store_id g = sid \<and> gt_status g = GateActive) (op_gates db))) db)"

definition in_main_store :: "gate_row \<Rightarrow> d1 \<Rightarrow> bool" where
  "in_main_store g db \<longleftrightarrow> (\<exists>s \<in> set (op_stores db). st_id s = gt_store_id g \<and> st_slug s = ''main'' \<and>
     (\<exists>b \<in> set (op_brands db). br_id b = st_brand_id s \<and> br_slug b = ''main''))"

definition listGatesForMerchantDefault :: "int \<Rightarrow> checkout_gate list svc" where
  "listGatesForMerchantDefault mid = d1_get (\<lambda>db. checkout_rows
     (sort_key gt_id (filter (\<lambda>g. gt_merchant_id g = mid \<and> gt_status g = GateActive \<and> in_main_store g db) (op_gates db))) db)"

record checkout_brand =
  cb_id :: int
  cb_name :: string
  cb_logo_path :: "string option"
  cb_brand_color :: "string option"
  cb_support_email :: "string option"
  cb_support_phone :: "string option"
  cb_terms_url :: "string option"
  cb_privacy_url :: "string option"

definition getBrandForCheckout :: "int \<Rightarrow> int \<Rightarrow> checkout_brand option svc" where
  "getBrandForCheckout bid mid = d1_get (\<lambda>db. map_option (\<lambda>b. \<lparr>cb_id = br_id b, cb_name = br_name b,
       cb_logo_path = br_logo_path b, cb_brand_color = br_brand_color b, cb_support_email = br_support_email b,
       cb_support_phone = br_support_phone b, cb_terms_url = br_terms_url b, cb_privacy_url = br_privacy_url b\<rparr>)
     (List.find (\<lambda>b. br_id b = bid \<and> br_merchant_id b = mid) (op_brands db)))"

section \<open>Keys stay unique\<close>

definition brand_keys :: "d1 \<Rightarrow> bool" where
  "brand_keys db \<longleftrightarrow> distinct (map br_id (op_brands db)) \<and> (\<forall>b \<in> set (op_brands db). br_id b < seq_brands db) \<and>
     distinct (map br_uuid (op_brands db)) \<and> distinct (map (\<lambda>b. (br_merchant_id b, br_slug b)) (op_brands db))"

definition store_keys :: "d1 \<Rightarrow> bool" where
  "store_keys db \<longleftrightarrow> distinct (map st_id (op_stores db)) \<and> (\<forall>s \<in> set (op_stores db). st_id s < seq_stores db) \<and>
     distinct (map st_uuid (op_stores db)) \<and> distinct (map (\<lambda>s. (st_brand_id s, st_slug s)) (op_stores db))"

definition gate_keys :: "d1 \<Rightarrow> bool" where
  "gate_keys db \<longleftrightarrow> distinct (map gt_id (op_gates db)) \<and> (\<forall>g \<in> set (op_gates db). gt_id g < seq_gates db)"

definition hierarchy_keys :: "d1 \<Rightarrow> bool" where
  "hierarchy_keys db \<longleftrightarrow> brand_keys db \<and> store_keys db \<and> gate_keys db"

lemma insert_brand_keys:
  "hierarchy_keys db \<Longrightarrow> \<not> brand_clash db mid slug uuid \<Longrightarrow> hierarchy_keys (insert_brand mid uuid name slug c e db)"
  by (auto simp: hierarchy_keys_def brand_keys_def store_keys_def gate_keys_def insert_brand_def brand_clash_def)

lemma insert_store_keys:
  "hierarchy_keys db \<Longrightarrow> \<not> store_clash db bid slug uuid \<Longrightarrow> hierarchy_keys (insert_store bid mid uuid name slug tz cur db)"
  by (auto simp: hierarchy_keys_def brand_keys_def store_keys_def gate_keys_def insert_store_def store_clash_def)

lemma insert_gate_keys: "hierarchy_keys db \<Longrightarrow> hierarchy_keys (insert_gate sid mid gid label cur mfs db)"
  by (auto simp: hierarchy_keys_def brand_keys_def store_keys_def gate_keys_def insert_gate_def)

lemma ensure_keys:
  "hierarchy_keys db \<Longrightarrow> hierarchy_keys (ensure_main_brand mid u db)"
  "hierarchy_keys db \<Longrightarrow> hierarchy_keys (ensure_main_store bid mid cur u db)"
  by (simp_all add: ensure_main_brand_def ensure_main_store_def insert_brand_keys insert_store_keys)

definition keys_in :: "world \<Rightarrow> bool" where
  "keys_in w \<longleftrightarrow> hierarchy_keys (w_db w)"

lemma keys_stable: "fate_stable keys_in"
  by (simp add: fate_stable_def keys_in_def)

lemma preserves_d1_exec:
  assumes "fate_stable I" and "\<And>w a db. I w \<Longrightarrow> f (w_db w) = Inr (a, db) \<Longrightarrow> I (w\<lparr>w_db := db\<rparr>)"
  shows "preserves I (d1_exec f)"
proof -
  have "I (w\<lparr>w_db := w_db w\<rparr>)" if "I w" for w using that by simp
  then have "preserves I (d1_run (\<lambda>db. case f db of Inl e \<Rightarrow> (Inl e, db) | Inr (a, db') \<Rightarrow> (Inr a, db')))"
    by (intro preserves_d1_run [OF assms(1)]) (auto split: sum.split prod.split intro: assms(2))
  then show ?thesis unfolding d1_exec_def by (intro triple_rules)
qed

lemma preserves_orElse [triple_rules]: "preserves I a \<Longrightarrow> preserves I b \<Longrightarrow> preserves I (orElse a b)"
  unfolding orElse_def by (intro triple_rules) auto

lemmas keys_rules = triple_rules preserves_d1_get [OF keys_stable] preserves_d1_put [OF keys_stable] preserves_d1_exec [OF keys_stable]

lemma hierarchy_preserves:
  "preserves keys_in (createBrand mid name slug color email uuid)"
  "preserves keys_in (createStore mid bid name slug' cur tz uuid')"
  "preserves keys_in (createGate sid mid gid label cur mfs)"
  "preserves keys_in (provisionDefaultHierarchy mid cur ub us)"
  unfolding createBrand_def createStore_def createGate_def provisionDefaultHierarchy_def
  by (intro keys_rules; auto simp: keys_in_def insert_brand_keys insert_store_keys insert_gate_keys ensure_keys split: if_splits)+



section \<open>Provisioning is idempotent\<close>

lemma d1_get_arrives: "w_fates w = [] \<Longrightarrow> d1_get f w = (Inr (f (w_db w)), w)"
  by (simp add: d1_get_def remote_def next_fate_def)

lemma d1_put_arrives: "w_fates w = [] \<Longrightarrow> d1_put f w = (Inr (), w\<lparr>w_db := f (w_db w)\<rparr>)"
  by (simp add: d1_put_def d1_run_def remote_def next_fate_def)

lemma orElse_arrives:
  "w_fates w = [] \<Longrightarrow> orElse (d1_get f) (d1_get g) w = (Inr (case f (w_db w) of None \<Rightarrow> g (w_db w) | Some x \<Rightarrow> Some x), w)"
  by (simp add: orElse_def andThen_def d1_get_arrives ret_def split: option.split)

lemma main_brand_there:
  assumes "uuid \<notin> br_uuid ` set (op_brands db)"
  shows "\<exists>b. find_main_brand mid (ensure_main_brand mid uuid db) = Some b \<and> br_merchant_id b = mid \<and> br_slug b = ''main''"
    and "brand_clash (ensure_main_brand mid uuid db) mid ''main'' u"
proof -
  have ex: "\<exists>b \<in> set (op_brands (ensure_main_brand mid uuid db)). br_merchant_id b = mid \<and> br_slug b = ''main''"
    using assms by (auto simp: ensure_main_brand_def insert_brand_def brand_clash_def)
  then show "brand_clash (ensure_main_brand mid uuid db) mid ''main'' u" unfolding brand_clash_def by blast
  show "\<exists>b. find_main_brand mid (ensure_main_brand mid uuid db) = Some b \<and> br_merchant_id b = mid \<and> br_slug b = ''main''"
  proof (cases "find_main_brand mid (ensure_main_brand mid uuid db)")
    case None
    then show ?thesis using ex by (auto simp: find_main_brand_def find_None_iff)
  next
    case (Some b)
    with find_SomeD [OF Some [unfolded find_main_brand_def]] show ?thesis by simp
  qed
qed

lemma main_store_there:
  assumes "uuid \<notin> st_uuid ` set (op_stores db)"
  shows "store_clash (ensure_main_store bid mid cur uuid db) bid ''main'' u"
  using assms by (auto simp: ensure_main_store_def insert_store_def store_clash_def)

lemma ensure_store_brands [simp]: "op_brands (ensure_main_store bid mid cur u db) = op_brands db"
  by (simp add: ensure_main_store_def insert_store_def)

lemma ensure_brand_stores [simp]: "op_stores (ensure_main_brand mid u db) = op_stores db"
  by (simp add: ensure_main_brand_def insert_brand_def)

lemmas provision_run = provisionDefaultHierarchy_def andThen_def d1_put_arrives d1_get_arrives orElse_arrives

text \<open>Provisioning is idempotent.  When every call arrives and the generated uuids are fresh,
  provisioning returns the merchant's main brand, and provisioning again, with any uuids and
  currency, returns the same brand and store and changes nothing.\<close>

theorem provision_idempotent:
  assumes f: "w_fates w = []" and ub: "ub \<notin> br_uuid ` set (op_brands (w_db w))" and us: "us \<notin> st_uuid ` set (op_stores (w_db w))"
    and run: "provisionDefaultHierarchy mid cur ub us w = (Inr (bid, sid), w1)"
  shows "provisionDefaultHierarchy mid cur' ub' us' w1 = (Inr (bid, sid), w1) \<and>
     (\<exists>b \<in> set (op_brands (w_db w1)). br_id b = bid \<and> br_merchant_id b = mid \<and> br_slug b = ''main'')"
proof -
  let ?d1 = "ensure_main_brand mid ub (w_db w)"
  from main_brand_there(1) [OF ub, of mid] obtain b where b: "find_main_brand mid ?d1 = Some b" "br_merchant_id b = mid" "br_slug b = ''main''" by blast
  let ?d2 = "ensure_main_store (br_id b) mid cur us ?d1"
  let ?st = "\<lambda>db. case find_main_store mid db of None \<Rightarrow> List.find (\<lambda>s. st_merchant_id s = mid) (op_stores db) | Some x \<Rightarrow> Some x"
  have "provisionDefaultHierarchy mid cur ub us w = (case ?st ?d2 of
      None \<Rightarrow> (Inl (Error (''Failed to resolve or create Main store for merchant '' @ int_str mid)), w\<lparr>w_db := ?d2\<rparr>)
    | Some s \<Rightarrow> (Inr (br_id b, st_id s), w\<lparr>w_db := ?d2\<rparr>))"
    using f by (simp add: provision_run b(1) ret_def throw_def split: option.split)
  with run obtain s where s: "?st ?d2 = Some s" "bid = br_id b" "sid = st_id s" and w1: "w1 = w\<lparr>w_db := ?d2\<rparr>"
    by (cases "?st ?d2") auto
  have clash: "brand_clash ?d2 mid ''main'' ub'" "store_clash ?d2 (br_id b) ''main'' us'"
    using main_brand_there(2) [OF ub, of mid ub'] main_store_there [of us ?d1] us by (simp_all add: brand_clash_def)
  have b2: "find_main_brand mid ?d2 = Some b" using b(1) by (simp add: find_main_brand_def)
  have "ensure_main_brand mid ub' ?d2 = ?d2" "ensure_main_store (br_id b) mid cur' us' ?d2 = ?d2"
    using clash by (simp_all add: ensure_main_brand_def ensure_main_store_def [of _ _ cur'])
  then have "provisionDefaultHierarchy mid cur' ub' us' w1 = (Inr (bid, sid), w1)"
    using f s b2 by (cases "find_main_store mid ?d2") (simp_all add: w1 provision_run ret_def)
  moreover have "b \<in> set (op_brands ?d2)" using find_SomeD [OF b2 [unfolded find_main_brand_def]] by simp
  ultimately show ?thesis using b s(2) by (auto simp: w1)
qed

theorem provision_idempotent_witness:
  "\<exists>w1. provisionDefaultHierarchy 7 ''BDT'' ''u1'' ''u2'' demo_world = (Inr (1, 1), w1) \<and>
     provisionDefaultHierarchy 7 ''USD'' ''u3'' ''u4'' w1 = (Inr (1, 1), w1)"
proof -
  let ?r = "provisionDefaultHierarchy 7 ''BDT'' ''u1'' ''u2'' demo_world"
  have "fst ?r = Inr (1, 1)" by code_simp
  then have r: "?r = (Inr (1, 1), snd ?r)" by (metis prod.collapse)
  have "w_fates demo_world = []" by (simp add: demo_world_def)
  moreover have "''u1'' \<notin> br_uuid ` set (op_brands (w_db demo_world))" "''u2'' \<notin> st_uuid ` set (op_stores (w_db demo_world))" by code_simp+
  ultimately show ?thesis using provision_idempotent [OF _ _ _ r, of "''USD''" "''u3''" "''u4''"] r by blast
qed

end
