(* ===== verification/Webhooks.thy ===== *)
theory Webhooks
  imports Hierarchy "HOL-Library.Word"
begin

unbundle bit_operations_syntax

text \<open>
  Outbound webhooks: the SSRF guard (\<open>lib/url-guard.ts\<close>), the dispatcher
  (\<open>services/webhook-dispatcher.ts\<close>) and the queue consumer (\<open>queues/webhook-consumer.ts\<close>).
  \<open>new URL(..)\<close> is a parameter that yields the protocol and the host name of what it accepts, and
  the HTTP endpoint a parameter that yields a status code or a network error.
\<close>

section \<open>lib/url-guard.ts\<close>

record parsed_url =
  pu_protocol :: string
  pu_hostname :: string

type_synonym url_parser = "string \<Rightarrow> parsed_url option"

fun split_on :: "char \<Rightarrow> string \<Rightarrow> string list" where
  "split_on d [] = [[]]"
| "split_on d (c # cs) = (if c = d then [] # split_on d cs
     else case split_on d cs of [] \<Rightarrow> [[c]] | x # xs \<Rightarrow> (c # x) # xs)"

definition parseInt_dec :: "string \<Rightarrow> int option" where
  "parseInt_dec s = (case dropWhile is_space s of
      [] \<Rightarrow> None
    | c # t \<Rightarrow> if c = CHR ''+'' then map_option int (parse_digits t) else parseInt10 (c # t))"

definition octets :: "string \<Rightarrow> int option list" where
  "octets ip = map parseInt_dec (split_on (CHR ''.'') ip)"

fun private_octets :: "int option list \<Rightarrow> bool" where
  "private_octets [Some a, Some b, Some c, Some d] =
     (if a < 0 \<or> a > 255 \<or> b < 0 \<or> b > 255 \<or> c < 0 \<or> c > 255 \<or> d < 0 \<or> d > 255 then True
      else if a = 0 then True
      else if a = 10 then True
      else if a = 127 then True
      else if a = 169 \<and> b = 254 then True
      else if a = 172 \<and> 16 \<le> b \<and> b \<le> 31 then True
      else if a = 192 \<and> b = 168 then True
      else 224 \<le> a)"
| "private_octets _ = True"

definition isPrivateIpv4 :: "string \<Rightarrow> bool" where
  "isPrivateIpv4 ip = private_octets (octets ip)"

text \<open>\<open>replace(/^\\[|\\]$/g, '')\<close>\<close>

definition strip_brackets :: "string \<Rightarrow> string" where
  "strip_brackets s =
     (let t = (case s of c # r \<Rightarrow> if c = CHR ''['' then r else s | [] \<Rightarrow> [])
      in if t \<noteq> [] \<and> last t = CHR '']'' then butlast t else t)"

definition isPrivateIpv6 :: "string \<Rightarrow> bool" where
  "isPrivateIpv6 ip =
     (let norm = strip_brackets (toLowerCase ip) in
      if norm = ''::1'' \<or> norm = ''::'' then True
      else if starts_with norm ''fc'' \<or> starts_with norm ''fd'' then True
      else if starts_with norm ''fe8'' \<or> starts_with norm ''fe9'' \<or> starts_with norm ''fea'' \<or> starts_with norm ''feb'' then True
      else if starts_with norm ''::ffff:'' then isPrivateIpv4 (drop 7 norm)
      else False)"

definition ends_with :: "string \<Rightarrow> string \<Rightarrow> bool" where
  "ends_with s p \<longleftrightarrow> length p \<le> length s \<and> drop (length s - length p) s = p"

definition all_digits :: "string \<Rightarrow> bool" where
  "all_digits s \<longleftrightarrow> s \<noteq> [] \<and> (\<forall>c \<in> set s. is_digit c)"

text \<open>\<open>/^0x/i\<close>, \<open>/^0[0-7]+\\./\<close> and \<open>/^\\d+\\.\\d+\\.\\d+\\.\\d+$/\<close>.\<close>

definition hex_prefix :: "string \<Rightarrow> bool" where
  "hex_prefix s \<longleftrightarrow> toLowerCase (take 2 s) = ''0x''"

definition octal_prefix :: "string \<Rightarrow> bool" where
  "octal_prefix s = (case s of
      c # t \<Rightarrow> c = CHR ''0'' \<and> takeWhile (\<lambda>x. x \<in> set ''01234567'') t \<noteq> [] \<and>
               (case dropWhile (\<lambda>x. x \<in> set ''01234567'') t of y # _ \<Rightarrow> y = CHR ''.'' | [] \<Rightarrow> False)
    | [] \<Rightarrow> False)"

definition dotted_quad :: "string \<Rightarrow> bool" where
  "dotted_quad s \<longleftrightarrow> length (split_on (CHR ''.'') s) = 4 \<and> (\<forall>p \<in> set (split_on (CHR ''.'') s). all_digits p)"

text \<open>\<open>>>>\<close> and \<open>&\<close> work on the low 32 bits.\<close>

definition octet_of :: "nat \<Rightarrow> nat \<Rightarrow> nat" where
  "octet_of num k = unat ((drop_bit k (word_of_nat num :: 32 word)) AND 255)"

definition dotted_of :: "nat \<Rightarrow> string" where
  "dotted_of num = nat_str (octet_of num 24) @ ''.'' @ nat_str (octet_of num 16) @ ''.'' @
     nat_str (octet_of num 8) @ ''.'' @ nat_str (octet_of num 0)"

definition isAllowedWebhookUrl :: "url_parser \<Rightarrow> string \<Rightarrow> bool \<Rightarrow> bool" where
  "isAllowedWebhookUrl parse url allowHttpLocalhost =
     (case parse url of
        None \<Rightarrow> False
      | Some parsed \<Rightarrow>
          if allowHttpLocalhost \<and> pu_protocol parsed = ''http:'' \<and> pu_hostname parsed = ''localhost'' then True
          else if pu_protocol parsed \<noteq> ''https:'' then False
          else (let hostname = strip_brackets (toLowerCase (pu_hostname parsed)) in
            if hostname = ''localhost'' \<or> ends_with hostname ''.local'' \<or> ends_with hostname ''.internal'' \<or> ends_with hostname ''.localhost'' then False
            else if CHR '':'' \<in> set hostname \<and> isPrivateIpv6 hostname then False
            else if all_digits hostname then
              (let num = digits_val hostname in
               if num > 0xFFFFFFFF then False else \<not> isPrivateIpv4 (dotted_of num))
            else if hex_prefix hostname \<or> octal_prefix hostname then False
            else if dotted_quad hostname then \<not> isPrivateIpv4 hostname
            else True))"

section \<open>services/webhook-dispatcher.ts\<close>

record dispatch_data =
  dd_transaction_id :: "string option"
  dd_gateway_trx_id :: "string option"
  dd_amount :: "string option"
  dd_currency :: "string option"
  dd_fee :: "string option"
  dd_gateway :: "string option"
  dd_gateway_type :: "string option"
  dd_status :: "string option"
  dd_customer_name :: "string option"
  dd_customer_email :: "string option"
  dd_customer_phone :: "string option"
  dd_metadata :: "(string \<times> string) list option"

definition no_data :: dispatch_data where
  "no_data = \<lparr>dd_transaction_id = None, dd_gateway_trx_id = None, dd_amount = None, dd_currency = None,
     dd_fee = None, dd_gateway = None, dd_gateway_type = None, dd_status = None, dd_customer_name = None,
     dd_customer_email = None, dd_customer_phone = None, dd_metadata = None\<rparr>"

definition or_else :: "'a option \<Rightarrow> 'a \<Rightarrow> 'a" where
  "or_else x d = (case x of None \<Rightarrow> d | Some v \<Rightarrow> v)"

definition webhook_buildPayload :: "iso \<Rightarrow> string \<Rightarrow> dispatch_data \<Rightarrow> webhook_payload" where
  "webhook_buildPayload now event data = \<lparr>wp_event = event,
     wp_transaction_id = or_else (dd_transaction_id data) [],
     wp_gateway_trx_id = or_else (dd_gateway_trx_id data) [],
     wp_amount = or_else (dd_amount data) ''0.00'',
     wp_currency = or_else (dd_currency data) ''BDT'',
     wp_fee = or_else (dd_fee data) ''0.00'',
     wp_gateway = or_else (dd_gateway data) [],
     wp_gateway_type = or_else (dd_gateway_type data) ''unknown'',
     wp_status = or_else (dd_status data) [],
     wp_customer_name = or_else (dd_customer_name data) [],
     wp_customer_email = or_else (dd_customer_email data) [],
     wp_customer_phone = or_else (dd_customer_phone data) [],
     wp_metadata = or_else (dd_metadata data) [],
     wp_timestamp = now\<rparr>"

definition active_webhooks :: "int \<Rightarrow> d1 \<Rightarrow> webhook_row list" where
  "active_webhooks mid db = filter (\<lambda>w. wh_merchant_id w = mid \<and> wh_active w) (op_webhooks db)"

definition subscribed :: "string \<Rightarrow> webhook_row \<Rightarrow> bool" where
  "subscribed event w \<longleftrightarrow> wh_events w = [] \<or> ''*'' \<in> set (wh_events w) \<or> event \<in> set (wh_events w)"

definition webhook_message_for :: "int \<Rightarrow> string \<Rightarrow> webhook_payload \<Rightarrow> webhook_row \<Rightarrow> webhook_message" where
  "webhook_message_for mid event payload w = \<lparr>wm_webhook_id = wh_id w, wm_merchant_id = mid, wm_url = wh_url w,
     wm_secret = wh_secret w, wm_event = event, wm_payload = payload, wm_attempt = 1\<rparr>"

definition queue_send :: "webhook_message list \<Rightarrow> unit svc" where
  "queue_send ms = remote (\<lambda>w. ((), w\<lparr>w_queue := w_queue w @ ms\<rparr>))"

definition dispatch :: "int \<Rightarrow> string \<Rightarrow> dispatch_data \<Rightarrow> unit svc" where
  "dispatch mid event data =
     andThen (d1_get (active_webhooks mid)) (\<lambda>webhooks.
       if webhooks = [] then ret ()
       else andThen (reading w_now) (\<lambda>now.
         let messages = map (webhook_message_for mid event (webhook_buildPayload now event data)) (filter (subscribed event) webhooks)
         in if messages \<noteq> [] then queue_send messages else ret ()))"

text \<open>\<open>sendTest\<close>: the first active endpoint, or a new one that passes the guard.\<close>

definition truthy :: "string option \<Rightarrow> string option" where
  "truthy x = (case x of Some s \<Rightarrow> if s = [] then None else Some s | None \<Rightarrow> None)"

definition insert_webhook :: "int \<Rightarrow> string \<Rightarrow> string \<Rightarrow> iso \<Rightarrow> d1 \<Rightarrow> int \<times> d1" where
  "insert_webhook mid url secret now db = (seq_webhooks db, db\<lparr>
     op_webhooks := op_webhooks db @ [\<lparr>wh_id = seq_webhooks db, wh_merchant_id = mid, wh_url = url, wh_secret = secret,
       wh_events = [''*''], wh_active = True, wh_created_at = now\<rparr>],
     seq_webhooks := seq_webhooks db + 1\<rparr>)"

definition test_data :: "string \<Rightarrow> dispatch_data" where
  "test_data rnd = no_data\<lparr>dd_transaction_id := Some (''TEST-'' @ rnd), dd_amount := Some ''0.00'', dd_currency := Some ''BDT'',
     dd_gateway := Some ''test'', dd_gateway_type := Some ''test'', dd_status := Some ''test''\<rparr>"

definition test_endpoint :: "url_parser \<Rightarrow> int \<Rightarrow> string option \<Rightarrow> string \<Rightarrow> (string + int \<times> string \<times> string) svc" where
  "test_endpoint parse mid targetUrl rnd =
     andThen (d1_get (\<lambda>db. first_row (sort_key wh_created_at (active_webhooks mid db)))) (\<lambda>webhook.
     case webhook of
       Some w \<Rightarrow> ret (Inr (wh_id w, wh_url w, wh_secret w))
     | None \<Rightarrow>
       andThen (reading w_env) (\<lambda>env.
       case truthy (case truthy targetUrl of Some u \<Rightarrow> Some u | None \<Rightarrow> ae_DEFAULT_WEBHOOK_URL env) of
         None \<Rightarrow> ret (Inl ''No webhook endpoint registered for merchant'')
       | Some url \<Rightarrow>
         if \<not> isAllowedWebhookUrl parse url (ae_ALLOW_LOCAL_WEBHOOK_TARGETS env = Some ''1'')
         then ret (Inl ''Target webhook URL is blocked by SSRF protection'')
         else andThen (reading w_now) (\<lambda>now.
              andThen (d1_run (insert_webhook mid url (''whsec_'' @ rnd) now)) (\<lambda>i. ret (Inr (i, url, ''whsec_'' @ rnd))))))"

definition sendTest :: "url_parser \<Rightarrow> int \<Rightarrow> string option \<Rightarrow> string \<Rightarrow> string \<Rightarrow> (string + unit) svc" where
  "sendTest parse mid targetUrl rnd rnd8 =
     andThen (test_endpoint parse mid targetUrl rnd) (\<lambda>ep.
     case ep of
       Inl err \<Rightarrow> ret (Inl err)
     | Inr (i, url, secret) \<Rightarrow>
       andThen (reading w_now) (\<lambda>now.
       andThen (queue_send [\<lparr>wm_webhook_id = i, wm_merchant_id = mid, wm_url = url, wm_secret = secret, wm_event = ''webhook.test'',
            wm_payload = webhook_buildPayload now ''webhook.test'' (test_data rnd8), wm_attempt = 1\<rparr>]) (\<lambda>_.
       ret (Inr ()))))"

section \<open>queues/webhook-consumer.ts\<close>

datatype disposition = Ack | Retry int

text \<open>The endpoint answers with a status or an error, after some milliseconds.\<close>

type_synonym http_endpoint = "webhook_message \<Rightarrow> (exn + nat) \<times> int"

definition logDelivery :: "webhook_message \<Rightarrow> int \<Rightarrow> int \<Rightarrow> bool \<Rightarrow> unit svc" where
  "logDelivery m status elapsed success =
     andThen (reading w_now) (\<lambda>now.
     d1_put (\<lambda>db. db\<lparr>op_webhook_deliveries := op_webhook_deliveries db @
       [\<lparr>wd_merchant_id = wm_merchant_id m, wd_webhook_id = wm_webhook_id m, wd_event = wm_event m, wd_url = wm_url m,
         wd_status_code = status, wd_response_time_ms = elapsed, wd_success = success, wd_created_at = now\<rparr>]\<rparr>))"

definition retry_delay :: "nat \<Rightarrow> int" where
  "retry_delay attempt = [60, 300, 1800] ! min (attempt - 1) 2"

definition processOne :: "url_parser \<Rightarrow> http_endpoint \<Rightarrow> webhook_message \<Rightarrow> disposition svc" where
  "processOne parse http m =
     andThen (reading w_env) (\<lambda>env.
     catching
       (if \<not> isAllowedWebhookUrl parse (wm_url m) (ae_ALLOW_LOCAL_WEBHOOK_TARGETS env = Some ''1'')
        then andThen (logDelivery m 0 0 False) (\<lambda>_. ret Ack)
        else case fst (http m) of
               Inl e \<Rightarrow> throw e
             | Inr status \<Rightarrow>
                 andThen (logDelivery m (int status) (snd (http m)) (200 \<le> status \<and> status < 300)) (\<lambda>_.
                 ret (if 200 \<le> status \<and> status < 300 then Ack
                      else if 400 \<le> status \<and> status < 500 then Ack
                      else Retry (retry_delay (wm_attempt m)))))
       (\<lambda>e. andThen (logDelivery m 0 (snd (http m)) False) (\<lambda>_. ret (Retry (retry_delay (wm_attempt m))))))"

text \<open>\<open>Promise.allSettled\<close>: a rejected delivery is recorded as settled; \<open>process\<close> itself never rejects.\<close>

fun webhook_process :: "url_parser \<Rightarrow> http_endpoint \<Rightarrow> webhook_message list \<Rightarrow> (webhook_message \<times> disposition option) list svc" where
  "webhook_process parse http [] = ret []"
| "webhook_process parse http (m # ms) =
     andThen (catching (andThen (processOne parse http m) (\<lambda>d. ret (Some d))) (\<lambda>_. ret None)) (\<lambda>d.
     andThen (webhook_process parse http ms) (\<lambda>rest. ret ((m, d) # rest)))"

section \<open>The guard on address literals\<close>

lemma octet_div:
  assumes "num < 2 ^ 32"
  shows "octet_of num k = num div 2 ^ k mod 256"
proof -
  let ?w = "word_of_nat num :: 32 word"
  have u: "unat ?w = num" using assms by (simp add: unat_of_nat)
  have "(drop_bit k ?w) AND 255 = take_bit 8 (drop_bit k ?w)"
    by (simp add: take_bit_eq_mask mask_eq_exp_minus_1)
  then have "octet_of num k = take_bit 8 (unat (drop_bit k ?w))"
    by (simp only: octet_of_def unsigned_take_bit_eq)
  also have "unat (drop_bit k ?w) = drop_bit k num"
    using assms by (simp only: unsigned_drop_bit_eq u) (simp add: take_bit_nat_eq_self)
  finally show ?thesis by (simp add: take_bit_eq_mod drop_bit_eq_div)
qed

lemma split_on_append: "d \<notin> set a \<Longrightarrow> split_on d (a @ d # r) = a # split_on d r"
  by (induction a) auto

lemma split_on_none: "d \<notin> set a \<Longrightarrow> split_on d a = [a]"
  by (induction a) auto

lemma dot_notin_nat_str: "CHR ''.'' \<notin> set (nat_str n)"
  using nat_str_digits [of "CHR ''.''" n] by (auto simp: is_digit_def)

lemma digit_not_space: "is_digit c \<Longrightarrow> \<not> is_space c \<and> c \<noteq> CHR ''+'' \<and> c \<noteq> CHR ''-''"
  by (auto simp: is_digit_def is_space_def)

lemma parseInt_dec_nat_str: "parseInt_dec (nat_str n) = Some (int n)"
proof -
  have d: "\<forall>c \<in> set (nat_str n). is_digit c" using nat_str_digits by blast
  obtain c t where ct: "nat_str n = c # t" by (cases "nat_str n") (auto dest: arg_cong [where f = length])
  with d have c: "\<not> is_space c" "c \<noteq> CHR ''+''" "c \<noteq> CHR ''-''" using digit_not_space by auto
  have tw: "takeWhile is_digit (c # t) = c # t" using d ct by (metis takeWhile_eq_all_conv)
  have "parse_digits (c # t) = Some n"
    unfolding parse_digits_def tw using digits_val_nat_str [of n] ct by simp
  then show ?thesis using c by (simp add: parseInt_dec_def ct)
qed

lemma octets_dotted:
  "octets (dotted_of n) = map (\<lambda>k. Some (int (octet_of n k))) [24, 16, 8, 0]"
  by (simp add: octets_def dotted_of_def split_on_append split_on_none dot_notin_nat_str parseInt_dec_nat_str)

text \<open>The addresses that must not be reached, as ranges of 32-bit numbers.\<close>

definition internal_ipv4 :: "nat \<Rightarrow> bool" where
  "internal_ipv4 n \<longleftrightarrow> n < 0x01000000 \<or> 0x0A000000 \<le> n \<and> n < 0x0B000000 \<or> 0x7F000000 \<le> n \<and> n < 0x80000000 \<or>
     0xA9FE0000 \<le> n \<and> n < 0xA9FF0000 \<or> 0xAC100000 \<le> n \<and> n < 0xAC200000 \<or> 0xC0A80000 \<le> n \<and> n < 0xC0A90000 \<or> 0xE0000000 \<le> n"

lemma octet_range:
  fixes a b :: nat
  assumes "b < 256" and "hi < 256" and "lo < 256"
  shows "(k * 256 + lo \<le> a * 256 + b \<and> a * 256 + b < k * 256 + hi + 1) \<longleftrightarrow> (a = k \<and> lo \<le> b \<and> b \<le> hi)"
  using assms by (cases a k rule: linorder_cases) auto

lemma private_dotted:
  assumes "n < 2 ^ 32"
  shows "isPrivateIpv4 (dotted_of n) \<longleftrightarrow> internal_ipv4 n"
proof -
  define a b c d where "a = n div 2 ^ 24" and "b = n div 2 ^ 16 mod 256" and "c = n div 2 ^ 8 mod 256" and "d = n mod 256"
  have n: "n = a * 2 ^ 24 + b * 2 ^ 16 + c * 2 ^ 8 + d"
  proof -
    define x y where "x = n div 256" and "y = x div 256"
    have "n = x * 256 + d" "x = y * 256 + c" "y = a * 256 + b"
      using div_mult_mod_eq [of "n div 256" 256] div_mult_mod_eq [of "n div 65536" 256]
      unfolding x_def y_def a_def b_def c_def d_def by (simp_all add: div_mult2_eq [symmetric])
    then show ?thesis by simp
  qed
  have bounds: "a < 256" "b < 256" "c < 256" "d < 256"
    using assms by (auto simp: a_def b_def c_def d_def)
  then have oct: "octet_of n 24 = a" "octet_of n 16 = b" "octet_of n 8 = c" "octet_of n 0 = d"
    by (simp_all add: octet_div [OF assms] a_def b_def c_def d_def)
  have "isPrivateIpv4 (dotted_of n) \<longleftrightarrow> a = 0 \<or> a = 10 \<or> a = 127 \<or> a = 169 \<and> b = 254 \<or> a = 172 \<and> 16 \<le> b \<and> b \<le> 31 \<or> a = 192 \<and> b = 168 \<or> 224 \<le> a"
    unfolding isPrivateIpv4_def octets_dotted using bounds by (auto simp: oct)
  also have "\<dots> \<longleftrightarrow> internal_ipv4 n"
  proof -
    define h where "h = a * 256 + b"
    have ge: "(K * 65536 \<le> n) = (K \<le> h)" for K
      using bounds unfolding n h_def by simp linarith
    have g: "(16777216 \<le> n) = (256 \<le> h)" "(167772160 \<le> n) = (2560 \<le> h)" "(184549376 \<le> n) = (2816 \<le> h)" "(2130706432 \<le> n) = (32512 \<le> h)" "(2147483648 \<le> n) = (32768 \<le> h)" "(2851995648 \<le> n) = (43518 \<le> h)" "(2852061184 \<le> n) = (43519 \<le> h)" "(2886729728 \<le> n) = (44048 \<le> h)" "(2887778304 \<le> n) = (44064 \<le> h)" "(3232235520 \<le> n) = (49320 \<le> h)" "(3232301056 \<le> n) = (49321 \<le> h)" "(3758096384 \<le> n) = (57344 \<le> h)"
      using ge [of 256] ge [of 2560] ge [of 2816] ge [of 32512] ge [of 32768] ge [of 43518] ge [of 43519] ge [of 44048] ge [of 44064] ge [of 49320] ge [of 49321] ge [of 57344] by simp_all
    have "internal_ipv4 n \<longleftrightarrow> h < 256 \<or> 2560 \<le> h \<and> h < 2816 \<or> 32512 \<le> h \<and> h < 32768 \<or> 43518 \<le> h \<and> h < 43519 \<or>
        44048 \<le> h \<and> h < 44064 \<or> 49320 \<le> h \<and> h < 49321 \<or> 57344 \<le> h"
      by (simp only: internal_ipv4_def not_le [symmetric] g)
    moreover have "(h < 256) = (a = 0)" "(2560 \<le> h \<and> h < 2816) = (a = 10)" "(32512 \<le> h \<and> h < 32768) = (a = 127)"
        "(57344 \<le> h) = (224 \<le> a)"
      using bounds(2) unfolding h_def by (intro iffI conjI; (elim conjE)?; linarith)+
    moreover have "(43518 \<le> h \<and> h < 43519) = (a = 169 \<and> b = 254)"
      using octet_range [OF bounds(2), of 254 254 169 a] unfolding h_def by simp linarith
    moreover have "(49320 \<le> h \<and> h < 49321) = (a = 192 \<and> b = 168)"
      using octet_range [OF bounds(2), of 168 168 192 a] unfolding h_def by simp linarith
    moreover have "(44048 \<le> h \<and> h < 44064) = (a = 172 \<and> 16 \<le> b \<and> b \<le> 31)"
      using octet_range [OF bounds(2), of 31 16 172 a] unfolding h_def by simp
    ultimately show ?thesis by blast
  qed
  finally show ?thesis .
qed

lemma lower_digit: "is_digit c \<or> c = CHR ''.'' \<Longrightarrow> lower_char c = c"
  by (auto simp: is_digit_def lower_char_def)

lemma lower_address: "\<forall>c \<in> set s. is_digit c \<or> c = CHR ''.'' \<Longrightarrow> toLowerCase s = s"
  by (induction s) (auto simp: toLowerCase_def lower_digit)

lemma digit_not_bracket: "is_digit c \<Longrightarrow> c \<noteq> CHR ''['' \<and> c \<noteq> CHR '']'' \<and> c \<noteq> CHR '':'' \<and> c \<noteq> CHR ''x'' \<and> c \<noteq> CHR ''l'' \<and> c \<noteq> CHR ''t''"
  by (auto simp: is_digit_def)

text \<open>A host name that starts and ends with a digit and has only digits and dots in between.\<close>

definition numeric_host :: "string \<Rightarrow> bool" where
  "numeric_host s \<longleftrightarrow> s \<noteq> [] \<and> is_digit (hd s) \<and> is_digit (last s) \<and> (\<forall>c \<in> set s. is_digit c \<or> c = CHR ''.'')"

lemma strip_numeric: "numeric_host s \<Longrightarrow> strip_brackets (toLowerCase s) = s"
  using digit_not_bracket [of "hd s"] digit_not_bracket [of "last s"]
  by (cases s) (auto simp: numeric_host_def lower_address strip_brackets_def)

lemma ends_with_last: "ends_with s p \<Longrightarrow> p \<noteq> [] \<Longrightarrow> last s = last p"
  unfolding ends_with_def
  by (metis append_take_drop_id last_appendR)

lemma numeric_not_name:
  assumes "numeric_host s"
  shows "s \<noteq> ''localhost''" "\<not> ends_with s ''.local''" "\<not> ends_with s ''.internal''" "\<not> ends_with s ''.localhost''" "CHR '':'' \<notin> set s"
proof -
  have l: "is_digit (last s)" using assms by (simp add: numeric_host_def)
  have nd: "\<not> is_digit (CHR ''l'')" "\<not> is_digit (CHR ''t'')" "\<not> is_digit (CHR '':'')" by (simp_all add: is_digit_def)
  have suffix: "\<not> ends_with s p" if "p \<noteq> []" "\<not> is_digit (last p)" for p
    using ends_with_last [of s p] that l by metis
  show "s \<noteq> ''localhost''" using l nd by force
  show "\<not> ends_with s ''.local''" "\<not> ends_with s ''.internal''" "\<not> ends_with s ''.localhost''"
    by (rule suffix; simp add: nd)+
  show "CHR '':'' \<notin> set s" using assms nd(3) by (auto simp: numeric_host_def)
qed

lemma guard_numeric:
  assumes "parse u = Some \<lparr>pu_protocol = ''https:'', pu_hostname = s\<rparr>" and "numeric_host s"
  shows "isAllowedWebhookUrl parse u loc =
     (if all_digits s then digits_val s \<le> 0xFFFFFFFF \<and> \<not> isPrivateIpv4 (dotted_of (digits_val s))
      else if hex_prefix s \<or> octal_prefix s then False
      else if dotted_quad s then \<not> isPrivateIpv4 s else True)"
  using numeric_not_name [OF assms(2)]
  by (simp add: isAllowedWebhookUrl_def assms(1) strip_numeric [OF assms(2)] Let_def not_less)

lemma nat_str_leading_zero: "nat_str n = CHR ''0'' # t \<Longrightarrow> t = []"
proof (induction n arbitrary: t rule: nat_str.induct)
  case (1 n)
  show ?case
  proof (cases "n < 10")
    case True
    with 1 show ?thesis by (simp add: nat_str.simps [of n])
  next
    case False
    then have e: "nat_str n = nat_str (n div 10) @ [digit_char (n mod 10)]" by (simp add: nat_str.simps [of n])
    with "1.prems" obtain t' where t': "nat_str (n div 10) = CHR ''0'' # t'"
      by (cases "nat_str (n div 10)") auto
    then have "nat_str (n div 10) = ''0''" using "1.IH" [OF False] by simp
    then have "n div 10 = 0" using digits_val_nat_str [of "n div 10"] by (simp add: digits_val_def digit_val_def)
    then show ?thesis using False by simp
  qed
qed

lemma numeric_nat_str: "numeric_host (nat_str n)" "all_digits (nat_str n)"
  using nat_str_all_digits [of n] by (simp_all add: numeric_host_def all_digits_def)

lemma dotted_props:
  "numeric_host (dotted_of n)" "\<not> all_digits (dotted_of n)" "\<not> hex_prefix (dotted_of n)" "\<not> octal_prefix (dotted_of n)" "dotted_quad (dotted_of n)"
proof -
  obtain c t where ct: "nat_str (octet_of n 24) = c # t" by (cases "nat_str (octet_of n 24)") simp_all
  have d: "is_digit c" "\<forall>x \<in> set t. is_digit x" using nat_str_all_digits [of "octet_of n 24"] ct by auto
  let ?rest = "nat_str (octet_of n 16) @ ''.'' @ nat_str (octet_of n 8) @ ''.'' @ nat_str (octet_of n 0)"
  have e: "dotted_of n = c # t @ CHR ''.'' # ?rest" by (simp add: dotted_of_def ct)
  show "numeric_host (dotted_of n)"
    using d nat_str_all_digits [THEN bspec, OF last_in_set [OF nat_str_not_Nil]] nat_str_digits
    by (auto simp: numeric_host_def e)
  show "\<not> all_digits (dotted_of n)" by (auto simp: all_digits_def e)
  show "\<not> hex_prefix (dotted_of n)"
  proof -
    obtain y ys where y: "t @ CHR ''.'' # ?rest = y # ys" "is_digit y \<or> y = CHR ''.''"
      using d(2) by (cases t) auto
    then have "lower_char y = y" "y \<noteq> CHR ''x''" using digit_not_bracket [of y] by (auto simp: lower_digit)
    moreover have "dotted_of n = c # y # ys" unfolding e y(1) ..
    ultimately show ?thesis by (simp add: hex_prefix_def toLowerCase_def)
  qed
  show "\<not> octal_prefix (dotted_of n)"
    using nat_str_leading_zero [of "octet_of n 24" t] ct by (auto simp: octal_prefix_def e)
  show "dotted_quad (dotted_of n)"
    by (simp add: dotted_quad_def dotted_of_def split_on_append split_on_none dot_notin_nat_str numeric_nat_str(2))
qed


definition literal_parser :: url_parser where
  "literal_parser u = Some \<lparr>pu_protocol = ''https:'', pu_hostname = u\<rparr>"


section \<open>Dispatching\<close>

definition expected_messages :: "world \<Rightarrow> int \<Rightarrow> string \<Rightarrow> dispatch_data \<Rightarrow> webhook_message list" where
  "expected_messages w mid event data =
     map (webhook_message_for mid event (webhook_buildPayload (w_now w) event data))
       (filter (subscribed event) (active_webhooks mid (w_db w)))"

definition same_queue :: "world \<Rightarrow> webhook_message list \<Rightarrow> world \<Rightarrow> bool" where
  "same_queue w0 ms w \<longleftrightarrow> same_state w0 w \<and> w_queue w = w_queue w0 @ ms"

lemma same_queue_stable: "fate_stable (same_queue w0 ms)"
  by (simp add: fate_stable_def same_queue_def same_state_def)

lemma queue_send_triple:
  "triple (same_queue w0 []) (queue_send ms) (\<lambda>_. same_queue w0 ms) (\<lambda>_ w. same_queue w0 [] w \<or> same_queue w0 ms w)"
  unfolding queue_send_def by (rule triple_call [OF same_queue_stable]) (auto simp: same_queue_def same_state_def)

lemma dispatch_triple:
  "triple (same_queue w0 []) (dispatch mid event data) (\<lambda>_. same_queue w0 (expected_messages w0 mid event data))
     (\<lambda>_ w. same_queue w0 [] w \<or> same_queue w0 (expected_messages w0 mid event data) w)"
  unfolding dispatch_def
proof (rule triple_andThen)
  let ?R = "\<lambda>rows. rows = active_webhooks mid (w_db w0)"
  let ?E = "\<lambda>_ w. same_queue w0 [] w \<or> same_queue w0 (expected_messages w0 mid event data) w"
  show "triple (same_queue w0 []) (d1_get (active_webhooks mid)) (\<lambda>rows w. same_queue w0 [] w \<and> ?R rows) ?E"
    by (rule triple_d1_get [OF same_queue_stable]) (auto simp: same_queue_def same_state_def)
  fix rows
  show "triple (\<lambda>w. same_queue w0 [] w \<and> ?R rows)
     (if rows = [] then ret () else andThen (reading w_now) (\<lambda>now.
         let messages = map (webhook_message_for mid event (webhook_buildPayload now event data)) (filter (subscribed event) rows)
         in if messages \<noteq> [] then queue_send messages else ret ()))
     (\<lambda>_. same_queue w0 (expected_messages w0 mid event data)) ?E"
  proof (rule triple_pure, cases "rows = []")
    assume "?R rows" and "rows = []"
    then show "triple (same_queue w0 []) (if rows = [] then ret () else andThen (reading w_now) (\<lambda>now.
         let messages = map (webhook_message_for mid event (webhook_buildPayload now event data)) (filter (subscribed event) rows)
         in if messages \<noteq> [] then queue_send messages else ret ()))
       (\<lambda>_. same_queue w0 (expected_messages w0 mid event data)) ?E"
      by (auto simp: expected_messages_def intro!: triple_ret)
  next
    assume R: "?R rows" and ne: "rows \<noteq> []"
    have rd: "triple (same_queue w0 []) (reading w_now) (\<lambda>now w. same_queue w0 [] w \<and> now = w_now w0) ?E"
      by (rule triple_reading) (simp add: same_queue_def same_state_def)
    show "triple (same_queue w0 []) (if rows = [] then ret () else andThen (reading w_now) (\<lambda>now.
         let messages = map (webhook_message_for mid event (webhook_buildPayload now event data)) (filter (subscribed event) rows)
         in if messages \<noteq> [] then queue_send messages else ret ()))
       (\<lambda>_. same_queue w0 (expected_messages w0 mid event data)) ?E"
      unfolding if_not_P [OF ne]
    proof (rule triple_andThen [OF rd], rule triple_pure)
      fix now assume now: "now = w_now w0"
      have m: "map (webhook_message_for mid event (webhook_buildPayload now event data)) (filter (subscribed event) rows) = expected_messages w0 mid event data"
        by (simp add: expected_messages_def R now)
      show "triple (same_queue w0 []) (let messages = map (webhook_message_for mid event (webhook_buildPayload now event data)) (filter (subscribed event) rows)
         in if messages \<noteq> [] then queue_send messages else ret ()) (\<lambda>_. same_queue w0 (expected_messages w0 mid event data)) ?E"
        unfolding m Let_def using queue_send_triple [of w0 "expected_messages w0 mid event data"]
        by (cases "expected_messages w0 mid event data = []") (auto intro!: triple_ret)
    qed
  qed
qed


definition demo_hook :: "int \<Rightarrow> string list \<Rightarrow> webhook_row" where
  "demo_hook i evs = \<lparr>wh_id = i, wh_merchant_id = 7, wh_url = ''https://shop.example/hook'', wh_secret = ''s'', wh_events = evs,
     wh_active = True, wh_created_at = 0\<rparr>"

definition hook_world :: world where
  "hook_world = demo_world\<lparr>w_db := empty_d1\<lparr>op_webhooks := [demo_hook 1 [''payment.completed''], demo_hook 2 [''refund.completed''], demo_hook 3 [''*'']]\<rparr>\<rparr>"


section \<open>Consuming\<close>

definition settled_as :: "url_parser \<Rightarrow> http_endpoint \<Rightarrow> app_env \<Rightarrow> webhook_message \<Rightarrow> disposition" where
  "settled_as parse http env m =
     (if \<not> isAllowedWebhookUrl parse (wm_url m) (ae_ALLOW_LOCAL_WEBHOOK_TARGETS env = Some ''1'') then Ack
      else case fst (http m) of
             Inl e \<Rightarrow> Retry (retry_delay (wm_attempt m))
           | Inr st \<Rightarrow> if st \<in> {200..<300} \<union> {400..<500} then Ack else Retry (retry_delay (wm_attempt m)))"

lemma logDelivery_arrives:
  "w_fates w = [] \<Longrightarrow> \<exists>db. logDelivery m st el ok w = (Inr (), w\<lparr>w_db := db\<rparr>)"
  by (auto simp: logDelivery_def andThen_def reading_def d1_put_arrives)

lemma processOne_arrives:
  assumes "w_fates w = []"
  shows "\<exists>db. processOne parse http m w = (Inr (settled_as parse http (w_env w) m), w\<lparr>w_db := db\<rparr>)"
proof -
  have log: "\<exists>db. andThen (logDelivery m st el ok) (\<lambda>_. ret d) w = (Inr d, w\<lparr>w_db := db\<rparr>)" for st el ok and d :: disposition
    using logDelivery_arrives [OF assms, of m st el ok] by (auto simp: andThen_def ret_def)
  show ?thesis
  proof (cases "isAllowedWebhookUrl parse (wm_url m) (ae_ALLOW_LOCAL_WEBHOOK_TARGETS (w_env w) = Some ''1'')")
    case False
    with log [of 0 0 False Ack] show ?thesis
      by (auto simp: processOne_def andThen_def [of "reading w_env"] reading_def catching_def settled_as_def)
  next
    case True
    note step = processOne_def andThen_def [of "reading w_env"] reading_def settled_as_def
    show ?thesis
    proof (cases "fst (http m)")
      case (Inl e)
      with True log [of 0 "snd (http m)" False "Retry (retry_delay (wm_attempt m))"] show ?thesis
        by (auto simp: step catching_def throw_def)
    next
      case (Inr st)
      let ?d = "if 200 \<le> st \<and> st < 300 then Ack else if 400 \<le> st \<and> st < 500 then Ack else Retry (retry_delay (wm_attempt m))"
      have "settled_as parse http (w_env w) m = ?d" using True Inr by (simp add: settled_as_def)
      with True Inr log [of "int st" "snd (http m)" "200 \<le> st \<and> st < 300" ?d] show ?thesis
        by (auto simp: step catching_def simp del: if_split)
    qed
  qed
qed

text \<open>With the database reachable, every message of a batch is settled exactly once: acknowledged when the
  guard blocks its URL, when it was delivered or when the endpoint answers with a client error,
  and otherwise retried after the delay of its attempt.\<close>

theorem consumer_settles_all:
  assumes "w_fates w = []"
  shows "fst (webhook_process parse http ms w) = Inr (map (\<lambda>m. (m, Some (settled_as parse http (w_env w) m))) ms)"
  using assms
proof (induction ms arbitrary: w)
  case (Cons m ms)
  obtain db where p: "processOne parse http m w = (Inr (settled_as parse http (w_env w) m), w\<lparr>w_db := db\<rparr>)"
    using processOne_arrives [OF Cons.prems] by blast
  obtain x w' where rest: "webhook_process parse http ms (w\<lparr>w_db := db\<rparr>) = (x, w')" by fastforce
  then have "x = Inr (map (\<lambda>m. (m, Some (settled_as parse http (w_env w) m))) ms)"
    using Cons.IH [of "w\<lparr>w_db := db\<rparr>"] Cons.prems by simp
  with p rest show ?case by (simp add: andThen_def catching_def ret_def)
qed (simp add: ret_def)

definition failing_endpoint :: http_endpoint where
  "failing_endpoint m = (Inl (Error ''timeout''), 12)"

definition demo_message :: webhook_message where
  "demo_message = webhook_message_for 7 ''payment.completed'' (webhook_buildPayload 0 ''payment.completed'' no_data) (demo_hook 1 [])"

theorem consumer_settles_all_witness:
  "fst (webhook_process literal_parser failing_endpoint [demo_message] demo_world) = Inr [(demo_message, Some (Retry 60))]"
proof -
  have "settled_as literal_parser failing_endpoint (w_env demo_world) demo_message = Retry 60" by code_simp
  moreover have "w_fates demo_world = []" by (simp add: demo_world_def)
  ultimately show ?thesis using consumer_settles_all [of demo_world literal_parser failing_endpoint "[demo_message]"] by simp
qed

text \<open>
  Every dispatched message is a first attempt, and a retry redelivers the same body, so the delay
  is always the first of the schedule.
\<close>

lemma first_attempt_delay: "m \<in> set (expected_messages w mid event data) \<Longrightarrow> retry_delay (wm_attempt m) = 60"
  by (auto simp: expected_messages_def webhook_message_for_def retry_delay_def)

text \<open>
  Two lost database calls in a row leave a message neither acknowledged nor retried, although the
  endpoint never took it, and the batch still settles without an error.
\<close>

lemma unsettled_message:
  "fst (webhook_process literal_parser failing_endpoint [demo_message] (demo_world\<lparr>w_fates := [Lost, Lost]\<rparr>)) = Inr [(demo_message, None)]"
  by code_simp

end
