(* ===== verification/LedgerFrame.thy ===== *)
theory LedgerFrame
  imports LedgerService
begin

text \<open>
  What the ledger leaves alone: no call of a ledger object, and no service that only posts,
  touches a table outside the ledger's own audit tables.  Services that keep an invariant of the
  business tables compose with the ledger through these facts.
\<close>

definition business :: "d1 \<Rightarrow> intent_row list \<times> tx_row list \<times> refund_row list \<times> int \<times> int \<times> int" where
  "business db = (op_payment_intents db, op_transactions db, op_refunds db,
     seq_payment_intents db, seq_transactions db, seq_refunds db)"

lemma exec_stmt_business [simp]: "business (exec_stmt st db) = business db"
  by (cases st) (auto simp: business_def split: option.split)

lemma run_batch_business [simp]: "business (run_batch sts db) = business db"
  unfolding run_batch_def by (induction sts arbitrary: db) auto

lemma writeLedgerAuditTrail_business [simp]: "business (snd (writeLedgerAuditTrail p t db)) = business db"
  by (simp add: writeLedgerAuditTrail_def Let_def)

lemma settle_snd [simp]: "snd (settle p now x) = snd x"
  by (auto simp: settle_def split: prod.split sum.split do_error.split)

text \<open>What a posting writes to D1 is a batch of audit statements; with the outbox on it is empty.\<close>

lemma finish_writes:
  "\<exists>sts. snd (snd (finish_posting env now ok mid p (d, db))) = run_batch sts db \<and> (outbox_enabled env \<longrightarrow> sts = [])"
proof (cases "outbox_enabled env \<or> \<not> ok")
  case True
  then have "snd (snd (finish_posting env now ok mid p (d, db))) = run_batch [] db"
    by (auto simp: finish_posting_def run_batch_def)
  then show ?thesis by blast
next
  case False
  then have "snd (snd (finish_posting env now ok mid p (d, db))) = run_batch (buildLedgerAuditStatements (pp_merchant_id p) p now) db"
    by (simp add: finish_posting_def writeLedgerAuditTrail_def Let_def)
  with False show ?thesis by blast
qed

lemma post_writes:
  assumes "ledger_inv d"
  shows "\<exists>sts. snd (snd (postTransaction env now ok p (d, db))) = run_batch sts db \<and> (outbox_enabled env \<longrightarrow> sts = [])"
proof -
  have none: "\<exists>sts. db = run_batch sts db \<and> (outbox_enabled env \<longrightarrow> sts = [])" by (rule exI [of _ "[]"]) (simp add: run_batch_def)
  show ?thesis
  proof (cases "validatePostingShape p")
    case (Inl e)
    with none post_invalid [of p "fst e" "snd e" env now ok d db] show ?thesis by simp
  next
    case (Inr u)
    then have sh: "validatePostingShape p = Inr ()" by simp
    show ?thesis
    proof (cases "pp_tx_id p \<in> posted_ids d")
      case True
      then obtain x where "List.find (\<lambda>r. px_tx_id r = pp_tx_id p) (do_posted d) = Some x"
        using find_posted_None [of "pp_tx_id p" d] by auto
      with none post_duplicate [OF sh] show ?thesis by simp
    next
      case new: False
      show ?thesis
      proof (cases "checkBalances (pp_entries p) (pp_currency p) (do_accounts (seedChart (pp_currency p) d))")
        case (Inl e)
        with none post_refused [OF sh new, of "fst e" "snd e"] show ?thesis by simp
      next
        case cb: (Inr ds)
        show ?thesis
        proof (cases "writes_fault d")
          case True
          with none post_fault [OF sh new cb] show ?thesis by simp
        next
          case False
          obtain mid d3 where "postTransaction env now ok p (d, db) = settle p now (finish_posting env now ok mid p (d3, db))"
            using post_commit [where now = now, OF assms sh new cb False] by metis
          then show ?thesis using finish_writes by simp
        qed
      qed
    qed
  qed
qed

lemma post_business: "ledger_inv d \<Longrightarrow> business (snd (snd (postTransaction env now ok p (d, db)))) = business db"
  using post_writes [of d env now ok p db] by auto

lemma drain_business [simp]: "business (snd (snd (drainOutbox force now ok (d, db)))) = business db"
proof (cases "pending_batch force now d")
  case (Cons r rs)
  obtain m d' where "drain_merchant r d = (m, d')" by fastforce
  then show ?thesis
    by (cases m) (auto simp: drainOutbox_def Cons Let_def split: prod.split)
qed (simp add: drainOutbox_def)

lemma snapshot_business [simp]: "business (snd (snd (snapshotBalances now ok (d, db)))) = business db"
proof -
  obtain m d' where "getMerchantId d = (m, d')" by fastforce
  then show ?thesis by (cases m) (auto simp: snapshotBalances_def business_def)
qed

lemma alarm_business [simp]: "business (snd (alarm now ok1 ok2 (d, db))) = business db"
proof -
  obtain x d1 db1 where dr: "drainOutbox False now ok1 (d, db) = (x, (d1, db1))" by (metis prod.exhaust)
  obtain b d2 db2 where sn: "snapshotBalances now ok2 (d1, db1) = (b, (d2, db2))" by (metis prod.exhaust)
  have "business db1 = business db" using drain_business [of False now ok1 d db] dr by simp
  moreover have "business db2 = business db1" using snapshot_business [of now ok2 d1 db1] sn by simp
  ultimately show ?thesis by (cases b) (simp_all add: alarm_def dr snapshot_if_due_def sn)
qed

text \<open>Every call but a foreign write of the database.\<close>

fun own_call :: "do_call \<Rightarrow> bool" where
  "own_call (CForeign _) = False"
| "own_call _ = True"

lemma do_exec_business:
  assumes "ledger_inv d" and "own_call c"
  shows "business (snd (snd (do_exec c (d, db)))) = business db"
  using assms post_business [OF assms(1)]
  by (cases c) (auto simp: fire_alarm_def testTriggerAlarm_def split: prod.splits sum.splits,
      metis snd_conv)

section \<open>Services over the ledger\<close>

definition same_business :: "world \<Rightarrow> world \<Rightarrow> bool" where
  "same_business w0 w \<longleftrightarrow> business (w_db w) = business (w_db w0)"

text \<open>Sound objects that kept what they had, and business tables as they were.\<close>

definition ledger_step :: "world \<Rightarrow> world \<Rightarrow> bool" where
  "ledger_step w0 w \<longleftrightarrow> ledger_safe w0 w \<and> same_business w0 w"

lemma ledger_step_refl: "world_ok w \<Longrightarrow> ledger_step w w"
  by (simp add: ledger_step_def ledger_safe_refl same_business_def)

lemma ledger_step_stable: "fate_stable (ledger_step w0)"
  by (simp add: fate_stable_def ledger_step_def same_business_def)

lemmas step_get = preserves_d1_get [OF ledger_step_stable]

lemma stub_post_step:
  "triple (ledger_step w0) (stub_postTransaction m p)
     (\<lambda>r w. ledger_step w0 w \<and> (res_status r \<noteq> Failed \<longrightarrow> posted_in w m (pp_tx_id p))) (\<lambda>_. ledger_step w0)"
proof -
  let ?op = "\<lambda>w. case postTransaction (ae_ledger (w_env w)) (w_now w) (w_d1_up w) p (w_objects w m, w_db w) of
       (a, (d, db)) \<Rightarrow> (a, w\<lparr>w_objects := (w_objects w)(m := d), w_db := db\<rparr>)"
  have op: "ledger_step w0 (snd (?op w)) \<and> (res_status (fst (?op w)) \<noteq> Failed \<longrightarrow> posted_in (snd (?op w)) m (pp_tx_id p))"
    if w: "ledger_step w0 w" for w
  proof -
    obtain r d db where run: "postTransaction (ae_ledger (w_env w)) (w_now w) (w_d1_up w) p (w_objects w m, w_db w) = (r, (d, db))"
      by (metis prod.exhaust)
    have safe: "ledger_safe w0 w" using w by (simp add: ledger_step_def)
    then have ok: "obj_ok (w_objects w m)" by (simp add: ledger_safe_def world_ok_def)
    then have inv: "ledger_inv (w_objects w m)" by (simp add: obj_ok_def)
    note E = exec_obj_ok [of "(w_objects w m, w_db w)" "CPost (ae_ledger (w_env w)) (w_now w) (w_d1_up w) p"]
    have "ledger_safe w0 (w\<lparr>w_objects := (w_objects w)(m := d), w_db := db\<rparr>)"
      using E ok run by (intro ledger_safe_object [OF safe]) simp_all
    moreover have "business db = business (w_db w)" using post_business [OF inv] run by (metis snd_conv)
    moreover have "res_status r \<noteq> Failed \<Longrightarrow> pp_tx_id p \<in> posted_ids d" using post_not_failed [OF inv run] .
    ultimately show ?thesis using run w by (simp add: posted_in_def ledger_step_def same_business_def)
  qed
  show ?thesis
    unfolding stub_postTransaction_def ledger_call_def
    by (rule triple_call [OF ledger_step_stable]) (use op in blast)+
qed

lemma post_step:
  "triple (ledger_step w0) (post L input (Some k) uuid)
     (\<lambda>r w. ledger_step w0 w \<and> posted_in w (in_merchant_id input) k) (\<lambda>_. ledger_step w0)"
proof -
  have bp: "triple (ledger_step w0) (buildPayload L input (Some k) uuid) (\<lambda>p w. ledger_step w0 w \<and> pp_tx_id p = k) (\<lambda>_. ledger_step w0)"
    unfolding buildPayload_def
  proof (rule triple_andThen [OF step_get])
    fix rows
    show "triple (ledger_step w0)
     (case build_entries L (in_merchant_id input) rows (in_entries input) of
         Inl e \<Rightarrow> throw e | Inr es \<Rightarrow> ret (payload_of input (Some k) uuid rows es))
     (\<lambda>p w. ledger_step w0 w \<and> pp_tx_id p = k) (\<lambda>_. ledger_step w0)"
      by (cases "build_entries L (in_merchant_id input) rows (in_entries input)")
         (simp_all add: triple_ret triple_throw payload_of_def)
  qed
  show ?thesis
    unfolding post_def
  proof (rule triple_andThen [OF bp], rule triple_pure)
    fix p :: posting_payload assume k: "pp_tx_id p = k"
    show "triple (ledger_step w0) (andThen (stub_postTransaction (in_merchant_id input) p) (\<lambda>result.
       if res_status result = Failed
       then throw (PostingValidationError
              (case res_error_code result of Some c \<Rightarrow> c | None \<Rightarrow> INTERNAL)
              (case res_error result of Some m \<Rightarrow> m | None \<Rightarrow> ''posting failed''))
       else ret result)) (\<lambda>r w. ledger_step w0 w \<and> posted_in w (in_merchant_id input) k) (\<lambda>_. ledger_step w0)"
      by (rule triple_andThen [OF stub_post_step]) (auto simp: k intro: triple_throw triple_ret)
  qed
qed

lemma payment_step:
  "triple (ledger_step w0) (postPaymentLedgerEntry L mid pid amount fee cur uuid)
     (\<lambda>r w. ledger_step w0 w \<and> posted_in w mid (payment_tx mid pid)) (\<lambda>_. ledger_step w0)"
  unfolding postPaymentLedgerEntry_def getAccountByCode_def
proof (intro triple_andThen [OF step_get], goal_cases)
  case (1 c r f)
  show ?case
    by (cases c; cases r; cases f) (auto intro!: triple_throw triple_andThen [OF post_step] triple_ret)
qed

lemma refund_step:
  "triple (ledger_step w0) (postRefundLedgerEntry L mid rid amount cur uuid)
     (\<lambda>r w. ledger_step w0 w \<and> posted_in w mid (refund_tx mid rid)) (\<lambda>_. ledger_step w0)"
  unfolding postRefundLedgerEntry_def getAccountByCode_def
proof (intro triple_andThen [OF step_get], goal_cases)
  case (1 c r)
  show ?case
    by (cases c; cases r) (auto intro!: triple_throw triple_andThen [OF post_step] triple_ret)
qed

section \<open>Rows that are backed by a posting\<close>

text \<open>
  A finished row, a completed payment or a completed refund, must have its posting in the ledger
  of the merchant that owns it.  \<open>owner\<close> names that merchant and the id of the posting.
\<close>

definition backed :: "(d1 \<Rightarrow> 'r list) \<Rightarrow> ('r \<Rightarrow> bool) \<Rightarrow> (d1 \<Rightarrow> 'r \<Rightarrow> (int \<times> string) option) \<Rightarrow> world \<Rightarrow> bool" where
  "backed rows finished owner w \<longleftrightarrow> (\<forall>r \<in> set (rows (w_db w)). finished r \<longrightarrow>
     (\<exists>m tx. owner (w_db w) r = Some (m, tx) \<and> posted_in w m tx))"

text \<open>
  The contract under which posting first and marking afterwards is safe: rows and owners are a
  function of the business tables, which the ledger never writes.
\<close>

locale post_then_mark =
  fixes rows :: "d1 \<Rightarrow> 'r list" and finished :: "'r \<Rightarrow> bool" and owner :: "d1 \<Rightarrow> 'r \<Rightarrow> (int \<times> string) option"
  assumes rows_business: "business db = business db' \<Longrightarrow> rows db = rows db'"
    and owner_business: "business db = business db' \<Longrightarrow> owner db r = owner db' r"
begin

lemma backed_step:
  assumes b: "backed rows finished owner w0" and st: "ledger_step w0 w"
  shows "backed rows finished owner w"
  unfolding backed_def
proof (intro ballI impI)
  fix r assume r: "r \<in> set (rows (w_db w))" "finished r"
  have same: "business (w_db w) = business (w_db w0)" using st by (simp add: ledger_step_def same_business_def)
  with r b obtain m tx where "owner (w_db w0) r = Some (m, tx)" "posted_in w0 m tx"
    by (auto simp: backed_def rows_business [OF same])
  with ledger_safe_posted [of w0 w m tx] st show "\<exists>m tx. owner (w_db w) r = Some (m, tx) \<and> posted_in w m tx"
    by (auto simp: owner_business [OF same] ledger_step_def)
qed

text \<open>A statement may finish a row only if its owner's posting is in the ledger.\<close>

lemma backed_mark:
  assumes b: "backed rows finished owner w"
    and mark: "\<And>r'. r' \<in> set (rows db) \<Longrightarrow> finished r' \<Longrightarrow>
       (\<exists>r \<in> set (rows (w_db w)). finished r \<and> (\<forall>k. owner (w_db w) r = Some k \<longrightarrow> owner db r' = Some k)) \<or>
       (\<exists>m tx. owner db r' = Some (m, tx) \<and> posted_in w m tx)"
  shows "backed rows finished owner (w\<lparr>w_db := db\<rparr>)"
  unfolding backed_def
proof (intro ballI impI)
  fix r' assume "r' \<in> set (rows (w_db (w\<lparr>w_db := db\<rparr>)))" "finished r'"
  with mark [of r'] consider r where "r \<in> set (rows (w_db w))" "finished r" "\<forall>k. owner (w_db w) r = Some k \<longrightarrow> owner db r' = Some k"
    | m tx where "owner db r' = Some (m, tx)" "posted_in w m tx"
    by simp blast
  then show "\<exists>m tx. owner (w_db (w\<lparr>w_db := db\<rparr>)) r' = Some (m, tx) \<and> posted_in (w\<lparr>w_db := db\<rparr>) m tx"
  proof cases
    case 1
    then obtain m tx where "owner (w_db w) r = Some (m, tx)" "posted_in w m tx" using b by (auto simp: backed_def)
    with 1 show ?thesis by (auto simp: posted_in_def)
  qed (auto simp: posted_in_def)
qed

end

end
