(* ===== verification/Books.thy ===== *)
theory Books
  imports LedgerFrame Webhooks
begin

text \<open>
  The invariant that ties the business tables to the ledger: ids of intents, transactions and
  refunds are unique, and every completed transaction and every completed refund has its posting
  in the ledger of the merchant it belongs to.  The rules here say which steps of a service keep it.
\<close>

lemma find_update_where:
  "(\<And>r. P (f r) = P r) \<Longrightarrow> List.find P (update_where q f rs) = map_option (\<lambda>r. if q r then f r else r) (List.find P rs)"
  by (induction rs) auto

section \<open>Owners\<close>

definition tx_completed :: "tx_row \<Rightarrow> bool" where
  "tx_completed t \<longleftrightarrow> t_status t = TCompleted"

definition intent_of :: "d1 \<Rightarrow> tx_row \<Rightarrow> intent_row option" where
  "intent_of db t = List.find (\<lambda>p. t_payment_intent_id t = Some (pi_id p)) (op_payment_intents db)"

definition tx_owner :: "d1 \<Rightarrow> tx_row \<Rightarrow> (int \<times> string) option" where
  "tx_owner db t = map_option (\<lambda>p. (pi_merchant_id p, payment_tx (pi_merchant_id p) (pi_id p))) (intent_of db t)"

definition rf_completed :: "refund_row \<Rightarrow> bool" where
  "rf_completed r \<longleftrightarrow> rf_status r = RfCompleted"

definition rf_owner :: "d1 \<Rightarrow> refund_row \<Rightarrow> (int \<times> string) option" where
  "rf_owner db r = Some (rf_merchant_id r, refund_tx (rf_merchant_id r) (rf_refund_id r))"

interpretation pays: post_then_mark op_transactions tx_completed tx_owner
  by unfold_locales (simp_all add: business_def tx_owner_def intent_of_def)

interpretation refs: post_then_mark op_refunds rf_completed rf_owner
  by unfold_locales (simp_all add: business_def rf_owner_def)

section \<open>The invariant\<close>

definition keyed :: "('r \<Rightarrow> int) \<Rightarrow> 'r list \<Rightarrow> int \<Rightarrow> bool" where
  "keyed key rows seq \<longleftrightarrow> distinct (map key rows) \<and> (\<forall>k \<in> set (map key rows). 0 < k \<and> k < seq) \<and> 0 < seq"

definition ids_ok :: "d1 \<Rightarrow> bool" where
  "ids_ok db \<longleftrightarrow> keyed pi_id (op_payment_intents db) (seq_payment_intents db) \<and>
     keyed t_id (op_transactions db) (seq_transactions db) \<and> keyed rf_id (op_refunds db) (seq_refunds db)"

definition books_ok :: "world \<Rightarrow> bool" where
  "books_ok w \<longleftrightarrow> world_ok w \<and> ids_ok (w_db w) \<and> backed op_transactions tx_completed tx_owner w \<and>
     backed op_refunds rf_completed rf_owner w"

lemma keyed_append: "keyed key rows seq \<Longrightarrow> key r = seq \<Longrightarrow> keyed key (rows @ [r]) (seq + 1)"
  by (force simp: keyed_def)

lemma keyed_update [simp]: "(\<And>r. key (f r) = key r) \<Longrightarrow> keyed key (update_where p f rows) seq = keyed key rows seq"
  by (simp only: keyed_def map_update_where)

lemma keyed_unique: "keyed key rows seq \<Longrightarrow> r \<in> set rows \<Longrightarrow> r' \<in> set rows \<Longrightarrow> key r = key r' \<Longrightarrow> r = r'"
  by (auto simp: keyed_def distinct_map inj_on_def)

section \<open>Steps that do not concern the books\<close>

text \<open>
  A predicate that only reads the ledger objects and the business tables.  Calls that leave both
  alone preserve it, whatever their fate.
\<close>

definition book_pred :: "(world \<Rightarrow> bool) \<Rightarrow> bool" where
  "book_pred P \<longleftrightarrow> (\<forall>w w'. P w \<longrightarrow> w_objects w' = w_objects w \<longrightarrow> business (w_db w') = business (w_db w) \<longrightarrow> P w')"

named_theorems quiet \<open>programs that preserve every predicate on the books\<close>

lemma book_predD: "book_pred P \<Longrightarrow> P w \<Longrightarrow> w_objects w' = w_objects w \<Longrightarrow> business (w_db w') = business (w_db w) \<Longrightarrow> P w'"
  by (auto simp: book_pred_def)

lemma book_pred_stable: "book_pred P \<Longrightarrow> fate_stable P"
  by (auto simp: fate_stable_def elim: book_predD)

lemma quiet_get [quiet]: "book_pred P \<Longrightarrow> preserves P (d1_get f)"
  by (rule preserves_d1_get [OF book_pred_stable])

lemma quiet_run: "book_pred P \<Longrightarrow> (\<And>db. business (snd (f db)) = business db) \<Longrightarrow> preserves P (d1_run f)"
  by (rule preserves_d1_run [OF book_pred_stable]) (auto elim: book_predD)

lemma quiet_put [quiet]: "book_pred P \<Longrightarrow> (\<And>db. business (f db) = business db) \<Longrightarrow> preserves P (d1_put f)"
  unfolding d1_put_def by (rule quiet_run) auto

lemma quiet_exec [quiet]:
  assumes "book_pred P" and "\<And>db a db'. f db = Inr (a, db') \<Longrightarrow> business db' = business db"
  shows "preserves P (d1_exec f)"
  unfolding d1_exec_def
  by (intro preserves_andThen quiet_run preserves_sum triple_throw triple_ret assms(1))
     (auto split: sum.split dest: assms(2))

lemma quiet_remote [quiet]:
  assumes "book_pred P" and "\<And>w. w_objects (snd (op w)) = w_objects w" and "\<And>w. business (w_db (snd (op w))) = business (w_db w)"
  shows "preserves P (remote op)"
  by (rule triple_call [OF book_pred_stable]) (use assms in \<open>auto elim: book_predD\<close>)

lemma quiet_page [quiet]: "book_pred P \<Longrightarrow> preserves P (page c)"
  unfolding page_def by (rule triple_writing) (auto elim: book_predD)

lemma quiet_pure [quiet]: "preserves P (reading g)" "preserves P (ret a)" "preserves P (throw e)"
  by (auto intro: triple_rules)

lemma quiet_dispatch [quiet]: "book_pred P \<Longrightarrow> preserves P (dispatch mid event data)"
  unfolding dispatch_def queue_send_def Let_def
  by (intro preserves_andThen preserves_if quiet) auto

lemma books_frame: "book_pred books_ok"
  unfolding book_pred_def
proof (intro allI impI)
  fix w w' :: world assume ok: "books_ok w" and o: "w_objects w' = w_objects w" and b: "business (w_db w') = business (w_db w)"
  have st: "ledger_step w w'"
    using ok o b by (simp add: ledger_step_def ledger_safe_def same_business_def books_ok_def world_ok_def ledger_mono_def)
  with ok o b show "books_ok w'"
    by (simp add: books_ok_def world_ok_def ids_ok_def business_def pays.backed_step [OF _ st] refs.backed_step [OF _ st])
qed

lemma books_ledger_step:
  assumes "books_ok w0" and st: "ledger_step w0 w"
  shows "books_ok w"
  using assms pays.backed_step [OF _ st] refs.backed_step [OF _ st]
  by (simp add: books_ok_def ledger_step_def ledger_safe_def same_business_def ids_ok_def business_def)

text \<open>Statements that finish only rows that were finished before or whose posting is in the ledger.\<close>

definition tx_marks :: "world \<Rightarrow> d1 \<Rightarrow> bool" where
  "tx_marks w db \<longleftrightarrow> (\<forall>t' \<in> set (op_transactions db). tx_completed t' \<longrightarrow>
     (\<exists>t \<in> set (op_transactions (w_db w)). tx_completed t \<and> (\<forall>k. tx_owner (w_db w) t = Some k \<longrightarrow> tx_owner db t' = Some k)) \<or>
     (\<exists>m tx. tx_owner db t' = Some (m, tx) \<and> posted_in w m tx))"

definition rf_marks :: "world \<Rightarrow> d1 \<Rightarrow> bool" where
  "rf_marks w db \<longleftrightarrow> (\<forall>r' \<in> set (op_refunds db). rf_completed r' \<longrightarrow>
     (\<exists>r \<in> set (op_refunds (w_db w)). rf_completed r \<and> rf_owner (w_db w) r = rf_owner db r') \<or>
     (\<exists>m tx. rf_owner db r' = Some (m, tx) \<and> posted_in w m tx))"

lemma books_mark:
  assumes "books_ok w" and "ids_ok db" and "tx_marks w db" and "rf_marks w db"
  shows "books_ok (w\<lparr>w_db := db\<rparr>)"
proof -
  have "backed op_transactions tx_completed tx_owner (w\<lparr>w_db := db\<rparr>)"
    by (rule pays.backed_mark) (use assms(1,3) in \<open>auto simp: books_ok_def tx_marks_def\<close>)
  moreover have "backed op_refunds rf_completed rf_owner (w\<lparr>w_db := db\<rparr>)"
    by (rule refs.backed_mark) (use assms(1,4) in \<open>auto simp: books_ok_def rf_marks_def, metis\<close>)
  ultimately show ?thesis using assms(1,2) by (simp add: books_ok_def world_ok_def)
qed

lemma rf_marks_same [simp]: "op_refunds db = op_refunds (w_db w) \<Longrightarrow> rf_marks w db"
  by (auto simp: rf_marks_def rf_owner_def)

lemma tx_marks_subset:
  assumes "\<And>t'. t' \<in> set (op_transactions db) \<Longrightarrow> tx_completed t' \<Longrightarrow> t' \<in> set (op_transactions (w_db w))"
    and "\<And>t k. tx_owner (w_db w) t = Some k \<Longrightarrow> tx_owner db t = Some k"
  shows "tx_marks w db"
  unfolding tx_marks_def using assms by metis

section \<open>Owners under updates\<close>

lemma tx_owner_cong:
  assumes "op_payment_intents db' = update_where q f (op_payment_intents db)"
    and "\<And>p. pi_id (f p) = pi_id p" and "\<And>p. pi_merchant_id (f p) = pi_merchant_id p"
    and "t_payment_intent_id t' = t_payment_intent_id t"
  shows "tx_owner db' t' = tx_owner db t"
proof -
  have "intent_of db' t' = map_option (\<lambda>p. if q p then f p else p) (intent_of db t)"
    unfolding intent_of_def assms(1,4) by (rule find_update_where) (simp add: assms)
  then show ?thesis by (cases "intent_of db t") (simp_all add: tx_owner_def assms)
qed

lemma tx_owner_same: "op_payment_intents db' = op_payment_intents db \<Longrightarrow> t_payment_intent_id t' = t_payment_intent_id t \<Longrightarrow> tx_owner db' t' = tx_owner db t"
  by (simp add: tx_owner_def intent_of_def)

lemma tx_owner_append:
  "op_payment_intents db' = op_payment_intents db @ ps \<Longrightarrow> tx_owner db t = Some k \<Longrightarrow> tx_owner db' t = Some k"
  by (auto simp: tx_owner_def intent_of_def find_append split: option.split)

section \<open>Reasoning from a fixed start\<close>

lemma triple_from: "(\<And>w0. P w0 \<Longrightarrow> triple (\<lambda>w. w = w0) m Q E) \<Longrightarrow> triple P m Q E"
  by (simp add: triple_def)

lemma triple_snd: "triple P m (\<lambda>_. I) (\<lambda>_. I) \<Longrightarrow> P w \<Longrightarrow> I (snd (m w))"
  by (cases "m w") (auto simp: triple_def split: prod.splits sum.splits)

lemma triple_keep:
  assumes "\<And>w. P w \<Longrightarrow> I w" and "preserves P m" and "\<And>a. triple P (k a) (\<lambda>_. I) (\<lambda>_. I)"
  shows "triple P (andThen m k) (\<lambda>_. I) (\<lambda>_. I)"
  by (rule triple_andThen [OF triple_weaken [OF assms(2)] assms(3)]) (use assms(1) in auto)

lemma get_step:
  assumes "\<And>db. business db = business (w_db w0) \<Longrightarrow> f db = f (w_db w0)"
  shows "triple (ledger_step w0) (d1_get f) (\<lambda>r w. ledger_step w0 w \<and> r = f (w_db w0)) (\<lambda>_. ledger_step w0)"
proof (rule triple_d1_get [OF ledger_step_stable])
  fix w assume w: "ledger_step w0 w"
  then have "business (w_db w) = business (w_db w0)" by (simp add: ledger_step_def same_business_def)
  with w assms show "ledger_step w0 w \<and> f (w_db w) = f (w_db w0)" by blast
qed

lemma triple_d1_put:
  assumes "fate_stable P" and "\<And>w. P w \<Longrightarrow> Q () (w\<lparr>w_db := f (w_db w)\<rparr>)" and "\<And>e w. P w \<Longrightarrow> E e w"
    and "\<And>e w. P w \<Longrightarrow> E e (w\<lparr>w_db := f (w_db w)\<rparr>)"
  shows "triple P (d1_put f) Q E"
  unfolding d1_put_def d1_run_def by (rule triple_call [OF assms(1)]) (simp_all add: assms(2-4))

end
