(* ===== verification/Payment.thy ===== *)
theory Payment
  imports Books
begin

text \<open>
  \<open>services/payment.ts\<close> and \<open>services/checkout-status.ts\<close>: creating an intent, initiating it at a
  gateway, handling the synchronous callback, completing the transaction, and the fast path of
  the checkout status.  Random tokens and uuids, the gateway build, the adapter registry and the
  decryption of stored credentials are arguments.
\<close>

record create_intent_input =
  ci_merchant_id :: int
  ci_amount :: string
  ci_currency :: string
  ci_customer_phone :: "string option"
  ci_customer_email :: "string option"
  ci_metadata :: "(string \<times> string) list option"
  ci_gateway_slug :: "string option"
  ci_gateway_id :: "int option"
  ci_gateway :: "string option"
  ci_gate_id :: "int option"
  ci_description :: "string option"
  ci_inner_email :: "string option"
  ci_inner_phone :: "string option"
  ci_expires_in_seconds :: "int option"

record resolved_gate =
  rg_gateway_id :: "int option"
  rg_brand_id :: "int option"
  rg_store_id :: "int option"
  rg_gate_id :: "int option"

record intent_randoms =
  rn_token :: string
  rn_uuid :: string
  rn_trx :: string

text \<open>A number is truthy when it is there and not zero.\<close>

definition nonzero :: "int option \<Rightarrow> int option" where
  "nonzero x = (case x of Some n \<Rightarrow> if n = 0 then None else Some n | None \<Rightarrow> None)"

definition lift_result :: "exn + 'a \<Rightarrow> 'a svc" where
  "lift_result r = (case r of Inl e \<Rightarrow> throw e | Inr a \<Rightarrow> ret a)"

section \<open>createIntent\<close>

definition resolve_direct_gate :: "create_intent_input \<Rightarrow> int \<Rightarrow> resolved_gate svc" where
  "resolve_direct_gate inp gid =
     andThen (getGate gid (ci_merchant_id inp)) (\<lambda>gate.
     case gate of
       None \<Rightarrow> throw (NotFoundErr (''Gate '' @ int_str gid @ '' not found or does not belong to merchant''))
     | Some g \<Rightarrow>
       if gt_currency g \<noteq> ci_currency inp \<and> toUpperCase (gt_currency g) \<noteq> toUpperCase (ci_currency inp)
       then throw (ValidationErr (''Gate currency ('' @ gt_currency g @ '') does not match intent currency ('' @ ci_currency inp @ '')''))
       else andThen (getStore (gt_store_id g) (ci_merchant_id inp)) (\<lambda>store.
         ret \<lparr>rg_gateway_id = (case nonzero (ci_gateway_id inp) of Some i \<Rightarrow> Some i | None \<Rightarrow> Some (gt_gateway_id g)),
              rg_brand_id = map_option st_brand_id store, rg_store_id = Some (gt_store_id g), rg_gate_id = Some (gt_id g)\<rparr>))"

definition find_gateway :: "int \<Rightarrow> string \<Rightarrow> d1 \<Rightarrow> gateway_row option" where
  "find_gateway mid slug db = List.find (\<lambda>g. g_merchant_id g = mid \<and> g_slug g = slug) (op_gateways db)"

definition requested_slug :: "create_intent_input \<Rightarrow> string option" where
  "requested_slug inp = (case truthy (ci_gateway inp) of Some s \<Rightarrow> Some s | None \<Rightarrow> truthy (ci_gateway_slug inp))"

definition slug_gateway :: "gateway_build \<Rightarrow> create_intent_input \<Rightarrow> int option svc" where
  "slug_gateway b inp =
     (case (nonzero (ci_gateway_id inp), requested_slug inp) of
        (Some i, _) \<Rightarrow> ret (Some i)
      | (None, None) \<Rightarrow> ret None
      | (None, Some slug) \<Rightarrow>
          andThen (reading w_env) (\<lambda>env.
          andThen (lift_result (if slug \<noteq> ''manual'' then fst (assertGatewayEnabled b (ae_ENABLED_GATEWAYS env) slug None) else Inr ())) (\<lambda>_.
          andThen (lift_result (if slug \<noteq> ''manual'' then assertGatewayPorted b slug else Inr ())) (\<lambda>_.
          andThen (d1_get (find_gateway (ci_merchant_id inp) slug)) (\<lambda>row. ret (map_option g_id row))))))"

definition insert_manual_gateway :: "int \<Rightarrow> d1 \<Rightarrow> exn + int \<times> d1" where
  "insert_manual_gateway mid db =
     (if find_gateway mid ''manual'' db \<noteq> None then Inl unique_violation
      else Inr (seq_gateways db, db\<lparr>op_gateways := op_gateways db @ [\<lparr>g_id = seq_gateways db, g_merchant_id = mid,
          g_slug = ''manual'', g_name = ''Manual Payment'', g_type = ''manual'', g_active = True, g_priority = 0,
          g_supported_currencies = [''BDT'', ''USD'']\<rparr>], seq_gateways := seq_gateways db + 1\<rparr>))"

definition default_gateway :: "int \<Rightarrow> int svc" where
  "default_gateway mid =
     andThen (d1_get (\<lambda>db. List.find (\<lambda>g. g_merchant_id g = mid) (op_gateways db))) (\<lambda>gw.
     case gw of
       Some g \<Rightarrow> ret (g_id g)
     | None \<Rightarrow>
       andThen (d1_exec (insert_manual_gateway mid)) (\<lambda>rowid.
       andThen (d1_get (find_gateway mid ''manual'')) (\<lambda>seeded.
       ret (case seeded of Some g \<Rightarrow> g_id g | None \<Rightarrow> rowid))))"

definition legacy_gate :: "int \<Rightarrow> int \<Rightarrow> resolved_gate svc" where
  "legacy_gate mid gw =
     andThen (resolveDefaultGate mid gw) (\<lambda>gate.
     case gate of
       None \<Rightarrow> ret \<lparr>rg_gateway_id = Some gw, rg_brand_id = None, rg_store_id = None, rg_gate_id = None\<rparr>
     | Some g \<Rightarrow>
       catching
         (andThen (getStore (gt_store_id g) mid) (\<lambda>store.
          ret \<lparr>rg_gateway_id = Some gw, rg_brand_id = map_option st_brand_id store, rg_store_id = Some (gt_store_id g), rg_gate_id = Some (gt_id g)\<rparr>))
         (\<lambda>_. ret \<lparr>rg_gateway_id = Some gw, rg_brand_id = None, rg_store_id = Some (gt_store_id g), rg_gate_id = Some (gt_id g)\<rparr>))"

definition resolve_gateway :: "gateway_build \<Rightarrow> create_intent_input \<Rightarrow> resolved_gate svc" where
  "resolve_gateway b inp =
     andThen (slug_gateway b inp) (\<lambda>gw.
     andThen (case nonzero gw of Some i \<Rightarrow> ret i | None \<Rightarrow> default_gateway (ci_merchant_id inp)) (\<lambda>i.
     if i = 0 then ret \<lparr>rg_gateway_id = Some i, rg_brand_id = None, rg_store_id = None, rg_gate_id = None\<rparr>
     else catching (legacy_gate (ci_merchant_id inp) i)
            (\<lambda>_. ret \<lparr>rg_gateway_id = Some i, rg_brand_id = None, rg_store_id = None, rg_gate_id = None\<rparr>)))"

definition set_if :: "string \<Rightarrow> string option \<Rightarrow> (string \<times> string) list \<Rightarrow> (string \<times> string) list" where
  "set_if k v m = (case truthy v of Some x \<Rightarrow> AList.update k x m | None \<Rightarrow> m)"

definition intent_metadata :: "create_intent_input \<Rightarrow> (string \<times> string) list option" where
  "intent_metadata inp =
     (let m = set_if ''customer_email'' (ci_inner_email inp) (set_if ''customer_phone'' (ci_inner_phone inp)
               (set_if ''customer_email'' (ci_customer_email inp) (set_if ''customer_phone'' (ci_customer_phone inp)
                 (or_else (ci_metadata inp) []))))
      in if m = [] then None else Some m)"

definition new_intent :: "create_intent_input \<Rightarrow> resolved_gate \<Rightarrow> intent_randoms \<Rightarrow> iso \<Rightarrow> int \<Rightarrow> intent_row" where
  "new_intent inp rg rn now i = \<lparr>pi_id = i, pi_merchant_id = ci_merchant_id inp, pi_uuid = rn_uuid rn, pi_token = rn_token rn,
     pi_amount = ci_amount inp, pi_currency = toUpperCase (ci_currency inp), pi_description = ci_description inp,
     pi_gateway_id = rg_gateway_id rg, pi_brand_id = rg_brand_id rg, pi_store_id = rg_store_id rg, pi_gate_id = rg_gate_id rg,
     pi_status = PiPending, pi_metadata = intent_metadata inp,
     pi_expires_at = now + or_else (ci_expires_in_seconds inp) 900 * 1000, pi_completed_at = None,
     pi_created_at = now, pi_updated_at = now\<rparr>"

definition insert_intent :: "create_intent_input \<Rightarrow> resolved_gate \<Rightarrow> intent_randoms \<Rightarrow> iso \<Rightarrow> d1 \<Rightarrow> exn + int \<times> d1" where
  "insert_intent inp rg rn now db =
     (if \<exists>p \<in> set (op_payment_intents db). pi_uuid p = rn_uuid rn \<or> pi_token p = rn_token rn then Inl unique_violation
      else Inr (seq_payment_intents db, db\<lparr>
        op_payment_intents := op_payment_intents db @ [new_intent inp rg rn now (seq_payment_intents db)],
        seq_payment_intents := seq_payment_intents db + 1\<rparr>))"

definition new_transaction :: "create_intent_input \<Rightarrow> resolved_gate \<Rightarrow> intent_randoms \<Rightarrow> iso \<Rightarrow> int \<Rightarrow> int \<Rightarrow> tx_row" where
  "new_transaction inp rg rn now i tid = \<lparr>t_id = tid, t_merchant_id = ci_merchant_id inp, t_trx_id = ''op_'' @ rn_trx rn,
     t_payment_intent_id = Some i, t_gateway_id = or_else (rg_gateway_id rg) 0, t_gateway_trx_id = None,
     t_brand_id = rg_brand_id rg, t_store_id = rg_store_id rg, t_gate_id = rg_gate_id rg, t_amount = ci_amount inp,
     t_currency = toUpperCase (ci_currency inp), t_fee = ''0.00'', t_net_amount = ci_amount inp, t_status = TPending,
     t_gateway_type = ''pending'', t_created_at = now, t_updated_at = now\<rparr>"

definition insert_transaction :: "create_intent_input \<Rightarrow> resolved_gate \<Rightarrow> intent_randoms \<Rightarrow> iso \<Rightarrow> int \<Rightarrow> d1 \<Rightarrow> exn + unit \<times> d1" where
  "insert_transaction inp rg rn now i db =
     (if \<exists>t \<in> set (op_transactions db). t_trx_id t = ''op_'' @ rn_trx rn then Inl unique_violation
      else Inr ((), db\<lparr>op_transactions := op_transactions db @ [new_transaction inp rg rn now i (seq_transactions db)],
        seq_transactions := seq_transactions db + 1\<rparr>))"

record create_intent_result =
  cr_intent_id :: int
  cr_token :: string
  cr_checkout_url :: string

definition store_intent :: "create_intent_input \<Rightarrow> resolved_gate \<Rightarrow> intent_randoms \<Rightarrow> iso \<Rightarrow> create_intent_result svc" where
  "store_intent inp rg rn now =
     andThen (d1_exec (insert_intent inp rg rn now)) (\<lambda>rowid.
     andThen (case nonzero (Some rowid) of Some i \<Rightarrow> ret (Some i)
              | None \<Rightarrow> d1_get (\<lambda>db. map_option pi_id (List.find (\<lambda>p. pi_uuid p = rn_uuid rn) (op_payment_intents db)))) (\<lambda>found.
     case nonzero found of
       None \<Rightarrow> throw (HttpError 500 ''Failed to create payment intent'' ''INTENT_CREATE_FAILED'')
     | Some i \<Rightarrow>
       andThen (d1_exec (insert_transaction inp rg rn now i)) (\<lambda>_.
       ret \<lparr>cr_intent_id = i, cr_token = rn_token rn, cr_checkout_url = ''/checkout/'' @ rn_token rn\<rparr>)))"

definition createIntent :: "'d decimal_js \<Rightarrow> gateway_build \<Rightarrow> create_intent_input \<Rightarrow> intent_randoms \<Rightarrow> create_intent_result svc" where
  "createIntent L b inp rn =
     andThen (lift_result (isZero L (ci_amount inp))) (\<lambda>zero.
     if zero then throw (ValidationErr ''Amount must be greater than zero'')
     else andThen (reading w_now) (\<lambda>now.
       andThen (case nonzero (ci_gate_id inp) of
                  Some gid \<Rightarrow> resolve_direct_gate inp gid
                | None \<Rightarrow> resolve_gateway b inp) (\<lambda>rg.
       store_intent inp rg rn now)))"

section \<open>initiatePayment\<close>

definition decrypt_all :: "(string \<Rightarrow> string option) \<Rightarrow> gateway_config_row list \<Rightarrow> credentials" where
  "decrypt_all dec rows = fold (\<lambda>r m. case dec (gc_field_value r) of Some v \<Rightarrow> AList.update (gc_field_name r) v m | None \<Rightarrow> m) rows []"

datatype initiation =
    ManualPayment string string
  | GatewayPayment initiate_result

definition joined_intent :: "int \<Rightarrow> d1 \<Rightarrow> (intent_row \<times> tx_row) option" where
  "joined_intent i db = (case List.find (\<lambda>p. pi_id p = i) (op_payment_intents db) of
      None \<Rightarrow> None
    | Some p \<Rightarrow> map_option (\<lambda>t. (p, t)) (List.find (\<lambda>t. t_payment_intent_id t = Some i) (op_transactions db)))"

definition strip_slash :: "string \<Rightarrow> string" where
  "strip_slash s = (if s \<noteq> [] \<and> last s = CHR ''/'' then butlast s else s)"

definition call_gateway :: "gateway_registry \<Rightarrow> gateway_row \<Rightarrow> intent_row \<Rightarrow> tx_row \<Rightarrow> credentials \<Rightarrow> initiation svc" where
  "call_gateway reg g p t creds =
     andThen (reading (\<lambda>w. (w_env w, w_now w))) (\<lambda>(env, now).
     andThen (lift_result (resolve reg (g_slug g))) (\<lambda>a.
       let path = strip_slash (ae_APP_URL env) @ ''/checkout/'' @ pi_token p
       in andThen (lift_result (ad_initiate a now \<lparr>ip_amount = pi_amount p, ip_currency = pi_currency p, ip_trx_id = t_trx_id t,
              ip_redirect_url = path @ ''/callback'', ip_cancel_url = path @ ''/cancel''\<rparr> creds)) (\<lambda>r. ret (GatewayPayment r))))"

definition manual_details :: "int \<Rightarrow> initiation svc" where
  "manual_details gid =
     andThen (d1_get (\<lambda>db. List.find (\<lambda>m. mg_gateway_id m = gid) (op_manual_gateways db))) (\<lambda>manual.
     andThen (reading w_env) (\<lambda>env.
       ret (ManualPayment (or_else (Option.bind manual mg_account_number) (or_else (ae_DEFAULT_MFS_NUMBER env) []))
              (or_else (Option.bind manual mg_instructions) ''Send payment to the merchant account number''))))"

definition mark_processing :: "int \<Rightarrow> int \<Rightarrow> iso \<Rightarrow> d1 \<Rightarrow> d1" where
  "mark_processing i gid now db = db\<lparr>
     op_transactions := update_where (\<lambda>t. t_payment_intent_id t = Some i) (\<lambda>t. t\<lparr>t_status := TProcessing, t_updated_at := now\<rparr>) (op_transactions db),
     op_payment_intents := update_where (\<lambda>p. pi_id p = i) (\<lambda>p. p\<lparr>pi_status := PiProcessing, pi_gateway_id := Some gid, pi_updated_at := now\<rparr>)
       (op_payment_intents db)\<rparr>"

definition initiatePayment :: "gateway_build \<Rightarrow> gateway_registry \<Rightarrow> (string \<Rightarrow> string option) \<Rightarrow> int \<Rightarrow> int \<Rightarrow> initiation svc" where
  "initiatePayment b reg dec i gid =
     andThen (d1_get (joined_intent i)) (\<lambda>intent.
     case intent of
       None \<Rightarrow> throw (NotFoundErr ''Payment intent'')
     | Some (p, t) \<Rightarrow>
       andThen (d1_get (\<lambda>db. List.find (\<lambda>g. g_id g = gid \<and> g_merchant_id g = pi_merchant_id p \<and> g_active g) (op_gateways db))) (\<lambda>gateway.
       case gateway of
         None \<Rightarrow> throw (NotFoundErr ''Gateway'')
       | Some g \<Rightarrow>
         andThen (reading w_env) (\<lambda>env.
         andThen (lift_result (if g_type g \<noteq> ''manual'' then fst (assertGatewayEnabled b (ae_ENABLED_GATEWAYS env) (g_slug g) None) else Inr ())) (\<lambda>_.
         andThen (lift_result (if g_type g \<noteq> ''manual'' then assertGatewayPorted b (g_slug g) else Inr ())) (\<lambda>_.
         andThen (d1_get (\<lambda>db. filter (\<lambda>c. gc_gateway_id c = gid \<and> gc_merchant_id c = pi_merchant_id p) (op_gateway_configs db))) (\<lambda>rows.
         andThen (if g_type g = ''manual'' then manual_details gid else call_gateway reg g p t (decrypt_all dec rows)) (\<lambda>result.
         andThen (reading w_now) (\<lambda>now.
         andThen (d1_put (mark_processing i gid now)) (\<lambda>_.
         ret result)))))))))"

section \<open>completeTransaction\<close>

definition joined_transaction :: "int \<Rightarrow> d1 \<Rightarrow> (tx_row \<times> intent_row) option" where
  "joined_transaction tid db = (case List.find (\<lambda>t. t_id t = tid) (op_transactions db) of
      None \<Rightarrow> None
    | Some t \<Rightarrow> map_option (\<lambda>p. (t, p)) (List.find (\<lambda>p. t_payment_intent_id t = Some (pi_id p)) (op_payment_intents db)))"

definition mark_completed :: "int \<Rightarrow> int \<Rightarrow> string \<Rightarrow> iso \<Rightarrow> d1 \<Rightarrow> d1" where
  "mark_completed tid i gtrx now db = db\<lparr>
     op_transactions := update_where (\<lambda>t. t_id t = tid) (\<lambda>t. t\<lparr>t_status := TCompleted, t_gateway_trx_id := Some gtrx, t_updated_at := now\<rparr>)
       (op_transactions db),
     op_payment_intents := update_where (\<lambda>p. pi_id p = i) (\<lambda>p. p\<lparr>pi_status := PiCompleted, pi_completed_at := Some now, pi_updated_at := now\<rparr>)
       (op_payment_intents db)\<rparr>"

definition completed_data :: "tx_row \<Rightarrow> string \<Rightarrow> dispatch_data" where
  "completed_data t gtrx = no_data\<lparr>dd_transaction_id := Some (t_trx_id t), dd_gateway_trx_id := Some gtrx,
     dd_amount := Some (t_amount t), dd_currency := Some (t_currency t), dd_fee := Some (t_fee t), dd_status := Some ''completed''\<rparr>"

definition completeTransaction :: "'d decimal_js \<Rightarrow> int \<Rightarrow> int \<Rightarrow> string \<Rightarrow> string \<Rightarrow> unit svc" where
  "completeTransaction L tid i gtrx uuid =
     andThen (d1_get (joined_transaction tid)) (\<lambda>tx.
     case tx of
       None \<Rightarrow> throw (NotFoundErr ''Transaction'')
     | Some (t, p) \<Rightarrow>
       andThen (reading w_now) (\<lambda>now.
       andThen (postPaymentLedgerEntry L (pi_merchant_id p) i (t_amount t) (t_fee t) (t_currency t) uuid) (\<lambda>_.
       andThen (d1_put (mark_completed tid i gtrx now)) (\<lambda>_.
       dispatch (pi_merchant_id p) ''payment.completed'' (completed_data t gtrx)))))"

section \<open>handleCallback\<close>

definition open_status :: "tx_status \<Rightarrow> bool" where
  "open_status s \<longleftrightarrow> s \<in> {TPending, TProcessing, TCreated}"

definition mark_failed :: "int \<Rightarrow> iso \<Rightarrow> d1 \<Rightarrow> d1" where
  "mark_failed tid now db = db\<lparr>op_transactions :=
     update_where (\<lambda>t. t_id t = tid \<and> open_status (t_status t)) (\<lambda>t. t\<lparr>t_status := TFailed, t_updated_at := now\<rparr>) (op_transactions db)\<rparr>"

definition callback_row :: "int \<Rightarrow> d1 \<Rightarrow> (intent_row \<times> tx_row \<times> gateway_row) option" where
  "callback_row i db = (case joined_intent i db of
      None \<Rightarrow> None
    | Some (p, t) \<Rightarrow> map_option (\<lambda>g. (p, t, g)) (List.find (\<lambda>g. pi_gateway_id p = Some (g_id g)) (op_gateways db)))"

definition intent_credentials :: "int \<Rightarrow> d1 \<Rightarrow> gateway_config_row list" where
  "intent_credentials i db = filter (\<lambda>c. \<exists>p \<in> set (op_payment_intents db). pi_id p = i \<and> pi_gateway_id p = Some (gc_gateway_id c)) (op_gateway_configs db)"

datatype callback_status = CbAmountUnverified | CbAmountMismatch | CbTrxIdMismatch | CbVerified verify_status

datatype callback_verdict = Refuse callback_status | Complete | GatewayFailed

text \<open>The checks of a verified callback: the amount, then the transaction reference.\<close>

definition callback_verdict :: "'d decimal_js \<Rightarrow> intent_row \<Rightarrow> tx_row \<Rightarrow> gateway_row \<Rightarrow> verify_result \<Rightarrow> exn + callback_verdict" where
  "callback_verdict L p t g v =
     (if \<not> vr_success v then Inr GatewayFailed
      else let reference = (case truthy (vr_trx_id v) of
                 Some x \<Rightarrow> if x \<noteq> t_trx_id t then Refuse CbTrxIdMismatch else Complete | None \<Rightarrow> Complete)
           in case vr_amount v of
                None \<Rightarrow> if g_slug g \<noteq> [] \<and> g_slug g \<noteq> ''manual'' then Inr (Refuse CbAmountUnverified) else Inr reference
              | Some a \<Rightarrow> (case cmp L a (pi_amount p) of
                    Inl e \<Rightarrow> Inl e
                  | Inr c \<Rightarrow> if c \<noteq> 0 then Inr (Refuse CbAmountMismatch) else Inr reference))"

definition handleCallback :: "'d decimal_js \<Rightarrow> gateway_registry \<Rightarrow> (string \<Rightarrow> string option) \<Rightarrow> int \<Rightarrow> (string \<times> string) list \<Rightarrow> string
    \<Rightarrow> (bool \<times> callback_status) svc" where
  "handleCallback L reg dec i cb uuid =
     andThen (d1_get (callback_row i)) (\<lambda>row.
     case row of
       None \<Rightarrow> throw (NotFoundErr ''Payment intent'')
     | Some (p, t, g) \<Rightarrow>
       andThen (lift_result (resolve reg (g_slug g))) (\<lambda>a.
       andThen (d1_get (intent_credentials i)) (\<lambda>rows.
       andThen (reading w_now) (\<lambda>now.
       andThen (lift_result (ad_verify a now cb (decrypt_all dec rows))) (\<lambda>v.
       andThen (lift_result (callback_verdict L p t g v)) (\<lambda>verdict.
       case verdict of
         Refuse s \<Rightarrow> andThen (d1_put (mark_failed (t_id t) now)) (\<lambda>_. ret (False, s))
       | Complete \<Rightarrow> andThen (completeTransaction L (t_id t) (pi_id p) (vr_gateway_trx_id v) uuid) (\<lambda>_. ret (vr_success v, CbVerified (vr_status v)))
       | GatewayFailed \<Rightarrow> andThen (d1_put (mark_failed (t_id t) now)) (\<lambda>_. ret (vr_success v, CbVerified (vr_status v)))))))))"

section \<open>services/checkout-status.ts\<close>

definition resolveIntentStatus :: "int option \<Rightarrow> int option \<Rightarrow> intent_status \<Rightarrow> intent_status svc" where
  "resolveIntentStatus iid mid status =
     (if status = PiCompleted then ret PiCompleted
      else case (nonzero mid, nonzero iid) of
        (Some m, Some i) \<Rightarrow>
          catching (andThen (stub_read m (\<lambda>_ d. getTransactionStatus (payment_tx m i) d)) (\<lambda>st.
              ret (if fst st then PiCompleted else status)))
            (\<lambda>_. ret status)
      | _ \<Rightarrow> ret status)"

end
