(* ===== verification/PaymentCorrect.thy ===== *)
theory PaymentCorrect
  imports Payment
begin

text \<open>
  The payment services keep the books: whatever happens to their calls, a transaction is marked
  completed only after its posting is in the merchant's ledger.  Also: what a callback may
  complete, what an intent's creation stores, and what a second completion does.
\<close>

section \<open>The statements of the payment services\<close>

lemma mark_ids [simp]:
  "ids_ok (mark_processing i gid now db) = ids_ok db"
  "ids_ok (mark_failed tid now db) = ids_ok db"
  "ids_ok (mark_completed tid i gtrx now db) = ids_ok db"
  by (simp_all add: ids_ok_def mark_processing_def mark_failed_def mark_completed_def)

lemma mark_owner:
  "t_payment_intent_id t' = t_payment_intent_id t \<Longrightarrow> tx_owner (mark_processing i gid now db) t' = tx_owner db t"
  "t_payment_intent_id t' = t_payment_intent_id t \<Longrightarrow> tx_owner (mark_completed tid i gtrx now db) t' = tx_owner db t"
  by (rule tx_owner_cong, simp add: mark_processing_def, simp_all)
     (rule tx_owner_cong, simp add: mark_completed_def, simp_all)

lemma books_processing: "books_ok w \<Longrightarrow> books_ok (w\<lparr>w_db := mark_processing i gid now (w_db w)\<rparr>)"
  by (rule books_mark, simp, simp add: books_ok_def, rule tx_marks_subset)
     (auto simp: mark_owner(1) [of t t for t], auto simp: mark_processing_def set_update_where tx_completed_def split: if_splits)

lemma mark_failed_owner [simp]: "tx_owner (mark_failed tid now db) t = tx_owner db t"
  by (rule tx_owner_same) (simp_all add: mark_failed_def)

lemma books_failed: "books_ok w \<Longrightarrow> books_ok (w\<lparr>w_db := mark_failed tid now (w_db w)\<rparr>)"
  by (rule books_mark, simp, simp add: books_ok_def, rule tx_marks_subset)
     (simp_all, auto simp: mark_failed_def set_update_where tx_completed_def split: if_splits)

lemma books_completed:
  assumes ok: "books_ok w" and t: "t \<in> set (op_transactions (w_db w))" "t_id t = tid"
    and own: "tx_owner (w_db w) t = Some (m, tx)" and posted: "posted_in w m tx"
  shows "books_ok (w\<lparr>w_db := mark_completed tid i gtrx now (w_db w)\<rparr>)"
proof (rule books_mark [OF ok])
  show "tx_marks w (mark_completed tid i gtrx now (w_db w))"
    unfolding tx_marks_def
  proof (intro ballI impI)
    fix t' assume t': "t' \<in> set (op_transactions (mark_completed tid i gtrx now (w_db w)))" "tx_completed t'"
    then obtain t0 where t0: "t0 \<in> set (op_transactions (w_db w))" "t_payment_intent_id t' = t_payment_intent_id t0"
        "t_id t0 = tid \<or> t' = t0"
      by (auto simp: mark_completed_def set_update_where split: if_splits)
    have "t0 = t" if "t_id t0 = tid"
      using keyed_unique [of t_id "op_transactions (w_db w)" "seq_transactions (w_db w)" t0 t] ok t t0(1) that by (simp add: books_ok_def ids_ok_def)
    then show "(\<exists>t \<in> set (op_transactions (w_db w)). tx_completed t \<and> (\<forall>k. tx_owner (w_db w) t = Some k \<longrightarrow> tx_owner (mark_completed tid i gtrx now (w_db w)) t' = Some k)) \<or>
       (\<exists>m tx. tx_owner (mark_completed tid i gtrx now (w_db w)) t' = Some (m, tx) \<and> posted_in w m tx)"
      using t0 t'(2) own posted mark_owner(2) [OF t0(2)] by metis
  qed
qed (use ok in \<open>simp_all add: books_ok_def\<close>, simp add: mark_completed_def)

section \<open>completeTransaction\<close>

definition tx_for :: "int \<Rightarrow> int \<Rightarrow> d1 \<Rightarrow> bool" where
  "tx_for tid i db \<longleftrightarrow> (\<exists>t \<in> set (op_transactions db). t_id t = tid \<and> t_payment_intent_id t = Some i)"

lemma joined_transaction_business: "business db = business db' \<Longrightarrow> joined_transaction tid db = joined_transaction tid db'"
  by (simp add: joined_transaction_def business_def split: option.split)

lemma joined_transaction_found:
  assumes "joined_transaction tid db = Some (t, p)"
  shows "t \<in> set (op_transactions db)" "t_id t = tid" "t_payment_intent_id t = Some (pi_id p)"
    and "tx_owner db t = Some (pi_merchant_id p, payment_tx (pi_merchant_id p) (pi_id p))"
  using assms
  by (auto simp: joined_transaction_def tx_owner_def intent_of_def split: option.splits dest!: find_SomeD)

lemma tx_for_found:
  assumes "books_ok w" and "tx_for tid i (w_db w)" and "joined_transaction tid (w_db w) = Some (t, p)"
  shows "pi_id p = i"
proof -
  obtain t' where t': "t' \<in> set (op_transactions (w_db w))" "t_id t' = tid" "t_payment_intent_id t' = Some i"
    using assms(2) by (auto simp: tx_for_def)
  have "t' = t"
    using keyed_unique [of t_id "op_transactions (w_db w)" "seq_transactions (w_db w)" t' t] assms(1) t' joined_transaction_found(1,2) [OF assms(3)]
    by (simp add: books_ok_def ids_ok_def)
  with t'(3) joined_transaction_found(3) [OF assms(3)] show ?thesis by simp
qed

lemma quiet_lift [quiet]: "preserves P (lift_result r)"
  unfolding lift_result_def by (intro preserves_sum quiet)

lemma callback_row_tx_for: "callback_row i db = Some (p, t, g) \<Longrightarrow> tx_for (t_id t) (pi_id p) db"
  by (force simp: callback_row_def joined_intent_def tx_for_def split: option.splits dest!: find_SomeD)

section \<open>Statements of createIntent\<close>

lemma preserves_exec:
  assumes "fate_stable I" and "\<And>w a db'. I w \<Longrightarrow> f (w_db w) = Inr (a, db') \<Longrightarrow> I (w\<lparr>w_db := db'\<rparr>)"
  shows "preserves I (d1_exec f)"
  unfolding d1_exec_def
  by (intro preserves_andThen preserves_d1_run preserves_sum quiet assms(1))
     (auto split: sum.splits dest: assms(2))

lemma insert_intent_books: "books_ok w \<Longrightarrow> insert_intent inp rg rn now (w_db w) = Inr (a, db) \<Longrightarrow> books_ok (w\<lparr>w_db := db\<rparr>)"
proof (rule books_mark, assumption)
  assume ok: "books_ok w" and ins: "insert_intent inp rg rn now (w_db w) = Inr (a, db)"
  show "ids_ok db"
    using ok ins by (auto simp: insert_intent_def books_ok_def ids_ok_def new_intent_def intro!: keyed_append split: if_splits)
  have more: "op_payment_intents db = op_payment_intents (w_db w) @ [new_intent inp rg rn now (seq_payment_intents (w_db w))]"
    "op_transactions db = op_transactions (w_db w)"
    using ins by (auto simp: insert_intent_def split: if_splits)
  show "tx_marks w db"
    by (rule tx_marks_subset) (simp add: more, rule tx_owner_append [OF more(1)])
  show "rf_marks w db" using ins by (auto simp: insert_intent_def split: if_splits)
qed

lemma insert_transaction_books: "books_ok w \<Longrightarrow> insert_transaction inp rg rn now i (w_db w) = Inr (a, db) \<Longrightarrow> books_ok (w\<lparr>w_db := db\<rparr>)"
proof (rule books_mark, assumption)
  assume ok: "books_ok w" and ins: "insert_transaction inp rg rn now i (w_db w) = Inr (a, db)"
  show "ids_ok db"
    using ok ins by (auto simp: insert_transaction_def books_ok_def ids_ok_def new_transaction_def intro!: keyed_append split: if_splits)
  have same: "op_payment_intents db = op_payment_intents (w_db w)" using ins by (auto simp: insert_transaction_def split: if_splits)
  show "tx_marks w db"
  proof (rule tx_marks_subset)
    show "tx_owner (w_db w) t = Some k \<Longrightarrow> tx_owner db t = Some k" for t k using tx_owner_same [OF same, of t t] by simp
  qed (use ins in \<open>auto simp: insert_transaction_def new_transaction_def tx_completed_def split: if_splits\<close>)
  show "rf_marks w db" using ins by (auto simp: insert_transaction_def split: if_splits)
qed

lemma triple_lift: "(\<And>e w. P w \<Longrightarrow> E e w) \<Longrightarrow> triple P (lift_result r) (\<lambda>a w. P w \<and> r = Inr a) E"
  by (cases r) (auto simp: lift_result_def intro: triple_ret triple_throw)

lemma resolve_quiet:
  assumes P: "book_pred P"
  shows "preserves P (resolve_direct_gate inp gid)" and "preserves P (resolve_gateway b inp)"
proof -
  have m: "preserves P (d1_exec (insert_manual_gateway mid))" for mid
    by (rule quiet_exec [OF P]) (auto simp: insert_manual_gateway_def business_def split: if_splits)
  have g: "preserves P (resolve_direct_gate inp gid)" "preserves P (default_gateway mid)" "preserves P (legacy_gate mid gw)" for gid mid gw
    unfolding resolve_direct_gate_def default_gateway_def legacy_gate_def getGate_def getStore_def resolveDefaultGate_def
    by (intro preserves_andThen preserves_option preserves_if preserves_catching quiet P m)+
  have sl: "preserves P (slug_gateway b inp)"
    unfolding slug_gateway_def
    by (cases "nonzero (ci_gateway_id inp)"; cases "requested_slug inp") (auto intro!: preserves_andThen quiet P)
  show "preserves P (resolve_direct_gate inp gid)" by (rule g)
  show "preserves P (resolve_gateway b inp)"
    unfolding resolve_gateway_def
    by (intro preserves_andThen preserves_option preserves_if preserves_catching quiet P sl g)
qed

section \<open>Services that only make safe steps\<close>

text \<open>
  The contract of the payment services: a predicate on the books that survives the ledger's own
  steps and every statement of the services, where \<open>mark_completed\<close> runs only once the payment
  has been posted.  Whatever satisfies it is preserved by all four services under every fate.
\<close>

locale payment_safe =
  fixes P :: "world \<Rightarrow> bool"
  assumes sound: "P w \<Longrightarrow> books_ok w"
    and frame: "book_pred P"
    and ledger: "P w0 \<Longrightarrow> ledger_step w0 w \<Longrightarrow> P w"
    and processing: "P w \<Longrightarrow> P (w\<lparr>w_db := mark_processing i gid now (w_db w)\<rparr>)"
    and failed: "P w \<Longrightarrow> P (w\<lparr>w_db := mark_failed tid now (w_db w)\<rparr>)"
    and completed: "P w \<Longrightarrow> t \<in> set (op_transactions (w_db w)) \<Longrightarrow> t_id t = tid \<Longrightarrow> tx_owner (w_db w) t = Some (m, tx) \<Longrightarrow>
       posted_in w m tx \<Longrightarrow> P (w\<lparr>w_db := mark_completed tid i gtrx now (w_db w)\<rparr>)"
    and intent: "P w \<Longrightarrow> insert_intent inp rg rn now (w_db w) = Inr (a, db) \<Longrightarrow> P (w\<lparr>w_db := db\<rparr>)"
    and transaction: "P w \<Longrightarrow> insert_transaction inp rg rn now k (w_db w) = Inr (u, db) \<Longrightarrow> P (w\<lparr>w_db := db\<rparr>)"
begin

lemma put_completed:
  assumes ok: "P w0" and j: "joined_transaction tid (w_db w0) = Some (t, p)" and i: "pi_id p = i"
  shows "triple (\<lambda>w. ledger_step w0 w \<and> posted_in w (pi_merchant_id p) (payment_tx (pi_merchant_id p) i))
     (d1_put (mark_completed tid i gtrx now)) (\<lambda>_. P) (\<lambda>_. P)"
proof (rule triple_d1_put)
  show "fate_stable (\<lambda>w. ledger_step w0 w \<and> posted_in w (pi_merchant_id p) (payment_tx (pi_merchant_id p) i))"
    using ledger_step_stable [of w0] by (simp add: fate_stable_def posted_in_def)
  fix w assume w: "ledger_step w0 w \<and> posted_in w (pi_merchant_id p) (payment_tx (pi_merchant_id p) i)"
  then have okw: "P w" using ledger [OF ok] by simp
  have "joined_transaction tid (w_db w) = Some (t, p)"
    using j joined_transaction_business [of "w_db w" "w_db w0" tid] w by (simp add: ledger_step_def same_business_def)
  note f = joined_transaction_found [OF this]
  show upd: "P (w\<lparr>w_db := mark_completed tid i gtrx now (w_db w)\<rparr>)"
    by (rule completed [OF okw f(1,2,4)]) (simp add: i w)
  show "P w" by (rule okw)
  show "P (w\<lparr>w_db := mark_completed tid i gtrx now (w_db w)\<rparr>)" by (rule upd)
qed

lemma complete_found:
  assumes ok: "P w0" and j: "joined_transaction tid (w_db w0) = Some (t, p)" and i: "pi_id p = i"
  shows "triple (ledger_step w0) (andThen (postPaymentLedgerEntry L (pi_merchant_id p) i (t_amount t) (t_fee t) (t_currency t) uuid) (\<lambda>_.
     andThen (d1_put (mark_completed tid i gtrx now)) (\<lambda>_. dispatch (pi_merchant_id p) ''payment.completed'' (completed_data t gtrx))))
     (\<lambda>_. P) (\<lambda>_. P)"
proof (rule triple_andThen)
  show "triple (ledger_step w0) (postPaymentLedgerEntry L (pi_merchant_id p) i (t_amount t) (t_fee t) (t_currency t) uuid)
     (\<lambda>_ w. ledger_step w0 w \<and> posted_in w (pi_merchant_id p) (payment_tx (pi_merchant_id p) i)) (\<lambda>_. P)"
    by (rule triple_weaken [OF payment_step]) (auto intro: ledger [OF ok])
  show "triple (\<lambda>w. ledger_step w0 w \<and> posted_in w (pi_merchant_id p) (payment_tx (pi_merchant_id p) i))
     (andThen (d1_put (mark_completed tid i gtrx now)) (\<lambda>_. dispatch (pi_merchant_id p) ''payment.completed'' (completed_data t gtrx)))
     (\<lambda>_. P) (\<lambda>_. P)"
    by (rule triple_andThen [OF put_completed [OF ok j i] quiet_dispatch [OF frame]])
qed

lemma complete_safe:
  "triple (\<lambda>w. P w \<and> tx_for tid i (w_db w)) (completeTransaction L tid i gtrx uuid) (\<lambda>_. P) (\<lambda>_. P)"
proof (rule triple_from)
  fix w0 assume w0: "P w0 \<and> tx_for tid i (w_db w0)"
  have E: "ledger_step w0 w \<Longrightarrow> P w" for w using ledger w0 by blast
  have g: "triple (ledger_step w0) (d1_get (joined_transaction tid)) (\<lambda>r w. ledger_step w0 w \<and> r = joined_transaction tid (w_db w0)) (\<lambda>_. P)"
    by (rule triple_weaken [OF get_step]) (auto intro: joined_transaction_business E)
  have "triple (ledger_step w0) (completeTransaction L tid i gtrx uuid) (\<lambda>_. P) (\<lambda>_. P)"
    unfolding completeTransaction_def
  proof (rule triple_andThen [OF g], rule triple_pure, goal_cases)
    case (1 tx)
    show ?case
    proof (cases tx)
      case None
      then show ?thesis by (auto intro: triple_throw E)
    next
      case (Some x)
      then obtain t p where x: "tx = Some (t, p)" by (cases x) auto
      then have j: "joined_transaction tid (w_db w0) = Some (t, p)" using 1 by simp
      then have i: "pi_id p = i" using tx_for_found [OF sound] w0 by blast
      show ?thesis
        unfolding x option.case prod.case
        by (rule triple_andThen [OF triple_reading complete_found [OF conjunct1 [OF w0] j i]])
    qed
  qed
  then show "triple (\<lambda>w. w = w0) (completeTransaction L tid i gtrx uuid) (\<lambda>_. P) (\<lambda>_. P)"
    by (rule triple_weaken) (use w0 sound [of w0] in \<open>simp_all add: books_ok_def ledger_step_refl\<close>)
qed

lemma tx_for_frame: "book_pred (\<lambda>w. P w \<and> tx_for tid i (w_db w))"
  using frame by (auto simp: book_pred_def tx_for_def business_def)

lemma callback_safe: "preserves P (handleCallback L reg dec i cb uuid)"
proof -
  have row: "triple P (d1_get (callback_row i))
     (\<lambda>row w. P w \<and> (\<forall>p t g. row = Some (p, t, g) \<longrightarrow> tx_for (t_id t) (pi_id p) (w_db w))) (\<lambda>_. P)"
    by (rule triple_d1_get [OF book_pred_stable [OF frame]]) (auto intro: callback_row_tx_for)
  have put: "preserves P (d1_put (mark_failed tid now))" for tid now
    by (rule preserves_d1_put [OF book_pred_stable [OF frame]]) (rule failed)
  show ?thesis
    unfolding handleCallback_def
  proof (rule triple_andThen [OF row], goal_cases)
    case (1 row)
    show ?case
    proof (cases row)
      case None
      then show ?thesis by (auto intro: triple_throw)
    next
      case (Some x)
      then obtain p t g where x: "row = Some (p, t, g)" by (cases x) auto
      let ?P = "\<lambda>w. P w \<and> tx_for (t_id t) (pi_id p) (w_db w)"
      note keep = triple_keep [where P = ?P and I = P, OF conjunct1]
      have weak: "preserves P m \<Longrightarrow> triple ?P m (\<lambda>_. P) (\<lambda>_. P)" for m :: "(bool \<times> callback_status) svc"
        by (erule triple_weaken) auto
      have verdict: "triple ?P (case verdict of
          Refuse s \<Rightarrow> andThen (d1_put (mark_failed (t_id t) now)) (\<lambda>_. ret (False, s))
        | Complete \<Rightarrow> andThen (completeTransaction L (t_id t) (pi_id p) (vr_gateway_trx_id v) uuid) (\<lambda>_. ret (vr_success v, CbVerified (vr_status v)))
        | GatewayFailed \<Rightarrow> andThen (d1_put (mark_failed (t_id t) now)) (\<lambda>_. ret (vr_success v, CbVerified (vr_status v))))
        (\<lambda>_. P) (\<lambda>_. P)" for verdict now v
        by (cases verdict) (auto intro!: weak preserves_andThen put quiet triple_andThen [OF complete_safe] triple_ret)
      have "triple ?P (andThen (lift_result (resolve reg (g_slug g))) (\<lambda>a.
         andThen (d1_get (intent_credentials i)) (\<lambda>rows.
         andThen (reading w_now) (\<lambda>now.
         andThen (lift_result (ad_verify a now cb (decrypt_all dec rows))) (\<lambda>v.
         andThen (lift_result (callback_verdict L p t g v)) (\<lambda>verdict. case verdict of
          Refuse s \<Rightarrow> andThen (d1_put (mark_failed (t_id t) now)) (\<lambda>_. ret (False, s))
        | Complete \<Rightarrow> andThen (completeTransaction L (t_id t) (pi_id p) (vr_gateway_trx_id v) uuid) (\<lambda>_. ret (vr_success v, CbVerified (vr_status v)))
        | GatewayFailed \<Rightarrow> andThen (d1_put (mark_failed (t_id t) now)) (\<lambda>_. ret (vr_success v, CbVerified (vr_status v)))))))))
        (\<lambda>_. P) (\<lambda>_. P)"
        by (intro keep verdict quiet tx_for_frame)
      then show ?thesis unfolding x option.case prod.case by (rule triple_weaken) auto
    qed
  qed
qed

lemma initiate_safe: "preserves P (initiatePayment b reg dec i gid)"
proof -
  have put: "preserves P (d1_put (mark_processing i gid now))" for now
    by (rule preserves_d1_put [OF book_pred_stable [OF frame]]) (rule processing)
  have gw: "preserves P (call_gateway reg g p t cs)" "preserves P (manual_details gid)" for g p t cs
    unfolding call_gateway_def manual_details_def Let_def
    by (auto intro!: preserves_andThen quiet frame)
  show ?thesis
    unfolding initiatePayment_def
    by (auto intro!: preserves_andThen preserves_option preserves_if quiet frame put gw)
qed

lemma createIntent_safe: "preserves P (createIntent L b inp rn)"
proof -
  note st = book_pred_stable [OF frame]
  have i: "preserves P (d1_exec (insert_intent inp rg rn now))" for rg now
    by (rule preserves_exec [OF st]) (rule intent)
  have t: "preserves P (d1_exec (insert_transaction inp rg rn now k))" for rg now k
    by (rule preserves_exec [OF st]) (rule transaction)
  have s: "preserves P (store_intent inp rg rn now)" for rg now
    unfolding store_intent_def
    by (intro preserves_andThen preserves_option quiet frame i t)
  show ?thesis
    unfolding createIntent_def
    by (intro preserves_andThen preserves_option preserves_if quiet resolve_quiet frame s)
qed

end

interpretation books_pay: payment_safe books_ok
  by unfold_locales
     (simp_all add: books_frame books_ledger_step books_processing books_failed books_completed insert_intent_books insert_transaction_books)

section \<open>createIntent\<close>

text \<open>Both rows of a new intent are there, or the creation did not return.\<close>

definition intent_stored :: "create_intent_input \<Rightarrow> intent_randoms \<Rightarrow> world \<Rightarrow> create_intent_result \<Rightarrow> world \<Rightarrow> bool" where
  "intent_stored inp rn w0 r w \<longleftrightarrow> (\<exists>rg.
     op_payment_intents (w_db w) = op_payment_intents (w_db w0) @ [new_intent inp rg rn (w_now w0) (cr_intent_id r)] \<and>
     op_transactions (w_db w) = op_transactions (w_db w0) @
       [new_transaction inp rg rn (w_now w0) (cr_intent_id r) (seq_transactions (w_db w0))]) \<and>
   cr_intent_id r = seq_payment_intents (w_db w0) \<and> cr_token r = rn_token rn \<and> cr_checkout_url r = ''/checkout/'' @ rn_token rn \<and>
   op_refunds (w_db w) = op_refunds (w_db w0) \<and> w_objects w = w_objects w0"

lemma triple_exec:
  assumes "fate_stable P" and "\<And>w a db. P w \<Longrightarrow> f (w_db w) = Inr (a, db) \<Longrightarrow> Q a (w\<lparr>w_db := db\<rparr>)"
  shows "triple P (d1_exec f) Q (\<lambda>_ _. True)"
proof -
  have "triple P (d1_run (\<lambda>db. case f db of Inl e \<Rightarrow> (Inl e, db) | Inr (a, db') \<Rightarrow> (Inr a, db')))
     (\<lambda>r w. case r of Inl e \<Rightarrow> True | Inr a \<Rightarrow> Q a w) (\<lambda>_ _. True)"
    unfolding d1_run_def by (rule triple_call [OF assms(1)]) (auto split: sum.split dest: assms(2))
  then show ?thesis
    unfolding d1_exec_def by (rule triple_andThen) (auto split: sum.split intro: triple_throw triple_ret)
qed

lemma store_intent_stored:
  assumes "0 < seq_payment_intents (w_db w0)"
  shows "triple (\<lambda>w. business (w_db w) = business (w_db w0) \<and> w_objects w = w_objects w0) (store_intent inp rg rn (w_now w0))
     (intent_stored inp rn w0) (\<lambda>_ _. True)"
proof -
  let ?i = "seq_payment_intents (w_db w0)"
  let ?R = "\<lambda>w. op_payment_intents (w_db w) = op_payment_intents (w_db w0) @ [new_intent inp rg rn (w_now w0) ?i] \<and>
     op_transactions (w_db w) = op_transactions (w_db w0) \<and> seq_transactions (w_db w) = seq_transactions (w_db w0) \<and>
     op_refunds (w_db w) = op_refunds (w_db w0) \<and> w_objects w = w_objects w0"
  have ins: "triple (\<lambda>w. business (w_db w) = business (w_db w0) \<and> w_objects w = w_objects w0)
     (d1_exec (insert_intent inp rg rn (w_now w0))) (\<lambda>rowid w. ?R w \<and> rowid = ?i) (\<lambda>_ _. True)"
    by (rule triple_exec) (auto simp: fate_stable_def insert_intent_def business_def split: if_splits)
  have tx: "triple ?R (d1_exec (insert_transaction inp rg rn (w_now w0) ?i))
     (\<lambda>_. intent_stored inp rn w0 \<lparr>cr_intent_id = ?i, cr_token = rn_token rn, cr_checkout_url = ''/checkout/'' @ rn_token rn\<rparr>) (\<lambda>_ _. True)"
    by (rule triple_exec) (auto simp: fate_stable_def insert_transaction_def intent_stored_def split: if_splits)
  show ?thesis
    unfolding store_intent_def
  proof (rule triple_andThen [OF ins], rule triple_pure, goal_cases)
    case (1 rowid)
    with assms have "nonzero (Some rowid) = Some ?i" by (simp add: nonzero_def)
    then show ?case
      using assms by (auto intro!: triple_andThen [OF triple_ret [where Q = "\<lambda>a w. ?R w \<and> a = Some ?i"]] triple_pure
          triple_andThen [OF tx] triple_ret simp: nonzero_def)
  qed
qed

text \<open>Creating a payment intent.  When \<open>createIntent\<close> returns,
  exactly one pending intent and one pending transaction over the same amount and
  in the same currency were appended under fresh ids, the answer names them, no refund and no ledger
  object changed, and the amount was not zero.\<close>

theorem createIntent_effect:
  assumes "createIntent L b inp rn w = (Inr r, w')" and "0 < seq_payment_intents (w_db w)"
  shows "intent_stored inp rn w r w' \<and> isZero L (ci_amount inp) = Inr False"
proof -
  let ?P = "\<lambda>v. business (w_db v) = business (w_db w) \<and> w_objects v = w_objects w"
  have P: "book_pred ?P" by (simp add: book_pred_def)
  have resolved: "triple ?P (case nonzero (ci_gate_id inp) of Some gid \<Rightarrow> resolve_direct_gate inp gid | None \<Rightarrow> resolve_gateway b inp)
     (\<lambda>_. ?P) (\<lambda>_ _. True)"
    by (rule triple_weaken [OF preserves_option [OF resolve_quiet(2) [OF P] resolve_quiet(1) [OF P]]]) auto
  have "triple (\<lambda>v. v = w) (createIntent L b inp rn) (\<lambda>r v. intent_stored inp rn w r v \<and> isZero L (ci_amount inp) = Inr False) (\<lambda>_ _. True)"
    unfolding createIntent_def
  proof (rule triple_andThen [OF triple_lift], simp, rule triple_pure, goal_cases)
    case (1 zero)
    have now: "triple (\<lambda>v. v = w) (reading w_now) (\<lambda>now v. ?P v \<and> now = w_now w) (\<lambda>_ _. True)" by (rule triple_reading) simp
    show ?case
    proof (cases zero)
      case True
      then show ?thesis by (auto intro: triple_throw)
    next
      case False
      then have zero: "(isZero L (ci_amount inp) = Inr False) = True" using 1 by simp
      have stored: "triple ?P (andThen (case nonzero (ci_gate_id inp) of Some gid \<Rightarrow> resolve_direct_gate inp gid | None \<Rightarrow> resolve_gateway b inp)
           (\<lambda>rg. store_intent inp rg rn (w_now w))) (intent_stored inp rn w) (\<lambda>_ _. True)"
        by (rule triple_andThen [OF resolved store_intent_stored [OF assms(2)]])
      show ?thesis
        unfolding zero simp_thms using False stored
        by (auto intro!: triple_andThen [OF now] triple_pure)
    qed
  qed
  from tripleD [OF this refl assms(1)] show ?thesis .
qed

section \<open>What a callback may complete\<close>

definition completed_ids :: "world \<Rightarrow> int set" where
  "completed_ids w = t_id ` {t \<in> set (op_transactions (w_db w)). tx_completed t}"

lemma completed_ids_frame: "book_pred (\<lambda>w. completed_ids w \<subseteq> S)"
  by (auto simp: book_pred_def completed_ids_def business_def)

lemma complete_ids:
  "triple (\<lambda>w. world_ok w \<and> completed_ids w \<subseteq> S) (completeTransaction L tid i gtrx uuid)
     (\<lambda>_ w. completed_ids w \<subseteq> insert tid S) (\<lambda>_ w. completed_ids w \<subseteq> insert tid S)"
proof (rule triple_from)
  fix w0 assume w0: "world_ok w0 \<and> completed_ids w0 \<subseteq> S"
  let ?Q = "\<lambda>w. completed_ids w \<subseteq> insert tid S"
  have S: "ledger_step w0 w \<Longrightarrow> completed_ids w \<subseteq> S" for w
    using w0 by (auto simp: ledger_step_def same_business_def business_def completed_ids_def)
  then have E: "ledger_step w0 w \<Longrightarrow> ?Q w" for w by blast
  have put: "triple (ledger_step w0) (d1_put (mark_completed tid i gtrx now)) (\<lambda>_. ?Q) (\<lambda>_. ?Q)" for now
  proof (rule triple_d1_put [OF ledger_step_stable])
    fix w assume "ledger_step w0 w"
    from S [OF this] show "?Q (w\<lparr>w_db := mark_completed tid i gtrx now (w_db w)\<rparr>)"
      by (auto simp: completed_ids_def mark_completed_def set_update_where tx_completed_def split: if_splits)
    then show "?Q (w\<lparr>w_db := mark_completed tid i gtrx now (w_db w)\<rparr>)" .
  qed (rule E)
  have post: "triple (ledger_step w0) (postPaymentLedgerEntry L m i a f c uuid) (\<lambda>_. ledger_step w0) (\<lambda>_. ?Q)" for m a f c
    by (rule triple_weaken [OF payment_step]) (assumption | erule conjunct1 | erule E)+
  have get: "triple (ledger_step w0) (d1_get f) (\<lambda>_. ledger_step w0) (\<lambda>_. ?Q)" for f :: "d1 \<Rightarrow> 'x"
    by (rule triple_d1_get [OF ledger_step_stable]) (assumption | erule conjunct1 | erule E)+
  have "triple (ledger_step w0) (completeTransaction L tid i gtrx uuid) (\<lambda>_. ?Q) (\<lambda>_. ?Q)"
    unfolding completeTransaction_def
  proof (rule triple_andThen [OF get], goal_cases)
    case (1 tx)
    show ?case
    proof (cases tx)
      case None
      then show ?thesis by simp (rule triple_throw, rule E)
    next
      case (Some x)
      then obtain t p where x: "tx = Some (t, p)" by (cases x) auto
      show ?thesis
        unfolding x option.case prod.case
        by (rule triple_andThen [OF triple_reading], assumption, rule triple_andThen [OF post], rule triple_andThen [OF put])
           (rule quiet_dispatch [OF completed_ids_frame])
    qed
  qed
  then show "triple (\<lambda>w. w = w0) (completeTransaction L tid i gtrx uuid) (\<lambda>_. ?Q) (\<lambda>_. ?Q)"
    by (rule triple_weaken) (use w0 in \<open>simp_all add: ledger_step_refl\<close>)
qed

definition verified_for :: "'d decimal_js \<Rightarrow> gateway_registry \<Rightarrow> (string \<Rightarrow> string option) \<Rightarrow> world \<Rightarrow> int \<Rightarrow> (string \<times> string) list \<Rightarrow> int \<Rightarrow> bool" where
  "verified_for L reg dec w i cb tid \<longleftrightarrow>
     (\<exists>p t g a v. callback_row i (w_db w) = Some (p, t, g) \<and> t_id t = tid \<and> resolve reg (g_slug g) = Inr a \<and>
        ad_verify a (w_now w) cb (decrypt_all dec (intent_credentials i (w_db w))) = Inr v \<and> vr_success v \<and>
        (case vr_amount v of None \<Rightarrow> g_slug g \<in> {[], ''manual''} | Some x \<Rightarrow> cmp L x (pi_amount p) = Inr 0) \<and>
        (case truthy (vr_trx_id v) of None \<Rightarrow> True | Some x \<Rightarrow> x = t_trx_id t))"

lemma verdict_complete:
  assumes "callback_verdict L p t g v = Inr Complete"
  shows "vr_success v \<and> (case vr_amount v of None \<Rightarrow> g_slug g \<in> {[], ''manual''} | Some x \<Rightarrow> cmp L x (pi_amount p) = Inr 0) \<and>
    (case truthy (vr_trx_id v) of None \<Rightarrow> True | Some x \<Rightarrow> x = t_trx_id t)"
  using assms by (auto simp: callback_verdict_def Let_def split: if_splits option.splits sum.splits)

lemma triple_get_same:
  "(\<And>e w. same_state w0 w \<Longrightarrow> E e w) \<Longrightarrow> triple (same_state w0) (d1_get f) (\<lambda>a w. same_state w0 w \<and> a = f (w_db w0)) E"
  by (rule triple_d1_get [OF same_state_stable]) (auto simp: same_state_def)

lemma triple_now_same: "triple (same_state w0) (reading w_now) (\<lambda>a w. same_state w0 w \<and> a = w_now w0) E"
  by (rule triple_reading) (simp add: same_state_def)

lemma failed_ids: "completed_ids (w\<lparr>w_db := mark_failed tid now (w_db w)\<rparr>) \<subseteq> completed_ids w"
  by (auto simp: completed_ids_def mark_failed_def set_update_where tx_completed_def split: if_splits)

lemma callback_verified_triple:
  assumes ok: "world_ok w0"
  shows "triple (same_state w0) (handleCallback L reg dec i cb uuid)
     (\<lambda>_ w. \<forall>tid \<in> completed_ids w - completed_ids w0. verified_for L reg dec w0 i cb tid)
     (\<lambda>_ w. \<forall>tid \<in> completed_ids w - completed_ids w0. verified_for L reg dec w0 i cb tid)"
proof -
  define R where "R w \<longleftrightarrow> (\<forall>tid \<in> completed_ids w - completed_ids w0. verified_for L reg dec w0 i cb tid)" for w
  have same: "same_state w0 w \<Longrightarrow> R w" for w by (auto simp: R_def same_state_def completed_ids_def)
  have sub: "completed_ids w \<subseteq> completed_ids w0 \<Longrightarrow> R w" for w by (auto simp: R_def)
  have fail: "triple (same_state w0) (andThen (d1_put (mark_failed tid now)) (\<lambda>_. ret x)) (\<lambda>_. R) (\<lambda>_. R)" for tid now and x :: "bool \<times> callback_status"
  proof (rule triple_andThen [OF triple_d1_put [OF same_state_stable]])
    fix w assume "same_state w0 w"
    then have "completed_ids w = completed_ids w0" by (simp add: same_state_def completed_ids_def)
    with failed_ids [of tid now w] sub show "R (w\<lparr>w_db := mark_failed tid now (w_db w)\<rparr>)" by blast
    then show "R (w\<lparr>w_db := mark_failed tid now (w_db w)\<rparr>)" .
  qed (simp_all add: same triple_ret)
  have complete: "triple (same_state w0) (completeTransaction L tid k gtrx uuid) (\<lambda>_. R) (\<lambda>_. R)"
    if "verified_for L reg dec w0 i cb tid" for tid k gtrx
    by (rule triple_weaken [OF complete_ids [where S = "completed_ids w0"]])
       (use that ok in \<open>auto simp: R_def same_state_def completed_ids_def world_ok_def\<close>)
  have "triple (same_state w0) (handleCallback L reg dec i cb uuid) (\<lambda>_. R) (\<lambda>_. R)"
    unfolding handleCallback_def
  proof (rule triple_andThen [OF triple_get_same [OF same]], assumption, rule triple_pure, goal_cases)
    case (1 row)
    show ?case
    proof (cases row)
      case None
      then show ?thesis by (auto intro: triple_throw same)
    next
      case (Some x)
      then obtain p t g where x: "row = Some (p, t, g)" by (cases x) auto
      show ?thesis
        unfolding x option.case prod.case
        apply (rule triple_andThen [OF triple_lift [OF same]], assumption, rule triple_pure)
        apply (rule triple_andThen [OF triple_get_same [OF same]], assumption, rule triple_pure)
        apply (rule triple_andThen [OF triple_now_same], rule triple_pure)
        apply (rule triple_andThen [OF triple_lift [OF same]], assumption, rule triple_pure)
        apply (rule triple_andThen [OF triple_lift [OF same]], assumption, rule triple_pure)
        subgoal for a rows now v verdict
        proof (cases verdict)
          case Complete
          assume r: "resolve reg (g_slug g) = Inr a" "rows = intent_credentials i (w_db w0)" "now = w_now w0"
            "ad_verify a now cb (decrypt_all dec rows) = Inr v" "callback_verdict L p t g v = Inr verdict"
          from verdict_complete [OF r(5) [unfolded Complete]] r(1-4) 1 x have "verified_for L reg dec w0 i cb (t_id t)"
            unfolding verified_for_def by blast
          from complete [OF this] Complete show ?thesis
            by (auto intro!: triple_andThen [OF complete [OF \<open>verified_for L reg dec w0 i cb (t_id t)\<close>]] triple_ret)
        qed (simp_all add: fail)
        done
    qed
  qed
  then show ?thesis by (simp add: R_def [abs_def])
qed

text \<open>C19: a callback completes nothing but the transaction of its own intent, and only after the
  gateway adapter verified the payment: the verified amount equals the intent's (an adapter that
  reports no amount is believed only for a manual gateway) and the verified reference, when there is
  one, is the transaction's.  Whatever the fate of the calls, lost replies included.\<close>

theorem callback_completes_verified:
  assumes "world_ok w" and "handleCallback L reg dec i cb uuid w = (r, w')"
    and "tid \<in> completed_ids w'" and "tid \<notin> completed_ids w"
  shows "verified_for L reg dec w i cb tid"
  using callback_verified_triple [OF assms(1), of L reg dec i cb uuid] assms(2-4)
  by (cases r) (auto simp: triple_def same_state_refl dest!: spec [of _ w])

text \<open>A merchant with one gateway, one intent over 0.10 BDT, and an adapter that verifies it.\<close>

definition demo_initiate :: "time_ms \<Rightarrow> initiate_params \<Rightarrow> credentials \<Rightarrow> exn + initiate_result" where
  "demo_initiate t p cs = Inr \<lparr>ir_redirect_url = Some (ip_redirect_url p), ir_form_html = None, ir_session_id = None\<rparr>"

definition demo_verify :: "time_ms \<Rightarrow> (string \<times> string) list \<Rightarrow> credentials \<Rightarrow> exn + verify_result" where
  "demo_verify t cb cs = Inr \<lparr>vr_success = True, vr_gateway_trx_id = ''G1'', vr_amount = map_of cb ''amount'', vr_currency = None,
     vr_status = VCompleted, vr_error = None, vr_trx_id = map_of cb ''trx''\<rparr>"

definition demo_refund :: "time_ms \<Rightarrow> string \<Rightarrow> money \<Rightarrow> credentials \<Rightarrow> exn + refund_result" where
  "demo_refund t trx amount cs = Inr \<lparr>rr_success = True, rr_refund_id = Some ''R1'', rr_error = None\<rparr>"

definition demo_query :: "time_ms \<Rightarrow> string \<Rightarrow> credentials \<Rightarrow> exn + refund_query" where
  "demo_query t rid cs = Inr QCompleted"

definition demo_registry :: gateway_registry where
  "demo_registry = [(''bkash'', \<lparr>ad_metadata = \<lparr>md_name = ''bKash'', md_slug = ''bkash'', md_version = [], md_description = [], md_author = [],
      md_supported_currencies = [''BDT''], md_capabilities = [''refund'']\<rparr>, ad_initiate = demo_initiate, ad_verify = demo_verify,
      ad_verifyWebhook = base_verifyWebhook, ad_refund = demo_refund, ad_queryRefundStatus = demo_query\<rparr>)]"

definition demo_gateway :: gateway_row where
  "demo_gateway = \<lparr>g_id = 5, g_merchant_id = 7, g_slug = ''bkash'', g_name = ''bKash'', g_type = ''api'', g_active = True, g_priority = 0,
     g_supported_currencies = [''BDT'']\<rparr>"

definition demo_intent :: intent_row where
  "demo_intent = \<lparr>pi_id = 1, pi_merchant_id = 7, pi_uuid = ''u'', pi_token = ''tok'', pi_amount = ''0.10'', pi_currency = ''BDT'', pi_description = None,
     pi_gateway_id = Some 5, pi_brand_id = None, pi_store_id = None, pi_gate_id = None, pi_status = PiPending, pi_metadata = None,
     pi_expires_at = 900000, pi_completed_at = None, pi_created_at = 0, pi_updated_at = 0\<rparr>"

definition demo_tx :: tx_row where
  "demo_tx = \<lparr>t_id = 1, t_merchant_id = 7, t_trx_id = ''op_1'', t_payment_intent_id = Some 1, t_gateway_id = 5, t_gateway_trx_id = None,
     t_brand_id = None, t_store_id = None, t_gate_id = None, t_amount = ''0.10'', t_currency = ''BDT'', t_fee = ''0.00'', t_net_amount = ''0.10'',
     t_status = TPending, t_gateway_type = ''pending'', t_created_at = 0, t_updated_at = 0\<rparr>"

definition pay_world :: world where
  "pay_world = demo_world\<lparr>w_db := (w_db demo_world)\<lparr>op_gateways := [demo_gateway], op_payment_intents := [demo_intent], op_transactions := [demo_tx],
     seq_payment_intents := 2, seq_transactions := 2\<rparr>\<rparr>"

definition completed_list :: "world \<Rightarrow> int list" where
  "completed_list w = map t_id (filter tx_completed (op_transactions (w_db w)))"

lemma completed_ids_list: "completed_ids w = set (completed_list w)"
  by (auto simp: completed_ids_def completed_list_def)

lemma pay_world_ok: "world_ok pay_world"
  using demo_world_ok by (simp add: pay_world_def world_ok_def)

lemmas complete_run [code] = completeTransaction_def [THEN fun_cong, unfolded prog_run]
lemmas callback_run [code] = handleCallback_def [THEN fun_cong, unfolded prog_run]

lemma demo_callback:
  "completed_list (snd (handleCallback exact_decimal demo_registry Some 1 [(''amount'', ''0.10''), (''trx'', ''op_1'')] [] pay_world)) = [1]"
  by code_simp

theorem callback_completes_verified_witness:
  "1 \<in> completed_ids (snd (handleCallback exact_decimal demo_registry Some 1 [(''amount'', ''0.10''), (''trx'', ''op_1'')] [] pay_world)) \<and>
   verified_for exact_decimal demo_registry Some pay_world 1 [(''amount'', ''0.10''), (''trx'', ''op_1'')] 1"
proof -
  let ?run = "handleCallback exact_decimal demo_registry Some 1 [(''amount'', ''0.10''), (''trx'', ''op_1'')] [] pay_world"
  have run: "?run = (fst ?run, snd ?run)" by simp
  have new: "1 \<in> completed_ids (snd ?run)" using demo_callback by (simp add: completed_ids_list)
  moreover have "completed_list pay_world = []" by code_simp
  ultimately show ?thesis using callback_completes_verified [OF pay_world_ok run new] by (simp add: completed_ids_list)
qed

lemmas createIntent_run [code] = createIntent_def [THEN fun_cong, unfolded prog_run]
lemmas store_intent_run [code] = store_intent_def [THEN fun_cong, unfolded prog_run]

definition demo_input :: create_intent_input where
  "demo_input = \<lparr>ci_merchant_id = 7, ci_amount = ''0.10'', ci_currency = ''bdt'', ci_customer_phone = None, ci_customer_email = None,
     ci_metadata = None, ci_gateway_slug = None, ci_gateway_id = Some 5, ci_gateway = None, ci_gate_id = None, ci_description = None,
     ci_inner_email = None, ci_inner_phone = None, ci_expires_in_seconds = None\<rparr>"

definition demo_randoms :: intent_randoms where
  "demo_randoms = \<lparr>rn_token = ''tok2'', rn_uuid = ''u2'', rn_trx = ''x2''\<rparr>"

definition empty_build :: gateway_build where
  "empty_build = \<lparr>gb_catalog = [], gb_raw_generated = []\<rparr>"

lemma demo_created:
  "fst (createIntent exact_decimal empty_build demo_input demo_randoms pay_world) =
     Inr \<lparr>cr_intent_id = 2, cr_token = ''tok2'', cr_checkout_url = ''/checkout/tok2''\<rparr>"
  by code_simp

theorem createIntent_effect_witness:
  "intent_stored demo_input demo_randoms pay_world \<lparr>cr_intent_id = 2, cr_token = ''tok2'', cr_checkout_url = ''/checkout/tok2''\<rparr>
     (snd (createIntent exact_decimal empty_build demo_input demo_randoms pay_world))"
proof -
  let ?run = "createIntent exact_decimal empty_build demo_input demo_randoms pay_world"
  have "?run = (Inr \<lparr>cr_intent_id = 2, cr_token = ''tok2'', cr_checkout_url = ''/checkout/tok2''\<rparr>, snd ?run)"
    using demo_created by (metis prod.collapse)
  moreover have "0 < seq_payment_intents (w_db pay_world)" by (simp add: pay_world_def)
  ultimately show ?thesis using createIntent_effect by blast
qed

section \<open>Completing twice\<close>

definition same_balances :: "world \<Rightarrow> world \<Rightarrow> bool" where
  "same_balances w0 w \<longleftrightarrow> (\<forall>m. balance_of (w_objects w m) = balance_of (w_objects w0 m))"

lemma replay_balances:
  assumes ok: "obj_ok d" and k: "pp_tx_id p \<in> posted_ids d"
  shows "balance_of (fst (snd (postTransaction env now up p (d, db)))) = balance_of d"
proof (cases "validatePostingShape p")
  case (Inl e)
  with post_invalid [of p "fst e" "snd e" env now up d db] ok book_seed [of d "pp_currency p"] show ?thesis
    by (simp add: obj_ok_def book_of_def)
next
  case (Inr u)
  then have sh: "validatePostingShape p = Inr ()" by simp
  obtain x where "List.find (\<lambda>r. px_tx_id r = pp_tx_id p) (do_posted d) = Some x"
    using k find_posted_None [of "pp_tx_id p" d] by auto
  from post_duplicate [OF sh this] ok book_seed [of d "pp_currency p"] show ?thesis
    by (simp add: obj_ok_def book_of_def)
qed

text \<open>Until the posting is made again nothing moves, and making it again moves nothing.\<close>

definition replayed :: "world \<Rightarrow> world \<Rightarrow> bool" where
  "replayed w0 w \<longleftrightarrow> ledger_step w0 w \<and> same_balances w0 w"

lemma replayed_stable: "fate_stable (replayed w0)"
  using ledger_step_stable [of w0] by (simp add: fate_stable_def replayed_def same_balances_def)

lemma stub_post_preserves:
  assumes "fate_stable J" and "\<And>w r d db. J w \<Longrightarrow>
     postTransaction (ae_ledger (w_env w)) (w_now w) (w_d1_up w) p (w_objects w m, w_db w) = (r, (d, db)) \<Longrightarrow>
     J (w\<lparr>w_objects := (w_objects w)(m := d), w_db := db\<rparr>)"
  shows "preserves J (stub_postTransaction m p)"
  unfolding stub_postTransaction_def ledger_call_def
  by (rule triple_call [OF assms(1)]) (auto split: prod.split intro: assms(2))

lemma stub_post_replay:
  assumes k: "posted_in w0 m (pp_tx_id p)"
  shows "preserves (replayed w0) (stub_postTransaction m p)"
proof (rule stub_post_preserves [OF replayed_stable])
  fix w r d db
  assume w: "replayed w0 w" and run: "postTransaction (ae_ledger (w_env w)) (w_now w) (w_d1_up w) p (w_objects w m, w_db w) = (r, (d, db))"
  have safe: "ledger_safe w0 w" using w by (simp add: replayed_def ledger_step_def)
  then have ok: "obj_ok (w_objects w m)" by (simp add: ledger_safe_def world_ok_def)
  have "ledger_safe w0 (w\<lparr>w_objects := (w_objects w)(m := d), w_db := db\<rparr>)"
    using exec_obj_ok [of "(w_objects w m, w_db w)" "CPost (ae_ledger (w_env w)) (w_now w) (w_d1_up w) p"] ok run
    by (intro ledger_safe_object [OF safe]) simp_all
  moreover have "balance_of d = balance_of (w_objects w m)"
    using replay_balances [OF ok, of p] ledger_safe_posted [OF safe k] run by (metis fst_conv posted_in_def snd_conv)
  moreover have "business db = business (w_db w)"
    using post_business [of "w_objects w m"] ok run by (metis obj_ok_def snd_conv)
  ultimately show "replayed w0 (w\<lparr>w_objects := (w_objects w)(m := d), w_db := db\<rparr>)"
    using w by (simp add: replayed_def ledger_step_def same_business_def same_balances_def)
qed

lemma payment_replay:
  assumes k: "posted_in w0 m (payment_tx m i)"
  shows "preserves (replayed w0) (postPaymentLedgerEntry L m i a f c uuid)"
proof -
  note get = preserves_d1_get [OF replayed_stable]
  have bp: "triple (replayed w0) (buildPayload L input (Some x) uuid) (\<lambda>p w. replayed w0 w \<and> pp_tx_id p = x) (\<lambda>_. replayed w0)" for input x
    unfolding buildPayload_def
    by (rule triple_andThen [OF get]) (auto split: sum.split intro!: triple_throw triple_ret simp: payload_of_def)
  have post: "preserves (replayed w0) (post L input (Some (payment_tx m i)) uuid)" if "in_merchant_id input = m" for input
    unfolding post_def that
    by (rule triple_andThen [OF bp], rule triple_pure)
       (auto intro!: preserves_andThen stub_post_replay preserves_if triple_throw triple_ret simp: k)
  show ?thesis
    unfolding postPaymentLedgerEntry_def getAccountByCode_def
    by (intro preserves_andThen get) (auto split: option.split intro!: triple_throw triple_ret preserves_andThen post)
qed

text \<open>C20: completing a payment a second time is free.  If the posting of the intent is in the
  merchant's ledger already, as after a callback whose reply was lost, completing the transaction
  again moves no balance of any merchant.\<close>

theorem completion_idempotent:
  assumes "world_ok w" and "joined_transaction tid (w_db w) = Some (t, p)"
    and "posted_in w (pi_merchant_id p) (payment_tx (pi_merchant_id p) i)"
    and "completeTransaction L tid i gtrx uuid w = (r, w')"
  shows "same_balances w w'"
proof -
  let ?J = "same_balances w"
  have frame: "book_pred ?J" by (simp add: book_pred_def same_balances_def)
  have put: "preserves ?J (d1_put f)" for f
    by (rule preserves_d1_put) (simp_all add: fate_stable_def same_balances_def)
  have w: "replayed w w" by (simp add: replayed_def assms(1) ledger_step_refl same_balances_def)
  have post: "triple (replayed w) (postPaymentLedgerEntry L (pi_merchant_id p) i (t_amount t) (t_fee t) (t_currency t) uuid) (\<lambda>_. ?J) (\<lambda>_. ?J)"
    by (rule triple_weaken [OF payment_replay [OF assms(3)]]) (auto simp: replayed_def)
  have get: "triple (replayed w) (d1_get (joined_transaction tid)) (\<lambda>a v. replayed w v \<and> a = Some (t, p)) (\<lambda>_. ?J)"
    by (rule triple_d1_get [OF replayed_stable])
       (use joined_transaction_business [of _ "w_db w" tid] assms(2) in \<open>auto simp: replayed_def ledger_step_def same_business_def\<close>)
  have "triple (replayed w) (completeTransaction L tid i gtrx uuid) (\<lambda>_. ?J) (\<lambda>_. ?J)"
    unfolding completeTransaction_def
    by (rule triple_andThen [OF get], rule triple_pure)
       (auto intro!: triple_andThen [OF triple_reading] triple_andThen [OF post] preserves_andThen put quiet_dispatch frame)
  with w assms(4) show ?thesis by (cases r) (auto simp: triple_def dest!: spec [of _ w])
qed

lemma pay_world_books: "books_ok pay_world"
proof -
  have "ids_ok (w_db pay_world)"
    by (simp add: pay_world_def ids_ok_def keyed_def demo_intent_def demo_tx_def demo_world_def) code_simp
  moreover have "backed op_transactions tx_completed tx_owner pay_world"
    by (simp add: backed_def pay_world_def demo_tx_def tx_completed_def)
  moreover have "filter rf_completed (op_refunds (w_db pay_world)) = []" by code_simp
  then have "backed op_refunds rf_completed rf_owner pay_world" by (auto simp: backed_def filter_empty_conv)
  ultimately show ?thesis by (simp add: books_ok_def pay_world_ok)
qed

definition paid_world :: world where
  "paid_world = snd (completeTransaction exact_decimal 1 1 ''G1'' [] pay_world)"

lemma paid_world_books: "books_ok paid_world"
proof -
  have "tx_for 1 1 (w_db pay_world)" by (simp add: tx_for_def pay_world_def demo_tx_def)
  with pay_world_books show ?thesis
    unfolding paid_world_def by (intro triple_snd [OF books_pay.complete_safe]) simp
qed

lemma paid_world_facts:
  "map px_tx_id (do_posted (w_objects paid_world 7)) = [''m7:payment:1'']"
  "map_option (\<lambda>(t, p). (t_status t, pi_merchant_id p, pi_status p)) (joined_transaction 1 (w_db paid_world)) = Some (TCompleted, 7, PiCompleted)"
  by code_simp+

theorem completion_idempotent_witness:
  "posted_in paid_world 7 (payment_tx 7 1) \<and>
   same_balances paid_world (snd (completeTransaction exact_decimal 1 1 ''G1'' [] paid_world))"
proof -
  let ?run = "completeTransaction exact_decimal 1 1 ''G1'' [] paid_world"
  have ok: "world_ok paid_world" using paid_world_books by (simp add: books_ok_def)
  obtain t p where j: "joined_transaction 1 (w_db paid_world) = Some (t, p)" "pi_merchant_id p = 7"
    using paid_world_facts(2) by auto
  have "payment_tx 7 1 = ''m7:payment:1''" by code_simp
  moreover have "px_tx_id ` set (do_posted (w_objects paid_world 7)) = {''m7:payment:1''}"
    using paid_world_facts(1) by (metis empty_set list.simps(15) set_map)
  ultimately have k: "posted_in paid_world 7 (payment_tx 7 1)" by (simp add: posted_in_def posted_ids_def)
  have run: "?run = (fst ?run, snd ?run)" by simp
  show ?thesis using completion_idempotent [OF ok j(1) _ run] k j(2) by simp
qed

section \<open>A paid intent can be opened again\<close>

text \<open>
  \<open>initiatePayment\<close> writes \<open>processing\<close> whatever the status was: initiating an intent that has been
  paid takes its transaction out of \<open>completed\<close>, while its posting stays in the ledger.
\<close>

lemmas initiate_run [code] = initiatePayment_def [THEN fun_cong, unfolded prog_run]
lemmas manual_details_run [code] = manual_details_def [THEN fun_cong, unfolded prog_run]

definition reopened_world :: world where
  "reopened_world = snd (initiatePayment empty_build demo_registry Some 1 5
     (paid_world\<lparr>w_db := (w_db paid_world)\<lparr>op_gateways := [demo_gateway\<lparr>g_type := ''manual''\<rparr>]\<rparr>\<rparr>))"

lemma initiate_reopens_completed:
  "map t_status (op_transactions (w_db paid_world)) = [TCompleted]"
  "map t_status (op_transactions (w_db reopened_world)) = [TProcessing]"
  "map px_tx_id (do_posted (w_objects reopened_world 7)) = [''m7:payment:1'']"
  by code_simp+

end
