(* ===== verification/Triggers.thy ===== *)
theory Triggers
  imports Books
begin

text \<open>
  The workflow triggers of \<open>services/reconciliation.ts\<close>, the only places where workflow instances
  are created: instance ids, the recognition of a duplicate, and the two triggers.  What the
  platform throws for an id that exists is not under the program's control; it is the argument
  \<open>dup\<close>, and the triggers are idempotent whenever the program recognises it.
\<close>

section \<open>Instance ids\<close>

definition is_upper :: "char \<Rightarrow> bool" where "is_upper c \<longleftrightarrow> CHR ''A'' \<le> c \<and> c \<le> CHR ''Z''"
definition is_lower :: "char \<Rightarrow> bool" where "is_lower c \<longleftrightarrow> CHR ''a'' \<le> c \<and> c \<le> CHR ''z''"

definition id_char :: "char \<Rightarrow> bool" where
  "id_char c \<longleftrightarrow> is_upper c \<or> is_lower c \<or> is_digit c \<or> c = CHR ''_'' \<or> c = CHR ''-''"

definition buildRefundInstanceId :: "int \<Rightarrow> string option \<Rightarrow> string" where
  "buildRefundInstanceId refundId suffix =
     (let base = ''refund-'' @ int_str refundId in
      case truthy suffix of
        None \<Rightarrow> base
      | Some s \<Rightarrow> base @ ''-'' @ take 32 (map (\<lambda>c. if id_char c then c else CHR ''-'') s))"

definition iso_date_shape :: "string \<Rightarrow> bool" where
  "iso_date_shape d \<longleftrightarrow> length d = 10 \<and> d ! 4 = CHR ''-'' \<and> d ! 7 = CHR ''-'' \<and>
     (\<forall>i \<in> {0, 1, 2, 3, 5, 6, 8, 9}. is_digit (d ! i))"

definition buildSweepInstanceId :: "string \<Rightarrow> string" where
  "buildSweepInstanceId date =
     ''sweep-'' @ (if iso_date_shape date then date else take 10 (filter (\<lambda>c. is_digit c \<or> c = CHR ''-'') date))"

section \<open>Recognising a duplicate\<close>

text \<open>The fields of a caught value that \<open>isWorkflowDuplicateError\<close> looks at.\<close>

record js_error =
  er_code :: "int option"
  er_status :: "int option"
  er_cause_code :: "int option"
  er_message :: string
  er_name :: string

fun js_includes :: "string \<Rightarrow> string \<Rightarrow> bool" where
  "js_includes [] t = (t = [])"
| "js_includes (c # s) t = (take (length t) (c # s) = t \<or> js_includes s t)"

definition isWorkflowDuplicateError :: "js_error \<Rightarrow> bool" where
  "isWorkflowDuplicateError e =
     (let lower = toLowerCase (er_message e); name = toLowerCase (er_name e) in
      er_code e = Some 409 \<or> er_status e = Some 409 \<or> er_cause_code e = Some 409 \<or>
      js_includes lower ''already exists'' \<or>
      (js_includes lower ''duplicate'' \<and> js_includes lower ''workflow'') \<or>
      js_includes name ''duplicate'' \<or> js_includes name ''conflicterror'' \<or> js_includes name ''alreadyexists'')"

section \<open>Triggers\<close>

record trigger_result =
  tr_instance_id :: string
  tr_created :: bool

text \<open>\<open>create\<close> of a workflow binding: it stores a new instance or throws for a known id.\<close>

definition refund_create :: "js_error \<Rightarrow> string \<Rightarrow> int \<Rightarrow> (js_error + unit) svc" where
  "refund_create dup i r = remote (\<lambda>w. if i \<in> fst ` set (w_refund_instances w) then (Inl dup, w)
     else (Inr (), w\<lparr>w_refund_instances := w_refund_instances w @ [(i, r)]\<rparr>))"

definition sweep_create :: "js_error \<Rightarrow> string \<Rightarrow> string \<Rightarrow> (js_error + unit) svc" where
  "sweep_create dup i date = remote (\<lambda>w. if i \<in> fst ` set (w_sweep_instances w) then (Inl dup, w)
     else (Inr (), w\<lparr>w_sweep_instances := w_sweep_instances w @ [(i, date)]\<rparr>))"

text \<open>The \<open>try\<close> around \<open>create\<close>; a transport error carries no duplicate mark and is thrown on.\<close>

definition created_or_duplicate :: "string \<Rightarrow> (js_error + unit) svc \<Rightarrow> trigger_result svc" where
  "created_or_duplicate i call = andThen call (\<lambda>r.
     case r of
       Inr _ \<Rightarrow> ret \<lparr>tr_instance_id = i, tr_created = True\<rparr>
     | Inl e \<Rightarrow> if isWorkflowDuplicateError e then ret \<lparr>tr_instance_id = i, tr_created = False\<rparr> else throw (Error (er_message e)))"

definition triggerRefundReconciliation :: "js_error \<Rightarrow> int \<Rightarrow> string option \<Rightarrow> trigger_result svc" where
  "triggerRefundReconciliation dup refundId suffix =
     (let i = buildRefundInstanceId refundId suffix in created_or_duplicate i (refund_create dup i refundId))"

text \<open>\<open>new Date().toISOString().slice(0, 10)\<close>: the civil date of a time in milliseconds.\<close>

definition pad :: "nat \<Rightarrow> string \<Rightarrow> string" where
  "pad n s = replicate (n - length s) (CHR ''0'') @ s"

definition civil_date :: "int \<Rightarrow> int \<times> int \<times> int" where
  "civil_date days =
     (let z = days + 719468; era = z div 146097; doe = z mod 146097;
          yoe = (doe - doe div 1460 + doe div 36524 - doe div 146096) div 365;
          doy = doe - (365 * yoe + yoe div 4 - yoe div 100);
          mp = (5 * doy + 2) div 153; d = doy - (153 * mp + 2) div 5 + 1;
          m = (if mp < 10 then mp + 3 else mp - 9)
      in (yoe + era * 400 + (if m \<le> 2 then 1 else 0), m, d))"

definition iso_date :: "time_ms \<Rightarrow> string" where
  "iso_date t = (case civil_date (t div 86400000) of (y, m, d) \<Rightarrow>
     pad 4 (int_str y) @ ''-'' @ pad 2 (int_str m) @ ''-'' @ pad 2 (int_str d))"

definition triggerDailySweep :: "js_error \<Rightarrow> string option \<Rightarrow> trigger_result svc" where
  "triggerDailySweep dup dateStr =
     andThen (reading w_now) (\<lambda>now.
       let date = or_else dateStr (iso_date now); i = buildSweepInstanceId date
       in created_or_duplicate i (sweep_create dup i date))"

section \<open>Triggers are quiet\<close>

lemma quiet_created [quiet]: "preserves P call \<Longrightarrow> preserves P (created_or_duplicate i call)"
  unfolding created_or_duplicate_def by (intro preserves_andThen preserves_sum preserves_if quiet)

lemma quiet_trigger [quiet]: "book_pred P \<Longrightarrow> preserves P (triggerRefundReconciliation dup r s)"
  unfolding triggerRefundReconciliation_def refund_create_def Let_def by (intro quiet) auto

lemma quiet_daily [quiet]: "book_pred P \<Longrightarrow> preserves P (triggerDailySweep dup d)"
  unfolding triggerDailySweep_def sweep_create_def Let_def by (intro preserves_andThen quiet) auto

section \<open>Ids name their refund\<close>

lemma digits_then_dash:
  assumes "CHR ''-'' \<notin> set a" and "CHR ''-'' \<notin> set b" and "a @ s = b @ t"
    and "s = [] \<or> hd s = CHR ''-''" and "t = [] \<or> hd t = CHR ''-''"
  shows "a = b"
  using assms by (induction a arbitrary: b) (case_tac b; auto)+

lemma dash_notin_int_str: "0 \<le> n \<Longrightarrow> CHR ''-'' \<notin> set (int_str n)"
  by (auto simp: int_str_def is_digit_def dest!: nat_str_digits)

text \<open>C21: an instance id names one refund: triggers for different refunds never share an id,
  whatever their suffixes.\<close>

theorem refund_instance_id_names_refund:
  assumes "0 \<le> r" and "0 \<le> r'" and "r \<noteq> r'"
  shows "buildRefundInstanceId r s \<noteq> buildRefundInstanceId r' s'"
proof
  assume same: "buildRefundInstanceId r s = buildRefundInstanceId r' s'"
  have shape: "\<exists>t. buildRefundInstanceId r s = ''refund-'' @ int_str r @ t \<and> (t = [] \<or> hd t = CHR ''-'')" for r s
    by (cases "truthy s") (simp_all add: buildRefundInstanceId_def)
  obtain t where t: "buildRefundInstanceId r s = ''refund-'' @ int_str r @ t" "t = [] \<or> hd t = CHR ''-''"
    using shape by blast
  obtain t' where t': "buildRefundInstanceId r' s' = ''refund-'' @ int_str r' @ t'" "t' = [] \<or> hd t' = CHR ''-''"
    using shape by blast
  have "int_str r @ t = int_str r' @ t'" using same t(1) t'(1) by simp
  from digits_then_dash [OF dash_notin_int_str [OF assms(1)] dash_notin_int_str [OF assms(2)] this t(2) t'(2)] assms(3)
  show False by simp
qed

theorem refund_instance_id_names_refund_witness:
  "buildRefundInstanceId 1 (Some ''0'') \<noteq> buildRefundInstanceId 10 None"
  using refund_instance_id_names_refund [of 1 10 "Some ''0''" None] by simp

section \<open>Triggering twice\<close>

text \<open>Triggering a refund's workflow is idempotent.  When the platform's duplicate error is one the
  program recognises, a trigger that returns leaves exactly one instance under the refund's id,
  reports \<open>created\<close> precisely when the id was new, and never touches another instance; a lost call
  leaves the instances unique as well.\<close>

theorem refund_trigger_idempotent:
  assumes "isWorkflowDuplicateError dup" and "distinct (map fst (w_refund_instances w))"
    and "triggerRefundReconciliation dup r s w = (x, w')"
  shows "distinct (map fst (w_refund_instances w')) \<and>
     w_refund_instances w' \<in> {w_refund_instances w, w_refund_instances w @ [(buildRefundInstanceId r s, r)]} \<and>
     (case x of Inl e \<Rightarrow> True | Inr res \<Rightarrow>
        tr_instance_id res = buildRefundInstanceId r s \<and> buildRefundInstanceId r s \<in> fst ` set (w_refund_instances w') \<and>
        tr_created res = (buildRefundInstanceId r s \<notin> fst ` set (w_refund_instances w)))"
proof -
  obtain f w1 where nf: "next_fate w = (f, w1)" by (cases "next_fate w")
  let ?i = "buildRefundInstanceId r s"
  have w1: "w_refund_instances w1 = w_refund_instances w" using next_fate_frame [OF nf] by simp
  note defs = triggerRefundReconciliation_def Let_def created_or_duplicate_def refund_create_def remote_def andThen_def ret_def throw_def
  show ?thesis
  proof (cases "?i \<in> fst ` set (w_refund_instances w)")
    case True
    note mem = this
    show ?thesis using assms nf w1 by (cases f) (simp_all add: defs mem, safe, simp_all add: mem image_iff, (metis image_iff mem)+)
  next
    case False
    then show ?thesis using assms nf w1 by (cases f) (auto simp: defs intro: rev_image_eqI)
  qed
qed

definition plain_duplicate :: js_error where
  "plain_duplicate = \<lparr>er_code = None, er_status = None, er_cause_code = None, er_message = ''workflow instance Already Exists'', er_name = ''Error''\<rparr>"

lemma demo_trigger_fst: "fst (triggerRefundReconciliation plain_duplicate 4 None demo_world) = Inr \<lparr>tr_instance_id = ''refund-4'', tr_created = True\<rparr>"
  by code_simp

theorem refund_trigger_idempotent_witness:
  "w_refund_instances (snd (triggerRefundReconciliation plain_duplicate 4 None demo_world)) \<in> {[], [(''refund-4'', 4)]}"
proof -
  let ?run = "triggerRefundReconciliation plain_duplicate 4 None demo_world"
  have dup: "isWorkflowDuplicateError plain_duplicate" by code_simp
  have e: "w_refund_instances demo_world = []" by (simp add: demo_world_def)
  have i: "buildRefundInstanceId 4 None = ''refund-4''" by code_simp
  show ?thesis using refund_trigger_idempotent [OF dup, of demo_world 4 None "fst ?run" "snd ?run"] by (simp add: e i)
qed

lemma iso_date_examples: "iso_date 0 = ''1970-01-01''" "iso_date 951782400000 = ''2000-02-29''" "iso_date 1735689599999 = ''2024-12-31''"
  by code_simp+

end
