(* ===== verification/Durable.thy ===== *)
theory Durable
  imports World
begin

text \<open>
  Durable workflows (\<open>WorkflowEntrypoint\<close>, \<open>step.do\<close>, \<open>step.sleep\<close>).  A workflow is its program
  counter together with what its completed steps returned: a phase.  An instance runs one attempt
  of its current step at a time; between two attempts anything else may happen to the world.  A
  step that throws is tried again after a wait, until its retries are used up or the error is not
  retryable; then the instance halts in error.  How long the platform waits before each retry of a
  step is the argument \<open>waits\<close>: one wait for each retry it grants.
\<close>

record step_config =
  sc_limit :: nat
  sc_delay_ms :: int
  sc_timeout_ms :: int

text \<open>What a workflow class provides: one attempt of each step, giving the next phase and the sleep before it.\<close>

record 'p durable_code =
  dc_attempt :: "'p \<Rightarrow> ('p \<times> int) svc"
  dc_config :: "'p \<Rightarrow> step_config"
  dc_errored :: "exn \<Rightarrow> 'p"
  dc_terminal :: "'p \<Rightarrow> bool"

record 'p durable =
  du_phase :: 'p
  du_retries :: "int list"
  du_wake :: time_ms

definition retryable :: "exn \<Rightarrow> bool" where
  "retryable e \<longleftrightarrow> (case e of NonRetryableError m \<Rightarrow> False | _ \<Rightarrow> True)"

definition durable_start :: "(step_config \<Rightarrow> int list) \<Rightarrow> 'p durable_code \<Rightarrow> 'p \<Rightarrow> 'p durable" where
  "durable_start waits c ph = \<lparr>du_phase = ph, du_retries = waits (dc_config c ph), du_wake = 0\<rparr>"

definition halt_step :: "(step_config \<Rightarrow> int list) \<Rightarrow> 'p durable_code \<Rightarrow> exn \<Rightarrow> 'p durable \<Rightarrow> 'p durable" where
  "halt_step waits c e inst = inst\<lparr>du_phase := dc_errored c e, du_retries := waits (dc_config c (dc_errored c e))\<rparr>"

definition durable_next :: "(step_config \<Rightarrow> int list) \<Rightarrow> 'p durable_code \<Rightarrow> time_ms \<Rightarrow> 'p durable \<Rightarrow> exn + 'p \<times> int \<Rightarrow> 'p durable" where
  "durable_next waits c now inst r =
     (case r of
        Inr (ph, sleep) \<Rightarrow> inst\<lparr>du_phase := ph, du_retries := waits (dc_config c ph), du_wake := now + sleep\<rparr>
      | Inl e \<Rightarrow> (if retryable e
          then (case du_retries inst of
                  [] \<Rightarrow> halt_step waits c e inst
                | d # ds \<Rightarrow> inst\<lparr>du_retries := ds, du_wake := now + d\<rparr>)
          else halt_step waits c e inst))"

definition awake :: "'p durable \<Rightarrow> world \<Rightarrow> bool" where
  "awake inst w \<longleftrightarrow> du_wake inst \<le> w_now w"

definition durable_step :: "(step_config \<Rightarrow> int list) \<Rightarrow> 'p durable_code \<Rightarrow> 'p durable \<times> world \<Rightarrow> 'p durable \<times> world" where
  "durable_step waits c = (\<lambda>(inst, w).
     if dc_terminal c (du_phase inst) \<or> \<not> awake inst w then (inst, w)
     else case dc_attempt c (du_phase inst) w of (r, w') \<Rightarrow> (durable_next waits c (w_now w') inst r, w'))"

text \<open>
  An instance in the worlds it is run in, one attempt in each.  The code may depend on what the
  run draws at each attempt, such as a random id.
\<close>

fun durable_runs :: "(step_config \<Rightarrow> int list) \<Rightarrow> ('u \<Rightarrow> 'p durable_code) \<Rightarrow> 'p durable \<Rightarrow> ('u \<times> world) list \<Rightarrow> 'p durable" where
  "durable_runs waits c inst [] = inst"
| "durable_runs waits c inst ((u, w) # ws) = durable_runs waits c (fst (durable_step waits (c u) (inst, w))) ws"

fun each_awake :: "(step_config \<Rightarrow> int list) \<Rightarrow> ('u \<Rightarrow> 'p durable_code) \<Rightarrow> 'p durable \<Rightarrow> ('u \<times> world) list \<Rightarrow> bool" where
  "each_awake waits c inst [] = True"
| "each_awake waits c inst ((u, w) # ws) = (awake inst w \<and> each_awake waits c (fst (durable_step waits (c u) (inst, w))) ws)"

lemma durable_step_world:
  assumes "\<And>r w'. dc_attempt c (du_phase inst) w = (r, w') \<Longrightarrow> I w'" and "I w"
  shows "I (snd (durable_step waits c (inst, w)))"
  using assms by (simp add: durable_step_def split: prod.split)

lemma durable_step_terminal [simp]: "dc_terminal c (du_phase inst) \<Longrightarrow> durable_step waits c (inst, w) = (inst, w)"
  by (simp add: durable_step_def)

lemma awake_terminal:
  assumes "\<And>u. dc_terminal (c u) (du_phase inst)" and "awake inst w"
  shows "each_awake waits c inst (replicate n (u, w))"
  using assms by (induction n) simp_all

section \<open>Termination\<close>

text \<open>
  The contract of a workflow that ends: a completed step lowers the rank of the phase, and a step
  that has failed for good ends the instance or lowers the rank as well.  The platform grants a step a bounded number of retries.
\<close>

locale durable_progress =
  fixes c :: "'u \<Rightarrow> 'p durable_code" and rank :: "'p \<Rightarrow> nat"
  assumes progress: "dc_attempt (c u) ph w = (Inr (ph', s), w') \<Longrightarrow> \<not> dc_terminal (c u) ph \<Longrightarrow> rank ph' < rank ph"
    and halted: "dc_attempt (c u) ph w = (Inl e, w') \<Longrightarrow> \<not> dc_terminal (c u) ph \<Longrightarrow>
       dc_terminal (c u) (dc_errored (c u) e) \<or> rank (dc_errored (c u) e) < rank ph"
    and same_terminal: "dc_terminal (c u) ph = dc_terminal (c u') ph"
begin

definition measure_of :: "nat \<Rightarrow> 'p durable \<Rightarrow> nat" where
  "measure_of R inst = (if dc_terminal (c undefined) (du_phase inst) then 0
     else rank (du_phase inst) * (R + 1) + length (du_retries inst) + 1)"

lemma terminal_iff: "dc_terminal (c u) ph = dc_terminal (c undefined) ph"
  by (rule same_terminal)

lemma step_measure:
  assumes retries: "\<And>k. length (waits k) \<le> R" and aw: "awake inst w" and run: "\<not> dc_terminal (c undefined) (du_phase inst)"
  shows "measure_of R (fst (durable_step waits (c u) (inst, w))) < measure_of R inst"
proof -
  obtain r w' where a: "dc_attempt (c u) (du_phase inst) w = (r, w')" by fastforce
  have run': "\<not> dc_terminal (c u) (du_phase inst)" using run terminal_iff [of u] by simp
  have step: "fst (durable_step waits (c u) (inst, w)) = durable_next waits (c u) (w_now w') inst r"
    using aw run' by (simp add: durable_step_def a)
  show ?thesis
  proof (cases r)
    case (Inr x)
    obtain ph s where x: "x = (ph, s)" by fastforce
    have "rank ph < rank (du_phase inst)" using progress [OF a [unfolded Inr x] run'] .
    then have "(rank ph + 1) * (R + 1) \<le> rank (du_phase inst) * (R + 1)" by (intro mult_right_mono) simp_all
    with retries [of "dc_config (c u) ph"] show ?thesis
      by (simp add: step Inr x durable_next_def measure_of_def run)
  next
    case (Inl e)
    let ?ph = "dc_errored (c u) e"
    have halt: "measure_of R (halt_step waits (c u) e inst) < measure_of R inst"
    proof (cases "dc_terminal (c undefined) ?ph")
      case False
      then have "rank ?ph < rank (du_phase inst)" using halted [OF a [unfolded Inl] run'] terminal_iff [of u] by simp
      then have "(rank ?ph + 1) * (R + 1) \<le> rank (du_phase inst) * (R + 1)" by (intro mult_right_mono) simp_all
      with retries [of "dc_config (c u) ?ph"] show ?thesis by (simp add: measure_of_def run halt_step_def)
    qed (simp add: measure_of_def run halt_step_def)
    consider "durable_next waits (c u) (w_now w') inst r = halt_step waits (c u) e inst"
      | d ds where "du_retries inst = d # ds" "durable_next waits (c u) (w_now w') inst r = inst\<lparr>du_retries := ds, du_wake := w_now w' + d\<rparr>"
      by (cases "du_retries inst"; cases "retryable e") (auto simp: Inl durable_next_def)
    then show ?thesis using halt by cases (simp_all only: step, simp add: measure_of_def run)
  qed
qed

lemma runs_measure:
  assumes retries: "\<And>k. length (waits k) \<le> R"
  shows "each_awake waits c inst ws \<Longrightarrow> measure_of R inst \<le> length ws \<Longrightarrow> dc_terminal (c undefined) (du_phase (durable_runs waits c inst ws))"
proof (induction ws arbitrary: inst)
  case Nil
  then show ?case by (auto simp: measure_of_def split: if_splits)
next
  case (Cons uw ws)
  obtain u w where uw: "uw = (u, w)" by fastforce
  show ?case
  proof (cases "dc_terminal (c undefined) (du_phase inst)")
    case True
    then have stay: "fst (durable_step waits (c u) (inst, w)) = inst" using terminal_iff [of u] by simp
    have "measure_of R inst \<le> length ws" using True by (simp add: measure_of_def)
    with Cons stay show ?thesis by (simp add: uw)
  next
    case False
    let ?next = "fst (durable_step waits (c u) (inst, w))"
    have "measure_of R ?next < measure_of R inst" using Cons.prems False by (intro step_measure [OF retries]) (simp_all add: uw)
    with Cons.prems have "measure_of R ?next \<le> length ws" by simp
    with Cons.IH [of ?next] Cons.prems show ?thesis by (simp add: uw)
  qed
qed

lemma terminates:
  assumes retries: "\<And>k. length (waits k) \<le> R" and "each_awake waits c (durable_start waits (c u) ph) ws" and "(rank ph + 1) * (R + 1) \<le> length ws"
  shows "dc_terminal (c u) (du_phase (durable_runs waits c (durable_start waits (c u) ph) ws))"
proof -
  have "measure_of R (durable_start waits (c u) ph) \<le> (rank ph + 1) * (R + 1)"
    using retries [of "dc_config (c u) ph"] by (simp add: measure_of_def durable_start_def)
  with assms(3) have "measure_of R (durable_start waits (c u) ph) \<le> length ws" by linarith
  from runs_measure [OF retries assms(2) this] terminal_iff [of u] show ?thesis by simp
qed

end

end
