(* ===== verification/Refund.thy ===== *)
theory Refund
  imports PaymentCorrect Triggers Durable
begin

text \<open>
  \<open>services/refund.ts\<close> and \<open>workflows/refund-reconciliation.ts\<close>: creating a refund under the
  cumulative bound, and the durable workflow that polls the gateway, reverses the ledger and
  closes the refund.  Amounts are IEEE doubles in the code (\<open>parseFloat\<close>, \<open>CAST AS NUMERIC\<close>,
  \<open>SUM\<close>, \<open>+\<close>): their arithmetic is the argument \<open>doubles\<close>, over the rationals they denote.
\<close>

section \<open>Numbers\<close>

record doubles =
  fp_parseFloat :: "string \<Rightarrow> rat option"
  fp_cast :: "string \<Rightarrow> rat"
  fp_sum :: "rat list \<Rightarrow> rat"
  fp_add :: "rat \<Rightarrow> rat \<Rightarrow> rat"
  fp_sub :: "rat \<Rightarrow> rat \<Rightarrow> rat"
  fp_tolerance :: rat
  fp_toFixed2 :: "rat \<Rightarrow> string"

section \<open>createRefund\<close>

record create_refund_input =
  cri_merchant_id :: int
  cri_transaction_id :: int
  cri_amount :: money
  cri_reason :: "string option"
  cri_initiated_by :: "int option"

record create_refund_result =
  crr_refund_row_id :: int
  crr_refund_id :: string
  crr_gateway_refund_id :: "string option"
  crr_workflow_instance_id :: string
  crr_workflow_created :: bool

definition RefundNotSupportedErr :: "string \<Rightarrow> string option \<Rightarrow> exn" where
  "RefundNotSupportedErr slug detail = HttpError 422
     (case truthy detail of
        Some d \<Rightarrow> ''Refunds are not supported by gateway '' @ [CHR 0x27] @ slug @ [CHR 0x27] @ '': '' @ d
      | None \<Rightarrow> ''Refunds are not supported by gateway '' @ [CHR 0x27] @ slug @ [CHR 0x27] @ ''.'')
     ''REFUND_NOT_SUPPORTED''"

definition typed_refusal :: "exn \<Rightarrow> bool" where
  "typed_refusal e = (case e of HttpError s m c \<Rightarrow> s = 422 \<and> (c = ''REFUND_NOT_SUPPORTED'' \<or> c = ''GATEWAY_NOT_PORTED'') | _ \<Rightarrow> False)"

definition tx_status_str :: "tx_status \<Rightarrow> string" where
  "tx_status_str s = (case s of TPending \<Rightarrow> ''pending'' | TCreated \<Rightarrow> ''created'' | TProcessing \<Rightarrow> ''processing''
     | TCallbackProcessing \<Rightarrow> ''callback_processing'' | TCompleted \<Rightarrow> ''completed'' | TFailed \<Rightarrow> ''failed'' | TCancelled \<Rightarrow> ''cancelled''
     | TExpired \<Rightarrow> ''expired'' | TRefunded \<Rightarrow> ''refunded'' | TDisputed \<Rightarrow> ''disputed''
     | TAwaitingVerification \<Rightarrow> ''awaiting_verification'' | TPendingReview \<Rightarrow> ''pending_review'')"

definition refundable_tx :: "int \<Rightarrow> int \<Rightarrow> d1 \<Rightarrow> (tx_row \<times> intent_row \<times> gateway_row option) option" where
  "refundable_tx tid mid db =
     (case List.find (\<lambda>t. t_id t = tid \<and> t_merchant_id t = mid) (op_transactions db) of
        None \<Rightarrow> None
      | Some t \<Rightarrow> map_option (\<lambda>p. (t, p, List.find (\<lambda>g. g_id g = t_gateway_id t) (op_gateways db))) (intent_of db t))"

text \<open>The refunds that count against the captured amount: everything that has not failed.\<close>

definition live_refunds :: "int \<Rightarrow> int \<Rightarrow> d1 \<Rightarrow> refund_row list" where
  "live_refunds tid mid db = filter (\<lambda>r. rf_transaction_id r = tid \<and> rf_merchant_id r = mid \<and>
     rf_status r \<in> {RfCompleted, RfPending}) (op_refunds db)"

definition total_refunded :: "doubles \<Rightarrow> int \<Rightarrow> int \<Rightarrow> d1 \<Rightarrow> rat" where
  "total_refunded F tid mid db = (case live_refunds tid mid db of [] \<Rightarrow> 0 | rs \<Rightarrow> fp_sum F (map (fp_cast F \<circ> rf_amount) rs))"

definition new_refund :: "create_refund_input \<Rightarrow> string \<Rightarrow> string \<Rightarrow> iso \<Rightarrow> int \<Rightarrow> refund_row" where
  "new_refund inp rid cur now i = \<lparr>rf_id = i, rf_merchant_id = cri_merchant_id inp, rf_refund_id = rid,
     rf_transaction_id = cri_transaction_id inp, rf_gateway_refund_id = None, rf_amount = cri_amount inp, rf_currency = cur,
     rf_reason = cri_reason inp, rf_status = RfPending, rf_initiated_by = cri_initiated_by inp, rf_created_at = now, rf_updated_at = now,
     rf_workflow_attempts = 0, rf_last_workflow_at = None\<rparr>"

text \<open>\<open>INSERT .. SELECT .. WHERE\<close>: the bound is checked again in the statement that reserves the row.\<close>

definition within_bound :: "doubles \<Rightarrow> create_refund_input \<Rightarrow> d1 \<Rightarrow> bool" where
  "within_bound F inp db = (case List.find (\<lambda>t. t_id t = cri_transaction_id inp) (op_transactions db) of
      None \<Rightarrow> False
    | Some t \<Rightarrow> fp_add F (total_refunded F (cri_transaction_id inp) (cri_merchant_id inp) db) (fp_cast F (cri_amount inp))
        \<le> fp_add F (fp_cast F (t_amount t)) (fp_tolerance F))"

definition insert_refund :: "doubles \<Rightarrow> create_refund_input \<Rightarrow> string \<Rightarrow> string \<Rightarrow> iso \<Rightarrow> d1 \<Rightarrow> exn + int option \<times> d1" where
  "insert_refund F inp rid cur now db =
     (if \<not> within_bound F inp db then Inr (None, db)
      else if \<exists>r \<in> set (op_refunds db). rf_refund_id r = rid then Inl unique_violation
      else Inr (Some (seq_refunds db), db\<lparr>op_refunds := op_refunds db @ [new_refund inp rid cur now (seq_refunds db)],
        seq_refunds := seq_refunds db + 1\<rparr>))"

definition set_gateway_refund :: "int \<Rightarrow> string \<Rightarrow> iso \<Rightarrow> d1 \<Rightarrow> d1" where
  "set_gateway_refund i g now db = db\<lparr>op_refunds := update_where (\<lambda>r. rf_id r = i)
     (\<lambda>r. r\<lparr>rf_gateway_refund_id := Some g, rf_updated_at := now\<rparr>) (op_refunds db)\<rparr>"

definition fail_refund :: "int \<Rightarrow> iso \<Rightarrow> d1 \<Rightarrow> d1" where
  "fail_refund i now db = db\<lparr>op_refunds := update_where (\<lambda>r. rf_id r = i) (\<lambda>r. r\<lparr>rf_status := RfFailed, rf_updated_at := now\<rparr>) (op_refunds db)\<rparr>"

text \<open>
  The call of the adapter and the row updates that follow it, inside the \<open>try\<close>.  The gateway's
  refund id is assigned before its row is updated: a failed update pages and keeps the id.
\<close>

definition initiation_failed :: "'a \<Rightarrow> 'a svc" where
  "initiation_failed r = andThen (page ''REFUND_INITIATION_FAILED'') (\<lambda>_. ret r)"

definition issue_refund :: "gateway_registry \<Rightarrow> (string \<Rightarrow> string option) \<Rightarrow> string \<Rightarrow> string \<Rightarrow> int \<Rightarrow> money \<Rightarrow> int \<Rightarrow> string option svc" where
  "issue_refund reg dec slug gtrx pid amount i =
     andThen (lift_result (resolve reg slug)) (\<lambda>a.
     andThen (d1_get (intent_credentials pid)) (\<lambda>rows.
     andThen (reading w_now) (\<lambda>now.
     andThen (lift_result (ad_refund a now gtrx amount (decrypt_all dec rows))) (\<lambda>result.
     if rr_success result
     then (case truthy (rr_refund_id result) of
             None \<Rightarrow> ret None
           | Some g \<Rightarrow> catching (andThen (d1_put (set_gateway_refund i g now)) (\<lambda>_. ret (Some g))) (\<lambda>_. initiation_failed (Some g)))
     else andThen (d1_put (fail_refund i now)) (\<lambda>_. throw (RefundNotSupportedErr slug (rr_error result)))))))"

definition try_issue :: "gateway_registry \<Rightarrow> (string \<Rightarrow> string option) \<Rightarrow> string option \<Rightarrow> string option \<Rightarrow> int \<Rightarrow> money \<Rightarrow> int \<Rightarrow> string option svc" where
  "try_issue reg dec slug gtrx pid amount i =
     (case (Option.bind slug (truthy \<circ> Some), truthy gtrx) of
        (Some s, Some g) \<Rightarrow> catching (issue_refund reg dec s g pid amount i)
          (\<lambda>e. if typed_refusal e then throw e else initiation_failed None)
      | _ \<Rightarrow> ret None)"

definition check_refund :: "doubles \<Rightarrow> create_refund_input \<Rightarrow> money \<Rightarrow> rat \<Rightarrow> exn + unit" where
  "check_refund F inp captured prior =
     (case fp_parseFloat F (cri_amount inp) of
        None \<Rightarrow> Inl (Error ''Refund amount must be a positive decimal'')
      | Some requested \<Rightarrow>
        if requested \<le> 0 then Inl (Error ''Refund amount must be a positive decimal'')
        else case fp_parseFloat F captured of
               None \<Rightarrow> Inr ()
             | Some c \<Rightarrow> if fp_add F c (fp_tolerance F) < fp_add F prior requested
                 then Inl (Error (''Refund amount ('' @ cri_amount inp @ '') exceeds remaining refundable amount ('' @
                        fp_toFixed2 F (fp_sub F c prior) @ '')''))
                 else Inr ())"

definition createRefund :: "doubles \<Rightarrow> gateway_build \<Rightarrow> gateway_registry \<Rightarrow> (string \<Rightarrow> string option) \<Rightarrow> js_error \<Rightarrow> create_refund_input \<Rightarrow> string
    \<Rightarrow> create_refund_result svc" where
  "createRefund F b reg dec dup inp rnd =
     andThen (reading w_now) (\<lambda>now.
     andThen (d1_get (refundable_tx (cri_transaction_id inp) (cri_merchant_id inp))) (\<lambda>row.
     case row of
       None \<Rightarrow> throw (Error ''Transaction not found for this merchant'')
     | Some (t, p, g) \<Rightarrow>
       if t_status t \<noteq> TCompleted then throw (Error (''Only completed transactions can be refunded (status: '' @ tx_status_str (t_status t) @ '')''))
       else andThen (lift_result (case Option.bind g (truthy \<circ> Some \<circ> g_slug) of
                Some s \<Rightarrow> if map_option (ce_status \<circ> cv_entry) (catalogFind b s) = Some Planned then Inl (GatewayNotPortedErr s) else Inr ()
              | None \<Rightarrow> Inr ())) (\<lambda>_.
       andThen (d1_get (total_refunded F (cri_transaction_id inp) (cri_merchant_id inp))) (\<lambda>prior.
       andThen (lift_result (check_refund F inp (t_amount t) prior)) (\<lambda>_.
       let rid = ''rfnd_'' @ take 20 (filter (\<lambda>c. c \<noteq> CHR ''-'') rnd) in
       andThen (d1_exec (insert_refund F inp rid (t_currency t) now)) (\<lambda>inserted.
       case inserted of
         None \<Rightarrow> throw (Error (''Refund amount ('' @ cri_amount inp @ '') exceeds remaining refundable amount''))
       | Some i \<Rightarrow>
         andThen (try_issue reg dec (map_option g_slug g) (t_gateway_trx_id t) (pi_id p) (cri_amount inp) i) (\<lambda>gid.
         andThen (triggerRefundReconciliation dup i None) (\<lambda>tr.
         ret \<lparr>crr_refund_row_id = i, crr_refund_id = rid, crr_gateway_refund_id = gid,
              crr_workflow_instance_id = tr_instance_id tr, crr_workflow_created = tr_created tr\<rparr>))))))))"

section \<open>The poll policy\<close>

definition REFUND_POLL_MAX_ATTEMPTS :: nat where "REFUND_POLL_MAX_ATTEMPTS = 52"

definition refundPollBackoffMs :: "nat \<Rightarrow> int" where
  "refundPollBackoffMs attempt = (let schedule = [60000, 120000, 240000, 480000, 900000] in
     if attempt < length schedule then schedule ! attempt else 1800000)"

definition refundPollWindowMs :: int where
  "refundPollWindowMs = sum_list (map refundPollBackoffMs [0..<REFUND_POLL_MAX_ATTEMPTS])"

definition shouldHaltRefundPolling :: "nat \<Rightarrow> bool" where
  "shouldHaltRefundPolling attempt \<longleftrightarrow> REFUND_POLL_MAX_ATTEMPTS \<le> attempt"

definition STEP_RETRIES :: "int \<Rightarrow> step_config" where
  "STEP_RETRIES timeout = \<lparr>sc_limit = 3, sc_delay_ms = 10000, sc_timeout_ms = timeout\<rparr>"

definition GATEWAY_RETRIES :: "int \<Rightarrow> step_config" where
  "GATEWAY_RETRIES timeout = \<lparr>sc_limit = 3, sc_delay_ms = 30000, sc_timeout_ms = timeout\<rparr>"

definition WEBHOOK_RETRIES :: step_config where
  "WEBHOOK_RETRIES = \<lparr>sc_limit = 5, sc_delay_ms = 60000, sc_timeout_ms = 30000\<rparr>"

section \<open>The workflow\<close>

text \<open>The steps of \<open>RefundReconciliationWorkflow.run\<close>; each carries the record that the first step loaded.\<close>

datatype wf_phase =
    WfLoad
  | WfQuery refund_row nat
  | WfExhausted refund_row
  | WfMarkFailed refund_row
  | WfReverse refund_row
  | WfWebhook refund_row
  | WfMark refund_row
  | WfFinished
  | WfErrored exn

definition phase_config :: "wf_phase \<Rightarrow> step_config" where
  "phase_config ph = (case ph of
      WfQuery r k \<Rightarrow> GATEWAY_RETRIES 60000
    | WfWebhook r \<Rightarrow> WEBHOOK_RETRIES
    | WfMarkFailed r \<Rightarrow> STEP_RETRIES 15000
    | WfMark r \<Rightarrow> STEP_RETRIES 15000
    | _ \<Rightarrow> STEP_RETRIES 30000)"

definition terminal :: "wf_phase \<Rightarrow> bool" where
  "terminal ph \<longleftrightarrow> (case ph of WfFinished \<Rightarrow> True | WfErrored e \<Rightarrow> True | _ \<Rightarrow> False)"

definition refund_gateway_slug :: "int \<Rightarrow> d1 \<Rightarrow> string option" where
  "refund_gateway_slug tid db = Option.bind (List.find (\<lambda>t. t_id t = tid) (op_transactions db))
     (\<lambda>t. map_option g_slug (List.find (\<lambda>g. g_id g = t_gateway_id t) (op_gateways db)))"

definition transaction_credentials :: "int \<Rightarrow> d1 \<Rightarrow> gateway_config_row list" where
  "transaction_credentials tid db = filter (\<lambda>c. \<exists>t \<in> set (op_transactions db). t_id t = tid \<and>
     (\<exists>p \<in> set (op_payment_intents db). t_payment_intent_id t = Some (pi_id p) \<and> pi_gateway_id p = Some (gc_gateway_id c)))
     (op_gateway_configs db)"

definition queryGatewayRefundStatus :: "gateway_registry \<Rightarrow> (string \<Rightarrow> string option) \<Rightarrow> refund_row \<Rightarrow> refund_query svc" where
  "queryGatewayRefundStatus reg dec r =
     (case truthy (rf_gateway_refund_id r) of
        None \<Rightarrow> ret QFailed
      | Some gid \<Rightarrow>
        andThen (d1_get (refund_gateway_slug (rf_transaction_id r))) (\<lambda>slug.
        case truthy slug of
          None \<Rightarrow> ret QPending
        | Some s \<Rightarrow>
          catching
            (andThen (lift_result (resolve reg s)) (\<lambda>a.
             andThen (d1_get (transaction_credentials (rf_transaction_id r))) (\<lambda>rows.
             andThen (reading w_now) (\<lambda>now.
             lift_result (ad_queryRefundStatus a now gid (decrypt_all dec rows))))))
            (\<lambda>_. ret QPending)))"

definition load_refund :: "int \<Rightarrow> refund_row svc" where
  "load_refund rid = andThen (d1_get (\<lambda>db. List.find (\<lambda>r. rf_id r = rid) (op_refunds db))) (\<lambda>row.
     case row of None \<Rightarrow> throw (NonRetryableError (''Refund '' @ int_str rid @ '' not found'')) | Some r \<Rightarrow> ret r)"

definition close_refund :: "int \<Rightarrow> refund_status \<Rightarrow> iso \<Rightarrow> d1 \<Rightarrow> d1" where
  "close_refund i st now db = db\<lparr>op_refunds := update_where (\<lambda>r. rf_id r = i \<and> rf_status r = RfPending)
     (\<lambda>r. r\<lparr>rf_status := st, rf_updated_at := now\<rparr>) (op_refunds db)\<rparr>"

definition refund_data :: "refund_row \<Rightarrow> dispatch_data" where
  "refund_data r = no_data\<lparr>dd_transaction_id := Some (int_str (rf_transaction_id r)), dd_amount := Some (rf_amount r),
     dd_currency := Some (rf_currency r), dd_status := Some ''completed''\<rparr>"

text \<open>One attempt of the current step: the next step and how long to sleep before it.\<close>

definition wf_attempt :: "'d decimal_js \<Rightarrow> gateway_registry \<Rightarrow> (string \<Rightarrow> string option) \<Rightarrow> string \<Rightarrow> int \<Rightarrow> wf_phase \<Rightarrow> (wf_phase \<times> int) svc" where
  "wf_attempt L reg dec uuid rid ph =
     (case ph of
        WfLoad \<Rightarrow> andThen (load_refund rid) (\<lambda>r.
          ret (if rf_status r = RfCompleted \<or> rf_status r = RfFailed then WfFinished else WfQuery r 0, 0))
      | WfQuery r k \<Rightarrow> andThen (queryGatewayRefundStatus reg dec r) (\<lambda>s.
          ret (case s of
             QCompleted \<Rightarrow> (WfReverse r, 0)
           | QFailed \<Rightarrow> (WfMarkFailed r, 0)
           | QPending \<Rightarrow> (if k + 1 < REFUND_POLL_MAX_ATTEMPTS then WfQuery r (k + 1) else WfExhausted r, refundPollBackoffMs k)))
      | WfExhausted r \<Rightarrow> andThen (page ''REFUND_STUCK'') (\<lambda>_.
          throw (NonRetryableError (''REFUND_STUCK: refund '' @ rf_refund_id r @ '' unresolved after '' @ nat_str REFUND_POLL_MAX_ATTEMPTS @
            '' polls (~'' @ int_str (refundPollWindowMs div 3600000) @ ''h)'')))
      | WfMarkFailed r \<Rightarrow> andThen (reading w_now) (\<lambda>now. andThen (d1_put (close_refund (rf_id r) RfFailed now)) (\<lambda>_.
          andThen (page ''REFUND_GATEWAY_FAILED'') (\<lambda>_. ret (WfFinished, 0))))
      | WfReverse r \<Rightarrow> andThen (postRefundLedgerEntry L (rf_merchant_id r) (rf_refund_id r) (rf_amount r) (rf_currency r) uuid) (\<lambda>_. ret (WfWebhook r, 0))
      | WfWebhook r \<Rightarrow> andThen (dispatch (rf_merchant_id r) ''refund.completed'' (refund_data r)) (\<lambda>_. ret (WfMark r, 0))
      | WfMark r \<Rightarrow> andThen (reading w_now) (\<lambda>now. andThen (d1_put (close_refund (rf_id r) RfCompleted now)) (\<lambda>_. ret (WfFinished, 0)))
      | _ \<Rightarrow> ret (ph, 0))"

text \<open>The workflow of one refund; a reversal that is posted draws the id \<open>uuid\<close>.\<close>

definition refund_workflow :: "'d decimal_js \<Rightarrow> gateway_registry \<Rightarrow> (string \<Rightarrow> string option) \<Rightarrow> int \<Rightarrow> string \<Rightarrow> wf_phase durable_code" where
  "refund_workflow L reg dec rid uuid = \<lparr>dc_attempt = wf_attempt L reg dec uuid rid, dc_config = phase_config,
     dc_errored = WfErrored, dc_terminal = terminal\<rparr>"

end
