(* ===== verification/RefundCorrect.thy ===== *)
theory RefundCorrect
  imports Refund
begin

text \<open>
  Refunds are safe: a refund is completed only after its reversal is in the merchant's ledger, the
  live refunds of a transaction never exceed what was captured (up to the tolerance and the
  rounding of doubles), and the workflow of a refund ends after a bounded number of attempts.
\<close>

section \<open>The cumulative bound\<close>

text \<open>
  What is used of IEEE doubles: every operation is exact up to a relative error \<open>u\<close>, a sum up to
  one such error per term, and \<open>parseFloat\<close> has the right sign.  \<open>val\<close> is the decimal number a
  string denotes.
\<close>

definition accurate :: "rat \<Rightarrow> (string \<Rightarrow> rat) \<Rightarrow> doubles \<Rightarrow> bool" where
  "accurate u val F \<longleftrightarrow> 0 \<le> u \<and> u < 1 \<and>
     (\<forall>s. \<bar>fp_cast F s - val s\<bar> \<le> u * \<bar>val s\<bar>) \<and>
     (\<forall>xs. (\<forall>x \<in> set xs. 0 \<le> x) \<longrightarrow> \<bar>fp_sum F xs - sum_list xs\<bar> \<le> of_nat (length xs) * u * sum_list xs) \<and>
     (\<forall>x y. \<bar>fp_add F x y - (x + y)\<bar> \<le> u * \<bar>x + y\<bar>) \<and>
     \<bar>fp_tolerance F - 1 / 1000\<bar> \<le> u / 1000 \<and>
     (\<forall>s q. fp_parseFloat F s = Some q \<longrightarrow> 0 < q \<longrightarrow> 0 \<le> val s)"

definition refund_sum :: "(string \<Rightarrow> rat) \<Rightarrow> refund_row list \<Rightarrow> rat" where
  "refund_sum val rs = sum_list (map (val \<circ> rf_amount) rs)"

definition refunds_of :: "int \<Rightarrow> int \<Rightarrow> d1 \<Rightarrow> refund_row list" where
  "refunds_of tid mid db = filter (\<lambda>r. rf_transaction_id r = tid \<and> rf_merchant_id r = mid) (op_refunds db)"

definition slack :: "rat \<Rightarrow> nat \<Rightarrow> rat" where
  "slack u n = (1 - u) * (1 - u) * (1 - of_nat n * u)"

definition tx_bounded :: "rat \<Rightarrow> (string \<Rightarrow> rat) \<Rightarrow> d1 \<Rightarrow> tx_row \<Rightarrow> bool" where
  "tx_bounded u val db t \<longleftrightarrow>
     refund_sum val (live_refunds (t_id t) (t_merchant_id t) db) * slack u (length (refunds_of (t_id t) (t_merchant_id t) db))
       \<le> (1 + u) * (1 + u) * (val (t_amount t) + 1 / 1000)"

definition bound_ok :: "rat \<Rightarrow> (string \<Rightarrow> rat) \<Rightarrow> d1 \<Rightarrow> bool" where
  "bound_ok u val db \<longleftrightarrow>
     (\<forall>t \<in> set (op_transactions db). 0 \<le> val (t_amount t) \<longrightarrow> tx_bounded u val db t) \<and>
     (\<forall>r \<in> set (op_refunds db). 0 \<le> val (rf_amount r) \<and> rf_transaction_id r \<in> t_id ` set (op_transactions db))"

lemma accurateD:
  assumes "accurate u val F"
  shows "0 \<le> u" "u < 1" "\<bar>fp_cast F s - val s\<bar> \<le> u * \<bar>val s\<bar>"
    "(\<And>x. x \<in> set xs \<Longrightarrow> 0 \<le> x) \<Longrightarrow> \<bar>fp_sum F xs - sum_list xs\<bar> \<le> of_nat (length xs) * u * sum_list xs"
    "\<bar>fp_add F x y - (x + y)\<bar> \<le> u * \<bar>x + y\<bar>" "\<bar>fp_tolerance F - 1 / 1000\<bar> \<le> u / 1000"
    "fp_parseFloat F s = Some q \<Longrightarrow> 0 < q \<Longrightarrow> 0 \<le> val s"
  using assms unfolding accurate_def by blast+

lemma cast_bounds:
  assumes F: "accurate u val F" and s: "0 \<le> val s"
  shows "(1 - u) * val s \<le> fp_cast F s" "fp_cast F s \<le> (1 + u) * val s" "0 \<le> fp_cast F s"
proof -
  have "\<bar>fp_cast F s - val s\<bar> \<le> u * val s" using accurateD(3) [OF F, of s] s by simp
  then show le: "(1 - u) * val s \<le> fp_cast F s" and "fp_cast F s \<le> (1 + u) * val s"
    by (simp_all add: abs_le_iff algebra_simps)
  have "0 \<le> (1 - u) * val s" using s accurateD(2) [OF F] by simp
  with le show "0 \<le> fp_cast F s" by simp
qed

lemma add_bounds:
  assumes F: "accurate u val F" and "0 \<le> x + y"
  shows "(1 - u) * (x + y) \<le> fp_add F x y" "fp_add F x y \<le> (1 + u) * (x + y)"
  using accurateD(5) [OF F, of x y] assms(2) by (simp_all add: abs_le_iff algebra_simps)

lemma refund_sum_casts:
  assumes F: "accurate u val F"
  shows "(\<And>r. r \<in> set rs \<Longrightarrow> 0 \<le> val (rf_amount r)) \<Longrightarrow>
    (1 - u) * refund_sum val rs \<le> sum_list (map (fp_cast F \<circ> rf_amount) rs) \<and> 0 \<le> refund_sum val rs"
proof (induction rs)
  case (Cons r rs)
  have "0 \<le> val (rf_amount r)" using Cons.prems by simp
  from cast_bounds(1) [OF F this] this Cons show ?case
    by (simp add: refund_sum_def algebra_simps)
qed (simp add: refund_sum_def)

lemma computed_total:
  assumes F: "accurate u val F" and rs: "\<And>r. r \<in> set rs \<Longrightarrow> 0 \<le> val (rf_amount r)" and n: "length rs \<le> n" and pos: "0 \<le> 1 - of_nat n * u"
  shows "(1 - of_nat n * u) * ((1 - u) * refund_sum val rs) \<le> (case rs of [] \<Rightarrow> 0 | _ \<Rightarrow> fp_sum F (map (fp_cast F \<circ> rf_amount) rs))"
proof (cases rs)
  case Nil
  then show ?thesis by (simp add: refund_sum_def)
next
  case (Cons r rs')
  define c where "c = map (fp_cast F \<circ> rf_amount) rs"
  have c_pos: "0 \<le> x" if "x \<in> set c" for x using that cast_bounds(3) [OF F] rs by (auto simp: c_def)
  then have c0: "0 \<le> sum_list c" by (rule sum_list_nonneg)
  have "\<bar>fp_sum F c - sum_list c\<bar> \<le> of_nat (length c) * u * sum_list c" using accurateD(4) [OF F] c_pos by blast
  then have s: "sum_list c - of_nat (length c) * u * sum_list c \<le> fp_sum F c" by (simp add: abs_le_iff)
  have "of_nat (length c) * u \<le> of_nat n * u" using n accurateD(1) [OF F] by (intro mult_right_mono) (simp_all add: c_def)
  then have "of_nat (length c) * u * sum_list c \<le> of_nat n * u * sum_list c" using c0 by (rule mult_right_mono)
  with s have "(1 - of_nat n * u) * sum_list c \<le> fp_sum F c" by (simp add: algebra_simps)
  moreover have "(1 - of_nat n * u) * ((1 - u) * refund_sum val rs) \<le> (1 - of_nat n * u) * sum_list c"
    using refund_sum_casts [OF F rs] pos unfolding c_def by (intro mult_left_mono) blast+
  ultimately show ?thesis by (simp add: c_def Cons)
qed

lemma computed_bound:
  assumes F: "accurate u val F" and rs: "\<And>r. r \<in> set rs \<Longrightarrow> 0 \<le> val (rf_amount r)" and n: "length rs \<le> n"
    and s: "0 \<le> val s" and a: "0 \<le> val a"
    and chk: "fp_add F (case rs of [] \<Rightarrow> 0 | _ \<Rightarrow> fp_sum F (map (fp_cast F \<circ> rf_amount) rs)) (fp_cast F s) \<le> fp_add F (fp_cast F a) (fp_tolerance F)"
  shows "(refund_sum val rs + val s) * slack u n \<le> (1 + u) * (1 + u) * (val a + 1 / 1000)"
proof (cases "0 \<le> 1 - of_nat n * u")
  case False
  note u = accurateD(1,2) [OF F]
  have "0 \<le> refund_sum val rs" using refund_sum_casts [OF F rs] by blast
  moreover have "slack u n \<le> 0" using False u unfolding slack_def by (intro mult_nonneg_nonpos) simp_all
  ultimately have "(refund_sum val rs + val s) * slack u n \<le> 0" using s by (intro mult_nonneg_nonpos) simp_all
  moreover have "0 \<le> (1 + u) * (1 + u) * (val a + 1 / 1000)" using u a by simp
  ultimately show ?thesis by simp
next
  case pos: True
  note u = accurateD(1,2) [OF F]
  define k where "k = 1 - of_nat n * u"
  define S where "S = (case rs of [] \<Rightarrow> 0 | _ \<Rightarrow> fp_sum F (map (fp_cast F \<circ> rf_amount) rs))"
  have T: "0 \<le> refund_sum val rs" using refund_sum_casts [OF F rs] by blast
  have S: "k * ((1 - u) * refund_sum val rs) \<le> S" unfolding k_def S_def by (rule computed_total [OF F rs n pos])
  have "0 \<le> k * ((1 - u) * refund_sum val rs)" using pos T u by (simp add: k_def)
  with S have S0: "0 \<le> S" by simp
  note cs = cast_bounds [OF F s]
  have "k * ((1 - u) * val s) \<le> 1 * ((1 - u) * val s)" using u s by (intro mult_right_mono) (simp_all add: k_def)
  with cs(1) have cs': "k * ((1 - u) * val s) \<le> fp_cast F s" by simp
  have "k * ((1 - u) * (refund_sum val rs + val s)) \<le> S + fp_cast F s"
    using S cs' by (simp add: algebra_simps)
  then have "(1 - u) * (k * ((1 - u) * (refund_sum val rs + val s))) \<le> (1 - u) * (S + fp_cast F s)"
    using u by (intro mult_left_mono) simp_all
  also have "\<dots> \<le> fp_add F S (fp_cast F s)" using add_bounds(1) [OF F] S0 cs(3) by simp
  also have "\<dots> \<le> fp_add F (fp_cast F a) (fp_tolerance F)" using chk by (simp add: S_def)
  also have "\<dots> \<le> (1 + u) * (fp_cast F a + fp_tolerance F)"
  proof -
    have "0 \<le> fp_tolerance F" using abs_le_D2 [OF accurateD(6) [OF F]] u by (simp add: field_simps)
    with cast_bounds(3) [OF F a] show ?thesis by (intro add_bounds(2) [OF F]) simp
  qed
  also have "\<dots> \<le> (1 + u) * ((1 + u) * (val a + 1 / 1000))"
  proof -
    have "fp_tolerance F \<le> (1 + u) / 1000" using accurateD(6) [OF F] by (simp add: abs_le_iff field_simps)
    moreover have "(1 + u) * (val a + 1 / 1000) = (1 + u) * val a + (1 + u) / 1000" by (simp add: algebra_simps)
    ultimately have "fp_cast F a + fp_tolerance F \<le> (1 + u) * (val a + 1 / 1000)" using cast_bounds(2) [OF F a] by linarith
    then show ?thesis using u by (intro mult_left_mono) simp_all
  qed
  finally have "(1 - u) * (k * ((1 - u) * (refund_sum val rs + val s))) \<le> (1 + u) * ((1 + u) * (val a + 1 / 1000))" .
  moreover have "(1 - u) * (k * ((1 - u) * (refund_sum val rs + val s))) = (refund_sum val rs + val s) * slack u n"
    unfolding slack_def k_def by (simp only: mult_ac)
  ultimately show ?thesis by (simp only: mult.assoc)
qed

section \<open>Steps that keep the bound\<close>

definition rf_core :: "refund_row \<Rightarrow> int \<times> int \<times> string \<times> int \<times> string" where
  "rf_core r = (rf_id r, rf_merchant_id r, rf_refund_id r, rf_transaction_id r, rf_amount r)"

definition rf_next :: "refund_row \<Rightarrow> refund_row \<Rightarrow> bool" where
  "rf_next r r' \<longleftrightarrow> rf_core r' = rf_core r \<and> (rf_status r = RfFailed \<longrightarrow> rf_status r' = RfFailed)"

definition tx_core :: "tx_row \<Rightarrow> int \<times> int \<times> string" where
  "tx_core t = (t_id t, t_merchant_id t, t_amount t)"

text \<open>No refund is added or revived, amounts stay, new transactions have fresh ids.\<close>

definition evolves :: "d1 \<Rightarrow> d1 \<Rightarrow> bool" where
  "evolves db db' \<longleftrightarrow> list_all2 rf_next (op_refunds db) (op_refunds db') \<and>
     (\<exists>ts. map tx_core (op_transactions db') = map tx_core (op_transactions db) @ map tx_core ts \<and>
        (\<forall>t \<in> set ts. t_id t \<notin> t_id ` set (op_transactions db)))"

definition is_live :: "int \<Rightarrow> int \<Rightarrow> refund_row \<Rightarrow> bool" where
  "is_live tid mid r \<longleftrightarrow> rf_transaction_id r = tid \<and> rf_merchant_id r = mid \<and> rf_status r \<in> {RfCompleted, RfPending}"

lemma evolves_live:
  assumes "list_all2 rf_next rs rs'" and "\<forall>r \<in> set rs. 0 \<le> val (rf_amount r)"
  shows "refund_sum val (filter (is_live tid mid) rs') \<le> refund_sum val (filter (is_live tid mid) rs)"
  using assms
proof (induction rule: list_all2_induct)
  case (Cons r rs r' rs')
  then have "rf_transaction_id r' = rf_transaction_id r" "rf_merchant_id r' = rf_merchant_id r" "rf_amount r' = rf_amount r"
    "rf_status r = RfFailed \<longrightarrow> rf_status r' = RfFailed" "0 \<le> val (rf_amount r)"
    by (simp_all add: rf_next_def rf_core_def)
  with Cons.IH Cons.prems show ?case
    by (cases "rf_status r") (auto simp: refund_sum_def is_live_def)
qed simp

lemma evolves_count:
  "list_all2 rf_next rs rs' \<Longrightarrow> length (filter (\<lambda>r. rf_transaction_id r = tid \<and> rf_merchant_id r = mid) rs') =
     length (filter (\<lambda>r. rf_transaction_id r = tid \<and> rf_merchant_id r = mid) rs)"
  by (induction rule: list_all2_induct) (auto simp: rf_next_def rf_core_def)

lemma evolves_core: "list_all2 rf_next rs rs' \<Longrightarrow> map rf_core rs' = map rf_core rs"
  by (induction rule: list_all2_induct) (auto simp: rf_next_def)

lemma live_refunds_filter: "live_refunds tid mid db = filter (is_live tid mid) (op_refunds db)"
  unfolding live_refunds_def by (rule filter_cong) (auto simp: is_live_def)

lemma slack_mono: "0 \<le> u \<Longrightarrow> u < 1 \<Longrightarrow> m \<le> n \<Longrightarrow> slack u n \<le> slack u m"
  unfolding slack_def by (intro mult_left_mono) (simp_all add: mult_right_mono)

lemma core_mem: "map rf_core rs' = map rf_core rs \<Longrightarrow> r' \<in> set rs' \<Longrightarrow> \<exists>r \<in> set rs. rf_core r' = rf_core r"
  by (metis image_iff set_map)

lemma bound_evolves:
  assumes u: "0 \<le> u" "u < 1" and ok: "bound_ok u val db" and ev: "evolves db db'"
  shows "bound_ok u val db'"
proof -
  note rows = conjunct1 [OF ev [unfolded evolves_def]]
  obtain ts where ts: "map tx_core (op_transactions db') = map tx_core (op_transactions db) @ map tx_core ts"
    "\<forall>t \<in> set ts. t_id t \<notin> t_id ` set (op_transactions db)" using ev by (auto simp: evolves_def)
  have val: "\<forall>r \<in> set (op_refunds db). 0 \<le> val (rf_amount r)" using ok by (simp add: bound_ok_def)
  have less: "refund_sum val (live_refunds tid mid db') \<le> refund_sum val (live_refunds tid mid db)"
    "length (refunds_of tid mid db') = length (refunds_of tid mid db)" for tid mid
    using evolves_live [OF rows val] evolves_count [OF rows] by (simp_all add: live_refunds_filter refunds_of_def)
  have "tx_bounded u val db' t'" if t': "t' \<in> set (op_transactions db')" "0 \<le> val (t_amount t')" for t'
  proof -
    have "tx_core t' \<in> tx_core ` set (op_transactions db) \<union> tx_core ` set ts"
      using t'(1) ts(1) by (metis image_eqI set_append set_map)
    then consider t where "t \<in> set (op_transactions db)" "tx_core t' = tx_core t" | t where "t \<in> set ts" "tx_core t' = tx_core t" by auto
    then show ?thesis
    proof cases
      case 1
      then have same: "t_id t' = t_id t" "t_merchant_id t' = t_merchant_id t" "t_amount t' = t_amount t" by (simp_all add: tx_core_def)
      have old: "tx_bounded u val db t" using ok 1(1) t'(2) same by (simp add: bound_ok_def)
      let ?s = "slack u (length (refunds_of (t_id t) (t_merchant_id t) db))"
      show ?thesis
      proof (cases "0 \<le> ?s")
        case True
        with less(1) have "refund_sum val (live_refunds (t_id t) (t_merchant_id t) db') * ?s \<le> refund_sum val (live_refunds (t_id t) (t_merchant_id t) db) * ?s"
          by (rule mult_right_mono)
        with old show ?thesis by (simp add: tx_bounded_def same less(2))
      next
        case False
        have "\<forall>r' \<in> set (op_refunds db'). 0 \<le> val (rf_amount r')"
          using core_mem [OF evolves_core [OF rows]] val by (fastforce simp: rf_core_def)
        then have "0 \<le> refund_sum val (live_refunds (t_id t) (t_merchant_id t) db')"
          unfolding refund_sum_def live_refunds_def by (intro sum_list_nonneg) auto
        with False have "refund_sum val (live_refunds (t_id t) (t_merchant_id t) db') * ?s \<le> 0" by (intro mult_nonneg_nonpos) auto
        moreover have "0 \<le> (1 + u) * (1 + u) * (val (t_amount t) + 1 / 1000)" using u t'(2) same by simp
        ultimately show ?thesis by (simp add: tx_bounded_def same less(2))
      qed
    next
      case 2
      then have id: "t_id t' \<notin> t_id ` set (op_transactions db)" using ts(2) by (simp add: tx_core_def)
      have "rf_transaction_id r' \<noteq> t_id t'" if "r' \<in> set (op_refunds db')" for r'
        using core_mem [OF evolves_core [OF rows] that] ok id by (auto simp: bound_ok_def rf_core_def)
      then have "live_refunds (t_id t') (t_merchant_id t') db' = []" by (auto simp: live_refunds_def filter_empty_conv)
      then show ?thesis using u t'(2) by (simp add: tx_bounded_def refund_sum_def)
    qed
  qed
  moreover have "0 \<le> val (rf_amount r') \<and> rf_transaction_id r' \<in> t_id ` set (op_transactions db')" if r': "r' \<in> set (op_refunds db')" for r'
  proof -
    obtain r where r: "r \<in> set (op_refunds db)" "rf_core r' = rf_core r" using core_mem [OF evolves_core [OF rows] r'] by blast
    have "set (map tx_core (op_transactions db)) \<subseteq> set (map tx_core (op_transactions db'))" using ts(1) by simp
    then have "fst ` set (map tx_core (op_transactions db)) \<subseteq> fst ` set (map tx_core (op_transactions db'))" by (rule image_mono)
    then have "t_id ` set (op_transactions db) \<subseteq> t_id ` set (op_transactions db')" by (simp add: image_image tx_core_def)
    with r ok show ?thesis by (auto simp: bound_ok_def rf_core_def)
  qed
  ultimately show ?thesis by (auto simp: bound_ok_def)
qed

lemma check_positive: "accurate u val F \<Longrightarrow> check_refund F inp cap prior = Inr () \<Longrightarrow> 0 \<le> val (cri_amount inp)"
  by (auto simp: check_refund_def not_le dest: accurateD(7) split: option.splits if_splits)

lemma insert_refundD:
  assumes "insert_refund F inp rid cur now db = Inr (Some i, db')"
  shows "within_bound F inp db" "i = seq_refunds db" "\<forall>r \<in> set (op_refunds db). rf_refund_id r \<noteq> rid"
    "op_refunds db' = op_refunds db @ [new_refund inp rid cur now (seq_refunds db)]" "seq_refunds db' = seq_refunds db + 1"
    "op_transactions db' = op_transactions db" "seq_transactions db' = seq_transactions db"
    "op_payment_intents db' = op_payment_intents db" "seq_payment_intents db' = seq_payment_intents db"
  using assms by (auto simp: insert_refund_def split: if_splits)

lemma insert_refund_None: "insert_refund F inp rid cur now db = Inr (None, db') \<Longrightarrow> db' = db"
  by (auto simp: insert_refund_def split: if_splits)

lemma length_filter_imp: "(\<And>x. p x \<Longrightarrow> q x) \<Longrightarrow> length (filter p xs) \<le> length (filter q xs)"
  by (induction xs) (auto simp: le_SucI)

lemma bound_insert:
  assumes F: "accurate u val F" and ids: "ids_ok db" and ok: "bound_ok u val db"
    and pos: "0 \<le> val (cri_amount inp)" and ins: "insert_refund F inp rid cur now db = Inr (Some i, db')"
  shows "bound_ok u val db'"
proof -
  note D = insert_refundD [OF ins]
  let ?new = "new_refund inp rid cur now (seq_refunds db)" and ?tid = "cri_transaction_id inp" and ?mid = "cri_merchant_id inp"
  obtain t where t: "t \<in> set (op_transactions db)" "t_id t = ?tid"
    and chk: "fp_add F (total_refunded F ?tid ?mid db) (fp_cast F (cri_amount inp)) \<le> fp_add F (fp_cast F (t_amount t)) (fp_tolerance F)"
    using D(1) by (auto simp: within_bound_def split: option.splits dest!: find_SomeD)
  have live: "live_refunds a m db' = live_refunds a m db @ (if a = ?tid \<and> m = ?mid then [?new] else [])" for a m
    by (simp add: live_refunds_def D(4) new_refund_def)
  have all: "refunds_of a m db' = refunds_of a m db @ (if a = ?tid \<and> m = ?mid then [?new] else [])" for a m
    by (simp add: refunds_of_def D(4) new_refund_def)
  have "tx_bounded u val db' t'" if t': "t' \<in> set (op_transactions db')" "0 \<le> val (t_amount t')" for t'
  proof (cases "t_id t' = ?tid \<and> t_merchant_id t' = ?mid")
    case False
    have old: "tx_bounded u val db t'" using ok t' by (simp add: bound_ok_def D(6))
    have "live_refunds (t_id t') (t_merchant_id t') db' = live_refunds (t_id t') (t_merchant_id t') db"
      "refunds_of (t_id t') (t_merchant_id t') db' = refunds_of (t_id t') (t_merchant_id t') db"
      using live [of "t_id t'" "t_merchant_id t'"] all [of "t_id t'" "t_merchant_id t'"] False by auto
    with old show ?thesis by (simp add: tx_bounded_def)
  next
    case True
    have "t' = t" using keyed_unique [of t_id "op_transactions db" "seq_transactions db" t' t] ids t t'(1) True
      by (simp add: ids_ok_def D(6))
    let ?rs = "live_refunds ?tid ?mid db" and ?n = "length (refunds_of ?tid ?mid db')"
    have len: "length ?rs \<le> ?n"
    proof -
      have "length ?rs \<le> length (refunds_of ?tid ?mid db)"
        unfolding live_refunds_def refunds_of_def by (rule length_filter_imp) auto
      then show ?thesis using all [of ?tid ?mid] by simp
    qed
    have vals: "0 \<le> val (rf_amount r)" if "r \<in> set ?rs" for r
      using ok that by (auto simp: bound_ok_def live_refunds_def)
    have "(refund_sum val ?rs + val (cri_amount inp)) * slack u ?n \<le> (1 + u) * (1 + u) * (val (t_amount t) + 1 / 1000)"
    proof (rule computed_bound [OF F vals len pos])
      have "(case ?rs of [] \<Rightarrow> 0 | _ \<Rightarrow> fp_sum F (map (fp_cast F \<circ> rf_amount) ?rs)) = total_refunded F ?tid ?mid db"
        by (simp add: total_refunded_def split: list.split)
      with chk show "fp_add F (case ?rs of [] \<Rightarrow> 0 | _ \<Rightarrow> fp_sum F (map (fp_cast F \<circ> rf_amount) ?rs)) (fp_cast F (cri_amount inp))
         \<le> fp_add F (fp_cast F (t_amount t)) (fp_tolerance F)" by (simp only:)
      show "0 \<le> val (t_amount t)" using t'(2) \<open>t' = t\<close> by simp
    qed
    moreover have "refund_sum val (live_refunds ?tid ?mid db') = refund_sum val ?rs + val (cri_amount inp)"
      using live [of ?tid ?mid] by (simp add: refund_sum_def new_refund_def)
    ultimately show ?thesis using True \<open>t' = t\<close> by (simp add: tx_bounded_def)
  qed
  moreover have "0 \<le> val (rf_amount r) \<and> rf_transaction_id r \<in> t_id ` set (op_transactions db')" if "r \<in> set (op_refunds db')" for r
  proof -
    have "?tid \<in> t_id ` set (op_transactions db)" using t by force
    then show ?thesis using that ok pos by (auto simp: D(4,6) bound_ok_def new_refund_def)
  qed
  ultimately show ?thesis by (auto simp: bound_ok_def)
qed

section \<open>The refund statements and the books\<close>

lemma rf_statement_books:
  assumes ok: "books_ok w" and db: "db = (w_db w)\<lparr>op_refunds := update_where q f (op_refunds (w_db w))\<rparr>"
    and core: "\<And>r. rf_core (f r) = rf_core r"
    and fin: "\<And>r. r \<in> set (op_refunds (w_db w)) \<Longrightarrow> q r \<Longrightarrow> rf_completed (f r) \<Longrightarrow>
       rf_completed r \<or> posted_in w (rf_merchant_id r) (refund_tx (rf_merchant_id r) (rf_refund_id r))"
  shows "books_ok (w\<lparr>w_db := db\<rparr>)"
proof (rule books_mark [OF ok])
  have id: "rf_id (f r) = rf_id r" for r using core [of r] by (simp add: rf_core_def)
  show "ids_ok db" using ok by (simp add: db books_ok_def ids_ok_def id)
  show "tx_marks w db"
    by (rule tx_marks_subset) (simp_all add: db tx_owner_def intent_of_def)
  show "rf_marks w db"
    unfolding rf_marks_def
  proof (intro ballI impI)
    fix r' assume r': "r' \<in> set (op_refunds db)" "rf_completed r'"
    then obtain r where r: "r \<in> set (op_refunds (w_db w))" "r' = (if q r then f r else r)" by (auto simp: db set_update_where)
    have own: "rf_owner db r' = rf_owner (w_db w) r"
      using core [of r] r(2) by (auto simp: rf_owner_def rf_core_def)
    have "rf_completed r \<or> posted_in w (rf_merchant_id r) (refund_tx (rf_merchant_id r) (rf_refund_id r))"
      using fin [OF r(1)] r(2) r'(2) by (auto split: if_splits)
    then show "(\<exists>r \<in> set (op_refunds (w_db w)). rf_completed r \<and> rf_owner (w_db w) r = rf_owner db r') \<or>
       (\<exists>m tx. rf_owner db r' = Some (m, tx) \<and> posted_in w m tx)"
      using own r(1) by (auto simp: rf_owner_def)
  qed
qed

lemma insert_refund_books: "books_ok w \<Longrightarrow> insert_refund F inp rid cur now (w_db w) = Inr (Some i, db) \<Longrightarrow> books_ok (w\<lparr>w_db := db\<rparr>)"
proof (rule books_mark, assumption)
  assume ok: "books_ok w" and ins: "insert_refund F inp rid cur now (w_db w) = Inr (Some i, db)"
  note D = insert_refundD [OF ins]
  show "ids_ok db" using ok unfolding books_ok_def ids_ok_def D(4-9) by (auto intro!: keyed_append simp: new_refund_def)
  show "tx_marks w db" by (rule tx_marks_subset) (simp_all add: D tx_owner_def intent_of_def)
  show "rf_marks w db" by (auto simp: rf_marks_def D new_refund_def rf_completed_def rf_owner_def)
qed

lemma preserves_prod: "(\<And>a b. x = (a, b) \<Longrightarrow> preserves I (m a b)) \<Longrightarrow> preserves I (case x of (a, b) \<Rightarrow> m a b)"
  by (cases x) simp

section \<open>Services over refunds\<close>

text \<open>
  The contract of the refund services, on top of the payments': the statements on refund rows, of
  which only the one that completes a refund needs its reversal in the ledger, and the reservation
  that needs a checked amount.
\<close>

locale refund_safe = payment_safe +
  fixes F :: doubles
  assumes gateway_id: "P w \<Longrightarrow> P (w\<lparr>w_db := set_gateway_refund i g now (w_db w)\<rparr>)"
    and fail: "P w \<Longrightarrow> P (w\<lparr>w_db := fail_refund i now (w_db w)\<rparr>)"
    and close_failed: "P w \<Longrightarrow> P (w\<lparr>w_db := close_refund i RfFailed now (w_db w)\<rparr>)"
    and close_completed: "P w \<Longrightarrow> r \<in> set (op_refunds (w_db w)) \<Longrightarrow> rf_id r = i \<Longrightarrow>
       posted_in w (rf_merchant_id r) (refund_tx (rf_merchant_id r) (rf_refund_id r)) \<Longrightarrow>
       P (w\<lparr>w_db := close_refund i RfCompleted now (w_db w)\<rparr>)"
    and reserve: "P w \<Longrightarrow> check_refund F inp cap prior = Inr () \<Longrightarrow> insert_refund F inp rid cur now (w_db w) = Inr (Some i, db) \<Longrightarrow>
       P (w\<lparr>w_db := db\<rparr>)"
begin

lemma put_safe:
  assumes "\<And>w. P w \<Longrightarrow> P (w\<lparr>w_db := f (w_db w)\<rparr>)"
  shows "preserves P (d1_put f)"
  by (rule preserves_d1_put [OF book_pred_stable [OF frame]]) (rule assms)

lemma issue_safe: "preserves P (try_issue reg dec slug gtrx pid amount i)"
proof -
  have init: "preserves P (initiation_failed x)" for x :: "string option"
    unfolding initiation_failed_def by (intro preserves_andThen quiet frame)
  have "preserves P (issue_refund reg dec s g pid amount i)" for s g
    unfolding issue_refund_def
    by (intro preserves_andThen preserves_if preserves_option preserves_catching quiet frame init put_safe gateway_id fail)
  then show ?thesis
    unfolding try_issue_def
    by (cases "Option.bind slug (truthy \<circ> Some)"; cases "truthy gtrx")
       (auto intro!: preserves_catching preserves_if quiet init)
qed

lemma createRefund_safe: "preserves P (createRefund F b reg dec dup inp rnd)"
proof -
  have ins: "preserves P (d1_exec (insert_refund F inp rid cur now))" if "check_refund F inp cap prior = Inr ()" for rid cur now cap prior
  proof (rule preserves_exec [OF book_pred_stable [OF frame]])
    fix w a db assume "P w" "insert_refund F inp rid cur now (w_db w) = Inr (a, db)"
    then show "P (w\<lparr>w_db := db\<rparr>)"
      using reserve [OF _ that] by (cases a) (auto dest: insert_refund_None)
  qed
  have checked: "triple P (andThen (lift_result (check_refund F inp cap prior)) k) (\<lambda>_. P) (\<lambda>_. P)"
    if "\<And>x. check_refund F inp cap prior = Inr () \<Longrightarrow> preserves P (k x)" for cap prior and k :: "unit \<Rightarrow> create_refund_result svc"
    by (rule triple_andThen [OF triple_lift], assumption, rule triple_pure) (use that in simp)
  show ?thesis
    unfolding createRefund_def Let_def
    by (intro preserves_andThen preserves_option preserves_prod preserves_if quiet frame checked ins issue_safe)
qed

end

section \<open>The workflow under the contract\<close>

definition row_for :: "refund_row \<Rightarrow> d1 \<Rightarrow> bool" where
  "row_for r db \<longleftrightarrow> (\<exists>r' \<in> set (op_refunds db). rf_core r' = rf_core r)"

definition reversed_in :: "world \<Rightarrow> refund_row \<Rightarrow> bool" where
  "reversed_in w r \<longleftrightarrow> posted_in w (rf_merchant_id r) (refund_tx (rf_merchant_id r) (rf_refund_id r))"

text \<open>What an instance may rely on between two attempts.\<close>

definition phase_ok :: "wf_phase \<Rightarrow> world \<Rightarrow> bool" where
  "phase_ok ph w = (case ph of
      WfQuery r k \<Rightarrow> k < REFUND_POLL_MAX_ATTEMPTS \<and> row_for r (w_db w)
    | WfExhausted r \<Rightarrow> row_for r (w_db w)
    | WfMarkFailed r \<Rightarrow> row_for r (w_db w)
    | WfReverse r \<Rightarrow> row_for r (w_db w)
    | WfWebhook r \<Rightarrow> row_for r (w_db w) \<and> reversed_in w r
    | WfMark r \<Rightarrow> row_for r (w_db w) \<and> reversed_in w r
    | _ \<Rightarrow> True)"

lemma phase_frame: "book_pred (phase_ok ph)"
  unfolding book_pred_def
proof (intro allI impI)
  fix w w' :: world assume "phase_ok ph w" and o: "w_objects w' = w_objects w" and b: "business (w_db w') = business (w_db w)"
  have "op_refunds (w_db w') = op_refunds (w_db w)" using b by (simp add: business_def)
  with \<open>phase_ok ph w\<close> o show "phase_ok ph w'"
    by (cases ph) (simp_all add: phase_ok_def row_for_def reversed_in_def posted_in_def)
qed

lemma row_for_update: "(\<And>r. rf_core (f r) = rf_core r) \<Longrightarrow> row_for r (db\<lparr>op_refunds := update_where q f (op_refunds db)\<rparr>) = row_for r db"
proof -
  assume core: "\<And>r. rf_core (f r) = rf_core r"
  have iff: "row_for r db = (rf_core r \<in> set (map rf_core (op_refunds db)))" for db
    by (auto simp: row_for_def image_iff) metis+
  have "op_refunds (db\<lparr>op_refunds := update_where q f (op_refunds db)\<rparr>) = update_where q f (op_refunds db)" by simp
  then show ?thesis by (simp only: iff map_update_where [of rf_core f, OF core])
qed

lemma row_for_close [simp]: "row_for r (close_refund i st now db) = row_for r db"
  unfolding close_refund_def by (rule row_for_update) (simp add: rf_core_def)

context refund_safe
begin

abbreviation ready :: "wf_phase \<Rightarrow> world \<Rightarrow> bool" where
  "ready ph \<equiv> \<lambda>w. P w \<and> phase_ok ph w"

lemma ready_frame: "book_pred (ready ph)"
  using frame phase_frame [of ph] unfolding book_pred_def by blast

lemma query_ready: "preserves (ready ph) (queryGatewayRefundStatus reg dec r)"
  unfolding queryGatewayRefundStatus_def
  by (intro preserves_andThen preserves_option preserves_catching quiet ready_frame)

lemma load_ready:
  "triple P (load_refund rid) (\<lambda>r w. P w \<and> row_for r (w_db w)) (\<lambda>_. P)"
proof -
  have "triple P (d1_get (\<lambda>db. List.find (\<lambda>r. rf_id r = rid) (op_refunds db)))
     (\<lambda>row w. P w \<and> (\<forall>r. row = Some r \<longrightarrow> row_for r (w_db w))) (\<lambda>_. P)"
    by (rule triple_d1_get [OF book_pred_stable [OF frame]]) (auto simp: row_for_def dest!: find_SomeD)
  then show ?thesis
    unfolding load_refund_def by (rule triple_andThen) (auto split: option.split intro: triple_throw triple_ret)
qed

lemma reverse_ready:
  "triple (ready (WfReverse r)) (postRefundLedgerEntry L (rf_merchant_id r) (rf_refund_id r) (rf_amount r) (rf_currency r) uuid)
     (\<lambda>_. ready (WfWebhook r)) (\<lambda>_. ready (WfReverse r))"
proof (rule triple_from)
  fix w0 assume w0: "P w0 \<and> phase_ok (WfReverse r) w0"
  have keep: "ready (WfReverse r) w" if "ledger_step w0 w" for w
    using w0 ledger that by (auto simp: phase_ok_def row_for_def ledger_step_def same_business_def business_def)
  have "triple (ledger_step w0) (postRefundLedgerEntry L (rf_merchant_id r) (rf_refund_id r) (rf_amount r) (rf_currency r) uuid)
     (\<lambda>_. ready (WfWebhook r)) (\<lambda>_. ready (WfReverse r))"
    by (rule triple_weaken [OF refund_step]) (use keep in \<open>auto simp: phase_ok_def reversed_in_def\<close>)
  then show "triple (\<lambda>w. w = w0) (postRefundLedgerEntry L (rf_merchant_id r) (rf_refund_id r) (rf_amount r) (rf_currency r) uuid)
     (\<lambda>_. ready (WfWebhook r)) (\<lambda>_. ready (WfReverse r))"
    by (rule triple_weaken) (use w0 sound in \<open>auto simp: books_ok_def intro: ledger_step_refl\<close>)
qed

lemma mark_ready:
  "triple (ready (WfMark r)) (d1_put (close_refund (rf_id r) RfCompleted now)) (\<lambda>_. ready (WfMark r)) (\<lambda>_. ready (WfMark r))"
proof (rule triple_d1_put [OF book_pred_stable [OF ready_frame]])
  fix w assume w: "ready (WfMark r) w"
  then obtain r' where r': "r' \<in> set (op_refunds (w_db w))" "rf_core r' = rf_core r" by (auto simp: phase_ok_def row_for_def)
  then have "posted_in w (rf_merchant_id r') (refund_tx (rf_merchant_id r') (rf_refund_id r'))"
    using w by (simp add: phase_ok_def reversed_in_def rf_core_def)
  with w r' have "P (w\<lparr>w_db := close_refund (rf_id r) RfCompleted now (w_db w)\<rparr>)"
    by (intro close_completed [of w r']) (simp_all add: rf_core_def)
  with w show upd: "ready (WfMark r) (w\<lparr>w_db := close_refund (rf_id r) RfCompleted now (w_db w)\<rparr>)"
    by (simp add: phase_ok_def reversed_in_def posted_in_def)
  show "ready (WfMark r) (w\<lparr>w_db := close_refund (rf_id r) RfCompleted now (w_db w)\<rparr>)" by (rule upd)
qed

lemma mark_failed_ready: "preserves (ready (WfMarkFailed r)) (d1_put (close_refund i RfFailed now))"
  by (rule preserves_d1_put [OF book_pred_stable [OF ready_frame]]) (auto simp: phase_ok_def close_failed)

text \<open>One attempt keeps the contract and leaves its instance with what the next attempt relies on.\<close>

lemma attempt_safe:
  "triple (ready ph) (wf_attempt L reg dec uuid rid ph) (\<lambda>r. ready (fst r)) (\<lambda>_. ready ph)"
proof (cases ph)
  case WfLoad
  have "triple P (andThen (load_refund rid) (\<lambda>r. ret (if rf_status r = RfCompleted \<or> rf_status r = RfFailed then WfFinished else WfQuery r 0, 0::int)))
     (\<lambda>r. ready (fst r)) (\<lambda>_. P)"
    by (rule triple_andThen [OF load_ready]) (auto intro!: triple_ret simp: phase_ok_def REFUND_POLL_MAX_ATTEMPTS_def)
  then show ?thesis unfolding WfLoad wf_attempt_def wf_phase.case by (rule triple_weaken) (auto simp: phase_ok_def)
next
  case (WfQuery r k)
  show ?thesis
    unfolding WfQuery wf_attempt_def wf_phase.case
    by (rule triple_andThen [OF query_ready]) (auto intro!: triple_ret split: refund_query.split simp: phase_ok_def)
next
  case (WfExhausted r)
  show ?thesis
    unfolding WfExhausted wf_attempt_def wf_phase.case
    by (rule triple_andThen [OF quiet_page [OF ready_frame]]) (auto intro: triple_throw)
next
  case (WfMarkFailed r)
  show ?thesis
    unfolding WfMarkFailed wf_attempt_def wf_phase.case
    by (rule triple_andThen [OF quiet_pure(1)], rule triple_andThen [OF mark_failed_ready], rule triple_andThen [OF quiet_page [OF ready_frame]])
       (auto intro!: triple_ret simp: phase_ok_def)
next
  case (WfReverse r)
  show ?thesis
    unfolding WfReverse wf_attempt_def wf_phase.case
    by (rule triple_andThen [OF reverse_ready]) (auto intro!: triple_ret)
next
  case (WfWebhook r)
  show ?thesis
    unfolding WfWebhook wf_attempt_def wf_phase.case
    by (rule triple_andThen [OF quiet_dispatch [OF ready_frame]]) (auto intro!: triple_ret simp: phase_ok_def)
next
  case (WfMark r)
  show ?thesis
    unfolding WfMark wf_attempt_def wf_phase.case
    by (rule triple_andThen [OF quiet_pure(1)], rule triple_andThen [OF mark_ready]) (auto intro!: triple_ret simp: phase_ok_def)
qed (auto intro!: triple_ret simp: wf_attempt_def)

end

section \<open>From the bound to cents\<close>

definition in_cents :: "(string \<Rightarrow> rat) \<Rightarrow> string \<Rightarrow> bool" where
  "in_cents val s \<longleftrightarrow> val s * 100 \<in> range of_int"

lemma refund_sum_cents: "(\<And>r. r \<in> set rs \<Longrightarrow> in_cents val (rf_amount r)) \<Longrightarrow> refund_sum val rs * 100 \<in> range of_int"
proof (induction rs)
  case Nil
  show ?case using image_eqI [of 0 of_int "0::int" UNIV] by (simp add: refund_sum_def)
next
  case (Cons r rs)
  have "in_cents val (rf_amount r)" using Cons.prems by simp
  then obtain a where a: "val (rf_amount r) * 100 = of_int a" by (auto simp: in_cents_def)
  obtain b where b: "refund_sum val rs * 100 = of_int b" using Cons by auto
  have "refund_sum val (r # rs) * 100 = of_int (a + b)" using a b by (simp add: refund_sum_def algebra_simps)
  then show ?case by (metis rangeI)
qed

lemma slack_lower: "0 \<le> u \<Longrightarrow> n \<le> 1000 \<Longrightarrow> 1002 * u \<le> 1 \<Longrightarrow> 1 - 1002 * u \<le> slack u n"
proof -
  assume u: "0 \<le> u" and n: "n \<le> 1000" and small: "1002 * u \<le> 1"
  have nu: "of_nat n * u \<le> 1000 * u" using n u by (intro mult_right_mono) simp_all
  have sq: "1 - 2 * u \<le> (1 - u) * (1 - u)" by (simp add: algebra_simps)
  have "(1 - 2 * u) * (1 - 1000 * u) \<le> (1 - u) * (1 - u) * (1 - of_nat n * u)"
    using sq nu u small by (intro mult_mono) simp_all
  moreover have "1 - 1002 * u \<le> (1 - 2 * u) * (1 - 1000 * u)" using u by (simp add: algebra_simps)
  ultimately show ?thesis by (simp add: slack_def)
qed

text \<open>
  With the unit roundoff of doubles, amounts up to 10^9 in whole cents and at most 1000 refunds per
  transaction, the tolerance of 0.001 and all rounding are absorbed: the refunds never exceed the
  captured amount by a single cent.
\<close>

lemma bounded_within_cents:
  assumes u: "0 \<le> u" "u \<le> 1 / 2 ^ 53" and b: "tx_bounded u val db t"
    and n: "length (refunds_of (t_id t) (t_merchant_id t) db) \<le> 1000"
    and c: "in_cents val (t_amount t)" "0 \<le> val (t_amount t)" "val (t_amount t) \<le> 1000000000"
    and rs: "\<And>r. r \<in> set (live_refunds (t_id t) (t_merchant_id t) db) \<Longrightarrow> in_cents val (rf_amount r) \<and> 0 \<le> val (rf_amount r)"
  shows "refund_sum val (live_refunds (t_id t) (t_merchant_id t) db) \<le> val (t_amount t)"
proof -
  define T where "T = refund_sum val (live_refunds (t_id t) (t_merchant_id t) db)"
  define C where "C = val (t_amount t)"
  have u': "u \<le> 1 / 9000000000000000" using u(2) by (rule order_trans) simp
  have T0: "0 \<le> T" unfolding T_def refund_sum_def by (rule sum_list_nonneg) (use rs in auto)
  have C: "0 \<le> C" "C \<le> 1000000000" using c by (simp_all add: C_def)
  have "T * (1 - 1002 * u) \<le> T * slack u (length (refunds_of (t_id t) (t_merchant_id t) db))"
    using slack_lower [OF u(1) n] u' T0 by (intro mult_left_mono) simp_all
  also have "\<dots> \<le> (1 + u) * (1 + u) * (C + 1 / 1000)" using b by (simp add: tx_bounded_def T_def C_def)
  also have "\<dots> \<le> (1 + 3 * u) * (C + 1 / 1000)"
  proof (rule mult_right_mono)
    have "u * u \<le> 1 * u" using u(1) u' by (intro mult_right_mono) simp_all
    then show "(1 + u) * (1 + u) \<le> 1 + 3 * u" by (simp add: algebra_simps)
  qed (use C in simp)
  finally have main: "T * (1 - 1002 * u) \<le> (1 + 3 * u) * (C + 1 / 1000)" .
  have "(1 + 3 * u) * (C + 1 / 1000) \<le> 2 * 1000000001" using u(1) u' C by (intro mult_mono) simp_all
  moreover have "T * (1 / 2) \<le> T * (1 - 1002 * u)" using T0 u' by (intro mult_left_mono) simp_all
  ultimately have "T \<le> 4000000004" using main by simp
  then have Tu: "T * u \<le> 4000000004 * (1 / 9000000000000000)" using u(1) u' T0 by (intro mult_mono) simp_all
  have Cu: "u * C \<le> (1 / 9000000000000000) * 1000000000" using u(1) u' C by (intro mult_mono) simp_all
  have "T \<le> C + 1 / 1000 + 3 * (u * C) + 3 * u / 1000 + 1002 * (T * u)"
  proof -
    have "(1 + 3 * u) * (C + 1 / 1000) = C + 1 / 1000 + 3 * (u * C) + 3 * u / 1000" by (simp add: distrib_left distrib_right)
    moreover have "T * (1 - 1002 * u) = T - 1002 * (T * u)" by (simp add: right_diff_distrib)
    ultimately show ?thesis using main by linarith
  qed
  also have "\<dots> < C + 1 / 100" using Tu Cu u' by simp
  finally have less: "T * 100 < C * 100 + 1" by simp
  obtain a b where "T * 100 = of_int a" "C * 100 = of_int b"
    using refund_sum_cents [of "live_refunds (t_id t) (t_merchant_id t) db" val] rs c(1) by (auto simp: T_def C_def in_cents_def)
  with less have "of_int a < (of_int (b + 1) :: rat)" by simp
  then have "a \<le> b" by (subst (asm) of_int_less_iff) simp
  then have "(of_int a :: rat) \<le> of_int b" by simp
  then have "T \<le> C" using \<open>T * 100 = of_int a\<close> \<open>C * 100 = of_int b\<close> by simp
  then show ?thesis by (simp add: T_def C_def)
qed

section \<open>The contract holds of the books\<close>

lemma set_gateway_books: "books_ok w \<Longrightarrow> books_ok (w\<lparr>w_db := set_gateway_refund i g now (w_db w)\<rparr>)"
  by (rule rf_statement_books, assumption, simp only: set_gateway_refund_def) (simp_all add: rf_core_def rf_completed_def)

lemma fail_refund_books: "books_ok w \<Longrightarrow> books_ok (w\<lparr>w_db := fail_refund i now (w_db w)\<rparr>)"
  by (rule rf_statement_books, assumption, simp only: fail_refund_def) (simp_all add: rf_core_def rf_completed_def)

lemma close_failed_books: "books_ok w \<Longrightarrow> books_ok (w\<lparr>w_db := close_refund i RfFailed now (w_db w)\<rparr>)"
  by (rule rf_statement_books, assumption, simp only: close_refund_def) (simp_all add: rf_core_def rf_completed_def)

lemma close_completed_books:
  assumes ok: "books_ok w" and r: "r \<in> set (op_refunds (w_db w))" "rf_id r = i"
    and posted: "posted_in w (rf_merchant_id r) (refund_tx (rf_merchant_id r) (rf_refund_id r))"
  shows "books_ok (w\<lparr>w_db := close_refund i RfCompleted now (w_db w)\<rparr>)"
proof (rule rf_statement_books [OF ok])
  show "close_refund i RfCompleted now (w_db w) = (w_db w)\<lparr>op_refunds := update_where (\<lambda>r. rf_id r = i \<and> rf_status r = RfPending)
     (\<lambda>r. r\<lparr>rf_status := RfCompleted, rf_updated_at := now\<rparr>) (op_refunds (w_db w))\<rparr>" by (simp only: close_refund_def)
  fix r' assume "r' \<in> set (op_refunds (w_db w))" "rf_id r' = i \<and> rf_status r' = RfPending"
  then have "r' = r" using keyed_unique [of rf_id "op_refunds (w_db w)" "seq_refunds (w_db w)" r' r] ok r
    by (simp add: books_ok_def ids_ok_def)
  with posted show "rf_completed r' \<or> posted_in w (rf_merchant_id r') (refund_tx (rf_merchant_id r') (rf_refund_id r'))" by simp
qed (simp add: rf_core_def)

interpretation books_ref: refund_safe books_ok F for F
  by unfold_locales
     (simp_all add: set_gateway_books fail_refund_books close_failed_books close_completed_books insert_refund_books)

text \<open>The books together with the cumulative bound.\<close>

definition refunds_ok :: "rat \<Rightarrow> (string \<Rightarrow> rat) \<Rightarrow> world \<Rightarrow> bool" where
  "refunds_ok u val w \<longleftrightarrow> books_ok w \<and> bound_ok u val (w_db w)"

lemma evolves_refunds:
  "op_refunds db' = op_refunds db \<Longrightarrow> map tx_core (op_transactions db') = map tx_core (op_transactions db) \<Longrightarrow> evolves db db'"
  by (auto simp: evolves_def rf_next_def list.rel_refl intro!: exI [of _ "[]"])

lemma evolves_statement:
  assumes "\<And>r. rf_core (f r) = rf_core r" and "\<And>r. rf_status r = RfFailed \<Longrightarrow> q r \<Longrightarrow> rf_status (f r) = RfFailed"
  shows "evolves db (db\<lparr>op_refunds := update_where q f (op_refunds db)\<rparr>)"
proof -
  have "list_all2 rf_next rs (update_where q f rs)" for rs
    by (induction rs) (auto simp: rf_next_def assms)
  then show ?thesis by (auto simp: evolves_def intro!: exI [of _ "[]"])
qed

lemma refunds_ok_evolves: "accurate u val F \<Longrightarrow> refunds_ok u val w \<Longrightarrow> books_ok (w\<lparr>w_db := db\<rparr>) \<Longrightarrow> evolves (w_db w) db \<Longrightarrow> refunds_ok u val (w\<lparr>w_db := db\<rparr>)"
  using accurateD(1,2) [of u val F] bound_evolves [of u val "w_db w" db] by (simp add: refunds_ok_def)

lemma insert_transaction_evolves:
  assumes ids: "ids_ok db" and ins: "insert_transaction inp rg rn now i db = Inr (a, db')"
  shows "evolves db db'"
proof -
  have db': "op_refunds db' = op_refunds db" "op_transactions db' = op_transactions db @ [new_transaction inp rg rn now i (seq_transactions db)]"
    using ins by (auto simp: insert_transaction_def split: if_splits)
  have "seq_transactions db \<notin> t_id ` set (op_transactions db)" using ids by (force simp: ids_ok_def keyed_def)
  with db' show ?thesis
    by (auto simp: evolves_def rf_next_def list.rel_refl new_transaction_def intro!: exI [of _ "[new_transaction inp rg rn now i (seq_transactions db)]"])
qed

lemma bound_refund_safe:
  assumes F: "accurate u val F"
  shows "refund_safe (refunds_ok u val) F"
proof
  note step = refunds_ok_evolves [OF F]
  have ids: "refunds_ok u val w \<Longrightarrow> ids_ok (w_db w)" for w by (simp add: refunds_ok_def books_ok_def)
  have books: "refunds_ok u val w \<Longrightarrow> books_ok w" for w by (simp add: refunds_ok_def)
  have same: "business db' = business db \<Longrightarrow> bound_ok u val db' = bound_ok u val db" for db db'
    by (simp add: business_def bound_ok_def tx_bounded_def live_refunds_def refunds_of_def)
  show "book_pred (refunds_ok u val)"
    unfolding book_pred_def
  proof (intro allI impI)
    fix w w' :: world assume w: "refunds_ok u val w" "w_objects w' = w_objects w" and b: "business (w_db w') = business (w_db w)"
    have "books_ok w'" using book_predD [OF books_frame books [OF w(1)] w(2) b] .
    with w(1) same [OF b] show "refunds_ok u val w'" by (simp add: refunds_ok_def)
  qed
  show "refunds_ok u val w" if w: "refunds_ok u val w0" "ledger_step w0 w" for w0 w
  proof -
    have "business (w_db w) = business (w_db w0)" using w(2) by (simp add: ledger_step_def same_business_def)
    from same [OF this] books_ledger_step [OF books [OF w(1)] w(2)] w(1) show ?thesis by (simp add: refunds_ok_def)
  qed
  show "refunds_ok u val (w\<lparr>w_db := mark_processing i gid now (w_db w)\<rparr>)" if w: "refunds_ok u val w" for w i gid now
    by (rule step [OF w books_processing [OF books [OF w]] evolves_refunds]) (simp_all add: mark_processing_def map_update_where tx_core_def)
  show "refunds_ok u val (w\<lparr>w_db := mark_failed tid now (w_db w)\<rparr>)" if w: "refunds_ok u val w" for w tid now
    by (rule step [OF w books_failed [OF books [OF w]] evolves_refunds]) (simp_all add: mark_failed_def map_update_where tx_core_def)
  show "refunds_ok u val (w\<lparr>w_db := mark_completed tid i gtrx now (w_db w)\<rparr>)"
    if w: "refunds_ok u val w" and t: "t \<in> set (op_transactions (w_db w))" "t_id t = tid" "tx_owner (w_db w) t = Some (m, tx)" "posted_in w m tx"
    for w t tid m tx i gtrx now
    by (rule step [OF w books_completed [OF books [OF w] t] evolves_refunds]) (simp_all add: mark_completed_def map_update_where tx_core_def)
  show "refunds_ok u val (w\<lparr>w_db := db\<rparr>)" if w: "refunds_ok u val w" and ins: "insert_intent inp rg rn now (w_db w) = Inr (a, db)" for w inp rg rn now a db
    by (rule step [OF w insert_intent_books [OF books [OF w] ins] evolves_refunds]) (use ins in \<open>auto simp: insert_intent_def split: if_splits\<close>)
  show "refunds_ok u val (w\<lparr>w_db := db\<rparr>)" if w: "refunds_ok u val w" and ins: "insert_transaction inp rg rn now k (w_db w) = Inr (a, db)" for w inp rg rn now k a db
    by (rule step [OF w insert_transaction_books [OF books [OF w] ins] insert_transaction_evolves [OF ids [OF w] ins]])
  show "refunds_ok u val (w\<lparr>w_db := set_gateway_refund i g now (w_db w)\<rparr>)" if w: "refunds_ok u val w" for w i g now
    by (rule step [OF w set_gateway_books [OF books [OF w]]], unfold set_gateway_refund_def, rule evolves_statement) (simp_all add: rf_core_def)
  show "refunds_ok u val (w\<lparr>w_db := fail_refund i now (w_db w)\<rparr>)" if w: "refunds_ok u val w" for w i now
    by (rule step [OF w fail_refund_books [OF books [OF w]]], unfold fail_refund_def, rule evolves_statement) (simp_all add: rf_core_def)
  show "refunds_ok u val (w\<lparr>w_db := close_refund i RfFailed now (w_db w)\<rparr>)" if w: "refunds_ok u val w" for w i now
    by (rule step [OF w close_failed_books [OF books [OF w]]], unfold close_refund_def, rule evolves_statement) (simp_all add: rf_core_def)
  show "refunds_ok u val (w\<lparr>w_db := close_refund i RfCompleted now (w_db w)\<rparr>)"
    if w: "refunds_ok u val w" and r: "r \<in> set (op_refunds (w_db w))" "rf_id r = i" "posted_in w (rf_merchant_id r) (refund_tx (rf_merchant_id r) (rf_refund_id r))"
    for w r i now
    by (rule step [OF w close_completed_books [OF books [OF w] r]], unfold close_refund_def, rule evolves_statement) (auto simp: rf_core_def)
  show "refunds_ok u val (w\<lparr>w_db := db\<rparr>)"
    if w: "refunds_ok u val w" and chk: "check_refund F inp cap prior = Inr ()" and ins: "insert_refund F inp rid cur now (w_db w) = Inr (Some i, db)"
    for w inp cap prior rid cur now i db
  proof -
    have "bound_ok u val (w_db w)" using w by (simp add: refunds_ok_def)
    from bound_insert [OF F ids [OF w] this check_positive [OF F chk] ins] insert_refund_books [OF books [OF w] ins]
    show ?thesis by (simp add: refunds_ok_def)
  qed
qed (simp add: refunds_ok_def)

end
