(* ===== verification/Workflow.thy ===== *)
theory Workflow
  imports RefundCorrect
begin

text \<open>
  The refund workflow as a process: its poll window, and its termination.  An instance is run one
  attempt at a time in whatever worlds it finds; it ends after a bounded number of attempts.
\<close>

section \<open>The poll window\<close>

text \<open>The poll policy.  The 52 polls of an instance wait for exactly 24 hours in total, no wait is
  shorter than a minute or longer than half an hour, waits never shrink, and polling halts
  precisely from the 52nd attempt on.\<close>

theorem poll_window_is_a_day:
  "refundPollWindowMs = 24 * 60 * 60 * 1000 \<and>
   (\<forall>k. 60000 \<le> refundPollBackoffMs k \<and> refundPollBackoffMs k \<le> 1800000 \<and> refundPollBackoffMs k \<le> refundPollBackoffMs (Suc k)) \<and>
   (\<forall>k. shouldHaltRefundPolling k = (52 \<le> k))"
proof -
  have "refundPollWindowMs = 86400000" by code_simp
  moreover have "60000 \<le> refundPollBackoffMs k \<and> refundPollBackoffMs k \<le> 1800000 \<and> refundPollBackoffMs k \<le> refundPollBackoffMs (Suc k)" for k
  proof (cases "k < 5")
    case True
    then have "k = 0 \<or> k = 1 \<or> k = 2 \<or> k = 3 \<or> k = 4" by auto
    then show ?thesis by (auto simp: refundPollBackoffMs_def numeral_eq_Suc)
  qed (simp add: refundPollBackoffMs_def)
  ultimately show ?thesis by (simp add: shouldHaltRefundPolling_def REFUND_POLL_MAX_ATTEMPTS_def)
qed

section \<open>Termination\<close>

definition phase_rank :: "wf_phase \<Rightarrow> nat" where
  "phase_rank ph = (case ph of
      WfLoad \<Rightarrow> REFUND_POLL_MAX_ATTEMPTS + 5
    | WfQuery r k \<Rightarrow> (REFUND_POLL_MAX_ATTEMPTS - k) + 4
    | WfReverse r \<Rightarrow> 3
    | WfWebhook r \<Rightarrow> 2
    | WfFinished \<Rightarrow> 0
    | WfErrored e \<Rightarrow> 0
    | _ \<Rightarrow> 1)"

lemma terminal_errored [simp]: "terminal (WfErrored e)"
  by (simp add: terminal_def)

lemma attempt_rank:
  assumes "wf_attempt L reg dec uuid rid ph w = (Inr (ph', s), w')" and "\<not> terminal ph"
  shows "phase_rank ph' < phase_rank ph"
  using assms
  by (cases ph) (auto simp: wf_attempt_def terminal_def phase_rank_def andThen_def ret_def throw_def REFUND_POLL_MAX_ATTEMPTS_def
      split: prod.splits sum.splits if_splits refund_query.splits)

interpretation refund_wf: durable_progress "refund_workflow L reg dec rid" phase_rank for L reg dec rid
  by unfold_locales (auto simp: refund_workflow_def dest: attempt_rank)

text \<open>C22: the workflow of a refund terminates.  If the platform retries a step at most \<open>R\<close> times, then
  after 58 (R + 1) attempts, in whatever worlds and with whatever answers, lost calls and other
  activity in between, the instance has finished or halted in error.\<close>

theorem workflow_terminates:
  assumes "\<And>k. length (waits k) \<le> R"
    and "each_awake waits (refund_workflow L reg dec rid) (durable_start waits (refund_workflow L reg dec rid u) WfLoad) ws"
    and "58 * (R + 1) \<le> length ws"
  shows "terminal (du_phase (durable_runs waits (refund_workflow L reg dec rid) (durable_start waits (refund_workflow L reg dec rid u) WfLoad) ws))"
  using refund_wf.terminates [OF assms(1,2)] assms(3)
  by (simp add: phase_rank_def REFUND_POLL_MAX_ATTEMPTS_def refund_workflow_def)

section \<open>A refund the gateway never registered\<close>

definition unsent_refund :: refund_row where
  "unsent_refund = \<lparr>rf_id = 4, rf_merchant_id = 7, rf_refund_id = ''rfnd_4'', rf_transaction_id = 1, rf_gateway_refund_id = None, rf_amount = ''0.10'',
     rf_currency = ''BDT'', rf_reason = None, rf_status = RfPending, rf_initiated_by = None, rf_created_at = 0, rf_updated_at = 0,
     rf_workflow_attempts = 0, rf_last_workflow_at = None\<rparr>"

definition refund_world :: world where
  "refund_world = demo_world\<lparr>w_db := (w_db demo_world)\<lparr>op_refunds := [unsent_refund], seq_refunds := 5\<rparr>\<rparr>"

definition no_waits :: "step_config \<Rightarrow> int list" where
  "no_waits c = []"

lemmas attempt_run [code] = wf_attempt_def [THEN fun_cong, unfolded prog_run]

definition demo_code :: "string \<Rightarrow> wf_phase durable_code" where
  "demo_code = refund_workflow exact_decimal [] Some 4"

definition opened :: "nat \<Rightarrow> wf_phase durable" where
  "opened n = ((\<lambda>i. fst (durable_step no_waits (demo_code []) (i, refund_world))) ^^ n) (durable_start no_waits (demo_code []) WfLoad)"

lemma opened_facts: "terminal (du_phase (opened 3))" "awake (opened 0) refund_world" "awake (opened 1) refund_world"
    "awake (opened 2) refund_world" "awake (opened 3) refund_world"
  by code_simp+

lemma opened_step:
  "fst (durable_step no_waits (demo_code []) (opened 0, refund_world)) = opened 1"
  "fst (durable_step no_waits (demo_code []) (opened 1, refund_world)) = opened 2"
  "fst (durable_step no_waits (demo_code []) (opened 2, refund_world)) = opened 3"
  by (simp_all add: opened_def eval_nat_numeral)

theorem workflow_terminates_witness:
  "terminal (du_phase (durable_runs no_waits demo_code (opened 0) (replicate 58 ([], refund_world))))"
proof -
  let ?ws = "(([]::string), refund_world) # (([]::string), refund_world) # (([]::string), refund_world) # replicate 55 ([], refund_world)"
  have "dc_terminal (demo_code u) (du_phase (opened 3))" for u using opened_facts by (simp add: demo_code_def refund_workflow_def)
  from awake_terminal [OF this opened_facts(5)] opened_facts(2-5) have "each_awake no_waits demo_code (opened 0) ?ws"
    by (simp only: each_awake.simps opened_step simp_thms)
  moreover have "?ws = replicate 58 ([], refund_world)" by (simp add: eval_nat_numeral)
  ultimately have aw: "each_awake no_waits demo_code (opened 0) (replicate 58 ([], refund_world))" by metis
  have nw: "\<And>k. length (no_waits k) \<le> 0" by (simp add: no_waits_def)
  note fin = workflow_terminates [where waits = no_waits, OF nw, of exact_decimal "[]" Some 4 "[]" "replicate 58 ([], refund_world)", folded demo_code_def]
  have "opened 0 = durable_start no_waits (demo_code []) WfLoad" by (simp add: opened_def)
  with fin aw show ?thesis by (simp only:) simp
qed

end
