(* ===== verification/Reconciliation.thy ===== *)
theory Reconciliation
  imports Workflow
begin

text \<open>
  \<open>services/reconciliation.ts\<close> and \<open>workflows/reconciliation-sweep.ts\<close>: the recovery half of the
  posting protocol.  Pending rows are replayed into their ledger object and closed or quarantined,
  every active merchant is compared with its mirror, stuck refunds get their workflow re-driven,
  and the run is recorded; the daily sweep does the same as a durable workflow.
\<close>

section \<open>Loops with a result\<close>

fun foldEach :: "'x list \<Rightarrow> 'a \<Rightarrow> ('x \<Rightarrow> 'a \<Rightarrow> ('w, 'e, 'a) prog) \<Rightarrow> ('w, 'e, 'a) prog" where
  "foldEach [] a body = ret a"
| "foldEach (x # xs) a body = andThen (body x a) (\<lambda>a'. foldEach xs a' body)"

lemma preserves_foldEach [triple_rules]:
  "(\<And>x a. x \<in> set xs \<Longrightarrow> preserves I (body x a)) \<Longrightarrow> preserves I (foldEach xs a body)"
  by (induction xs arbitrary: a) (auto intro!: triple_rules)

definition exn_message :: "exn \<Rightarrow> string" where
  "exn_message e = (case e of
      Error m \<Rightarrow> m | RangeError m \<Rightarrow> m | DecimalError \<Rightarrow> ''[DecimalError]''
    | PostingValidationError c m \<Rightarrow> posting_error_message c m | HttpError s m c \<Rightarrow> m | NonRetryableError m \<Rightarrow> m)"

section \<open>Replaying pending postings\<close>

definition PENDING_GRACE_MS :: int where "PENDING_GRACE_MS = 30000"
definition MAX_PENDING_ATTEMPTS :: nat where "MAX_PENDING_ATTEMPTS = 5"
definition REFUND_STUCK_MS :: int where "REFUND_STUCK_MS = 24 * 60 * 60 * 1000"
definition MAX_REFUND_WORKFLOW_ATTEMPTS :: nat where "MAX_REFUND_WORKFLOW_ATTEMPTS = 3"

record pending_result =
  pr_replayed :: nat
  pr_healed :: nat
  pr_rejected :: nat
  pr_failed :: nat
  pr_remaining :: nat

definition DETERMINISTIC_FAILURE_CODES :: "posting_error_code list" where
  "DETERMINISTIC_FAILURE_CODES = [UNBALANCED, INSUFFICIENT_FUNDS, UNKNOWN_ACCOUNT, INVALID, CURRENCY_MISMATCH, REJECTED_TX_ID]"

definition pending_rows :: "iso \<Rightarrow> nat \<Rightarrow> d1 \<Rightarrow> posting_row list" where
  "pending_rows cutoff limit db = take limit (sort_key po_created_at
     (filter (\<lambda>r. po_status r = PoPending \<and> po_created_at r < cutoff) (op_ledger_postings db)))"

definition bumpAttempts :: "string \<Rightarrow> string \<Rightarrow> d1 \<Rightarrow> d1" where
  "bumpAttempts tx msg db = db\<lparr>op_ledger_postings := update_where (\<lambda>r. po_tx_id r = tx)
     (\<lambda>r. r\<lparr>po_attempts := po_attempts r + 1, po_error := Some msg\<rparr>) (op_ledger_postings db)\<rparr>"

definition reject_posting :: "string \<Rightarrow> string \<Rightarrow> d1 \<Rightarrow> d1" where
  "reject_posting tx msg db = db\<lparr>op_ledger_postings := update_where (\<lambda>r. po_tx_id r = tx)
     (\<lambda>r. r\<lparr>po_status := PoRejected, po_error := Some msg, po_attempts := po_attempts r + 1\<rparr>) (op_ledger_postings db)\<rparr>"

text \<open>What a structured failure does to its row: quarantine at once, quarantine when exhausted, or try again later.\<close>

definition failed_posting :: "posting_row \<Rightarrow> posting_result \<Rightarrow> pending_result \<Rightarrow> pending_result svc" where
  "failed_posting row posted res =
     (let code = (case res_error_code posted of Some c \<Rightarrow> c | None \<Rightarrow> INTERNAL);
          message = (case res_error posted of Some m \<Rightarrow> m | None \<Rightarrow> ''posting failed'')
      in if code \<in> set DETERMINISTIC_FAILURE_CODES then
           andThen (d1_put (reject_posting (po_tx_id row) (''['' @ code_str code @ ''] '' @ message))) (\<lambda>_.
           andThen (page ''LEDGER_POSTING_REJECTED'') (\<lambda>_. ret (res\<lparr>pr_rejected := pr_rejected res + 1\<rparr>)))
         else if MAX_PENDING_ATTEMPTS \<le> po_attempts row + 1 then
           andThen (d1_put (reject_posting (po_tx_id row) (''exhausted retries: '' @ message))) (\<lambda>_.
           andThen (page ''LEDGER_POSTING_EXHAUSTED'') (\<lambda>_. ret (res\<lparr>pr_rejected := pr_rejected res + 1\<rparr>)))
         else
           andThen (d1_put (bumpAttempts (po_tx_id row) message)) (\<lambda>_. ret (res\<lparr>pr_failed := pr_failed res + 1\<rparr>)))"

text \<open>\<open>writeLedgerAuditTrail\<close> from a worker: the batch, then the id of the transaction row.\<close>

definition heal_audit_trail :: "posting_payload \<Rightarrow> iso \<Rightarrow> int svc" where
  "heal_audit_trail p posted = andThen (d1_put (run_batch (buildLedgerAuditStatements (pp_merchant_id p) p posted))) (\<lambda>_.
     d1_get (\<lambda>db. case find_ltx (pp_tx_id p) db of None \<Rightarrow> 0 | Some t \<Rightarrow> lt_id t))"

definition replay_row :: "posting_row \<Rightarrow> pending_result \<Rightarrow> pending_result svc" where
  "replay_row row res =
     andThen (catching (andThen (stub_postTransaction (po_merchant_id row) (po_payload row)) (\<lambda>r. ret (Inr r)))
        (\<lambda>e. andThen (d1_put (bumpAttempts (po_tx_id row) (exn_message e))) (\<lambda>_. ret (Inl (res\<lparr>pr_failed := pr_failed res + 1\<rparr>))))) (\<lambda>posted.
     case posted of
       Inl res' \<Rightarrow> ret res'
     | Inr p \<Rightarrow>
        (case res_status p of
           Failed \<Rightarrow> failed_posting row p res
         | Duplicate \<Rightarrow> andThen (heal_audit_trail (po_payload row) (res_posted_at p)) (\<lambda>_. ret (res\<lparr>pr_healed := pr_healed res + 1\<rparr>))
         | Posted \<Rightarrow> andThen (stub_drainOutbox (po_merchant_id row)) (\<lambda>_. ret (res\<lparr>pr_replayed := pr_replayed res + 1\<rparr>))))"

text \<open>The poison guard: a rejected row whose transaction the object has accepted pages.\<close>

definition rejected_rows :: "d1 \<Rightarrow> posting_row list" where
  "rejected_rows db = take 50 (sort_key (\<lambda>r. - po_created_at r) (filter (\<lambda>r. po_status r = PoRejected) (op_ledger_postings db)))"

definition poison_check :: "posting_row \<Rightarrow> unit svc" where
  "poison_check r = catching (andThen (stub_read (po_merchant_id r) (\<lambda>_. getTransactionStatus (po_tx_id r))) (\<lambda>st.
     if fst st then page ''LEDGER_POISON_DETECTED'' else ret ())) (\<lambda>_. ret ())"

definition reconcilePendingPostings :: "int option \<Rightarrow> nat option \<Rightarrow> pending_result svc" where
  "reconcilePendingPostings graceMs limit =
     andThen (reading w_now) (\<lambda>now.
     andThen (d1_get (pending_rows (now - (case graceMs of None \<Rightarrow> PENDING_GRACE_MS | Some g \<Rightarrow> g)) (case limit of None \<Rightarrow> 200 | Some n \<Rightarrow> n))) (\<lambda>pending.
     andThen (foldEach pending \<lparr>pr_replayed = 0, pr_healed = 0, pr_rejected = 0, pr_failed = 0, pr_remaining = 0\<rparr> replay_row) (\<lambda>res.
     andThen (d1_get rejected_rows) (\<lambda>rejected.
     andThen (forEach rejected poison_check) (\<lambda>_.
     andThen (d1_get (\<lambda>db. length (filter (\<lambda>r. po_status r = PoPending) (op_ledger_postings db)))) (\<lambda>n.
     ret (res\<lparr>pr_remaining := n\<rparr>)))))))"

section \<open>Comparing every merchant with its mirror\<close>

record consistency_result =
  cs_checked :: nat
  cs_drift_count :: nat
  cs_drifts :: "(int \<times> discrepancy list) list"

definition active_merchants :: "d1 \<Rightarrow> int list" where
  "active_merchants db = map m_id (filter (\<lambda>m. m_active m \<and> \<not> m_is_platform m) (op_merchants db))"

definition verify_merchant :: "'d decimal_js \<Rightarrow> int \<Rightarrow> consistency_result \<Rightarrow> consistency_result svc" where
  "verify_merchant L m out = andThen (verifyDurableObjectConsistency L m) (\<lambda>c.
     if fst c then ret (out\<lparr>cs_checked := cs_checked out + 1\<rparr>)
     else andThen (page ''LEDGER_RECONCILIATION_DRIFT'') (\<lambda>_.
       ret \<lparr>cs_checked = cs_checked out + 1, cs_drift_count = cs_drift_count out + 1, cs_drifts = cs_drifts out @ [(m, snd c)]\<rparr>))"

definition verifyAllMerchants :: "'d decimal_js \<Rightarrow> consistency_result svc" where
  "verifyAllMerchants L = andThen (d1_get active_merchants) (\<lambda>ms.
     foldEach ms \<lparr>cs_checked = 0, cs_drift_count = 0, cs_drifts = []\<rparr> (verify_merchant L))"

section \<open>Stuck refunds\<close>

record refund_sweep_result =
  sr_retriggered :: nat
  sr_stuck :: nat

definition stuck_refunds :: "iso \<Rightarrow> d1 \<Rightarrow> refund_row list" where
  "stuck_refunds cutoff db = filter (\<lambda>r. rf_status r = RfPending \<and> rf_created_at r < cutoff \<and>
     rf_workflow_attempts r < MAX_REFUND_WORKFLOW_ATTEMPTS) (op_refunds db)"

definition exhausted_refunds :: "iso \<Rightarrow> d1 \<Rightarrow> refund_row list" where
  "exhausted_refunds cutoff db = filter (\<lambda>r. rf_status r = RfPending \<and> rf_created_at r < cutoff \<and>
     MAX_REFUND_WORKFLOW_ATTEMPTS \<le> rf_workflow_attempts r) (op_refunds db)"

definition count_attempt :: "int \<Rightarrow> iso \<Rightarrow> d1 \<Rightarrow> d1" where
  "count_attempt i now db = db\<lparr>op_refunds := update_where (\<lambda>r. rf_id r = i)
     (\<lambda>r. r\<lparr>rf_workflow_attempts := rf_workflow_attempts r + 1, rf_last_workflow_at := Some now\<rparr>) (op_refunds db)\<rparr>"

definition redrive :: "js_error \<Rightarrow> refund_row \<Rightarrow> nat \<Rightarrow> nat svc" where
  "redrive dup r n =
     andThen (triggerRefundReconciliation dup (rf_id r) (Some (''sweep-'' @ nat_str (rf_workflow_attempts r + 1)))) (\<lambda>_.
     andThen (reading w_now) (\<lambda>now.
     andThen (d1_put (count_attempt (rf_id r) now)) (\<lambda>_. ret (n + 1))))"

definition sweepStuckRefunds :: "js_error \<Rightarrow> refund_sweep_result svc" where
  "sweepStuckRefunds dup =
     andThen (reading w_now) (\<lambda>now.
     andThen (d1_get (stuck_refunds (now - REFUND_STUCK_MS))) (\<lambda>stuck.
     andThen (foldEach stuck 0 (redrive dup)) (\<lambda>n.
     andThen (d1_get (exhausted_refunds (now - REFUND_STUCK_MS))) (\<lambda>gone.
     andThen (forEach gone (\<lambda>_. page ''REFUND_STUCK_MANUAL_REVIEW'')) (\<lambda>_.
     ret \<lparr>sr_retriggered = n, sr_stuck = length gone\<rparr>)))))"

section \<open>Outbox health\<close>

record outbox_summary =
  ox_lag_max_seconds :: int
  ox_pending_total :: nat
  ox_stuck_total :: nat

definition outbox_of :: "int \<Rightarrow> outbox_summary \<Rightarrow> outbox_summary svc" where
  "outbox_of m acc = catching (andThen (stub_read m outboxStats) (\<lambda>s.
     let acc' = \<lparr>ox_lag_max_seconds = max (os_max_age_seconds s) (ox_lag_max_seconds acc),
                 ox_pending_total = ox_pending_total acc + os_pending s, ox_stuck_total = ox_stuck_total acc + os_stuck s\<rparr>
     in if 0 < os_stuck s \<or> 300 < os_max_age_seconds s then andThen (page ''OUTBOX_STUCK'') (\<lambda>_. ret acc') else ret acc')) (\<lambda>_. ret acc)"

definition collectOutboxStats :: "outbox_summary svc" where
  "collectOutboxStats = andThen (d1_get active_merchants) (\<lambda>ms.
     foldEach ms \<lparr>ox_lag_max_seconds = 0, ox_pending_total = 0, ox_stuck_total = 0\<rparr> outbox_of)"

section \<open>The combined run\<close>

record run_summary =
  rs_ran_at :: iso
  rs_trigger :: recon_trigger
  rs_pending :: pending_result
  rs_consistency :: "consistency_result option"
  rs_refunds :: "refund_sweep_result option"
  rs_outbox :: outbox_summary

definition run_row :: "run_summary \<Rightarrow> recon_run_row" where
  "run_row s = \<lparr>rr_ran_at = rs_ran_at s, rr_trigger = rs_trigger s, rr_replayed = pr_replayed (rs_pending s), rr_healed = pr_healed (rs_pending s),
     rr_rejected = pr_rejected (rs_pending s), rr_failed = pr_failed (rs_pending s), rr_remaining = pr_remaining (rs_pending s),
     rr_merchants_checked = (case rs_consistency s of None \<Rightarrow> 0 | Some c \<Rightarrow> cs_checked c),
     rr_drift_count = (case rs_consistency s of None \<Rightarrow> 0 | Some c \<Rightarrow> cs_drift_count c),
     rr_refunds_retriggered = (case rs_refunds s of None \<Rightarrow> 0 | Some r \<Rightarrow> sr_retriggered r),
     rr_drifts = (case rs_consistency s of None \<Rightarrow> [] | Some c \<Rightarrow> cs_drifts c),
     rr_stuck_refunds = (case rs_refunds s of None \<Rightarrow> 0 | Some r \<Rightarrow> sr_stuck r),
     rr_outbox_lag_max_seconds = ox_lag_max_seconds (rs_outbox s), rr_outbox_pending_total = ox_pending_total (rs_outbox s),
     rr_outbox_stuck_total = ox_stuck_total (rs_outbox s)\<rparr>"

definition record_run :: "run_summary \<Rightarrow> d1 \<Rightarrow> d1" where
  "record_run s db = db\<lparr>op_reconciliation_runs := op_reconciliation_runs db @ [run_row s]\<rparr>"

definition unless_hourly :: "recon_trigger \<Rightarrow> 'a svc \<Rightarrow> 'a option svc" where
  "unless_hourly t m = (if t = THourly then ret None else andThen m (\<lambda>x. ret (Some x)))"

definition runReconciliation :: "'d decimal_js \<Rightarrow> js_error \<Rightarrow> recon_trigger \<Rightarrow> run_summary svc" where
  "runReconciliation L dup trigger =
     andThen (reading w_now) (\<lambda>ranAt.
     andThen (reconcilePendingPostings None None) (\<lambda>pending.
     andThen (unless_hourly trigger (verifyAllMerchants L)) (\<lambda>consistency.
     andThen (unless_hourly trigger (sweepStuckRefunds dup)) (\<lambda>refunds.
     andThen collectOutboxStats (\<lambda>outbox.
     let summary = \<lparr>rs_ran_at = ranAt, rs_trigger = trigger, rs_pending = pending, rs_consistency = consistency, rs_refunds = refunds,
        rs_outbox = outbox\<rparr>
     in andThen (d1_put (record_run summary)) (\<lambda>_. ret summary))))))"

section \<open>The daily sweep as a workflow\<close>

datatype sweep_phase =
    SwReplay
  | SwVerify pending_result
  | SwRefunds pending_result consistency_result
  | SwOutbox pending_result consistency_result refund_sweep_result
  | SwRecord pending_result consistency_result refund_sweep_result outbox_summary
  | SwFinished pending_result consistency_result refund_sweep_result outbox_summary
  | SwFailed exn
  | SwErrored exn

definition SWEEP_RETRIES :: "int \<Rightarrow> step_config" where
  "SWEEP_RETRIES timeout = \<lparr>sc_limit = 3, sc_delay_ms = 30000, sc_timeout_ms = timeout\<rparr>"

definition sweep_config :: "sweep_phase \<Rightarrow> step_config" where
  "sweep_config ph = (case ph of SwOutbox p c r \<Rightarrow> SWEEP_RETRIES 120000 | SwRecord p c r x \<Rightarrow> SWEEP_RETRIES 30000 | _ \<Rightarrow> SWEEP_RETRIES 300000)"

definition sweep_terminal :: "sweep_phase \<Rightarrow> bool" where
  "sweep_terminal ph \<longleftrightarrow> (case ph of SwFinished p c r x \<Rightarrow> True | SwErrored e \<Rightarrow> True | _ \<Rightarrow> False)"

text \<open>
  The \<open>catch\<close> around the steps: a step whose retries are used up leads to \<open>SwFailed\<close>, which pages
  and throws the error on.
\<close>

definition sweep_attempt :: "'d decimal_js \<Rightarrow> js_error \<Rightarrow> sweep_phase \<Rightarrow> (sweep_phase \<times> int) svc" where
  "sweep_attempt L dup ph =
     (case ph of
        SwReplay \<Rightarrow> andThen (reconcilePendingPostings None (Some 500)) (\<lambda>p. ret (SwVerify p, 0))
      | SwVerify p \<Rightarrow> andThen (verifyAllMerchants L) (\<lambda>c. ret (SwRefunds p c, 0))
      | SwRefunds p c \<Rightarrow> andThen (sweepStuckRefunds dup) (\<lambda>r. ret (SwOutbox p c r, 0))
      | SwOutbox p c r \<Rightarrow> andThen collectOutboxStats (\<lambda>x. ret (SwRecord p c r x, 0))
      | SwRecord p c r x \<Rightarrow> andThen (reading w_now) (\<lambda>ranAt.
          andThen (d1_put (record_run \<lparr>rs_ran_at = ranAt, rs_trigger = TDaily, rs_pending = p, rs_consistency = Some c, rs_refunds = Some r, rs_outbox = x\<rparr>))
            (\<lambda>_. ret (SwFinished p c r x, 0)))
      | SwFailed e \<Rightarrow> andThen (page ''RECONCILIATION_SWEEP_FAILED'') (\<lambda>_. ret (SwErrored e, 0))
      | _ \<Rightarrow> ret (ph, 0))"

definition sweep_workflow :: "'d decimal_js \<Rightarrow> js_error \<Rightarrow> sweep_phase durable_code" where
  "sweep_workflow L dup = \<lparr>dc_attempt = sweep_attempt L dup, dc_config = sweep_config, dc_errored = SwFailed, dc_terminal = sweep_terminal\<rparr>"

end
