(* ===== verification/ReconciliationCorrect.thy ===== *)
theory ReconciliationCorrect
  imports Reconciliation
begin

text \<open>
  Reconciliation is safe to run at any time: it quarantines only postings the ledger has not
  accepted, re-drives a stuck refund exactly once per sweep and a bounded number of times in all,
  leaves the books alone, and records what it did.
\<close>

section \<open>What the ledger writes to D1\<close>

definition clean_stmt :: "ledger_stmt \<Rightarrow> bool" where
  "clean_stmt st \<longleftrightarrow> (case st of UpsertPosting r \<Rightarrow> po_status r = PoPosted | _ \<Rightarrow> True)"

lemma clean_audit: "st \<in> set (buildLedgerAuditStatements mid p t) \<Longrightarrow> clean_stmt st"
  by (auto simp: buildLedgerAuditStatements_def fresh_posting_row_def clean_stmt_def entry_stmt_def)

lemma drain_writes:
  "posted_ids (fst (snd (drainOutbox force now ok (d, db)))) = posted_ids d \<and>
   (\<exists>sts. (\<forall>st \<in> set sts. clean_stmt st) \<and> snd (snd (drainOutbox force now ok (d, db))) = run_batch sts db)"
proof (cases "pending_batch force now d")
  case Nil
  then show ?thesis by (auto simp: drainOutbox_def run_batch_def intro!: exI [of _ "[]"])
next
  case (Cons r rs)
  obtain m d' where dm: "drain_merchant r d = (m, d')" by fastforce
  then have same: "do_posted d' = do_posted d"
    by (auto simp: drain_merchant_def getMerchantId_def split: prod.splits option.splits if_splits)
  obtain sts inc where cb: "compose_batch (r # rs) [] [] = (sts, inc)" by fastforce
  have "\<forall>st \<in> set sts. clean_stmt st"
    using compose_batch_spec [OF cb] by (auto simp: row_stmts_def dest!: in_set_takeD dest: clean_audit)
  then show ?thesis
    using same by (cases m)
      (auto simp: drainOutbox_def Cons dm cb Let_def posted_ids_def markOutboxRetry_def mark_synced_def run_batch_def
        intro: exI [of _ "[]"] exI [of _ sts])
qed

lemma post_outbox:
  assumes inv: "ledger_inv d" and env: "outbox_enabled env" and run: "postTransaction env now ok p (d, db) = (r, (d', db'))"
  shows "db' = db" and "posted_ids d' \<subseteq> insert (pp_tx_id p) (posted_ids d)"
    and "res_status r = Failed \<Longrightarrow> posted_ids d' = posted_ids d"
    and "res_status r = Failed \<Longrightarrow> validatePostingShape p = Inr () \<Longrightarrow> pp_tx_id p \<notin> posted_ids d"
proof -
  have same: "posted_ids d' = posted_ids d" if "same_store (seedChart (pp_currency p) d) d'"
    using that by (simp add: posted_ids_def same_store_def same_book_def)
  from post_outcome(2) [OF inv run] consider
      (kept) "res_status r \<noteq> Posted" "same_store (seedChart (pp_currency p) d) d'" "db' = db"
    | (new) "committed p now d d'" "res_status r = Posted" using env by blast
  then have all: "db' = db \<and> posted_ids d' \<subseteq> insert (pp_tx_id p) (posted_ids d) \<and> (res_status r = Failed \<longrightarrow> posted_ids d' = posted_ids d)"
  proof cases
    case kept
    with same show ?thesis by auto
  next
    case new
    have ids: "posted_ids d' = insert (pp_tx_id p) (posted_ids d)"
      using committed_recorded(1) [of p now "(d, db)" "(d', db')"] new by simp
    from post_writes [OF inv, of env now ok p db] env run have "db' = db" by (simp add: run_batch_def)
    with ids new show ?thesis by simp
  qed
  then show "db' = db" and "posted_ids d' \<subseteq> insert (pp_tx_id p) (posted_ids d)"
    and "res_status r = Failed \<Longrightarrow> posted_ids d' = posted_ids d" by blast+
  assume st: "res_status r = Failed" and sh: "validatePostingShape p = Inr ()"
  show "pp_tx_id p \<notin> posted_ids d"
  proof
    assume "pp_tx_id p \<in> posted_ids d"
    then obtain x where "List.find (\<lambda>r. px_tx_id r = pp_tx_id p) (do_posted d) = Some x"
      using find_posted_None [of "pp_tx_id p" d] by auto
    from post_duplicate [OF sh this, of env now ok db] run st show False by (simp add: duplicate_result_def)
  qed
qed

section \<open>Quarantine\<close>

definition rejected_keys :: "d1 \<Rightarrow> (int \<times> string) set" where
  "rejected_keys db = (\<lambda>r. (po_merchant_id r, po_tx_id r)) ` {r \<in> set (op_ledger_postings db). po_status r = PoRejected}"

text \<open>A poisoned posting: rejected in D1 although its ledger object accepted it.\<close>

definition no_poison :: "world \<Rightarrow> bool" where
  "no_poison w \<longleftrightarrow> (\<forall>(m, tx) \<in> rejected_keys (w_db w). \<not> posted_in w m tx)"

text \<open>A pending row holds the payload of its own transaction, as the shape check let it through.\<close>

definition row_faithful :: "posting_row \<Rightarrow> bool" where
  "row_faithful r \<longleftrightarrow> pp_tx_id (po_payload r) = po_tx_id r \<and> validatePostingShape (po_payload r) = Inr ()"

definition postings_ok :: "d1 \<Rightarrow> bool" where
  "postings_ok db \<longleftrightarrow> distinct (map po_tx_id (op_ledger_postings db)) \<and>
     (\<forall>r \<in> set (op_ledger_postings db). po_status r = PoPending \<longrightarrow> row_faithful r)"

definition row_live :: "posting_row \<Rightarrow> d1 \<Rightarrow> bool" where
  "row_live x db \<longleftrightarrow> po_tx_id x \<in> po_tx_id ` set (op_ledger_postings db) \<and>
     (\<forall>r \<in> set (op_ledger_postings db). po_tx_id r = po_tx_id x \<longrightarrow> po_merchant_id r = po_merchant_id x \<and> po_status r \<noteq> PoRejected)"

lemma row_live_key: "row_live x db \<Longrightarrow> (m, po_tx_id x) \<notin> rejected_keys db"
  by (auto simp: row_live_def rejected_keys_def)

lemma upsert_rows:
  assumes "r' \<in> set (upsert_posting r rs)" and "po_status r = PoPosted"
  shows "r' \<in> set rs \<or> po_status r' = PoPosted \<and>
     ((\<exists>x \<in> set rs. po_tx_id r' = po_tx_id x \<and> po_merchant_id r' = po_merchant_id x) \<or> po_tx_id r' \<notin> po_tx_id ` set rs)"
proof (cases "po_tx_id r \<in> set (map po_tx_id rs)")
  case True
  then obtain x where x: "x \<in> set rs" "r' = (if po_tx_id x = po_tx_id r then x\<lparr>po_status := PoPosted, po_posted_at := po_posted_at r, po_error := None\<rparr> else x)"
    using assms(1) by (auto simp only: upsert_posting_def set_update_where if_True)
  then have "po_tx_id r' = po_tx_id x \<and> po_merchant_id r' = po_merchant_id x \<and> (r' = x \<or> po_status r' = PoPosted)" by simp
  with x(1) show ?thesis by blast
qed (use assms in \<open>auto simp: upsert_posting_def\<close>)

lemma upsert_ids: "set (map po_tx_id rs) \<subseteq> set (map po_tx_id (upsert_posting r rs))"
  unfolding upsert_posting_def by (auto simp: map_update_where [of po_tx_id] simp del: set_map)

lemma exec_clean:
  assumes "clean_stmt st"
  shows "rejected_keys (exec_stmt st db) \<subseteq> rejected_keys db" and "row_live x db \<Longrightarrow> row_live x (exec_stmt st db)"
proof -
  have other: "op_ledger_postings (exec_stmt st db) = op_ledger_postings db" if "\<And>r. st \<noteq> UpsertPosting r"
    using that by (cases st) (auto split: option.split)
  show "rejected_keys (exec_stmt st db) \<subseteq> rejected_keys db"
  proof (cases "\<exists>r. st = UpsertPosting r")
    case True
    then show ?thesis using assms upsert_rows by (fastforce simp: rejected_keys_def clean_stmt_def)
  qed (use other in \<open>simp add: rejected_keys_def\<close>)
  assume live: "row_live x db"
  show "row_live x (exec_stmt st db)"
  proof (cases "\<exists>r. st = UpsertPosting r")
    case True
    then obtain r where r: "st = UpsertPosting r" "po_status r = PoPosted" using assms by (auto simp: clean_stmt_def)
    have "po_merchant_id r' = po_merchant_id x \<and> po_status r' \<noteq> PoRejected"
      if r': "r' \<in> set (upsert_posting r (op_ledger_postings db))" "po_tx_id r' = po_tx_id x" for r'
      using upsert_rows [OF r'(1) r(2)] live r'(2) by (auto simp: row_live_def)
    with live upsert_ids [of "op_ledger_postings db" r] show ?thesis by (auto simp: row_live_def r(1) subset_iff)
  qed (use other live in \<open>simp add: row_live_def\<close>)
qed

lemma batch_clean:
  assumes "\<forall>st \<in> set sts. clean_stmt st"
  shows "rejected_keys (run_batch sts db) \<subseteq> rejected_keys db" and "row_live x db \<Longrightarrow> row_live x (run_batch sts db)"
proof -
  have "rejected_keys (fold exec_stmt sts db) \<subseteq> rejected_keys db \<and> (row_live x db \<longrightarrow> row_live x (fold exec_stmt sts db))"
    using assms
  proof (induction sts arbitrary: db)
    case (Cons st sts)
    with exec_clean(1) [of st db] exec_clean(2) [of st x db] Cons.IH [of "exec_stmt st db"] show ?case by auto
  qed simp
  then show "rejected_keys (run_batch sts db) \<subseteq> rejected_keys db" and "row_live x db \<Longrightarrow> row_live x (run_batch sts db)"
    by (simp_all add: run_batch_def)
qed

definition poison_pages :: "world \<Rightarrow> string list" where
  "poison_pages w = filter (\<lambda>c. c = ''LEDGER_POISON_DETECTED'') (w_pages w)"

text \<open>The invariant of the replay loop; \<open>rest\<close> are the rows still to be replayed.\<close>

definition replaying :: "string list \<Rightarrow> posting_row list \<Rightarrow> world \<Rightarrow> bool" where
  "replaying n rest w \<longleftrightarrow> world_ok w \<and> outbox_enabled (ae_ledger (w_env w)) \<and> no_poison w \<and> poison_pages w = n \<and>
     (\<forall>x \<in> set rest. row_faithful x \<and> row_live x (w_db w)) \<and> distinct (map po_tx_id rest)"

lemma replaying_db:
  assumes "replaying n rest w" and "rejected_keys db \<subseteq> rejected_keys (w_db w)" and "\<And>x. x \<in> set rest \<Longrightarrow> row_live x (w_db w) \<Longrightarrow> row_live x db"
  shows "replaying n rest (w\<lparr>w_db := db\<rparr>)"
  using assms by (auto simp: replaying_def no_poison_def posted_in_def poison_pages_def world_ok_def)

lemma replaying_stable: "fate_stable (replaying n rest)"
  by (simp add: fate_stable_def replaying_def no_poison_def posted_in_def poison_pages_def world_ok_def)

lemma replaying_tail: "replaying n (x # rest) w \<Longrightarrow> replaying n rest w"
  by (simp add: replaying_def)

lemma replaying_page: "c \<noteq> ''LEDGER_POISON_DETECTED'' \<Longrightarrow> preserves (replaying n rest) (page c)"
  unfolding page_def by (rule triple_writing) (simp add: replaying_def no_poison_def posted_in_def poison_pages_def world_ok_def)

lemma bump_view:
  "rejected_keys (bumpAttempts tx msg db) = rejected_keys db" "row_live x (bumpAttempts tx msg db) = row_live x db"
proof -
  let ?v = "\<lambda>db. map (\<lambda>r. (po_tx_id r, po_merchant_id r, po_status r)) (op_ledger_postings db)"
  have v: "?v (bumpAttempts tx msg db) = ?v db" by (simp add: bumpAttempts_def map_update_where)
  have "rejected_keys db = {(m, t). (t, m, PoRejected) \<in> set (?v db)}" for db by (force simp: rejected_keys_def)
  then show "rejected_keys (bumpAttempts tx msg db) = rejected_keys db" by (simp only: v)
  have "row_live x db = (po_tx_id x \<in> fst ` set (?v db) \<and> (\<forall>(t, m, s) \<in> set (?v db). t = po_tx_id x \<longrightarrow> m = po_merchant_id x \<and> s \<noteq> PoRejected))" for db
    by (simp add: row_live_def image_image)
  then show "row_live x (bumpAttempts tx msg db) = row_live x db" by (simp only: v)
qed

lemma replaying_bump: "preserves (replaying n rest) (d1_put (bumpAttempts tx msg))"
  by (rule preserves_d1_put [OF replaying_stable], rule replaying_db) (simp_all add: bump_view)

lemma no_poison_object:
  assumes "no_poison w" and "rejected_keys db \<subseteq> rejected_keys (w_db w)"
    and "\<And>tx. (m, tx) \<in> rejected_keys db \<Longrightarrow> tx \<in> posted_ids d \<Longrightarrow> tx \<in> posted_ids (w_objects w m)"
  shows "no_poison (w\<lparr>w_objects := (w_objects w)(m := d), w_db := db\<rparr>)"
  unfolding no_poison_def
proof (intro ballI, clarify)
  fix m' tx assume k: "(m', tx) \<in> rejected_keys (w_db (w\<lparr>w_objects := (w_objects w)(m := d), w_db := db\<rparr>))"
    and p: "posted_in (w\<lparr>w_objects := (w_objects w)(m := d), w_db := db\<rparr>) m' tx"
  then have "posted_in w m' tx" using assms(3) [of tx] by (cases "m' = m") (simp_all add: posted_in_def)
  moreover have "(m', tx) \<in> rejected_keys (w_db w)" using k assms(2) by auto
  ultimately show False using assms(1) by (auto simp: no_poison_def)
qed

lemma replaying_object:
  assumes w: "replaying n rest w" and d: "obj_ok d"
    and new: "\<And>tx. (m, tx) \<in> rejected_keys (w_db w) \<Longrightarrow> tx \<in> posted_ids d \<Longrightarrow> tx \<in> posted_ids (w_objects w m)"
    and db: "rejected_keys db \<subseteq> rejected_keys (w_db w)" "\<And>x. x \<in> set rest \<Longrightarrow> row_live x (w_db w) \<Longrightarrow> row_live x db"
  shows "replaying n rest (w\<lparr>w_objects := (w_objects w)(m := d), w_db := db\<rparr>)"
proof -
  have "no_poison (w\<lparr>w_objects := (w_objects w)(m := d), w_db := db\<rparr>)"
    by (rule no_poison_object) (use w new db(1) in \<open>auto simp: replaying_def\<close>)
  with w d db(2) show ?thesis by (simp add: replaying_def world_ok_def poison_pages_def)
qed

text \<open>Posting the payload of a live row: a structured failure means that nothing was accepted.\<close>

lemma replaying_post:
  assumes x: "x \<in> set rest"
  shows "triple (replaying n rest) (stub_postTransaction (po_merchant_id x) (po_payload x))
     (\<lambda>r w. replaying n rest w \<and> (res_status r = Failed \<longrightarrow> \<not> posted_in w (po_merchant_id x) (po_tx_id x))) (\<lambda>_. replaying n rest)"
proof -
  let ?m = "po_merchant_id x" and ?p = "po_payload x"
  let ?op = "\<lambda>w. case postTransaction (ae_ledger (w_env w)) (w_now w) (w_d1_up w) ?p (w_objects w ?m, w_db w) of
       (a, (d, db)) \<Rightarrow> (a, w\<lparr>w_objects := (w_objects w)(?m := d), w_db := db\<rparr>)"
  have op: "replaying n rest (snd (?op w)) \<and> (res_status (fst (?op w)) = Failed \<longrightarrow> \<not> posted_in (snd (?op w)) ?m (po_tx_id x))"
    if w: "replaying n rest w" for w
  proof -
    obtain r d db where run: "postTransaction (ae_ledger (w_env w)) (w_now w) (w_d1_up w) ?p (w_objects w ?m, w_db w) = (r, (d, db))"
      by (metis prod.exhaust)
    have ok: "obj_ok (w_objects w ?m)" and env: "outbox_enabled (ae_ledger (w_env w))"
      and f: "pp_tx_id ?p = po_tx_id x" "validatePostingShape ?p = Inr ()" and live: "row_live x (w_db w)"
      using w x by (auto simp: replaying_def world_ok_def row_faithful_def)
    then have inv: "ledger_inv (w_objects w ?m)" by (simp add: obj_ok_def)
    note P = post_outbox [OF inv env run]
    have "obj_ok d" using exec_obj_ok(1) [of "(w_objects w ?m, w_db w)" "CPost (ae_ledger (w_env w)) (w_now w) (w_d1_up w) ?p"] ok run by simp
    then have "replaying n rest (w\<lparr>w_objects := (w_objects w)(?m := d), w_db := db\<rparr>)"
      using P(1,2) f(1) row_live_key [OF live, of ?m] by (intro replaying_object [OF w]) auto
    with P(3,4) f run show ?thesis by (auto simp: posted_in_def)
  qed
  show ?thesis
    unfolding stub_postTransaction_def ledger_call_def
    by (rule triple_call [OF replaying_stable]) (use op in blast)+
qed

lemma replaying_drain: "preserves (replaying n rest) (stub_drainOutbox m)"
  unfolding stub_drainOutbox_def ledger_call_def
proof (rule triple_call [OF replaying_stable])
  let ?op = "\<lambda>w. case drainOutbox True (w_now w) (w_d1_up w) (w_objects w m, w_db w) of (a, (d, db)) \<Rightarrow> (a, w\<lparr>w_objects := (w_objects w)(m := d), w_db := db\<rparr>)"
  show op: "replaying n rest (snd (?op w))" if w: "replaying n rest w" for w
  proof -
    obtain r d db where run: "drainOutbox True (w_now w) (w_d1_up w) (w_objects w m, w_db w) = (r, (d, db))" by (metis prod.exhaust)
    from drain_writes [of True "w_now w" "w_d1_up w" "w_objects w m" "w_db w"] run obtain sts
      where ids: "posted_ids d = posted_ids (w_objects w m)" and sts: "\<forall>st \<in> set sts. clean_stmt st" "db = run_batch sts (w_db w)" by auto
    have "obj_ok (w_objects w m)" using w by (simp add: replaying_def world_ok_def)
    then have "obj_ok d" using exec_obj_ok(1) [of "(w_objects w m, w_db w)" "CDrain True (w_now w) (w_d1_up w)"] run by simp
    then have "replaying n rest (w\<lparr>w_objects := (w_objects w)(m := d), w_db := db\<rparr>)"
      using ids batch_clean [OF sts(1)] sts(2) by (intro replaying_object [OF w]) auto
    with run show ?thesis by simp
  qed
  show "replaying n rest (snd (?op w))" if "replaying n rest w" for w using op [OF that] .
qed

text \<open>A row is rejected only while its transaction is not in the ledger.\<close>

lemma reject_keys:
  assumes "row_live x db"
  shows "rejected_keys (reject_posting (po_tx_id x) msg db) \<subseteq> insert (po_merchant_id x, po_tx_id x) (rejected_keys db)"
proof
  fix k assume "k \<in> rejected_keys (reject_posting (po_tx_id x) msg db)"
  then obtain r where r: "r \<in> set (op_ledger_postings db)"
      "k = (po_merchant_id r, po_tx_id r)" "po_tx_id r = po_tx_id x \<or> po_status r = PoRejected"
    by (auto simp: rejected_keys_def reject_posting_def set_update_where split: if_splits)
  then show "k \<in> insert (po_merchant_id x, po_tx_id x) (rejected_keys db)"
    using assms by (cases "po_tx_id r = po_tx_id x") (auto simp: row_live_def rejected_keys_def)
qed

lemma reject_live:
  assumes "row_live y db" and "po_tx_id y \<noteq> po_tx_id x"
  shows "row_live y (reject_posting (po_tx_id x) msg db)"
proof -
  have "set (map po_tx_id (op_ledger_postings (reject_posting (po_tx_id x) msg db))) = set (map po_tx_id (op_ledger_postings db))"
    by (simp add: reject_posting_def map_update_where del: set_map)
  then have "po_tx_id y \<in> po_tx_id ` set (op_ledger_postings (reject_posting (po_tx_id x) msg db))" using assms(1) by (simp add: row_live_def)
  with assms show ?thesis by (auto simp: row_live_def reject_posting_def set_update_where)
qed

lemma replaying_reject:
  "triple (\<lambda>w. replaying n (x # rest) w \<and> \<not> posted_in w (po_merchant_id x) (po_tx_id x))
     (d1_put (reject_posting (po_tx_id x) msg)) (\<lambda>_. replaying n rest) (\<lambda>_. replaying n [])"
proof (rule triple_d1_put)
  show "fate_stable (\<lambda>w. replaying n (x # rest) w \<and> \<not> posted_in w (po_merchant_id x) (po_tx_id x))"
    using replaying_stable [of n "x # rest"] by (simp add: fate_stable_def posted_in_def)
  fix w assume w: "replaying n (x # rest) w \<and> \<not> posted_in w (po_merchant_id x) (po_tx_id x)"
  let ?w = "w\<lparr>w_db := reject_posting (po_tx_id x) msg (w_db w)\<rparr>"
  have live: "row_live x (w_db w)" using w by (simp add: replaying_def)
  have "no_poison ?w"
    using w reject_keys [OF live, of msg] by (fastforce simp: replaying_def no_poison_def posted_in_def)
  moreover have "\<forall>y \<in> set rest. row_live y (w_db ?w)"
    using w reject_live [of _ "w_db w" x msg] by (auto simp: replaying_def image_iff)
  ultimately show new: "replaying n rest ?w" using w by (auto simp: replaying_def world_ok_def poison_pages_def)
  show "replaying n [] ?w" using new by (simp add: replaying_def)
qed (auto simp: replaying_def)

lemma replaying_end: "replaying n rest w \<Longrightarrow> replaying n [] w"
  by (simp add: replaying_def)

lemma triple_foldEach:
  assumes "\<And>x xs a. triple (I (x # xs)) (body x a) (\<lambda>_. I xs) (\<lambda>_. J)"
  shows "triple (I xs) (foldEach xs a body) (\<lambda>_. I []) (\<lambda>_. J)"
  by (induction xs arbitrary: a) (auto intro: triple_ret triple_andThen [OF assms])

lemma failed_safe:
  "triple (\<lambda>w. replaying n (x # rest) w \<and> \<not> posted_in w (po_merchant_id x) (po_tx_id x)) (failed_posting x p res) (\<lambda>_. replaying n rest) (\<lambda>_. replaying n [])"
proof -
  let ?P = "\<lambda>w. replaying n (x # rest) w \<and> \<not> posted_in w (po_merchant_id x) (po_tx_id x)"
  have pg: "triple (replaying n rest) (page c) (\<lambda>_. replaying n rest) (\<lambda>_. replaying n [])" if "c \<noteq> ''LEDGER_POISON_DETECTED''" for c
    by (rule triple_weaken [OF replaying_page [OF that, of n rest]]) (auto dest: replaying_end)
  have bump: "triple ?P (d1_put (bumpAttempts (po_tx_id x) msg)) (\<lambda>_. replaying n rest) (\<lambda>_. replaying n [])" for msg
    by (rule triple_weaken [OF replaying_bump [of n "x # rest"]]) (auto dest: replaying_tail intro: replaying_end)
  show ?thesis
    unfolding failed_posting_def Let_def
    by (auto intro!: triple_andThen [OF replaying_reject] triple_andThen [OF pg] triple_andThen [OF bump] triple_ret)
qed

lemma replaying_heal: "preserves (replaying n rest) (heal_audit_trail p t)"
  unfolding heal_audit_trail_def
  by (intro preserves_andThen preserves_d1_get preserves_d1_put replaying_stable, rule replaying_db)
     (use batch_clean clean_audit in \<open>blast+\<close>)

lemma replay_row_safe:
  "triple (replaying n (x # rest)) (replay_row x res) (\<lambda>_. replaying n rest) (\<lambda>_. replaying n [])"
proof -
  let ?Q = "\<lambda>posted w. replaying n (x # rest) w \<and>
     (\<forall>p. posted = Inr p \<longrightarrow> res_status p = Failed \<longrightarrow> \<not> posted_in w (po_merchant_id x) (po_tx_id x))"
  have sent: "triple (replaying n (x # rest)) (andThen (stub_postTransaction (po_merchant_id x) (po_payload x)) (\<lambda>r. ret (Inr r)))
     ?Q (\<lambda>_. replaying n (x # rest))"
    by (rule triple_andThen [OF replaying_post [of x "x # rest" n]]) (auto intro!: triple_ret)
  have lost: "triple (replaying n (x # rest)) (andThen (d1_put (bumpAttempts (po_tx_id x) (exn_message e))) (\<lambda>_. ret (Inl (res\<lparr>pr_failed := pr_failed res + 1\<rparr>))))
     ?Q (\<lambda>_. replaying n (x # rest))" for e
    by (rule triple_andThen [OF replaying_bump]) (auto intro!: triple_ret)
  note first = triple_catching [OF sent lost]
  have rest: "triple (?Q posted) (case posted of Inl res' \<Rightarrow> ret res' | Inr p \<Rightarrow> (case res_status p of
           Failed \<Rightarrow> failed_posting x p res
         | Duplicate \<Rightarrow> andThen (heal_audit_trail (po_payload x) (res_posted_at p)) (\<lambda>_. ret (res\<lparr>pr_healed := pr_healed res + 1\<rparr>))
         | Posted \<Rightarrow> andThen (stub_drainOutbox (po_merchant_id x)) (\<lambda>_. ret (res\<lparr>pr_replayed := pr_replayed res + 1\<rparr>))))
     (\<lambda>_. replaying n rest) (\<lambda>_. replaying n [])" for posted
  proof (cases posted)
    case (Inl r)
    then show ?thesis by (auto intro!: triple_ret dest: replaying_tail)
  next
    case (Inr p)
    have keep: "triple (?Q posted) (andThen m (\<lambda>_. ret b)) (\<lambda>_. replaying n rest) (\<lambda>_. replaying n [])"
      if "preserves (replaying n (x # rest)) m" for m :: "'z svc" and b :: pending_result
    proof (rule triple_weaken)
      show "triple (replaying n (x # rest)) (andThen m (\<lambda>_. ret b)) (\<lambda>_. replaying n (x # rest)) (\<lambda>_. replaying n (x # rest))"
        by (rule triple_andThen [OF that triple_ret])
    qed (auto dest: replaying_end replaying_tail)
    show ?thesis
    proof (cases "res_status p")
      case Failed
      show ?thesis unfolding Inr by (simp add: Failed) (rule triple_weaken [OF failed_safe], auto)
    qed (use Inr keep [OF replaying_drain] keep [OF replaying_heal] in auto)
  qed
  show ?thesis
    unfolding replay_row_def
    by (rule triple_andThen [OF triple_weaken [OF first] rest]) (auto dest: replaying_end)
qed

lemma status_exists: "fst (getTransactionStatus tx d) = (tx \<in> posted_ids d)"
  by (auto simp: getTransactionStatus_def posted_ids_def Let_def filter_empty_conv)

definition poison_inv :: "string list \<Rightarrow> posting_row list \<Rightarrow> world \<Rightarrow> bool" where
  "poison_inv n rows w \<longleftrightarrow> replaying n [] w \<and> (\<forall>r \<in> set rows. (po_merchant_id r, po_tx_id r) \<in> rejected_keys (w_db w))"

lemma poison_inv_stable: "fate_stable (poison_inv n rows)"
  using replaying_stable [of n "[]"] by (simp add: fate_stable_def poison_inv_def)

lemma triple_read:
  assumes "fate_stable P" and "\<And>w. P w \<Longrightarrow> Q (f (w_now w) (w_objects w m)) w" and "\<And>e w. P w \<Longrightarrow> E e w"
  shows "triple P (stub_read m f) Q E"
  unfolding stub_read_def ledger_call_def by (rule triple_call [OF assms(1)]) (simp_all add: assms(2,3))

lemma poison_check_silent:
  assumes "r \<in> set rows"
  shows "preserves (poison_inv n rows) (poison_check r)"
  unfolding poison_check_def
proof (rule preserves_catching [OF triple_andThen])
  let ?m = "po_merchant_id r"
  show "triple (poison_inv n rows) (stub_read ?m (\<lambda>_. getTransactionStatus (po_tx_id r))) (\<lambda>st w. poison_inv n rows w \<and> \<not> fst st) (\<lambda>_. poison_inv n rows)"
    by (rule triple_read [OF poison_inv_stable])
       (use assms in \<open>auto simp: poison_inv_def status_exists replaying_def no_poison_def posted_in_def\<close>)
  show "triple (\<lambda>w. poison_inv n rows w \<and> \<not> fst st) (if fst st then page ''LEDGER_POISON_DETECTED'' else ret ()) (\<lambda>_. poison_inv n rows) (\<lambda>_. poison_inv n rows)" for st :: "bool \<times> iso option"
    by (cases "fst st") (auto simp: triple_def ret_def)
qed (rule triple_ret)

lemma rejected_rows_keys: "r \<in> set (rejected_rows db) \<Longrightarrow> (po_merchant_id r, po_tx_id r) \<in> rejected_keys db"
  by (auto simp: rejected_rows_def rejected_keys_def dest!: in_set_takeD)

lemma pending_rows_live:
  assumes "postings_ok db"
  shows "x \<in> set (pending_rows c l db) \<Longrightarrow> row_faithful x \<and> row_live x db" and "distinct (map po_tx_id (pending_rows c l db))"
proof -
  let ?p = "filter (\<lambda>r. po_status r = PoPending \<and> po_created_at r < c) (op_ledger_postings db)"
  have d: "distinct (map po_tx_id (op_ledger_postings db))" using assms by (simp add: postings_ok_def)
  then have "distinct (map po_tx_id ?p)" by (rule distinct_map_filter)
  then have "distinct (map po_tx_id (sort_key po_created_at ?p))" by (simp add: distinct_map)
  then show "distinct (map po_tx_id (pending_rows c l db))"
    unfolding pending_rows_def take_map [symmetric] by (rule distinct_take)
  assume "x \<in> set (pending_rows c l db)"
  then have x: "x \<in> set (op_ledger_postings db)" "po_status x = PoPending" by (auto simp: pending_rows_def dest!: in_set_takeD)
  with d have same: "\<And>r. r \<in> set (op_ledger_postings db) \<Longrightarrow> po_tx_id r = po_tx_id x \<Longrightarrow> r = x"
    by (auto simp: distinct_map inj_on_def)
  from x assms show "row_faithful x \<and> row_live x db" by (auto simp: postings_ok_def row_live_def dest!: same)
qed

text \<open>C23: reconciliation quarantines only what the ledger has not accepted.  With the outbox on, if no
  rejected row belongs to an accepted transaction and the pending rows hold the payloads that were
  checked, then after a run, complete or cut short by any lost call, no rejected row belongs to an
  accepted transaction, and the run has not raised the poison alarm.\<close>

theorem reconcile_quarantine_sound:
  assumes "world_ok w" and "outbox_enabled (ae_ledger (w_env w))" and "postings_ok (w_db w)" and "no_poison w"
    and "reconcilePendingPostings grace limit w = (x, w')"
  shows "no_poison w' \<and> poison_pages w' = poison_pages w"
proof -
  let ?n = "poison_pages w"
  let ?S = "\<lambda>v. replaying ?n [] v \<and> w_db v = w_db w"
  have st: "fate_stable ?S" using replaying_stable [of ?n "[]"] by (simp add: fate_stable_def)
  have chk: "triple (poison_inv ?n rows) (andThen (forEach rows poison_check) (\<lambda>_. andThen (d1_get f) (\<lambda>n. ret (g n)))) (\<lambda>_. replaying ?n []) (\<lambda>_. replaying ?n [])"
    for rows and f :: "d1 \<Rightarrow> nat" and g :: "nat \<Rightarrow> pending_result"
    by (rule triple_weaken [where P = "poison_inv ?n rows" and Q = "\<lambda>_. poison_inv ?n rows" and E = "\<lambda>_. poison_inv ?n rows"])
       (auto intro!: preserves_andThen preserves_forEach poison_check_silent preserves_d1_get poison_inv_stable triple_ret simp: poison_inv_def)
  have get: "triple (replaying ?n []) (d1_get rejected_rows) (\<lambda>rows. poison_inv ?n rows) (\<lambda>_. replaying ?n [])"
    by (rule triple_d1_get [OF replaying_stable]) (auto simp: poison_inv_def rejected_rows_keys)
  have loop: "triple (replaying ?n rows) (foldEach rows a replay_row) (\<lambda>_. replaying ?n []) (\<lambda>_. replaying ?n [])" for rows a
    by (rule triple_foldEach [OF replay_row_safe])
  have rows: "triple ?S (d1_get (pending_rows c l)) (\<lambda>rows. replaying ?n rows) (\<lambda>_. replaying ?n [])" for c l
    by (rule triple_d1_get [OF st]) (auto simp: replaying_def pending_rows_live [OF assms(3)])
  have "triple ?S (reconcilePendingPostings grace limit) (\<lambda>_. replaying ?n []) (\<lambda>_. replaying ?n [])"
    unfolding reconcilePendingPostings_def
    by (rule triple_andThen [OF triple_weaken [OF quiet_pure(1)]], assumption, assumption, simp, rule triple_andThen [OF rows], rule triple_andThen [OF loop],
        rule triple_andThen [OF get], rule chk)
  moreover have "?S w" using assms by (simp add: replaying_def)
  ultimately have "replaying ?n [] w'" using triple_snd [of ?S "reconcilePendingPostings grace limit" "replaying ?n []" w] assms(5) by simp
  then show ?thesis by (simp add: replaying_def)
qed

section \<open>A pending row the ledger refuses\<close>

definition refused_payload :: posting_payload where
  "refused_payload = \<lparr>pp_tx_id = ''m7:refund:r1'', pp_merchant_id = 7, pp_reference_type = RRefund, pp_reference_id = Some ''r1'', pp_description = ''r'',
     pp_currency = ''BDT'', pp_entries = [\<lparr>pe_account_code = ''4000'', pe_d1_account_id = 1, pe_direction = Debit, pe_amount = ''0.05'', pe_amount_minor = JInt 5\<rparr>,
       \<lparr>pe_account_code = ''1010'', pe_d1_account_id = 2, pe_direction = Credit, pe_amount = ''0.05'', pe_amount_minor = JInt 5\<rparr>]\<rparr>"

definition pending_world :: world where
  "pending_world = demo_world\<lparr>w_db := (w_db demo_world)\<lparr>op_ledger_postings := [fresh_posting_row 7 refused_payload PoPending (-90000) None]\<rparr>\<rparr>"

lemma pending_world_facts:
  "outbox_enabled (ae_ledger (w_env pending_world))" "postings_ok (w_db pending_world)" "rejected_keys (w_db pending_world) = {}" "poison_pages pending_world = []"
  by (simp add: pending_world_def demo_world_def demo_env_def,
      simp add: pending_world_def postings_ok_def row_faithful_def fresh_posting_row_def refused_payload_def, code_simp,
      simp add: pending_world_def rejected_keys_def fresh_posting_row_def, code_simp)

lemmas replay_run [code] = replay_row_def [THEN fun_cong, unfolded prog_run]
lemmas failed_run [code] = failed_posting_def [THEN fun_cong, unfolded prog_run]

lemma pending_world_rejects:
  "fst (reconcilePendingPostings None None pending_world) = Inr \<lparr>pr_replayed = 0, pr_healed = 0, pr_rejected = 1, pr_failed = 0, pr_remaining = 0\<rparr>"
  by code_simp

theorem reconcile_quarantine_sound_witness:
  "fst (reconcilePendingPostings None None pending_world) = Inr \<lparr>pr_replayed = 0, pr_healed = 0, pr_rejected = 1, pr_failed = 0, pr_remaining = 0\<rparr> \<and>
   no_poison (snd (reconcilePendingPostings None None pending_world)) \<and> poison_pages (snd (reconcilePendingPostings None None pending_world)) = []"
proof -
  let ?run = "reconcilePendingPostings None None pending_world"
  have "world_ok pending_world" using demo_world_ok by (simp add: pending_world_def world_ok_def)
  moreover have "no_poison pending_world" using pending_world_facts by (simp add: no_poison_def)
  ultimately have "no_poison (snd ?run) \<and> poison_pages (snd ?run) = poison_pages pending_world"
    using pending_world_facts by (intro reconcile_quarantine_sound [where grace = None and limit = None and x = "fst ?run"]) simp_all
  then show ?thesis using pending_world_facts pending_world_rejects by simp
qed

section \<open>Re-driving stuck refunds\<close>

definition redriven :: "iso \<Rightarrow> refund_row \<Rightarrow> refund_row" where
  "redriven now r = r\<lparr>rf_workflow_attempts := rf_workflow_attempts r + 1, rf_last_workflow_at := Some now\<rparr>"

definition stuck_row :: "iso \<Rightarrow> refund_row \<Rightarrow> bool" where
  "stuck_row cutoff r \<longleftrightarrow> rf_status r = RfPending \<and> rf_created_at r < cutoff \<and> rf_workflow_attempts r < MAX_REFUND_WORKFLOW_ATTEMPTS"

definition sweep_instance :: "refund_row \<Rightarrow> string" where
  "sweep_instance r = buildRefundInstanceId (rf_id r) (Some (''sweep-'' @ nat_str (rf_workflow_attempts r + 1)))"

lemma trigger_frame:
  assumes "triggerRefundReconciliation dup r s w = (x, w')"
  shows "w_db w' = w_db w" "w_now w' = w_now w" "w_pages w' = w_pages w"
    "x = Inr res \<Longrightarrow> buildRefundInstanceId r s \<in> fst ` set (w_refund_instances w')"
    "set (w_refund_instances w) \<subseteq> set (w_refund_instances w')"
proof -
  obtain f w1 where nf: "next_fate w = (f, w1)" by (cases "next_fate w")
  note F = next_fate_frame [OF nf]
  note defs = triggerRefundReconciliation_def Let_def created_or_duplicate_def refund_create_def remote_def andThen_def ret_def throw_def
  show "w_db w' = w_db w" "w_now w' = w_now w" "w_pages w' = w_pages w"
    "x = Inr res \<Longrightarrow> buildRefundInstanceId r s \<in> fst ` set (w_refund_instances w')"
    "set (w_refund_instances w) \<subseteq> set (w_refund_instances w')"
    using assms F nf by (cases f; auto simp: defs split: if_splits)+
qed

lemma put_run:
  assumes "d1_put f w = (Inr u, w')"
  shows "w_db w' = f (w_db w)" "w_now w' = w_now w" "w_pages w' = w_pages w" "w_refund_instances w' = w_refund_instances w"
proof -
  obtain g w1 where nf: "next_fate w = (g, w1)" by (cases "next_fate w")
  show "w_db w' = f (w_db w)" "w_now w' = w_now w" "w_pages w' = w_pages w" "w_refund_instances w' = w_refund_instances w"
    using assms next_fate_frame [OF nf] nf by (cases g; auto simp: d1_put_def d1_run_def remote_def)+
qed

lemma get_run:
  assumes "d1_get f w = (Inr a, w')"
  shows "a = f (w_db w)" "w_db w' = w_db w" "w_now w' = w_now w" "w_pages w' = w_pages w" "w_refund_instances w' = w_refund_instances w"
proof -
  obtain g w1 where nf: "next_fate w = (g, w1)" by (cases "next_fate w")
  show "a = f (w_db w)" "w_db w' = w_db w" "w_now w' = w_now w" "w_pages w' = w_pages w" "w_refund_instances w' = w_refund_instances w"
    using assms next_fate_frame [OF nf] nf by (cases g; auto simp: d1_get_def remote_def)+
qed

lemma andThen_Inr: "andThen m k w = (Inr b, w') \<Longrightarrow> (\<And>a v. m w = (Inr a, v) \<Longrightarrow> k a v = (Inr b, w') \<Longrightarrow> P) \<Longrightarrow> P"
  by (auto simp: andThen_def split: prod.splits sum.splits)

lemma redrive_run:
  assumes "redrive dup r n w = (Inr k, w')"
  shows "k = n + 1" "op_refunds (w_db w') = update_where (\<lambda>x. rf_id x = rf_id r) (redriven (w_now w)) (op_refunds (w_db w))"
    "w_now w' = w_now w" "w_pages w' = w_pages w" "sweep_instance r \<in> fst ` set (w_refund_instances w')"
    "set (w_refund_instances w) \<subseteq> set (w_refund_instances w')"
proof -
  from assms obtain t v where t: "triggerRefundReconciliation dup (rf_id r) (Some (''sweep-'' @ nat_str (rf_workflow_attempts r + 1))) w = (Inr t, v)"
    and p: "d1_put (count_attempt (rf_id r) (w_now v)) v = (Inr (), w')" and k: "k = n + 1"
    by (auto simp: redrive_def reading_def ret_def elim!: andThen_Inr)
  note T = trigger_frame [OF t] and P = put_run [OF p]
  show "k = n + 1" "op_refunds (w_db w') = update_where (\<lambda>x. rf_id x = rf_id r) (redriven (w_now w)) (op_refunds (w_db w))"
    "w_now w' = w_now w" "w_pages w' = w_pages w" "sweep_instance r \<in> fst ` set (w_refund_instances w')"
    "set (w_refund_instances w) \<subseteq> set (w_refund_instances w')"
    using k P T(1-3,5) T(4) [OF refl] by (simp_all add: count_attempt_def redriven_def [abs_def] sweep_instance_def)
qed

lemma update_where_insert:
  assumes "\<And>r. key (f r) = key r" and "k \<notin> K"
  shows "update_where (\<lambda>r. key r \<in> K) f (update_where (\<lambda>r. key r = k) f rs) = update_where (\<lambda>r. key r \<in> insert k K) f rs"
  using assms by (induction rs) auto

lemma redrives_run:
  assumes "foldEach rs n (redrive dup) w = (Inr k, w')" and "distinct (map rf_id rs)"
  shows "k = n + length rs \<and> w_now w' = w_now w \<and> w_pages w' = w_pages w \<and>
     op_refunds (w_db w') = update_where (\<lambda>x. rf_id x \<in> rf_id ` set rs) (redriven (w_now w)) (op_refunds (w_db w)) \<and>
     sweep_instance ` set rs \<subseteq> fst ` set (w_refund_instances w') \<and> set (w_refund_instances w) \<subseteq> set (w_refund_instances w')"
  using assms
proof (induction rs arbitrary: n w)
  case Nil
  then show ?case by (simp add: ret_def update_where_def)
next
  case (Cons r rs)
  from Cons.prems(1) obtain a v where a: "redrive dup r n w = (Inr a, v)" and b: "foldEach rs a (redrive dup) v = (Inr k, w')"
    by (auto elim: andThen_Inr)
  note A = redrive_run [OF a]
  have "distinct (map rf_id rs)" "rf_id r \<notin> rf_id ` set rs" using Cons.prems(2) by auto
  note IH = Cons.IH [OF b this(1)]
  have "update_where (\<lambda>x. rf_id x \<in> rf_id ` set rs) (redriven (w_now w)) (update_where (\<lambda>x. rf_id x = rf_id r) (redriven (w_now w)) (op_refunds (w_db w)))
      = update_where (\<lambda>x. rf_id x \<in> insert (rf_id r) (rf_id ` set rs)) (redriven (w_now w)) (op_refunds (w_db w))"
    by (rule update_where_insert) (simp_all add: redriven_def \<open>rf_id r \<notin> rf_id ` set rs\<close>)
  with IH A show ?case by (auto intro: image_mono [THEN subsetD])
qed

lemma pages_run: "forEach rs (\<lambda>_. page c) w = (Inr u, w') \<Longrightarrow> w' = w\<lparr>w_pages := w_pages w @ replicate (length rs) c\<rparr>"
proof (induction rs arbitrary: w)
  case (Cons r rs)
  then obtain v where v: "page c w = (Inr (), v)" and r: "forEach rs (\<lambda>_. page c) v = (Inr u, w')" by (auto elim!: andThen_Inr)
  have "v = w\<lparr>w_pages := w_pages w @ [c]\<rparr>" using v by (simp add: page_def writing_def)
  with Cons.IH [OF r] show ?case by simp
qed (simp add: ret_def)

text \<open>C24: a sweep that returns has re-driven every stuck refund exactly once.  Precisely the pending
  refunds older than 24 hours with an attempt left have one attempt more and an instance under
  their new id; no other refund has changed; every refund whose attempts are used up has paged.\<close>

theorem sweep_redrives_stuck:
  assumes "distinct (map rf_id (op_refunds (w_db w)))" and "sweepStuckRefunds dup w = (Inr res, w')"
  shows "let cutoff = w_now w - REFUND_STUCK_MS; rows = op_refunds (w_db w) in
     op_refunds (w_db w') = map (\<lambda>r. if stuck_row cutoff r then redriven (w_now w) r else r) rows \<and>
     sr_retriggered res = length (filter (stuck_row cutoff) rows) \<and>
     sweep_instance ` set (filter (stuck_row cutoff) rows) \<subseteq> fst ` set (w_refund_instances w') \<and>
     w_pages w' = w_pages w @ replicate (length (exhausted_refunds cutoff (w_db w'))) ''REFUND_STUCK_MANUAL_REVIEW'' \<and>
     sr_stuck res = length (exhausted_refunds cutoff (w_db w'))"
proof -
  let ?c = "w_now w - REFUND_STUCK_MS"
  let ?rows = "op_refunds (w_db w)" and ?stuck = "filter (stuck_row (w_now w - REFUND_STUCK_MS)) (op_refunds (w_db w))"
  from assms(2) obtain s w1 n w2 g w3 where s: "d1_get (stuck_refunds ?c) w = (Inr s, w1)" and l: "foldEach s 0 (redrive dup) w1 = (Inr n, w2)"
    and g: "d1_get (exhausted_refunds ?c) w2 = (Inr g, w3)" and pg: "forEach g (\<lambda>_. page ''REFUND_STUCK_MANUAL_REVIEW'') w3 = (Inr (), w')"
    and res: "res = \<lparr>sr_retriggered = n, sr_stuck = length g\<rparr>"
    by (auto simp: sweepStuckRefunds_def reading_def ret_def elim!: andThen_Inr)
  note S = get_run [OF s] and G = get_run [OF g] and PG = pages_run [OF pg]
  have stuck: "s = ?stuck" using S(1) by (simp add: stuck_refunds_def stuck_row_def [abs_def])
  have d: "distinct (map rf_id s)" using assms(1) by (simp add: stuck distinct_map_filter)
  note L = redrives_run [OF l d]
  have mem: "rf_id x \<in> rf_id ` set s \<longleftrightarrow> stuck_row ?c x" if "x \<in> set ?rows" for x
    using that assms(1) by (auto simp: stuck distinct_map inj_on_def)
  have "op_refunds (w_db w2) = map (\<lambda>r. if stuck_row ?c r then redriven (w_now w) r else r) ?rows"
    using L S(2,3) mem by (auto simp: update_where_def)
  then have rows: "op_refunds (w_db w') = map (\<lambda>r. if stuck_row ?c r then redriven (w_now w) r else r) ?rows" using PG G(2) by simp
  have "sweep_instance ` set ?stuck \<subseteq> fst ` set (w_refund_instances w')" using L G(5) PG stuck by simp
  moreover have "g = exhausted_refunds ?c (w_db w')" using G(1,2) PG by simp
  moreover have "w_pages w' = w_pages w @ replicate (length g) ''REFUND_STUCK_MANUAL_REVIEW''" using PG G(4) L S(4) by simp
  moreover have "sr_retriggered res = length ?stuck" "sr_stuck res = length g" using res L stuck by simp_all
  ultimately show ?thesis using rows by (simp add: Let_def)
qed

definition late_world :: world where
  "late_world = refund_world\<lparr>w_now := 90000000\<rparr>"

lemmas redrive_code [code] = redrive_def [THEN fun_cong, unfolded prog_run]
lemmas sweep_code [code] = sweepStuckRefunds_def [THEN fun_cong, unfolded prog_run]

lemma late_world_sweep:
  "fst (sweepStuckRefunds plain_duplicate late_world) = Inr \<lparr>sr_retriggered = 1, sr_stuck = 0\<rparr>"
  "sweep_instance unsent_refund = ''refund-4-sweep-1''"
  "filter (stuck_row 3600000) (op_refunds (w_db late_world)) = [unsent_refund]"
  by code_simp+

theorem sweep_redrives_stuck_witness:
  "''refund-4-sweep-1'' \<in> fst ` set (w_refund_instances (snd (sweepStuckRefunds plain_duplicate late_world)))"
proof -
  let ?run = "sweepStuckRefunds plain_duplicate late_world"
  have "distinct (map rf_id (op_refunds (w_db late_world)))" by (simp add: late_world_def refund_world_def)
  moreover have "?run = (Inr \<lparr>sr_retriggered = 1, sr_stuck = 0\<rparr>, snd ?run)" using late_world_sweep(1) by (metis prod.collapse)
  moreover have "w_now late_world - REFUND_STUCK_MS = 3600000" by (simp add: late_world_def REFUND_STUCK_MS_def)
  ultimately have "sweep_instance ` set (filter (stuck_row 3600000) (op_refunds (w_db late_world))) \<subseteq> fst ` set (w_refund_instances (snd ?run))"
    using sweep_redrives_stuck [of late_world plain_duplicate "\<lparr>sr_retriggered = 1, sr_stuck = 0\<rparr>" "snd ?run"] by (simp only: Let_def)
  then show ?thesis by (simp only: late_world_sweep) (simp add: late_world_sweep)
qed

section \<open>The attempts of a refund are bounded\<close>

definition attempts_bounded :: "refund_row list \<Rightarrow> world \<Rightarrow> bool" where
  "attempts_bounded rest w \<longleftrightarrow> distinct (map rf_id rest) \<and> (\<forall>r \<in> set (op_refunds (w_db w)). rf_workflow_attempts r \<le> MAX_REFUND_WORKFLOW_ATTEMPTS \<and>
     (rf_id r \<in> rf_id ` set rest \<longrightarrow> rf_workflow_attempts r < MAX_REFUND_WORKFLOW_ATTEMPTS))"

lemma attempts_stable: "fate_stable (attempts_bounded rest)"
  by (simp add: fate_stable_def attempts_bounded_def)

lemma attempts_end: "attempts_bounded rest w \<Longrightarrow> attempts_bounded [] w"
  by (simp add: attempts_bounded_def)

lemma redrive_bounded:
  "triple (attempts_bounded (r # rest)) (redrive dup r n) (\<lambda>_. attempts_bounded rest) (\<lambda>_. attempts_bounded [])"
proof -
  let ?I = "attempts_bounded (r # rest)"
  have trig: "preserves ?I (triggerRefundReconciliation dup i s)" for i s
    unfolding triple_def
  proof (intro allI impI)
    fix w assume w: "?I w"
    obtain x w' where run: "triggerRefundReconciliation dup i s w = (x, w')" by fastforce
    with trigger_frame(1) [OF run] w show "case triggerRefundReconciliation dup i s w of (Inl e, w') \<Rightarrow> ?I w' | (Inr a, w') \<Rightarrow> ?I w'"
      by (simp add: attempts_bounded_def split: sum.split)
  qed
  have put: "triple ?I (d1_put (count_attempt (rf_id r) now)) (\<lambda>_. attempts_bounded rest) (\<lambda>_. attempts_bounded [])" for now
  proof (rule triple_d1_put [OF attempts_stable])
    fix w assume w: "?I w"
    have "rf_workflow_attempts x' \<le> MAX_REFUND_WORKFLOW_ATTEMPTS \<and> (rf_id x' \<in> rf_id ` set rest \<longrightarrow> rf_workflow_attempts x' < MAX_REFUND_WORKFLOW_ATTEMPTS)"
      if x': "x' \<in> set (update_where (\<lambda>x. rf_id x = rf_id r) (redriven now) (op_refunds (w_db w)))" for x'
    proof -
      obtain x where x: "x \<in> set (op_refunds (w_db w))" "x' = (if rf_id x = rf_id r then redriven now x else x)"
        using x' unfolding set_update_where by blast
      with w show ?thesis by (cases "rf_id x = rf_id r") (auto simp: attempts_bounded_def redriven_def Suc_le_eq)
    qed
    with w show new: "attempts_bounded rest (w\<lparr>w_db := count_attempt (rf_id r) now (w_db w)\<rparr>)"
      by (simp add: attempts_bounded_def count_attempt_def redriven_def [abs_def])
    show "attempts_bounded [] (w\<lparr>w_db := count_attempt (rf_id r) now (w_db w)\<rparr>)" using attempts_end [OF new] .
  qed (rule attempts_end)
  show ?thesis
    unfolding redrive_def
    by (rule triple_andThen [OF triple_weaken [OF trig [of "rf_id r" "Some (''sweep-'' @ nat_str (rf_workflow_attempts r + 1))"]]],
        assumption, assumption, erule attempts_end, rule triple_andThen [OF triple_reading], assumption,
        rule triple_andThen [OF put], rule triple_ret)
qed

text \<open>A whole sweep, complete or not, keeps every refund within its attempts.\<close>

lemma sweep_bounded:
  assumes "distinct (map rf_id (op_refunds (w_db w)))" and "attempts_bounded [] w" and "sweepStuckRefunds dup w = (x, w')"
  shows "attempts_bounded [] w'"
proof -
  let ?P = "\<lambda>v. attempts_bounded [] v \<and> w_db v = w_db w"
  have st: "fate_stable ?P" using attempts_stable [of "[]"] by (simp add: fate_stable_def)
  have get: "triple ?P (d1_get (stuck_refunds c)) (\<lambda>rows. attempts_bounded rows) (\<lambda>_. attempts_bounded [])" for c
  proof (rule triple_d1_get [OF st])
    fix v assume v: "?P v"
    have d: "distinct (map rf_id (op_refunds (w_db v)))" using assms(1) v by simp
    have lt: "rf_workflow_attempts r < MAX_REFUND_WORKFLOW_ATTEMPTS"
      if "r \<in> set (op_refunds (w_db v))" "rf_id r \<in> rf_id ` set (stuck_refunds c (w_db v))" for r
    proof -
      from that(2) obtain s where s: "s \<in> set (op_refunds (w_db v))" "rf_id s = rf_id r" "rf_workflow_attempts s < MAX_REFUND_WORKFLOW_ATTEMPTS"
        by (auto simp: stuck_refunds_def)
      with that(1) d have "s = r" by (auto simp: distinct_map inj_on_def)
      with s show ?thesis by simp
    qed
    have "distinct (map rf_id (stuck_refunds c (w_db v)))" using d by (simp add: stuck_refunds_def distinct_map_filter)
    moreover have "\<forall>r \<in> set (op_refunds (w_db v)). rf_workflow_attempts r \<le> MAX_REFUND_WORKFLOW_ATTEMPTS"
      using v by (simp add: attempts_bounded_def)
    ultimately show "attempts_bounded (stuck_refunds c (w_db v)) v" unfolding attempts_bounded_def using lt by blast
  qed simp
  have pages: "preserves (attempts_bounded []) (page c)" for c
    unfolding page_def by (rule triple_writing) (simp add: attempts_bounded_def)
  have loop: "triple (attempts_bounded rows) (foldEach rows a (redrive dup)) (\<lambda>_. attempts_bounded []) (\<lambda>_. attempts_bounded [])" for rows a
    by (rule triple_foldEach [OF redrive_bounded])
  have "triple ?P (sweepStuckRefunds dup) (\<lambda>_. attempts_bounded []) (\<lambda>_. attempts_bounded [])"
    unfolding sweepStuckRefunds_def
    by (rule triple_andThen [OF triple_reading], assumption, rule triple_andThen [OF get], rule triple_andThen [OF loop],
        intro preserves_andThen preserves_d1_get attempts_stable preserves_forEach pages triple_ret)
  from triple_snd [OF this, of w] assms(2,3) show ?thesis by simp
qed

section \<open>The record of a run\<close>

definition runs_are :: "recon_run_row list \<Rightarrow> world \<Rightarrow> bool" where
  "runs_are rs w \<longleftrightarrow> world_ok w \<and> op_reconciliation_runs (w_db w) = rs"

lemma batch_runs [simp]: "op_reconciliation_runs (run_batch sts db) = op_reconciliation_runs db"
proof -
  have "op_reconciliation_runs (exec_stmt st db) = op_reconciliation_runs db" for st db by (cases st) (auto split: option.split)
  then have "op_reconciliation_runs (fold exec_stmt sts db) = op_reconciliation_runs db" by (induction sts arbitrary: db) auto
  then show ?thesis by (simp add: run_batch_def)
qed

lemma runs_stable: "fate_stable (runs_are rs)"
  by (simp add: fate_stable_def runs_are_def world_ok_def)

lemma runs_get: "preserves (runs_are rs) (d1_get f)"
  by (rule preserves_d1_get [OF runs_stable])

lemma runs_put: "(\<And>db. op_reconciliation_runs (f db) = op_reconciliation_runs db) \<Longrightarrow> preserves (runs_are rs) (d1_put f)"
  by (rule preserves_d1_put [OF runs_stable]) (simp add: runs_are_def world_ok_def)

lemma runs_page: "preserves (runs_are rs) (page c)"
  unfolding page_def by (rule triple_writing) (simp add: runs_are_def world_ok_def)

lemma runs_read: "preserves (runs_are rs) (stub_read m f)"
  by (rule triple_read [OF runs_stable])

lemma runs_object:
  assumes "runs_are rs w" and "obj_ok d" and "\<exists>sts. db = run_batch sts (w_db w)"
  shows "runs_are rs (w\<lparr>w_objects := (w_objects w)(m := d), w_db := db\<rparr>)"
  using assms by (auto simp: runs_are_def world_ok_def)

lemma runs_post: "preserves (runs_are rs) (stub_postTransaction m p)"
  unfolding stub_postTransaction_def ledger_call_def
proof (rule triple_call [OF runs_stable])
  let ?op = "\<lambda>w. case postTransaction (ae_ledger (w_env w)) (w_now w) (w_d1_up w) p (w_objects w m, w_db w) of
       (a, (d, db)) \<Rightarrow> (a, w\<lparr>w_objects := (w_objects w)(m := d), w_db := db\<rparr>)"
  show op: "runs_are rs (snd (?op w))" if w: "runs_are rs w" for w
  proof -
    obtain r d db where run: "postTransaction (ae_ledger (w_env w)) (w_now w) (w_d1_up w) p (w_objects w m, w_db w) = (r, (d, db))"
      by (metis prod.exhaust)
    have ok: "obj_ok (w_objects w m)" using w by (simp add: runs_are_def world_ok_def)
    have "obj_ok d" using exec_obj_ok(1) [of "(w_objects w m, w_db w)" "CPost (ae_ledger (w_env w)) (w_now w) (w_d1_up w) p"] ok run by simp
    moreover have "\<exists>sts. db = run_batch sts (w_db w)"
      using post_writes [of "w_objects w m" "ae_ledger (w_env w)" "w_now w" "w_d1_up w" p "w_db w"] ok run by (auto simp: obj_ok_def)
    ultimately show ?thesis using runs_object [OF w] run by simp
  qed
  show "runs_are rs (snd (?op w))" if "runs_are rs w" for w using op [OF that] .
qed

lemma runs_drain: "preserves (runs_are rs) (stub_drainOutbox m)"
  unfolding stub_drainOutbox_def ledger_call_def
proof (rule triple_call [OF runs_stable])
  let ?op = "\<lambda>w. case drainOutbox True (w_now w) (w_d1_up w) (w_objects w m, w_db w) of (a, (d, db)) \<Rightarrow> (a, w\<lparr>w_objects := (w_objects w)(m := d), w_db := db\<rparr>)"
  show op: "runs_are rs (snd (?op w))" if w: "runs_are rs w" for w
  proof -
    obtain r d db where run: "drainOutbox True (w_now w) (w_d1_up w) (w_objects w m, w_db w) = (r, (d, db))" by (metis prod.exhaust)
    have ok: "obj_ok (w_objects w m)" using w by (simp add: runs_are_def world_ok_def)
    have "obj_ok d" using exec_obj_ok(1) [of "(w_objects w m, w_db w)" "CDrain True (w_now w) (w_d1_up w)"] ok run by simp
    moreover have "\<exists>sts. db = run_batch sts (w_db w)"
      using drain_writes [of True "w_now w" "w_d1_up w" "w_objects w m" "w_db w"] run by auto
    ultimately show ?thesis using runs_object [OF w] run by simp
  qed
  show "runs_are rs (snd (?op w))" if "runs_are rs w" for w using op [OF that] .
qed

lemmas runs_rules = preserves_andThen preserves_catching preserves_forEach preserves_foldEach preserves_option preserves_sum preserves_if
  quiet_pure runs_get runs_put runs_page runs_read runs_post runs_drain

lemma runs_reconcile: "preserves (runs_are rs) (reconcilePendingPostings g l)"
proof -
  have failed: "preserves (runs_are rs) (failed_posting row p res)" for row p res
    unfolding failed_posting_def Let_def
    by (intro runs_rules) (simp_all add: reject_posting_def bumpAttempts_def)
  have heal: "preserves (runs_are rs) (heal_audit_trail p t)" for p t
    unfolding heal_audit_trail_def by (intro runs_rules) simp
  have answer: "preserves (runs_are rs) (case st of Posted \<Rightarrow> a | Duplicate \<Rightarrow> b | Failed \<Rightarrow> c)"
    if "preserves (runs_are rs) a" "preserves (runs_are rs) b" "preserves (runs_are rs) c" for a b c :: "pending_result svc" and st
    using that by (cases st) simp_all
  have row: "preserves (runs_are rs) (replay_row row res)" for row res
    unfolding replay_row_def
    by (intro runs_rules answer failed heal) (simp add: bumpAttempts_def)
  show ?thesis
    unfolding reconcilePendingPostings_def poison_check_def by (intro runs_rules row)
qed

lemma runs_verify: "preserves (runs_are rs) (verifyAllMerchants L)"
proof -
  have one: "preserves (runs_are rs) (verifyDurableObjectConsistency L m)" for m
    unfolding verifyDurableObjectConsistency_def Let_def by (intro runs_rules)
  show ?thesis unfolding verifyAllMerchants_def verify_merchant_def by (intro runs_rules one)
qed

lemma runs_sweep: "preserves (runs_are rs) (sweepStuckRefunds dup)"
proof -
  have trig: "preserves (runs_are rs) (triggerRefundReconciliation dup i s)" for i s
    unfolding triggerRefundReconciliation_def Let_def created_or_duplicate_def refund_create_def
    by (intro runs_rules triple_call [OF runs_stable]) (simp_all add: runs_are_def world_ok_def)
  show ?thesis unfolding sweepStuckRefunds_def redrive_def by (intro runs_rules trig) (simp add: count_attempt_def)
qed

lemma runs_stats: "preserves (runs_are rs) collectOutboxStats"
  unfolding collectOutboxStats_def outbox_of_def Let_def by (intro runs_rules)

text \<open>Every row of the batch is counted once.\<close>

definition counted :: "pending_result \<Rightarrow> nat" where
  "counted r = pr_replayed r + pr_healed r + pr_rejected r + pr_failed r"

lemma replay_counts: "replay_row row res w = (Inr res', w') \<Longrightarrow> counted res' = counted res + 1"
  by (auto simp: replay_row_def failed_posting_def Let_def catching_def andThen_def ret_def counted_def
      split: prod.splits sum.splits posting_status.splits if_splits)

lemma replays_count: "foldEach rows res replay_row w = (Inr res', w') \<Longrightarrow> counted res' = counted res + length rows"
proof (induction rows arbitrary: res w)
  case (Cons r rows)
  from Cons.prems obtain a v where a: "replay_row r res w = (Inr a, v)" and b: "foldEach rows a replay_row v = (Inr res', w')"
    by (auto elim: andThen_Inr)
  with Cons.IH [OF b] replay_counts [OF a] show ?case by simp
qed (simp add: ret_def)

lemma reconcile_counts:
  assumes "reconcilePendingPostings None None w = (Inr res, w')"
  shows "counted res = length (pending_rows (w_now w - PENDING_GRACE_MS) 200 (w_db w))"
proof -
  from assms obtain rows w1 r w2 n where rows: "d1_get (pending_rows (w_now w - PENDING_GRACE_MS) 200) w = (Inr rows, w1)"
    and l: "foldEach rows \<lparr>pr_replayed = 0, pr_healed = 0, pr_rejected = 0, pr_failed = 0, pr_remaining = 0\<rparr> replay_row w1 = (Inr r, w2)"
    and res: "res = r\<lparr>pr_remaining := n\<rparr>"
    by (auto simp: reconcilePendingPostings_def reading_def ret_def elim!: andThen_Inr)
  with replays_count [OF l] get_run(1) [OF rows] show ?thesis by (simp add: counted_def)
qed

text \<open>A reconciliation that returns is recorded, once and as it was.  It has appended exactly one
  run row, with its trigger and its own counters; every pending row of its batch is counted as
  replayed, healed, rejected or failed; the hourly run skips the deep checks, the others do them.\<close>

theorem run_recorded:
  assumes "world_ok w" and "runReconciliation L dup t w = (Inr s, w')"
  shows "op_reconciliation_runs (w_db w') = op_reconciliation_runs (w_db w) @ [run_row s] \<and> rs_trigger s = t \<and>
     counted (rs_pending s) = length (pending_rows (w_now w - PENDING_GRACE_MS) 200 (w_db w)) \<and>
     (rs_consistency s = None) = (t = THourly) \<and> (rs_refunds s = None) = (t = THourly)"
proof -
  let ?rs = "op_reconciliation_runs (w_db w)"
  from assms(2) obtain p w1 c w2 r w3 x w4 where p: "reconcilePendingPostings None None w = (Inr p, w1)"
    and c: "unless_hourly t (verifyAllMerchants L) w1 = (Inr c, w2)" and r: "unless_hourly t (sweepStuckRefunds dup) w2 = (Inr r, w3)"
    and x: "collectOutboxStats w3 = (Inr x, w4)" and put: "d1_put (record_run s) w4 = (Inr (), w')"
    and s: "s = \<lparr>rs_ran_at = w_now w, rs_trigger = t, rs_pending = p, rs_consistency = c, rs_refunds = r, rs_outbox = x\<rparr>"
    by (auto simp: runReconciliation_def Let_def reading_def ret_def elim!: andThen_Inr)
  have unless: "preserves (runs_are ?rs) (unless_hourly t m)" if "preserves (runs_are ?rs) m" for m :: "'z svc"
    unfolding unless_hourly_def using that by (intro runs_rules)
  have "runs_are ?rs w" using assms(1) by (simp add: runs_are_def)
  with tripleD [OF runs_reconcile _ p] have "runs_are ?rs w1" by blast
  with tripleD [OF unless [OF runs_verify] _ c] have "runs_are ?rs w2" by blast
  with tripleD [OF unless [OF runs_sweep] _ r] have "runs_are ?rs w3" by blast
  with tripleD [OF runs_stats _ x] have "runs_are ?rs w4" by blast
  moreover have "(c = None) = (t = THourly)" "(r = None) = (t = THourly)"
    using c r by (auto simp: unless_hourly_def ret_def elim!: andThen_Inr split: if_splits)
  ultimately show ?thesis
    using put_run(1) [OF put] reconcile_counts [OF p] by (simp add: runs_are_def record_run_def s)
qed

lemma hourly_run: "fst (runReconciliation exact_decimal plain_duplicate THourly pending_world) = Inr \<lparr>rs_ran_at = 1000, rs_trigger = THourly,
    rs_pending = \<lparr>pr_replayed = 0, pr_healed = 0, pr_rejected = 1, pr_failed = 0, pr_remaining = 0\<rparr>, rs_consistency = None, rs_refunds = None,
    rs_outbox = \<lparr>ox_lag_max_seconds = 0, ox_pending_total = 0, ox_stuck_total = 0\<rparr>\<rparr>"
  by code_simp

theorem run_recorded_witness:
  "length (op_reconciliation_runs (w_db (snd (runReconciliation exact_decimal plain_duplicate THourly pending_world)))) = 1"
proof -
  let ?run = "runReconciliation exact_decimal plain_duplicate THourly pending_world"
  have "world_ok pending_world" using demo_world_ok by (simp add: pending_world_def world_ok_def)
  moreover obtain s where "fst ?run = Inr s" using hourly_run by simp
  then have "?run = (Inr s, snd ?run)" by (metis prod.collapse)
  moreover have "op_reconciliation_runs (w_db pending_world) = []" by code_simp
  ultimately show ?thesis using run_recorded [of pending_world exact_decimal plain_duplicate THourly s "snd ?run"] by simp
qed

section \<open>The sweep ends\<close>

definition sweep_rank :: "sweep_phase \<Rightarrow> nat" where
  "sweep_rank ph = (case ph of SwReplay \<Rightarrow> 6 | SwVerify p \<Rightarrow> 5 | SwRefunds p c \<Rightarrow> 4 | SwOutbox p c r \<Rightarrow> 3 | SwRecord p c r x \<Rightarrow> 2
     | SwFailed e \<Rightarrow> 1 | _ \<Rightarrow> 0)"

lemma sweep_attempt_rank:
  assumes "sweep_attempt L dup ph w = (Inr (ph', s), w')" and "\<not> sweep_terminal ph"
  shows "sweep_rank ph' < sweep_rank ph"
  using assms by (cases ph) (auto simp: sweep_attempt_def sweep_terminal_def sweep_rank_def ret_def elim!: andThen_Inr)

lemma sweep_attempt_failed:
  assumes "sweep_attempt L dup ph w = (Inl e, w')" and "\<not> sweep_terminal ph"
  shows "sweep_rank (SwFailed e) < sweep_rank ph"
  using assms by (cases ph) (auto simp: sweep_attempt_def sweep_terminal_def sweep_rank_def page_def writing_def andThen_def ret_def)

interpretation sweep_wf: durable_progress "\<lambda>dup. sweep_workflow L dup" sweep_rank for L
  by unfold_locales (auto simp: sweep_workflow_def dest: sweep_attempt_rank sweep_attempt_failed)

end
