(* ===== verification/SmsParser.thy ===== *)
theory SmsParser
  imports Webhooks "HOL-Library.Sublist"
begin

text \<open>
  The extraction of a payment from a message text: \<open>services/sms-parser.ts\<close>, with the sender map of
  \<open>services/sms-corroboration.ts\<close> it uses.  A text is the list of its UTF-16 code units.  The
  regular expressions written in the source are built from matchers that enumerate, for a position,
  the matches in the order in which a backtracking engine tries them; the first is the one
  JavaScript reports.  Patterns that merchants store (\<open>new RegExp(pattern)\<close>) and the Workers AI
  model are arguments.  The fields \<open>raw_match\<close> are left out, and \<open>confidence\<close> is a rational.
\<close>

section \<open>Code units\<close>

definition in_ranges :: "(int \<times> int) list \<Rightarrow> int \<Rightarrow> bool" where
  "in_ranges rs c \<longleftrightarrow> list_ex (\<lambda>(lo, hi). lo \<le> c \<and> c \<le> hi) rs"

definition units :: "string \<Rightarrow> utf16" where
  "units = map of_char"

definition of_units :: "utf16 \<Rightarrow> string" where
  "of_units = map char_of"

text \<open>\<open>\\s\<close> and \<open>trim\<close>: white space and line terminators.\<close>

definition white :: "int \<Rightarrow> bool" where
  "white = in_ranges [(9, 13), (32, 32), (0xA0, 0xA0), (0x1680, 0x1680), (0x2000, 0x200A), (0x2028, 0x2029), (0x202F, 0x202F),
     (0x205F, 0x205F), (0x3000, 0x3000), (0xFEFF, 0xFEFF)]"

definition units_trim :: "utf16 \<Rightarrow> utf16" where
  "units_trim s = rev (dropWhile white (rev (dropWhile white s)))"

text \<open>\<open>replace(/[..]+/g, ' ')\<close>: every run becomes one blank.\<close>

function collapse :: "(int \<Rightarrow> bool) \<Rightarrow> utf16 \<Rightarrow> utf16" where
  "collapse p [] = []"
| "collapse p (c # t) = (if p c then 32 # collapse p (dropWhile p t) else c # collapse p t)"
  by pat_completeness auto
termination
  by (relation "measure (length \<circ> snd)") (auto simp: length_dropWhile_le less_Suc_eq_le)

definition zero_width :: "int \<Rightarrow> bool" where
  "zero_width = in_ranges [(0x200B, 0x200D), (0xFEFF, 0xFEFF), (0xAD, 0xAD)]"

definition special_space :: "int \<Rightarrow> bool" where
  "special_space = in_ranges [(0xA0, 0xA0), (0x2000, 0x200A), (0x202F, 0x202F), (0x205F, 0x205F), (0x3000, 0x3000)]"

definition line_break :: "int \<Rightarrow> bool" where
  "line_break = in_ranges [(9, 10), (13, 13)]"

definition bengali_digit :: "int \<Rightarrow> bool" where
  "bengali_digit = in_ranges [(0x9E6, 0x9EF)]"

definition arabic_digit :: "int \<Rightarrow> bool" where
  "arabic_digit = in_ranges [(0x660, 0x669)]"

definition from_bengali :: "int \<Rightarrow> int" where
  "from_bengali c = (if bengali_digit c then 48 + (c - 0x9E6) else c)"

definition from_arabic :: "int \<Rightarrow> int" where
  "from_arabic c = (if arabic_digit c then 48 + (c - 0x660) else c)"

definition plain_space :: "int \<Rightarrow> int" where
  "plain_space c = (if special_space c then 32 else c)"

definition normalizeSmsText :: "utf16 option \<Rightarrow> utf16" where
  "normalizeSmsText raw = (case raw of
      None \<Rightarrow> []
    | Some s \<Rightarrow> units_trim (collapse white (collapse line_break (map plain_space
        (filter (\<lambda>c. \<not> zero_width c) (map from_arabic (map from_bengali s)))))))"

section \<open>Regular expressions\<close>

text \<open>A matcher yields, in the order of a backtracking engine, the rest after a match and the captured group.\<close>

type_synonym rx = "utf16 \<Rightarrow> (utf16 \<times> utf16 option) list"

definition rx_set :: "(int \<times> int) list \<Rightarrow> rx" where
  "rx_set rs s = (case s of [] \<Rightarrow> [] | c # t \<Rightarrow> if in_ranges rs c then [(t, None)] else [])"

definition rx_empty :: rx where
  "rx_empty s = [(s, None)]"

definition later :: "utf16 option \<Rightarrow> utf16 option \<Rightarrow> utf16 option" where
  "later a b = (case b of None \<Rightarrow> a | Some x \<Rightarrow> Some x)"

definition rx_seq :: "rx \<Rightarrow> rx \<Rightarrow> rx" where
  "rx_seq a b s = concat (map (\<lambda>(t, x). map (\<lambda>(u, y). (u, later x y)) (b t)) (a s))"

definition rx_alt :: "rx \<Rightarrow> rx \<Rightarrow> rx" where
  "rx_alt a b s = a s @ b s"

definition rx_opt :: "rx \<Rightarrow> rx" where
  "rx_opt a s = rx_alt a rx_empty s"

text \<open>Greedy repetition, at most \<open>n\<close> times; exactly \<open>n\<close> times; without bound.\<close>

fun rx_upto :: "nat \<Rightarrow> rx \<Rightarrow> rx" where
  "rx_upto 0 a s = rx_empty s"
| "rx_upto (Suc n) a s = rx_alt (rx_seq a (rx_upto n a)) rx_empty s"

fun rx_times :: "nat \<Rightarrow> rx \<Rightarrow> rx" where
  "rx_times 0 a s = rx_empty s"
| "rx_times (Suc n) a s = rx_seq a (rx_times n a) s"

text \<open>The repeated matchers below consume a unit each time, so the length of the text bounds the repetition.\<close>

definition rx_star :: "rx \<Rightarrow> rx" where
  "rx_star a s = rx_upto (length s) a s"

definition rx_plus :: "rx \<Rightarrow> rx" where
  "rx_plus a s = rx_seq a (rx_star a) s"

definition rx_range :: "nat \<Rightarrow> nat \<Rightarrow> rx \<Rightarrow> rx" where
  "rx_range m n a s = rx_seq (rx_times m a) (rx_upto (n - m) a) s"

definition rx_group :: "rx \<Rightarrow> rx" where
  "rx_group a s = map (\<lambda>(t, _). (t, Some (take (length s - length t) s))) (a s)"

text \<open>A literal under the flag \<open>i\<close>: ASCII letters match in both cases.\<close>

definition lower_unit :: "int \<Rightarrow> int" where
  "lower_unit n = (if 65 \<le> n \<and> n \<le> 90 then n + 32 else n)"

definition upper_unit :: "int \<Rightarrow> int" where
  "upper_unit n = (if 97 \<le> n \<and> n \<le> 122 then n - 32 else n)"

definition rx_letter :: "int \<Rightarrow> rx" where
  "rx_letter n s = (case s of [] \<Rightarrow> [] | c # t \<Rightarrow> if c = lower_unit n \<or> c = upper_unit n then [(t, None)] else [])"

definition rx_word :: "string \<Rightarrow> rx" where
  "rx_word w s = (foldr (\<lambda>c. rx_seq (rx_letter c)) (units w) rx_empty) s"

definition rx_units :: "utf16 \<Rightarrow> rx" where
  "rx_units w s = (foldr (\<lambda>c. rx_seq (rx_set [(c, c)])) w rx_empty) s"

definition rx_any :: "rx list \<Rightarrow> rx" where
  "rx_any as s = concat (map (\<lambda>a. a s) as)"

definition rx_blanks :: rx where
  "rx_blanks s = rx_star (\<lambda>s. case s of [] \<Rightarrow> [] | c # t \<Rightarrow> if white c then [(t, None)] else []) s"

definition rx_all :: "rx list \<Rightarrow> rx" where
  "rx_all as s = (foldr rx_seq as rx_empty) s"

text \<open>\<open>String.match\<close> without the flag \<open>g\<close>: the first match at the leftmost position; its captured group.\<close>

fun rx_search :: "rx \<Rightarrow> utf16 \<Rightarrow> (utf16 \<times> utf16 option) option" where
  "rx_search a [] = (case a [] of [] \<Rightarrow> None | m # _ \<Rightarrow> Some m)"
| "rx_search a (c # t) = (case a (c # t) of [] \<Rightarrow> rx_search a t | m # _ \<Rightarrow> Some m)"

definition rx_test :: "rx \<Rightarrow> utf16 \<Rightarrow> bool" where
  "rx_test a s \<longleftrightarrow> rx_search a s \<noteq> None"

definition matched_group :: "rx \<Rightarrow> utf16 \<Rightarrow> utf16 option" where
  "matched_group a s = Option.bind (rx_search a s) snd"

section \<open>The heuristic extractor\<close>

definition digit_units :: "(int \<times> int) list" where
  "digit_units = [(48, 57)]"

definition alnum_units :: "(int \<times> int) list" where
  "alnum_units = [(65, 90), (97, 122), (48, 57)]"

definition trx_label :: rx where
  "trx_label s = rx_any [rx_all [rx_word ''trx'', rx_blanks, rx_word ''id''], rx_all [rx_word ''transaction'', rx_blanks, rx_word ''id''],
     rx_word ''txnid'', rx_all [rx_word ''txn'', rx_blanks, rx_word ''id''], rx_all [rx_word ''trans'', rx_blanks, rx_word ''id''],
     rx_all [rx_word ''ref'', rx_blanks, rx_word ''id''], rx_word ''reference'', rx_word ''invoice'', rx_word ''id''] s"

definition trx_pattern :: rx where
  "trx_pattern s = rx_all [trx_label, rx_blanks, rx_opt (rx_set [(58, 58), (46, 46), (45, 45), (35, 35)]), rx_blanks,
     rx_group (rx_range 5 32 (rx_set alnum_units))] s"

definition fraction :: rx where
  "fraction s = rx_opt (rx_seq (rx_set [(46, 46)]) (rx_range 1 2 (rx_set digit_units))) s"

definition number :: rx where
  "number s = rx_group (rx_alt
     (rx_all [rx_range 1 3 (rx_set digit_units), rx_star (rx_seq (rx_set [(44, 44)]) (rx_times 3 (rx_set digit_units))), fraction])
     (rx_seq (rx_plus (rx_set digit_units)) fraction)) s"

definition taka :: rx where
  "taka s = rx_units [0x99F, 0x9BE, 0x995, 0x9BE] s"

definition currency_mark :: rx where
  "currency_mark s = rx_any [rx_word ''tk'', rx_word ''bdt'', rx_word ''rs'', rx_word ''usd'', rx_word ''$'', rx_units [0x20AC], rx_units [0xA3],
     rx_units [0x9F3], taka] s"

definition payment_word :: rx where
  "payment_word s = rx_any [rx_word ''received'', rx_word ''payment'', rx_all [rx_word ''cash'', rx_blanks, rx_word ''in''], rx_word ''amount'',
     rx_word ''credited'', rx_word ''credit'', rx_word ''paid'', rx_word ''added'', taka,
     rx_units [0x9AA, 0x9C7, 0x9DF, 0x9C7, 0x99B, 0x9C7, 0x9A8], rx_units [0x9AA, 0x9CD, 0x9B0, 0x9BE, 0x9AA, 0x9CD, 0x9A4],
     rx_units [0x9AA, 0x9C7, 0x9AE, 0x9C7, 0x9A8, 0x9CD, 0x99F], rx_units [0x99C, 0x9AE, 0x9BE]] s"

definition amount_pattern_a :: rx where
  "amount_pattern_a s = rx_all [payment_word, rx_blanks, rx_opt (rx_seq (rx_word ''of'') rx_blanks), rx_opt currency_mark, rx_blanks, number] s"

definition amount_pattern_b :: rx where
  "amount_pattern_b s = rx_all [currency_mark, rx_blanks, number] s"

definition amount_pattern_c :: rx where
  "amount_pattern_c s = rx_all [number, rx_blanks, currency_mark] s"

definition find_amount :: "utf16 \<Rightarrow> utf16 option" where
  "find_amount s = (case rx_search amount_pattern_a s of
      Some m \<Rightarrow> snd m
    | None \<Rightarrow> (case rx_search amount_pattern_b s of
        Some m \<Rightarrow> snd m
      | None \<Rightarrow> matched_group amount_pattern_c s))"

text \<open>
  \<open>isValidAmount\<close>: digits with one or two optional decimals, whose value is positive and rounds to a
  finite double, that is, lies below the midpoint between the largest double and \<open>2 ^ 1024\<close>.
\<close>

definition amount_parts :: "string \<Rightarrow> (string \<times> string) option" where
  "amount_parts s = (case split_unsigned False s of
      Some (_, ip, fp) \<Rightarrow> if length fp \<le> 2 then Some (ip, fp) else None
    | None \<Rightarrow> None)"

definition isValidAmount :: "string option \<Rightarrow> bool" where
  "isValidAmount amt = (case Option.bind (truthy amt) amount_parts of
      None \<Rightarrow> False
    | Some (ip, fp) \<Rightarrow> 0 < digits_val (ip @ fp) \<and> digits_val (ip @ fp) < (2 ^ 1024 - 2 ^ 970) * 10 ^ length fp)"

datatype sms_parser = PRegex | PHeuristic | PWorkersAi | PNone

record sms_extraction =
  se_amount :: "string option"
  se_trx_id :: "string option"
  se_currency :: "string option"
  se_gateway_slug :: "string option"
  se_confidence :: rat
  se_parser :: sms_parser

definition body_currency :: "utf16 \<Rightarrow> string" where
  "body_currency s = (if rx_test (rx_alt (rx_word ''usd'') (rx_word ''$'')) s then ''USD''
     else if rx_test (rx_alt (rx_word ''eur'') (rx_units [0x20AC])) s then ''EUR''
     else if rx_test (rx_alt (rx_word ''gbp'') (rx_units [0xA3])) s then ''GBP''
     else if rx_test (rx_alt (rx_word ''inr'') (rx_units [0x20B9])) s then ''INR'' else ''BDT'')"

section \<open>Senders\<close>

definition SENDER_GATEWAY_MAP :: "(string \<times> string) list" where
  "SENDER_GATEWAY_MAP = [(''bkash'', ''bkash-api''), (''bKash'', ''bkash-api''), (''nagad'', ''nagad-merchant-api''),
     (''rocket'', ''rocket''), (''upay'', ''upay'')]"

definition lower_letter :: "char \<Rightarrow> bool" where
  "lower_letter c \<longleftrightarrow> c \<in> set ''abcdefghijklmnopqrstuvwxyz''"

definition letters_only :: "string \<Rightarrow> string" where
  "letters_only s = filter lower_letter (toLowerCase s)"

definition senderToGatewaySlug :: "string option \<Rightarrow> string option" where
  "senderToGatewaySlug sender = (case truthy sender of
      None \<Rightarrow> None
    | Some s \<Rightarrow> let normalized = letters_only (trim s)
               in map_option snd (List.find (\<lambda>(key, slug). normalized = letters_only key \<or> starts_with normalized (letters_only key)) SENDER_GATEWAY_MAP))"

section \<open>extractFallbackHeuristic\<close>

definition no_extraction :: "string option \<Rightarrow> string option \<Rightarrow> sms_extraction" where
  "no_extraction trx slug = \<lparr>se_amount = None, se_trx_id = trx, se_currency = None, se_gateway_slug = slug, se_confidence = 0, se_parser = PNone\<rparr>"

definition found_trx :: "utf16 \<Rightarrow> string option" where
  "found_trx s = map_option (\<lambda>g. of_units (units_trim g)) (matched_group trx_pattern s)"

definition found_amount :: "utf16 \<Rightarrow> string option" where
  "found_amount s = (let amount = map_option (\<lambda>g. of_units (units_trim (filter (\<lambda>c. c \<noteq> 44) g))) (find_amount s)
     in if isValidAmount amount then amount else None)"

definition extractFallbackHeuristic :: "utf16 \<Rightarrow> string \<Rightarrow> sms_extraction" where
  "extractFallbackHeuristic cleanBody sender =
     (let gatewaySlug = or_else (truthy (senderToGatewaySlug (Some sender))) ''manual'';
          trxId = found_trx cleanBody;
          extractedAmount = found_amount cleanBody;
          currency = body_currency cleanBody
      in case (truthy extractedAmount, truthy trxId) of
           (Some amount, Some trx) \<Rightarrow> \<lparr>se_amount = Some amount, se_trx_id = Some trx, se_currency = Some currency,
               se_gateway_slug = Some gatewaySlug, se_confidence = 19 / 20, se_parser = PHeuristic\<rparr>
         | (Some amount, None) \<Rightarrow> \<lparr>se_amount = Some amount, se_trx_id = None, se_currency = Some currency,
               se_gateway_slug = Some gatewaySlug, se_confidence = 3 / 4, se_parser = PHeuristic\<rparr>
         | (None, _) \<Rightarrow> no_extraction trxId (Some gatewaySlug))"

section \<open>SmsParserService\<close>

record sms_groups =
  sg_amount :: "string option"
  sg_trx_id :: "string option"
  sg_invoice :: "string option"
  sg_currency :: "string option"

text \<open>The fields of the model's JSON answer; an error of the call or of \<open>JSON.parse\<close>; no answer.\<close>

datatype ai_answer =
    AiThrows
  | AiSilent
  | AiFields "string option" "string option" "string option" "string option"

text \<open>\<open>new RegExp(p, 'i').exec(text)\<close> answers with the named groups, or not: no match, no groups or a bad pattern.\<close>

record sms_platform =
  pf_regexp :: "string \<Rightarrow> utf16 \<Rightarrow> sms_groups option"
  pf_AI :: "(string \<Rightarrow> utf16 \<Rightarrow> ai_answer) option"
  pf_SIGNATURE_REQUIRED :: "string option"

definition template_extraction :: "string \<Rightarrow> sms_groups \<Rightarrow> sms_extraction option" where
  "template_extraction slug g =
     (let rawAmount = map_option (\<lambda>a. trim (filter (\<lambda>c. c \<noteq> CHR '','') a)) (truthy (sg_amount g))
      in if isValidAmount rawAmount
         then Some \<lparr>se_amount = rawAmount,
                se_trx_id = truthy (Some (trim (case sg_trx_id g of Some t \<Rightarrow> t | None \<Rightarrow> or_else (sg_invoice g) []))),
                se_currency = Some (trim (or_else (sg_currency g) ''BDT'')), se_gateway_slug = Some slug,
                se_confidence = 1, se_parser = PRegex\<rparr>
         else None)"

definition try_template :: "sms_platform \<Rightarrow> utf16 \<Rightarrow> sms_template_row \<Rightarrow> sms_extraction option" where
  "try_template pf cleanBody tpl = (case truthy (sp_regex_pattern tpl) of
      None \<Rightarrow> None
    | Some p \<Rightarrow> Option.bind (pf_regexp pf p cleanBody) (template_extraction (sp_gateway_slug tpl)))"

fun first_some :: "('a \<Rightarrow> 'b option) \<Rightarrow> 'a list \<Rightarrow> 'b option" where
  "first_some f [] = None"
| "first_some f (x # xs) = (case f x of Some y \<Rightarrow> Some y | None \<Rightarrow> first_some f xs)"

definition ai_fields :: "string option list \<Rightarrow> nat" where
  "ai_fields fs = length (filter (\<lambda>v. truthy v \<noteq> None) fs)"

definition parseWithAI :: "(string \<Rightarrow> utf16 \<Rightarrow> ai_answer) \<Rightarrow> utf16 \<Rightarrow> string \<Rightarrow> sms_extraction" where
  "parseWithAI ai smsBody sender = (case ai sender smsBody of
      AiThrows \<Rightarrow> no_extraction None None
    | AiSilent \<Rightarrow> no_extraction None None
    | AiFields amount trx cur slug \<Rightarrow> \<lparr>se_amount = amount, se_trx_id = trx, se_currency = cur, se_gateway_slug = slug,
        se_confidence = of_nat (ai_fields [amount, trx, cur, slug]) / 4 * (9 / 10), se_parser = PWorkersAi\<rparr>)"

definition sms_templates :: "int \<Rightarrow> d1 \<Rightarrow> sms_template_row list" where
  "sms_templates mid db = filter (\<lambda>t. sp_merchant_id t \<in> {0, mid} \<and> sp_active t) (op_sms_templates db)"

definition parse_with :: "sms_platform \<Rightarrow> sms_template_row list \<Rightarrow> utf16 \<Rightarrow> string \<Rightarrow> sms_extraction" where
  "parse_with pf templates cleanBody sender = (case first_some (try_template pf cleanBody) templates of
      Some e \<Rightarrow> e
    | None \<Rightarrow>
       let heuristic = extractFallbackHeuristic cleanBody sender
       in if se_parser heuristic \<noteq> PNone \<and> truthy (se_amount heuristic) \<noteq> None \<and> truthy (se_trx_id heuristic) \<noteq> None then heuristic
          else case pf_AI pf of Some ai \<Rightarrow> parseWithAI ai cleanBody sender | None \<Rightarrow> heuristic)"

definition sms_parse :: "sms_platform \<Rightarrow> utf16 \<Rightarrow> string \<Rightarrow> int \<Rightarrow> sms_extraction svc" where
  "sms_parse pf smsBody sender mid =
     (let cleanBody = normalizeSmsText (Some smsBody)
      in andThen (d1_get (sms_templates mid)) (\<lambda>templates. ret (parse_with pf templates cleanBody sender)))"

section \<open>What a matcher spans and captures\<close>

definition spans :: "rx \<Rightarrow> utf16 set \<Rightarrow> bool" where
  "spans a L \<longleftrightarrow> (\<forall>s t g. (t, g) \<in> set (a s) \<longrightarrow> (\<exists>u \<in> L. s = u @ t))"

definition captures :: "rx \<Rightarrow> utf16 set \<Rightarrow> bool" where
  "captures a G \<longleftrightarrow> (\<forall>s t g. (t, g) \<in> set (a s) \<longrightarrow> (\<exists>u. s = u @ t \<and> (\<forall>x. g = Some x \<longrightarrow> x \<in> G \<and> sublist x u)))"

lemma spansD: "spans a L \<Longrightarrow> (t, g) \<in> set (a s) \<Longrightarrow> \<exists>u \<in> L. s = u @ t"
  by (auto simp: spans_def)

lemma capturesD: "captures a G \<Longrightarrow> (t, g) \<in> set (a s) \<Longrightarrow> \<exists>u. s = u @ t \<and> (\<forall>x. g = Some x \<longrightarrow> x \<in> G \<and> sublist x u)"
  unfolding captures_def by (elim allE) (erule mp)

lemma capturesI: "(\<And>s t g. (t, g) \<in> set (a s) \<Longrightarrow> \<exists>u. s = u @ t \<and> (\<forall>x. g = Some x \<longrightarrow> x \<in> G \<and> sublist x u)) \<Longrightarrow> captures a G"
  unfolding captures_def by (intro allI impI)

named_theorems rx_rules \<open>spans and captures of the matchers\<close>

lemma spans_mono: "spans a L \<Longrightarrow> L \<subseteq> M \<Longrightarrow> spans a M"
  by (fastforce simp: spans_def)

lemma spans_set [rx_rules]: "spans (rx_set rs) {[c] | c. in_ranges rs c}"
  by (auto simp: spans_def rx_set_def split: list.splits if_splits)

lemma spans_seq: "spans a L \<Longrightarrow> spans b M \<Longrightarrow> spans (rx_seq a b) {u @ v | u v. u \<in> L \<and> v \<in> M}"
  by (fastforce simp: spans_def rx_seq_def)

lemma spans_alt: "spans a L \<Longrightarrow> spans b L \<Longrightarrow> spans (rx_alt a b) L"
  unfolding spans_def rx_alt_def by (metis Un_iff set_append)

lemma spans_empty: "[] \<in> L \<Longrightarrow> spans rx_empty L"
  by (auto simp: spans_def rx_empty_def)

lemma spans_times: "spans (rx_times n (rx_set rs)) {u. length u = n \<and> list_all (in_ranges rs) u}"
proof (induction n)
  case (Suc n)
  show ?case
    unfolding rx_times.simps by (rule spans_mono [OF spans_seq [OF spans_set Suc.IH]]) auto
qed (auto intro: spans_empty)

lemma spans_upto: "spans (rx_upto n (rx_set rs)) {u. length u \<le> n \<and> list_all (in_ranges rs) u}"
proof (induction n)
  case (Suc n)
  have "spans (rx_seq (rx_set rs) (rx_upto n (rx_set rs))) {u. length u \<le> Suc n \<and> list_all (in_ranges rs) u}"
    by (rule spans_mono [OF spans_seq [OF spans_set Suc.IH]]) auto
  then show ?case unfolding rx_upto.simps by (rule spans_alt) (auto intro: spans_empty)
qed (auto intro: spans_empty)

lemma spans_range: "m \<le> n \<Longrightarrow> spans (rx_range m n (rx_set rs)) {u. m \<le> length u \<and> length u \<le> n \<and> list_all (in_ranges rs) u}"
  unfolding rx_range_def by (rule spans_mono [OF spans_seq [OF spans_times spans_upto]]) auto

lemma captures_set [rx_rules]: "captures (rx_set rs) G"
  by (auto simp: captures_def rx_set_def split: list.splits if_splits)

lemma captures_empty [rx_rules]: "captures rx_empty G"
  by (auto simp: captures_def rx_empty_def)

lemma sublist_widen: "sublist z u \<Longrightarrow> sublist z (u @ v)" "sublist z u \<Longrightarrow> sublist z (v @ u)"
  unfolding sublist_def by (metis append.assoc)+

lemma captures_seq [rx_rules]:
  assumes "captures a G" and "captures b G"
  shows "captures (rx_seq a b) G"
proof (rule capturesI)
  fix s t g assume "(t, g) \<in> set (rx_seq a b s)"
  then obtain r x y where ab: "(r, x) \<in> set (a s)" "(t, y) \<in> set (b r)" and g: "g = later x y" by (auto simp: rx_seq_def)
  from capturesD [OF assms(1) ab(1)] obtain u where u: "s = u @ r" "\<forall>z. x = Some z \<longrightarrow> z \<in> G \<and> sublist z u" by blast
  from capturesD [OF assms(2) ab(2)] obtain v where v: "r = v @ t" "\<forall>z. y = Some z \<longrightarrow> z \<in> G \<and> sublist z v" by blast
  have "s = (u @ v) @ t" using u v by simp
  moreover have "\<forall>z. g = Some z \<longrightarrow> z \<in> G \<and> sublist z (u @ v)"
    using u(2) v(2) by (auto simp: g later_def split: option.splits intro: sublist_widen)
  ultimately show "\<exists>w. s = w @ t \<and> (\<forall>z. g = Some z \<longrightarrow> z \<in> G \<and> sublist z w)" by blast
qed

lemma captures_alt [rx_rules]: "captures a G \<Longrightarrow> captures b G \<Longrightarrow> captures (rx_alt a b) G"
  unfolding captures_def rx_alt_def by (metis Un_iff set_append)

lemma captures_opt [rx_rules]: "captures a G \<Longrightarrow> captures (rx_opt a) G"
  unfolding rx_opt_def by (intro rx_rules)

lemma captures_upto [rx_rules]: "captures a G \<Longrightarrow> captures (rx_upto n a) G"
proof (induction n)
  case 0
  show ?case unfolding rx_upto.simps by (rule captures_empty)
next
  case (Suc n)
  then show ?case unfolding rx_upto.simps by (intro captures_alt captures_seq captures_empty)
qed

lemma captures_star [rx_rules]: "captures a G \<Longrightarrow> captures (rx_star a) G"
  by (rule capturesI, unfold rx_star_def) (rule capturesD [OF captures_upto])

lemma captures_fold: "(\<And>c. captures (f c) G) \<Longrightarrow> captures (foldr (\<lambda>c. rx_seq (f c)) w rx_empty) G"
  by (induction w) (simp_all add: rx_rules)

lemma captures_letter: "captures (rx_letter n) G"
  by (auto simp: captures_def rx_letter_def split: list.splits if_splits)

lemma captures_word [rx_rules]: "captures (rx_word w) G" "captures (rx_units us) G"
  unfolding rx_word_def [abs_def] rx_units_def [abs_def] by (rule captures_fold, rule captures_letter captures_set)+

lemma captures_any [rx_rules]: "list_all (\<lambda>a. captures a G) as \<Longrightarrow> captures (rx_any as) G"
  by (rule capturesI) (auto simp: rx_any_def list_all_iff dest: capturesD)

lemma captures_all [rx_rules]: "list_all (\<lambda>a. captures a G) as \<Longrightarrow> captures (rx_all as) G"
  unfolding rx_all_def by (induction as) (simp_all add: rx_rules)

lemma captures_blanks [rx_rules]: "captures rx_blanks G"
  unfolding rx_blanks_def by (rule captures_star) (auto simp: captures_def split: list.splits if_splits)

lemma captures_group [rx_rules]: "spans a G \<Longrightarrow> captures (rx_group a) G"
  by (rule capturesI) (fastforce simp: rx_group_def sublist_order.order_refl dest: spansD)

lemma captures_search:
  assumes "captures a G" and "rx_search a s = Some (t, Some x)"
  shows "x \<in> G \<and> sublist x s"
  using assms(2)
proof (induction s)
  case Nil
  then have "(t, Some x) \<in> set (a [])" by (simp split: list.splits)
  from capturesD [OF assms(1) this] show ?case by auto
next
  case (Cons c s)
  show ?case
  proof (cases "a (c # s)")
    case Nil
    then show ?thesis using Cons by (auto intro: sublist_Cons_right [THEN iffD2])
  next
    case (Cons m ms)
    then have "(t, Some x) \<in> set (a (c # s))" using Cons.prems by simp
    from capturesD [OF assms(1) this] obtain u where "c # s = u @ t" "x \<in> G" "sublist x u" by blast
    moreover from this have "sublist x (c # s)" by (metis sublist_append_rightI sublist_order.order_trans)
    ultimately show ?thesis by blast
  qed
qed

section \<open>The extracted fields\<close>

definition alnum_char :: "char \<Rightarrow> bool" where
  "alnum_char c \<longleftrightarrow> in_ranges alnum_units (of_char c)"

lemma in_ranges_Nil [simp]: "\<not> in_ranges [] c" and in_ranges_Cons [simp]: "in_ranges ((lo, hi) # rs) c \<longleftrightarrow> lo \<le> c \<and> c \<le> hi \<or> in_ranges rs c"
  by (simp_all add: in_ranges_def)

lemma alnum_not_white: "in_ranges alnum_units c \<Longrightarrow> \<not> white c \<and> 0 \<le> c \<and> c < 256"
  by (auto simp: alnum_units_def white_def)

lemma units_of_units: "list_all (\<lambda>c. 0 \<le> c \<and> c < 256) s \<Longrightarrow> units (of_units s) = s"
  by (induction s) (auto simp: units_def of_units_def take_bit_int_eq_self)

lemma trim_alnum: "list_all (in_ranges alnum_units) s \<Longrightarrow> units_trim s = s"
proof -
  have d: "list_all (in_ranges alnum_units) r \<Longrightarrow> dropWhile white r = r" for r by (cases r) (auto dest: alnum_not_white)
  assume s: "list_all (in_ranges alnum_units) s"
  then have "list_all (in_ranges alnum_units) (rev s)" by simp
  with s show ?thesis by (simp add: units_trim_def d)
qed

lemma captures_trx: "captures trx_pattern {u. 5 \<le> length u \<and> length u \<le> 32 \<and> list_all (in_ranges alnum_units) u}"
  unfolding trx_pattern_def trx_label_def
  by (intro rx_rules captures_group) (simp add: rx_rules spans_range)

lemma found_trxD:
  assumes "found_trx s = Some t"
  shows "5 \<le> length t" "length t \<le> 32" "list_all alnum_char t" "sublist (units t) s"
proof -
  obtain r x where m: "rx_search trx_pattern s = Some (r, Some x)" and t: "t = of_units (units_trim x)"
    using assms by (auto simp: found_trx_def matched_group_def bind_eq_Some_conv)
  have x: "5 \<le> length x" "length x \<le> 32" "list_all (in_ranges alnum_units) x" "sublist x s"
    using captures_search [OF captures_trx m] by auto
  then have t': "t = of_units x" by (simp add: t trim_alnum)
  then have u: "units t = x"
    using x(3) alnum_not_white by (simp add: units_of_units list_all_iff)
  show "5 \<le> length t" "length t \<le> 32" "sublist (units t) s" using x u by (auto simp: t' of_units_def)
  show "list_all alnum_char t" using x(3) unfolding u [symmetric] by (simp add: units_def alnum_char_def list_all_iff)
qed

lemma found_amountD: "found_amount s = Some a \<Longrightarrow> isValidAmount (Some a)"
  by (auto simp: found_amount_def Let_def split: if_splits)

lemma valid_truthy: "isValidAmount a \<Longrightarrow> truthy a = a \<and> a \<noteq> None"
  by (cases a) (auto simp: isValidAmount_def truthy_def split: if_splits)


lemma fold_digits: "foldl (\<lambda>a c. a * 10 + digit_val c) k s = k * 10 ^ length s + digits_val s"
proof (induction s arbitrary: k)
  case (Cons c s)
  show ?case using Cons [of "k * 10 + digit_val c"] Cons [of "digit_val c"] by (simp add: digits_val_def algebra_simps)
qed simp

lemma digits_val_Cons: "digits_val (c # s) = digit_val c * 10 ^ length s + digits_val s"
  using fold_digits [of "digit_val c" s] by (simp add: digits_val_def)

lemma digits_val_pos: "0 < digits_val s \<longleftrightarrow> list_ex (\<lambda>c. digit_val c \<noteq> 0) s"
  by (induction s) (auto simp: digits_val_Cons)

lemma sms_digits_val_bound: "list_all is_digit s \<Longrightarrow> digits_val s < 10 ^ length s"
proof (induction s)
  case (Cons c s)
  have "digit_val c \<le> 9" using Cons.prems by (auto simp: is_digit_def digit_val_def)
  then have "digit_val c * 10 ^ length s + 10 ^ length s \<le> 10 * 10 ^ length s" using mult_right_mono [of "digit_val c" 9 "10 ^ length s"] by simp
  moreover have "digits_val s < 10 ^ length s" using Cons by simp
  ultimately have "digit_val c * 10 ^ length s + digits_val s < 10 * 10 ^ length s" by linarith
  then show ?case by (simp add: digits_val_Cons)
qed simp

lemma amount_parts_digits: "amount_parts s = Some (ip, fp) \<Longrightarrow> list_all is_digit (ip @ fp) \<and> length fp \<le> 2"
  by (auto simp: amount_parts_def split_unsigned_def Let_def list_all_iff dest: set_takeWhileD split: option.splits if_splits list.splits)

text \<open>Amounts of up to 306 digits are finite, so only the digits need be looked at.\<close>

lemma isValidAmount_code [code]:
  "isValidAmount amt = (case Option.bind (truthy amt) amount_parts of
      None \<Rightarrow> False
    | Some (ip, fp) \<Rightarrow> list_ex (\<lambda>c. digit_val c \<noteq> 0) (ip @ fp) \<and>
        (if length ip \<le> 308 then True else digits_val (ip @ fp) < (2 ^ 1024 - 2 ^ 970) * 10 ^ length fp))"
proof -
  have "digits_val (ip @ fp) < (2 ^ 1024 - 2 ^ 970) * 10 ^ length fp"
    if "Option.bind (truthy amt) amount_parts = Some (ip, fp)" and n: "length ip \<le> 308" for ip fp
  proof -
    have "list_all is_digit (ip @ fp)" using that(1) amount_parts_digits by (auto simp: bind_eq_Some_conv)
    then have "digits_val (ip @ fp) < 10 ^ length ip * 10 ^ length fp" using sms_digits_val_bound [of "ip @ fp"] by (simp add: power_add)
    also have "(10::nat) ^ length ip \<le> 10 ^ 308" using n by (intro power_increasing) simp_all
    also have "(10::nat) ^ 308 \<le> 2 ^ 1024 - 2 ^ 970" by simp
    finally show ?thesis by simp
  qed
  then show ?thesis unfolding isValidAmount_def digits_val_pos by (auto split: option.split)
qed

text \<open>An ordinary message with its grouped amount.\<close>

definition demo_sms :: utf16 where
  "demo_sms = units ''Received Tk 1,500.00 TrxID 9X7Y2Z1A3B''"

lemma demo_sms_read:
  "extractFallbackHeuristic demo_sms ''bKash'' = \<lparr>se_amount = Some ''1500.00'', se_trx_id = Some ''9X7Y2Z1A3B'', se_currency = Some ''BDT'',
     se_gateway_slug = Some ''bkash-api'', se_confidence = 19 / 20, se_parser = PHeuristic\<rparr>"
  by code_simp

text \<open>
  The same amount without the comma is cut to its first three digits: the first alternative of the number
  matches three digits and needs no boundary after them, so the second is never tried.
\<close>

lemma ungrouped_amount_cut: "found_amount (units ''Received Tk 1500.00 TrxID 9X7Y2Z1A3B'') = Some ''150''"
  by code_simp

section \<open>Normal texts\<close>

definition plain_unit :: "int \<Rightarrow> bool" where
  "plain_unit c \<longleftrightarrow> \<not> bengali_digit c \<and> \<not> arabic_digit c \<and> \<not> zero_width c \<and> (white c \<longrightarrow> c = 32)"

definition apart :: "int \<Rightarrow> int \<Rightarrow> bool" where
  "apart a b \<longleftrightarrow> \<not> (white a \<and> white b)"

definition normal_text :: "utf16 \<Rightarrow> bool" where
  "normal_text s \<longleftrightarrow> list_all plain_unit s \<and> successively apart s \<and> (s = [] \<or> \<not> white (hd s) \<and> \<not> white (last s))"

lemmas unit_classes = bengali_digit_def arabic_digit_def zero_width_def special_space_def line_break_def white_def

lemma white_blank [simp]: "white 32" "\<not> bengali_digit 32" "\<not> arabic_digit 32" "\<not> zero_width 32" "\<not> special_space 32" "\<not> line_break 32"
  by (simp_all add: unit_classes)

lemma special_white: "special_space c \<Longrightarrow> white c"
  unfolding special_space_def white_def in_ranges_Cons in_ranges_Nil by blast

lemma line_break_white: "line_break c \<Longrightarrow> white c"
  unfolding line_break_def white_def in_ranges_Cons in_ranges_Nil by linarith

lemma digits_replaced: "\<not> bengali_digit (from_arabic (from_bengali c))" "\<not> arabic_digit (from_arabic (from_bengali c))"
  by (auto simp: from_arabic_def from_bengali_def bengali_digit_def arabic_digit_def)

lemma hd_dropWhile_not: "dropWhile p s \<noteq> [] \<Longrightarrow> \<not> p (hd (dropWhile p s))"
  by (rule hd_dropWhile)

lemma hd_collapse: "s \<noteq> [] \<Longrightarrow> \<not> p (hd s) \<Longrightarrow> collapse p s \<noteq> [] \<and> hd (collapse p s) = hd s"
  by (cases s) auto

lemma set_collapse: "set (collapse p s) \<subseteq> {c \<in> set s. \<not> p c} \<union> {32}"
  by (induction p s rule: collapse.induct) (auto dest: set_dropWhileD)

lemma collapse_apart: "successively apart (collapse white s)"
proof (induction white s rule: collapse.induct)
  case (2 c t)
  show ?case
  proof (cases "white c")
    case True
    have "collapse white (dropWhile white t) = [] \<or> \<not> white (hd (collapse white (dropWhile white t)))"
    proof (cases "dropWhile white t = []")
      case False
      then show ?thesis using hd_collapse [of "dropWhile white t" white, OF False hd_dropWhile_not [OF False]] hd_dropWhile_not [OF False] by simp
    next
      case True
      then show ?thesis unfolding True by simp
    qed
    with 2 True show ?thesis by (auto simp: successively_Cons apart_def)
  qed (use 2 in \<open>auto simp: successively_Cons apart_def\<close>)
qed simp

lemma collapse_id: "list_all plain_unit s \<Longrightarrow> successively apart s \<Longrightarrow> collapse white s = s"
proof (induction white s rule: collapse.induct)
  case (2 c t)
  then have "white c \<Longrightarrow> c = 32 \<and> dropWhile white t = t" by (cases t) (auto simp: plain_unit_def apart_def)
  with 2 show ?case by (cases "white c") (auto simp: successively_Cons)
qed simp

lemma collapse_none: "list_all (\<lambda>c. \<not> p c) s \<Longrightarrow> collapse p s = s"
  by (induction p s rule: collapse.induct) auto

lemma suffix_drop: "successively apart s \<Longrightarrow> successively apart (dropWhile white s)"
  by (induction s) (auto simp: successively_Cons)

lemma suffix_rev: "successively apart s \<Longrightarrow> successively apart (rev s)"
proof -
  have "(\<lambda>x y. apart y x) = apart" by (intro ext) (auto simp: apart_def)
  then show "successively apart s \<Longrightarrow> successively apart (rev s)" unfolding successively_rev by (simp only:)
qed

lemma list_all_dropWhile: "list_all p s \<Longrightarrow> list_all p (dropWhile q s)"
  by (induction s) auto

lemma trim_normal:
  assumes "list_all plain_unit s" and "successively apart s"
  shows "normal_text (units_trim s)"
proof -
  let ?a = "dropWhile white s" and ?b = "dropWhile white (rev (dropWhile white s))"
  have "successively apart (rev ?b)" using assms(2) by (intro suffix_rev suffix_drop)
  moreover have "list_all plain_unit (rev ?b)" using assms(1) by (simp add: list_all_dropWhile del: dropWhile_eq_Nil_conv)
  moreover have "\<not> white (hd (rev ?b)) \<and> \<not> white (last (rev ?b))" if ne: "rev ?b \<noteq> []"
  proof
    show "\<not> white (last (rev ?b))" using hd_dropWhile_not [of white "rev ?a"] ne by (simp add: last_rev)
    have "?a \<noteq> []" using ne by (metis dropWhile.simps(1) rev.simps(1))
    obtain p where "rev ?a = p @ ?b" by (metis takeWhile_dropWhile_id)
    then have "hd (rev ?b) = hd ?a" using ne by (metis append_self_conv2 hd_append2 rev_append rev_rev_ident)
    with \<open>?a \<noteq> []\<close> show "\<not> white (hd (rev ?b))" using hd_dropWhile_not [of white s] by simp
  qed
  ultimately show ?thesis unfolding normal_text_def units_trim_def by blast
qed

lemma normalize_normal: "normal_text (normalizeSmsText raw)"
proof (cases raw)
  case None
  then show ?thesis by (simp add: normalizeSmsText_def normal_text_def)
next
  case (Some s)
  let ?r = "map plain_space (filter (\<lambda>c. \<not> zero_width c) (map from_arabic (map from_bengali s)))"
  have r: "\<not> bengali_digit c \<and> \<not> arabic_digit c \<and> \<not> zero_width c" if "c \<in> set ?r" for c
    using that digits_replaced by (auto simp: plain_space_def split: if_splits)
  have "list_all plain_unit (collapse white (collapse line_break ?r))"
    unfolding list_all_iff
  proof
    fix c assume "c \<in> set (collapse white (collapse line_break ?r))"
    with set_collapse [of white "collapse line_break ?r"] set_collapse [of line_break ?r]
    have "c = 32 \<or> c \<in> set ?r \<and> \<not> white c" by blast
    then show "plain_unit c" using r by (auto simp only: plain_unit_def white_blank)
  qed
  then show ?thesis using trim_normal [OF _ collapse_apart] Some by (simp add: normalizeSmsText_def)
qed

lemma normal_fixed:
  assumes "normal_text s"
  shows "normalizeSmsText (Some s) = s"
proof -
  have c: "from_bengali c = c" "from_arabic c = c" "plain_space c = c" "\<not> zero_width c" "\<not> line_break c" if "c \<in> set s" for c
  proof -
    have "plain_unit c" using assms that by (simp add: normal_text_def list_all_iff)
    then show "from_bengali c = c" "from_arabic c = c" "plain_space c = c" "\<not> zero_width c" "\<not> line_break c"
      using special_white [of c] line_break_white [of c] by (auto simp: plain_unit_def from_bengali_def from_arabic_def plain_space_def)
  qed
  have m: "map plain_space (filter (\<lambda>c. \<not> zero_width c) (map from_arabic (map from_bengali s))) = s"
    using c by (simp add: map_idI filter_id_conv cong: map_cong)
  have "units_trim s = s"
  proof (cases "s = []")
    case False
    then have "dropWhile white s = s" "dropWhile white (rev s) = rev s"
      using assms by (auto simp: normal_text_def dropWhile_eq_self_iff hd_rev)
    then show ?thesis by (simp add: units_trim_def)
  qed (simp add: units_trim_def)
  moreover have "collapse line_break s = s" using c by (simp add: collapse_none list_all_iff)
  moreover have "collapse white s = s" using assms by (simp add: normal_text_def collapse_id)
  ultimately show ?thesis by (simp only: normalizeSmsText_def option.case m)
qed

text \<open>Normalising twice is normalising once.\<close>

lemma normalize_idem: "normalizeSmsText (Some (normalizeSmsText raw)) = normalizeSmsText raw"
  by (rule normal_fixed [OF normalize_normal])

end
