(* ===== verification/Sms.thy ===== *)
theory Sms
  imports PaymentCorrect SmsParser
begin

text \<open>
  Payment confirmation by message: the sender check (\<open>services/carrier-verification.ts\<close>), the
  corroboration of an extraction against the open orders (\<open>services/sms-corroboration.ts\<close>) and the
  queue consumer (\<open>queues/sms-consumer.ts\<close>), one message at a time.  Metrics are not modelled;
  sender strings are single-byte characters.
\<close>

section \<open>services/carrier-verification.ts\<close>

record carrier_rule =
  car_canonical :: string
  car_gatewaySlug :: string
  car_shortcodes :: "string list"

definition AUTHORIZED_CARRIERS :: "carrier_rule list" where
  "AUTHORIZED_CARRIERS =
     [\<lparr>car_canonical = ''bKash'', car_gatewaySlug = ''bkash-api'', car_shortcodes = [''bkash'', ''16247'']\<rparr>,
      \<lparr>car_canonical = ''Nagad'', car_gatewaySlug = ''nagad-merchant-api'', car_shortcodes = [''nagad'', ''16167'']\<rparr>,
      \<lparr>car_canonical = ''Rocket'', car_gatewaySlug = ''rocket'', car_shortcodes = [''rocket'', ''dbbl'', ''16216'']\<rparr>,
      \<lparr>car_canonical = ''upay'', car_gatewaySlug = ''upay'', car_shortcodes = [''upay'', ''ucb'', ''16268'']\<rparr>]"

record carrier_validation =
  cv_trusted :: bool
  cv_canonicalSender :: string
  cv_gatewaySlug :: "string option"

definition normalizeCarrierSender :: "string \<Rightarrow> string" where
  "normalizeCarrierSender rawSender = filter (\<lambda>c. lower_letter c \<or> is_digit c) (toLowerCase (trim rawSender))"

definition carrier_matches :: "string \<Rightarrow> carrier_rule \<Rightarrow> bool" where
  "carrier_matches nrm carrier \<longleftrightarrow> list_ex (\<lambda>code. nrm = code \<or> starts_with nrm code) (car_shortcodes carrier)"

definition validateCarrierSender :: "string \<Rightarrow> carrier_validation" where
  "validateCarrierSender rawSender =
     (let nrm = normalizeCarrierSender rawSender
      in if nrm = [] then \<lparr>cv_trusted = False, cv_canonicalSender = [], cv_gatewaySlug = None\<rparr>
         else case List.find (carrier_matches nrm) AUTHORIZED_CARRIERS of
                Some c \<Rightarrow> \<lparr>cv_trusted = True, cv_canonicalSender = car_canonical c, cv_gatewaySlug = Some (car_gatewaySlug c)\<rparr>
              | None \<Rightarrow> \<lparr>cv_trusted = False, cv_canonicalSender = trim rawSender, cv_gatewaySlug = None\<rparr>)"

definition isTrustedCarrier :: "string \<Rightarrow> bool" where
  "isTrustedCarrier rawSender = cv_trusted (validateCarrierSender rawSender)"

definition getCarrierGatewaySlug :: "string \<Rightarrow> string option" where
  "getCarrierGatewaySlug rawSender = cv_gatewaySlug (validateCarrierSender rawSender)"

section \<open>services/sms-corroboration.ts\<close>

record open_order =
  oo_transaction_row_id :: int
  oo_payment_intent_id :: int
  oo_amount :: money
  oo_currency :: string
  oo_gateway_slug :: "string option"
  oo_customer_trx_id :: "string option"
  oo_customer_phone :: "string option"

datatype review_reason =
    NoExtraction | NoTrxId | NoOpenOrders | NoAmountMatch | CurrencyMismatch | AmbiguousMatch | GatewayConflict | AwaitingCustomerTrx

datatype gateway_source = FromSenderId | FromExtraction

datatype corroboration =
    Confirm open_order string gateway_source
  | ManualReview review_reason

definition strip_family :: "string \<Rightarrow> string" where
  "strip_family s =
     (if ends_with s ''merchantapi'' then take (length s - 11) s
      else if ends_with s ''api'' then take (length s - 3) s
      else if ends_with s ''manual'' then take (length s - 6) s else s)"

definition isSameGatewayFamily :: "string \<Rightarrow> string \<Rightarrow> bool" where
  "isSameGatewayFamily a b \<longleftrightarrow> a = b \<or> strip_family (letters_only a) = strip_family (letters_only b)"

text \<open>\<open>Array.filter\<close> with a predicate that may throw.\<close>

fun filter_result :: "('a \<Rightarrow> 'e + bool) \<Rightarrow> 'a list \<Rightarrow> 'e + 'a list" where
  "filter_result p [] = Inr []"
| "filter_result p (x # xs) = (case p x of
      Inl e \<Rightarrow> Inl e
    | Inr b \<Rightarrow> (case filter_result p xs of Inl e \<Rightarrow> Inl e | Inr ys \<Rightarrow> Inr (if b then x # ys else ys)))"

definition same_amount :: "'d decimal_js \<Rightarrow> money \<Rightarrow> open_order \<Rightarrow> exn + bool" where
  "same_amount L amount ord = (case cmp L (oo_amount ord) amount of Inl e \<Rightarrow> Inl e | Inr n \<Rightarrow> Inr (n = 0))"

definition same_currency :: "string option \<Rightarrow> open_order \<Rightarrow> bool" where
  "same_currency cur ord = (case truthy cur of None \<Rightarrow> True | Some c \<Rightarrow> oo_currency ord = c)"

definition trx_form :: "string \<Rightarrow> string" where
  "trx_form t = toUpperCase (trim t)"

definition same_trx :: "string \<Rightarrow> open_order \<Rightarrow> bool" where
  "same_trx trx ord = (case truthy (oo_customer_trx_id ord) of None \<Rightarrow> False | Some t \<Rightarrow> trx_form t = trx_form trx)"

definition resolve_order :: "sms_extraction \<Rightarrow> string option \<Rightarrow> open_order \<Rightarrow> corroboration" where
  "resolve_order e senderGateway ord =
     (if truthy senderGateway \<noteq> None \<and> truthy (oo_gateway_slug ord) \<noteq> None \<and>
         \<not> isSameGatewayFamily (or_else (oo_gateway_slug ord) []) (or_else senderGateway [])
      then ManualReview GatewayConflict
      else Confirm ord
        (case senderGateway of Some g \<Rightarrow> g | None \<Rightarrow> (case se_gateway_slug e of Some g \<Rightarrow> g | None \<Rightarrow> or_else (oo_gateway_slug ord) ''unknown''))
        (if truthy senderGateway \<noteq> None then FromSenderId else FromExtraction))"

definition corroborateSmsPayment :: "'d decimal_js \<Rightarrow> sms_extraction \<Rightarrow> open_order list \<Rightarrow> string option \<Rightarrow> exn + corroboration" where
  "corroborateSmsPayment L e openOrders verifiedGatewaySlug =
     (case truthy (se_amount e) of
        None \<Rightarrow> Inr (ManualReview NoExtraction)
      | Some amount \<Rightarrow>
        if se_parser e = PNone then Inr (ManualReview NoExtraction)
        else case truthy (se_trx_id e) of
          None \<Rightarrow> Inr (ManualReview NoTrxId)
        | Some trx \<Rightarrow>
          if openOrders = [] then Inr (ManualReview NoOpenOrders)
          else case filter_result (same_amount L amount) openOrders of
            Inl err \<Rightarrow> Inl err
          | Inr byAmount \<Rightarrow>
            if byAmount = [] then Inr (ManualReview NoAmountMatch)
            else if truthy (se_currency e) \<noteq> None \<and> filter (same_currency (se_currency e)) byAmount = [] then Inr (ManualReview CurrencyMismatch)
            else case filter (same_trx trx) (filter (same_currency (se_currency e)) byAmount) of
              [ord] \<Rightarrow> Inr (resolve_order e verifiedGatewaySlug ord)
            | [] \<Rightarrow> Inr (ManualReview AwaitingCustomerTrx)
            | _ \<Rightarrow> Inr (ManualReview AmbiguousMatch))"

section \<open>queues/sms-consumer.ts\<close>

record sms_message =
  sm_merchant_id :: int
  sm_device_id :: "int option"
  sm_store_id :: "int option"
  sm_sender :: string
  sm_body :: utf16
  sm_signature_verified :: "bool option"
  sm_raw_sender :: "string option"

definition MATCH_WINDOW_MS :: int where
  "MATCH_WINDOW_MS = 30 * 60 * 1000"

definition signature_counts :: "sms_message \<Rightarrow> bool" where
  "signature_counts sm \<longleftrightarrow> sm_signature_verified sm = Some True \<and> (case sm_device_id sm of None \<Rightarrow> False | Some d \<Rightarrow> 0 < d)"

definition insert_sms :: "sms_message \<Rightarrow> iso \<Rightarrow> d1 \<Rightarrow> int \<times> d1" where
  "insert_sms sm now db = (seq_sms_data db, db\<lparr>
     op_sms_data := op_sms_data db @ [\<lparr>sd_id = seq_sms_data db, sd_merchant_id = sm_merchant_id sm, sd_sender = sm_sender sm, sd_body = sm_body sm,
       sd_raw_sender = or_else (sm_raw_sender sm) (sm_sender sm), sd_signature_verified = signature_counts sm, sd_device_id = sm_device_id sm,
       sd_match_status = SmPending, sd_parsed_amount = None, sd_parsed_trx_id = None, sd_parsed_at = None, sd_created_at = now\<rparr>],
     seq_sms_data := seq_sms_data db + 1\<rparr>)"

definition set_match :: "int \<Rightarrow> sms_match_status \<Rightarrow> d1 \<Rightarrow> d1" where
  "set_match i st db = db\<lparr>op_sms_data := update_where (\<lambda>r. sd_id r = i) (\<lambda>r. r\<lparr>sd_match_status := st\<rparr>) (op_sms_data db)\<rparr>"

definition store_parse :: "int \<Rightarrow> sms_extraction \<Rightarrow> iso \<Rightarrow> d1 \<Rightarrow> d1" where
  "store_parse i e now db = db\<lparr>op_sms_data := update_where (\<lambda>r. sd_id r = i)
     (\<lambda>r. r\<lparr>sd_parsed_amount := se_amount e, sd_parsed_trx_id := se_trx_id e, sd_parsed_at := Some now, sd_match_status := SmParsed\<rparr>)
     (op_sms_data db)\<rparr>"

definition matchable :: "int \<Rightarrow> int option \<Rightarrow> iso \<Rightarrow> tx_row \<Rightarrow> bool" where
  "matchable mid store since t \<longleftrightarrow> t_merchant_id t = mid \<and> t_status t \<in> {TPending, TAwaitingVerification, TProcessing, TCreated} \<and>
     since \<le> t_created_at t \<and> (store = None \<or> t_store_id t = None \<or> t_store_id t = store)"

definition order_of :: "d1 \<Rightarrow> tx_row \<Rightarrow> open_order option" where
  "order_of db t = map_option (\<lambda>p.
       let meta = or_else (pi_metadata p) []
       in \<lparr>oo_transaction_row_id = t_id t, oo_payment_intent_id = pi_id p, oo_amount = t_amount t, oo_currency = t_currency t,
           oo_gateway_slug = map_option g_slug (List.find (\<lambda>g. g_id g = t_gateway_id t) (op_gateways db)),
           oo_customer_trx_id = (case map_of meta ''customer_trx_id'' of Some x \<Rightarrow> Some x | None \<Rightarrow> t_gateway_trx_id t),
           oo_customer_phone = map_of meta ''customer_phone''\<rparr>)
     (List.find (\<lambda>p. t_payment_intent_id t = Some (pi_id p)) (op_payment_intents db))"

definition open_orders :: "int \<Rightarrow> int option \<Rightarrow> iso \<Rightarrow> d1 \<Rightarrow> open_order list" where
  "open_orders mid store since db =
     take 50 (List.map_filter (order_of db) (sort_key (\<lambda>t. - t_created_at t) (filter (matchable mid store since) (op_transactions db))))"

definition loadOpenOrders :: "int \<Rightarrow> int option \<Rightarrow> open_order list svc" where
  "loadOpenOrders mid store =
     andThen (reading w_now) (\<lambda>now. d1_get (open_orders mid store (now - MATCH_WINDOW_MS)))"

definition settle_decision :: "'d decimal_js \<Rightarrow> string \<Rightarrow> int \<Rightarrow> sms_extraction \<Rightarrow> corroboration \<Rightarrow> unit svc" where
  "settle_decision L uuid i e decision = (case decision of
      Confirm ord g src \<Rightarrow>
        andThen (completeTransaction L (oo_transaction_row_id ord) (oo_payment_intent_id ord) (or_else (se_trx_id e) (''sms-'' @ int_str i)) uuid) (\<lambda>_.
        d1_put (set_match i SmMatched))
    | ManualReview r \<Rightarrow> d1_put (set_match i SmNeedsReview))"

definition corroborate_sms :: "'d decimal_js \<Rightarrow> sms_platform \<Rightarrow> string \<Rightarrow> sms_message \<Rightarrow> string option \<Rightarrow> iso \<Rightarrow> int \<Rightarrow> disposition svc" where
  "corroborate_sms L pf uuid sm carrierSlug now i =
     andThen (sms_parse pf (sm_body sm) (sm_sender sm) (sm_merchant_id sm)) (\<lambda>e.
     andThen (d1_put (store_parse i e now)) (\<lambda>_.
     if se_parser e = PNone then andThen (d1_put (set_match i SmNoMatch)) (\<lambda>_. ret Ack)
     else andThen (loadOpenOrders (sm_merchant_id sm) (sm_store_id sm)) (\<lambda>openOrders.
       let verifiedGateway = (case carrierSlug of Some g \<Rightarrow> Some g | None \<Rightarrow> senderToGatewaySlug (Some (sm_sender sm)))
       in andThen (lift_result (corroborateSmsPayment L e openOrders verifiedGateway)) (\<lambda>decision.
          andThen (settle_decision L uuid i e decision) (\<lambda>_. ret Ack)))))"

definition sms_processOne :: "'d decimal_js \<Rightarrow> sms_platform \<Rightarrow> string \<Rightarrow> sms_message \<Rightarrow> disposition svc" where
  "sms_processOne L pf uuid sm =
     andThen (reading w_now) (\<lambda>now.
     catching
       (andThen (d1_run (insert_sms sm now)) (\<lambda>i.
        if pf_SIGNATURE_REQUIRED pf = Some ''true'' \<and> \<not> signature_counts sm
        then andThen (d1_put (set_match i SmFailed)) (\<lambda>_. ret Ack)
        else let carrier = validateCarrierSender (sm_sender sm)
             in if \<not> cv_trusted carrier then andThen (d1_put (set_match i SmFailed)) (\<lambda>_. ret Ack)
                else corroborate_sms L pf uuid sm (cv_gatewaySlug carrier) now i))
       (\<lambda>_. ret (Retry 60)))"

text \<open>The messages of a batch, each with the random part of the posting it may make; a rejection is recorded as settled.\<close>

fun sms_process :: "'d decimal_js \<Rightarrow> sms_platform \<Rightarrow> (sms_message \<times> string) list \<Rightarrow> disposition option list svc" where
  "sms_process L pf [] = ret []"
| "sms_process L pf ((sm, uuid) # ms) =
     andThen (catching (andThen (sms_processOne L pf uuid sm) (\<lambda>d. ret (Some d))) (\<lambda>_. ret None)) (\<lambda>d.
     andThen (sms_process L pf ms) (\<lambda>rest. ret (d # rest)))"

section \<open>What corroboration confirms\<close>

lemma filter_result_Inr:
  "filter_result p xs = Inr ys \<longleftrightarrow> (\<forall>x \<in> set xs. \<exists>b. p x = Inr b) \<and> ys = filter (\<lambda>x. p x = Inr True) xs"
proof (induction xs arbitrary: ys)
  case (Cons x xs)
  show ?case
  proof (cases "p x")
    case (Inr b)
    show ?thesis using Cons.IH [of "filter (\<lambda>x. p x = Inr True) xs"] Cons.IH Inr by (cases "filter_result p xs") auto
  qed simp
qed auto

lemma filter_result_Inl: "filter_result p xs = Inl e \<Longrightarrow> \<exists>x \<in> set xs. p x = Inl e"
  by (induction xs) (auto split: sum.splits)

text \<open>An order that the extraction identifies: the same amount, the same currency and the customer's own transaction id.\<close>

definition corroborated :: "'d decimal_js \<Rightarrow> sms_extraction \<Rightarrow> open_order \<Rightarrow> bool" where
  "corroborated L e ord \<longleftrightarrow> cmp L (oo_amount ord) (or_else (se_amount e) []) = Inr 0 \<and> same_currency (se_currency e) ord \<and>
     same_trx (or_else (se_trx_id e) []) ord"

lemma corroborated_fun:
  "se_amount e = Some a \<Longrightarrow> se_trx_id e = Some t \<Longrightarrow>
     corroborated L e = (\<lambda>o'. cmp L (oo_amount o') a = Inr 0 \<and> same_currency (se_currency e) o' \<and> same_trx t o')"
  by (intro ext) (simp add: corroborated_def or_else_def)

definition usable :: "sms_extraction \<Rightarrow> bool" where
  "usable e \<longleftrightarrow> se_parser e \<noteq> PNone \<and> truthy (se_amount e) \<noteq> None \<and> truthy (se_trx_id e) \<noteq> None"

lemma truthy_SomeD: "truthy x = Some a \<Longrightarrow> x = Some a"
  by (auto simp: truthy_def split: option.splits if_splits)

lemma filter_same: "filter (same_trx t) (filter (same_currency c) (filter (\<lambda>x. same_amount L a x = Inr True) orders)) =
    filter (\<lambda>o'. cmp L (oo_amount o') a = Inr 0 \<and> same_currency c o' \<and> same_trx t o') orders"
  unfolding filter_filter by (rule filter_cong) (auto simp: same_amount_def split: sum.splits)

text \<open>An amount that decimal.js refuses, in an order or in the extraction, is the one way to throw.\<close>

lemma corroborate_throws:
  assumes "corroborateSmsPayment L e orders gw = Inl x"
  shows "\<exists>o' \<in> set orders. cmp L (oo_amount o') (or_else (se_amount e) []) = Inl x"
proof -
  obtain a where a: "truthy (se_amount e) = Some a" using assms by (auto simp: corroborateSmsPayment_def split: option.splits)
  have "filter_result (same_amount L a) orders = Inl x"
  proof (cases "filter_result (same_amount L a) orders")
    case (Inr ys)
    then have False using assms by (auto simp: corroborateSmsPayment_def a split: option.splits if_splits list.splits)
    then show ?thesis ..
  qed (use assms in \<open>auto simp: corroborateSmsPayment_def a split: option.splits if_splits\<close>)
  from filter_result_Inl [OF this] obtain o' where o': "o' \<in> set orders" "same_amount L a o' = Inl x" by blast
  then have "cmp L (oo_amount o') a = Inl x" by (cases "cmp L (oo_amount o') a") (simp_all add: same_amount_def)
  with o'(1) show ?thesis by (auto simp: truthy_SomeD [OF a] or_else_def)
qed

lemma corroborate_cases:
  assumes "corroborateSmsPayment L e orders gw = Inr d" and "usable e" and "filter (corroborated L e) orders \<noteq> []"
  shows "(\<forall>o' \<in> set orders. \<exists>n. cmp L (oo_amount o') (or_else (se_amount e) []) = Inr n) \<and>
    d = (case filter (corroborated L e) orders of [ord] \<Rightarrow> resolve_order e gw ord | _ \<Rightarrow> ManualReview AmbiguousMatch)"
proof -
  obtain a t where a: "truthy (se_amount e) = Some a" "truthy (se_trx_id e) = Some t" using assms(2) by (auto simp: usable_def)
  then have e: "se_amount e = Some a" "se_trx_id e = Some t" by (blast dest: truthy_SomeD)+
  have f: "filter (corroborated L e) orders = filter (same_trx t) (filter (same_currency (se_currency e)) (filter (\<lambda>x. same_amount L a x = Inr True) orders))"
    unfolding filter_same corroborated_fun [OF e] ..
  then have ne: "orders \<noteq> []" "filter (\<lambda>x. same_amount L a x = Inr True) orders \<noteq> []"
      "filter (same_currency (se_currency e)) (filter (\<lambda>x. same_amount L a x = Inr True) orders) \<noteq> []"
    using assms(3) unfolding f by (auto simp del: filter_filter)
  obtain ys where ys: "filter_result (same_amount L a) orders = Inr ys"
    using assms(1,2) a ne(1) by (cases "filter_result (same_amount L a) orders") (auto simp: corroborateSmsPayment_def usable_def)
  then have y: "ys = filter (\<lambda>x. same_amount L a x = Inr True) orders" and all: "\<forall>x \<in> set orders. \<exists>b. same_amount L a x = Inr b"
    by (simp_all add: filter_result_Inr)
  have "(case filter (corroborated L e) orders of [ord] \<Rightarrow> Inr (resolve_order e gw ord) | [] \<Rightarrow> Inr (ManualReview AwaitingCustomerTrx)
      | _ \<Rightarrow> Inr (ManualReview AmbiguousMatch)) = (Inr d :: exn + corroboration)"
    using assms(1,2) a ne ys by (simp add: corroborateSmsPayment_def usable_def f y)
  moreover have "\<exists>n. cmp L (oo_amount o') a = Inr n" if "o' \<in> set orders" for o'
    using all that by (cases "cmp L (oo_amount o') a") (auto simp: same_amount_def)
  ultimately show ?thesis using assms(3) by (simp add: e or_else_def split: list.splits)
qed

lemma corroborate_confirmed:
  assumes "corroborateSmsPayment L e orders gw = Inr (Confirm ord g src)"
  shows "usable e \<and> filter (corroborated L e) orders = [ord] \<and> resolve_order e gw ord = Confirm ord g src"
proof -
  have u: "usable e"
    using assms by (auto simp: corroborateSmsPayment_def usable_def split: option.splits if_splits)
  then obtain a t where a: "truthy (se_amount e) = Some a" "truthy (se_trx_id e) = Some t" by (auto simp: usable_def)
  then have e: "se_amount e = Some a" "se_trx_id e = Some t" by (blast dest: truthy_SomeD)+
  obtain ys where ys: "filter_result (same_amount L a) orders = Inr ys"
    using assms u a by (cases "filter_result (same_amount L a) orders") (auto simp: corroborateSmsPayment_def usable_def split: if_splits)
  have f: "filter (same_trx t) (filter (same_currency (se_currency e)) ys) = filter (corroborated L e) orders"
    using ys by (simp only: filter_result_Inr filter_same corroborated_fun [OF e])
  have "filter (corroborated L e) orders \<noteq> []"
    using assms u a ys f by (auto simp: corroborateSmsPayment_def usable_def split: if_splits)
  from corroborate_cases [OF assms u this] have "Confirm ord g src =
    (case filter (corroborated L e) orders of [o'] \<Rightarrow> resolve_order e gw o' | _ \<Rightarrow> ManualReview AmbiguousMatch)" by blast
  then have "\<exists>o'. filter (corroborated L e) orders = [o'] \<and> resolve_order e gw o' = Confirm ord g src"
    by (cases "filter (corroborated L e) orders" rule: remdups_adj.cases) simp_all
  then show ?thesis using u by (auto simp: resolve_order_def split: if_splits)
qed


section \<open>What a message may complete\<close>

text \<open>Between two points of the consumer nothing changes but the message table.\<close>

definition but_sms :: "d1 \<Rightarrow> d1" where
  "but_sms db = db\<lparr>op_sms_data := [], seq_sms_data := 0\<rparr>"

definition sms_same :: "world \<Rightarrow> world \<Rightarrow> bool" where
  "sms_same w0 w \<longleftrightarrow> w_objects w = w_objects w0 \<and> w_now w = w_now w0 \<and> but_sms (w_db w) = but_sms (w_db w0)"

lemma but_sms_ops [simp]:
  "but_sms (snd (insert_sms sm now db)) = but_sms db" "but_sms (set_match i st db) = but_sms db" "but_sms (store_parse i e now db) = but_sms db"
  by (simp_all add: but_sms_def insert_sms_def set_match_def store_parse_def)

lemma sms_same_stable: "fate_stable (sms_same w0)"
  by (simp add: fate_stable_def sms_same_def)

lemma but_sms_business: "but_sms db = but_sms db0 \<Longrightarrow> business db = business db0"
  by (drule arg_cong [of _ _ business]) (simp add: but_sms_def business_def)

lemma order_of_but_sms: "order_of (but_sms db) = order_of db"
  by (intro ext) (simp add: but_sms_def order_of_def)

lemma but_sms_reads: "open_orders m s t (but_sms db) = open_orders m s t db" "sms_templates m (but_sms db) = sms_templates m db"
  by (simp_all add: open_orders_def order_of_but_sms) (simp_all add: but_sms_def sms_templates_def)

lemma sms_same_put: "(\<And>db. but_sms (f db) = but_sms db) \<Longrightarrow> preserves (sms_same w0) (d1_put f)"
  by (rule preserves_d1_put [OF sms_same_stable]) (simp add: sms_same_def)

lemma sms_same_get:
  assumes "\<And>db. f (but_sms db) = f db"
  shows "triple (sms_same w0) (d1_get f) (\<lambda>r w. sms_same w0 w \<and> r = f (w_db w0)) (\<lambda>_. sms_same w0)"
proof (rule triple_d1_get [OF sms_same_stable])
  fix w assume w: "sms_same w0 w"
  have "f (w_db w) = f (but_sms (w_db w))" by (simp only: assms)
  also have "\<dots> = f (w_db w0)" using w by (simp only: sms_same_def assms)
  finally show "sms_same w0 w \<and> f (w_db w) = f (w_db w0)" using w by simp
qed

lemma open_ordersD:
  assumes "ord \<in> set (open_orders m s t db)"
  obtains x and p :: intent_row where "x \<in> set (op_transactions db)" "matchable m s t x" "order_of db x = Some ord"
    "oo_transaction_row_id ord = t_id x" "oo_payment_intent_id ord = pi_id p" "t_payment_intent_id x = Some (pi_id p)"
    "oo_amount ord = t_amount x" "oo_currency ord = t_currency x"
proof -
  from assms obtain x where x: "x \<in> set (op_transactions db)" "matchable m s t x" "order_of db x = Some ord"
    by (auto simp: open_orders_def map_filter_def dest!: in_set_takeD)
  from x(3) obtain p where "List.find (\<lambda>p. t_payment_intent_id x = Some (pi_id p)) (op_payment_intents db) = Some p"
    by (auto simp: order_of_def)
  with x(3) find_SomeD [OF this] show thesis by (intro that [OF x, of p]) (auto simp: order_of_def Let_def)
qed

definition sms_extracted :: "sms_platform \<Rightarrow> world \<Rightarrow> sms_message \<Rightarrow> sms_extraction" where
  "sms_extracted pf w sm = parse_with pf (sms_templates (sm_merchant_id sm) (w_db w)) (normalizeSmsText (Some (sm_body sm))) (sm_sender sm)"

definition sms_orders :: "world \<Rightarrow> sms_message \<Rightarrow> open_order list" where
  "sms_orders w sm = open_orders (sm_merchant_id sm) (sm_store_id sm) (w_now w - MATCH_WINDOW_MS) (w_db w)"

definition sms_admitted :: "sms_platform \<Rightarrow> sms_message \<Rightarrow> bool" where
  "sms_admitted pf sm \<longleftrightarrow> (pf_SIGNATURE_REQUIRED pf = Some ''true'' \<longrightarrow> signature_counts sm) \<and> isTrustedCarrier (sm_sender sm)"

definition sms_names :: "'d decimal_js \<Rightarrow> sms_platform \<Rightarrow> world \<Rightarrow> sms_message \<Rightarrow> int \<Rightarrow> bool" where
  "sms_names L pf w sm tid \<longleftrightarrow> sms_admitted pf sm \<and> usable (sms_extracted pf w sm) \<and>
     (\<exists>ord. filter (corroborated L (sms_extracted pf w sm)) (sms_orders w sm) = [ord] \<and> oo_transaction_row_id ord = tid)"

text \<open>The consumer from the parse on, for any predicate that holds as long as only the message table changed.\<close>

lemma corroborate_sms_triple:
  assumes same: "\<And>w. sms_same w0 w \<Longrightarrow> R w" and frame: "book_pred R"
    and complete: "\<And>ord g src gtrx. filter (corroborated L (sms_extracted pf w0 sm)) (sms_orders w0 sm) = [ord] \<Longrightarrow> usable (sms_extracted pf w0 sm) \<Longrightarrow>
       triple (sms_same w0) (completeTransaction L (oo_transaction_row_id ord) (oo_payment_intent_id ord) gtrx uuid) (\<lambda>_. R) (\<lambda>_. R)"
  shows "triple (sms_same w0) (corroborate_sms L pf uuid sm slug now i) (\<lambda>_. R) (\<lambda>_. R)"
proof -
  note E = same
  have put: "preserves (sms_same w0) (d1_put (set_match i st))" "preserves (sms_same w0) (d1_put (store_parse i e now))" for st e
    by (rule sms_same_put, simp)+
  have Rput: "preserves R (d1_put (set_match i st))" for st
    by (rule quiet_put [OF frame]) (simp add: set_match_def business_def)
  have ack: "triple (sms_same w0) (andThen (d1_put (set_match i st)) (\<lambda>_. ret Ack)) (\<lambda>_. R) (\<lambda>_. R)" for st
    by (rule triple_weaken [OF preserves_andThen [OF put(1) quiet_pure(2)]]) (auto intro: same)
  have parse: "triple (sms_same w0) (sms_parse pf (sm_body sm) (sm_sender sm) (sm_merchant_id sm))
      (\<lambda>e w. sms_same w0 w \<and> e = sms_extracted pf w0 sm) (\<lambda>_. R)"
    unfolding sms_parse_def Let_def
  proof (rule triple_andThen)
    show "triple (sms_same w0) (d1_get (sms_templates (sm_merchant_id sm))) (\<lambda>ts w. sms_same w0 w \<and> ts = sms_templates (sm_merchant_id sm) (w_db w0)) (\<lambda>_. R)"
      by (rule triple_weaken [OF sms_same_get [where f = "sms_templates (sm_merchant_id sm)", OF but_sms_reads(2)]]) (auto intro: same)
  qed (auto simp: sms_extracted_def intro!: triple_ret)
  have load: "triple (sms_same w0) (loadOpenOrders (sm_merchant_id sm) (sm_store_id sm)) (\<lambda>os w. sms_same w0 w \<and> os = sms_orders w0 sm) (\<lambda>_. R)"
    unfolding loadOpenOrders_def
  proof (rule triple_andThen)
    show "triple (sms_same w0) (reading w_now) (\<lambda>n w. sms_same w0 w \<and> n = w_now w0) (\<lambda>_. R)"
      by (rule triple_reading) (simp add: sms_same_def)
    show "triple (\<lambda>w. sms_same w0 w \<and> n = w_now w0) (d1_get (open_orders (sm_merchant_id sm) (sm_store_id sm) (n - MATCH_WINDOW_MS)))
        (\<lambda>os w. sms_same w0 w \<and> os = sms_orders w0 sm) (\<lambda>_. R)" for n
      by (rule triple_pure, rule triple_weaken [OF sms_same_get [where f = "open_orders (sm_merchant_id sm) (sm_store_id sm) (n - MATCH_WINDOW_MS)", OF but_sms_reads(1)]]) (auto simp: sms_orders_def intro: same)
  qed
  have settle: "triple (sms_same w0) (andThen (settle_decision L uuid i (sms_extracted pf w0 sm) d) (\<lambda>_. ret Ack)) (\<lambda>_. R) (\<lambda>_. R)"
    if "corroborateSmsPayment L (sms_extracted pf w0 sm) (sms_orders w0 sm) gw = Inr d" for d gw
  proof (cases d)
    case (Confirm ord g src)
    from corroborate_confirmed [OF that [unfolded Confirm]]
    have c: "triple (sms_same w0) (completeTransaction L (oo_transaction_row_id ord) (oo_payment_intent_id ord) gtrx uuid) (\<lambda>_. R) (\<lambda>_. R)" for gtrx
      by (intro complete) auto
    show ?thesis unfolding Confirm settle_decision_def corroboration.case
      by (rule triple_andThen [OF triple_andThen [OF c Rput] quiet_pure(2)])
  next
    case (ManualReview r)
    then show ?thesis using ack by (simp add: settle_decision_def)
  qed
  show ?thesis
    unfolding corroborate_sms_def
  proof (rule triple_andThen [OF parse], rule triple_pure, goal_cases)
    case (1 e)
    have decide: "triple (sms_same w0) (andThen (loadOpenOrders (sm_merchant_id sm) (sm_store_id sm)) (\<lambda>openOrders.
       let verifiedGateway = (case slug of Some g \<Rightarrow> Some g | None \<Rightarrow> senderToGatewaySlug (Some (sm_sender sm)))
       in andThen (lift_result (corroborateSmsPayment L e openOrders verifiedGateway)) (\<lambda>decision.
          andThen (settle_decision L uuid i e decision) (\<lambda>_. ret Ack)))) (\<lambda>_. R) (\<lambda>_. R)"
      unfolding Let_def
      by (rule triple_andThen [OF load], rule triple_pure, rule triple_andThen [OF triple_lift [OF same]], assumption, rule triple_pure)
         (auto simp: 1 intro: settle)
    have st: "triple (sms_same w0) (d1_put (store_parse i e now)) (\<lambda>_. sms_same w0) (\<lambda>_. R)"
      by (rule triple_weaken [OF put(2)]) (auto intro: same)
    show ?case
      by (rule triple_andThen [OF st], cases "se_parser e = PNone") (simp_all only: if_True if_False simp_thms ack decide)
  qed
qed

lemma sms_triple:
  assumes same: "\<And>w. sms_same w0 w \<Longrightarrow> R w" and frame: "book_pred R"
    and complete: "\<And>ord gtrx. sms_admitted pf sm \<Longrightarrow> filter (corroborated L (sms_extracted pf w0 sm)) (sms_orders w0 sm) = [ord] \<Longrightarrow>
       usable (sms_extracted pf w0 sm) \<Longrightarrow>
       triple (sms_same w0) (completeTransaction L (oo_transaction_row_id ord) (oo_payment_intent_id ord) gtrx uuid) (\<lambda>_. R) (\<lambda>_. R)"
  shows "triple (sms_same w0) (sms_processOne L pf uuid sm) (\<lambda>_. R) (\<lambda>_. R)"
proof -
  have fail: "triple (sms_same w0) (andThen (d1_put (set_match i SmFailed)) (\<lambda>_. ret Ack)) (\<lambda>_. R) (\<lambda>_. R)" for i
    by (rule triple_weaken [OF preserves_andThen [OF sms_same_put quiet_pure(2)]]) (auto intro: same)
  have run: "triple (sms_same w0) (d1_run (insert_sms sm now)) (\<lambda>_. sms_same w0) (\<lambda>_. R)" for now
    by (rule triple_weaken [OF preserves_d1_run [OF sms_same_stable]]) (auto simp: sms_same_def intro: same)
  have go: "triple (sms_same w0) (corroborate_sms L pf uuid sm slug now i) (\<lambda>_. R) (\<lambda>_. R)" if "sms_admitted pf sm" for slug now i
    by (rule corroborate_sms_triple [OF same frame complete [OF that]])
  have body: "triple (sms_same w0) (if pf_SIGNATURE_REQUIRED pf = Some ''true'' \<and> \<not> signature_counts sm
        then andThen (d1_put (set_match i SmFailed)) (\<lambda>_. ret Ack)
        else let carrier = validateCarrierSender (sm_sender sm)
             in if \<not> cv_trusted carrier then andThen (d1_put (set_match i SmFailed)) (\<lambda>_. ret Ack)
                else corroborate_sms L pf uuid sm (cv_gatewaySlug carrier) now i) (\<lambda>_. R) (\<lambda>_. R)" for now i
    unfolding Let_def
  proof (cases "pf_SIGNATURE_REQUIRED pf = Some ''true'' \<and> \<not> signature_counts sm \<or> \<not> cv_trusted (validateCarrierSender (sm_sender sm))")
    case True
    then show "triple (sms_same w0) (if pf_SIGNATURE_REQUIRED pf = Some ''true'' \<and> \<not> signature_counts sm
        then andThen (d1_put (set_match i SmFailed)) (\<lambda>_. ret Ack)
        else if \<not> cv_trusted (validateCarrierSender (sm_sender sm)) then andThen (d1_put (set_match i SmFailed)) (\<lambda>_. ret Ack)
             else corroborate_sms L pf uuid sm (cv_gatewaySlug (validateCarrierSender (sm_sender sm))) now i) (\<lambda>_. R) (\<lambda>_. R)"
      using fail by auto
  next
    case False
    then have "sms_admitted pf sm" by (auto simp: sms_admitted_def isTrustedCarrier_def)
    from go [OF this] False show "triple (sms_same w0) (if pf_SIGNATURE_REQUIRED pf = Some ''true'' \<and> \<not> signature_counts sm
        then andThen (d1_put (set_match i SmFailed)) (\<lambda>_. ret Ack)
        else if \<not> cv_trusted (validateCarrierSender (sm_sender sm)) then andThen (d1_put (set_match i SmFailed)) (\<lambda>_. ret Ack)
             else corroborate_sms L pf uuid sm (cv_gatewaySlug (validateCarrierSender (sm_sender sm))) now i) (\<lambda>_. R) (\<lambda>_. R)"
      by auto
  qed
  show ?thesis
    unfolding sms_processOne_def
    by (rule triple_andThen [OF triple_reading], assumption, rule triple_catching [OF triple_andThen [OF run body]]) (rule quiet_pure(2))
qed

text \<open>C29: a message completes at most the one order it names.  Whatever calls are lost, a transaction that is
  completed afterwards and was not before is an open one of the message's merchant, in its store and
  window, whose amount, currency and customer-submitted transaction id are those of the message and
  of no other open order; the sender is a known carrier, and signed when signatures are required.\<close>

theorem sms_completes_named:
  assumes "world_ok w" and "sms_processOne L pf uuid sm w = (r, w')" and "tid \<in> completed_ids w'" and "tid \<notin> completed_ids w"
  shows "sms_names L pf w sm tid \<and>
    (\<exists>t \<in> set (op_transactions (w_db w)). t_id t = tid \<and> matchable (sm_merchant_id sm) (sm_store_id sm) (w_now w - MATCH_WINDOW_MS) t)"
proof -
  let ?R = "\<lambda>w'. \<forall>tid \<in> completed_ids w' - completed_ids w. sms_names L pf w sm tid"
  have same: "sms_same w v \<Longrightarrow> completed_ids v = completed_ids w \<and> world_ok v" for v
    using but_sms_business [of "w_db v" "w_db w"] assms(1) by (simp add: sms_same_def completed_ids_def world_ok_def business_def)
  have complete: "triple (sms_same w) (completeTransaction L (oo_transaction_row_id ord) i gtrx uuid) (\<lambda>_. ?R) (\<lambda>_. ?R)"
    if "sms_names L pf w sm (oo_transaction_row_id ord)" for ord i gtrx
    by (rule triple_weaken [OF complete_ids [where S = "completed_ids w"]]) (use that same in auto)
  have t: "triple (sms_same w) (sms_processOne L pf uuid sm) (\<lambda>_. ?R) (\<lambda>_. ?R)"
  proof (rule sms_triple)
    show "?R v" if "sms_same w v" for v using same [OF that] by simp
    show "book_pred ?R" by (auto simp: book_pred_def completed_ids_def business_def)
  qed (rule complete, auto simp: sms_names_def)
  have "?R w'"
    using t assms(2) by (cases r) (auto simp: triple_def sms_same_def dest!: spec [of _ w])
  then have n: "sms_names L pf w sm tid" using assms(3,4) by blast
  then obtain ord where o: "filter (corroborated L (sms_extracted pf w sm)) (sms_orders w sm) = [ord]" "oo_transaction_row_id ord = tid"
    by (auto simp: sms_names_def)
  then have "ord \<in> set (sms_orders w sm)" by (metis filter_is_subset list.set_intros(1) subset_code(1))
  with n o(2) show ?thesis unfolding sms_orders_def by (elim open_ordersD) force
qed

text \<open>The consumer is one more payment service: it keeps whatever the payment contract keeps.\<close>

context payment_safe
begin

lemma sms_safe: "preserves P (sms_processOne L pf uuid sm)"
proof (rule triple_from)
  fix w0 assume w0: "P w0"
  have same: "P w" if "sms_same w0 w" for w
    by (rule book_predD [OF frame w0]) (use that but_sms_business [of "w_db w" "w_db w0"] in \<open>simp_all add: sms_same_def\<close>)
  have "triple (sms_same w0) (sms_processOne L pf uuid sm) (\<lambda>_. P) (\<lambda>_. P)"
  proof (rule sms_triple [OF same frame])
    fix ord gtrx assume "filter (corroborated L (sms_extracted pf w0 sm)) (sms_orders w0 sm) = [ord]"
    then have "ord \<in> set (sms_orders w0 sm)" by (metis filter_is_subset list.set_intros(1) subset_code(1))
    then have for0: "tx_for (oo_transaction_row_id ord) (oo_payment_intent_id ord) (w_db w0)"
      unfolding sms_orders_def by (elim open_ordersD) (auto simp: tx_for_def)
    show "triple (sms_same w0) (completeTransaction L (oo_transaction_row_id ord) (oo_payment_intent_id ord) gtrx uuid) (\<lambda>_. P) (\<lambda>_. P)"
    proof (rule triple_weaken [OF complete_safe])
      fix w assume w: "sms_same w0 w"
      then have "op_transactions (w_db w) = op_transactions (w_db w0)" using but_sms_business [of "w_db w" "w_db w0"] by (simp add: sms_same_def business_def)
      with for0 same [OF w] show "P w \<and> tx_for (oo_transaction_row_id ord) (oo_payment_intent_id ord) (w_db w)" by (simp add: tx_for_def)
    qed
  qed
  then show "triple (\<lambda>w. w = w0) (sms_processOne L pf uuid sm) (\<lambda>_. P) (\<lambda>_. P)"
    by (rule triple_weaken) (simp_all add: sms_same_def)
qed

end

section \<open>A message that completes an order\<close>

definition demo_paid_sms :: sms_message where
  "demo_paid_sms = \<lparr>sm_merchant_id = 7, sm_device_id = Some 3, sm_store_id = None, sm_sender = ''bKash'',
     sm_body = units ''Paid Tk 0.10 TrxID 9X7Y2'', sm_signature_verified = Some True, sm_raw_sender = None\<rparr>"

definition bare_sms_platform :: sms_platform where
  "bare_sms_platform = \<lparr>pf_regexp = (\<lambda>_ _. None), pf_AI = None, pf_SIGNATURE_REQUIRED = Some ''true''\<rparr>"

definition sms_world :: world where
  "sms_world = pay_world\<lparr>w_db := (w_db pay_world)\<lparr>op_gateways := [demo_gateway\<lparr>g_slug := ''bkash-api''\<rparr>],
     op_payment_intents := [demo_intent\<lparr>pi_metadata := Some [(''customer_trx_id'', '' 9x7y2'')]\<rparr>]\<rparr>\<rparr>"

lemmas sms_parse_run [code] = sms_parse_def [THEN fun_cong, unfolded prog_run]
lemmas loadOpenOrders_run [code] = loadOpenOrders_def [THEN fun_cong, unfolded prog_run]
lemmas corroborate_sms_run [code] = corroborate_sms_def [THEN fun_cong, unfolded prog_run]
lemmas sms_processOne_run [code] = sms_processOne_def [THEN fun_cong, unfolded prog_run]

lemma demo_sms_extraction:
  "parse_with bare_sms_platform [] (normalizeSmsText (Some (sm_body demo_paid_sms))) ''bKash'' =
     \<lparr>se_amount = Some ''0.10'', se_trx_id = Some ''9X7Y2'', se_currency = Some ''BDT'', se_gateway_slug = Some ''bkash-api'',
       se_confidence = 19 / 20, se_parser = PHeuristic\<rparr>"
  by code_simp

lemma demo_sms_run: "completed_list (snd (sms_processOne exact_decimal bare_sms_platform [] demo_paid_sms sms_world)) = [1]"
  by code_simp


theorem sms_completes_named_witness:
  "1 \<in> completed_ids (snd (sms_processOne exact_decimal bare_sms_platform [] demo_paid_sms sms_world)) \<and>
   sms_names exact_decimal bare_sms_platform sms_world demo_paid_sms 1"
proof -
  let ?run = "sms_processOne exact_decimal bare_sms_platform [] demo_paid_sms sms_world"
  have ok: "world_ok sms_world" using pay_world_ok by (simp add: sms_world_def world_ok_def)
  have run: "?run = (fst ?run, snd ?run)" by simp
  have new: "1 \<in> completed_ids (snd ?run)" using demo_sms_run by (simp add: completed_ids_list)
  moreover have "completed_list sms_world = []" by code_simp
  ultimately show ?thesis using sms_completes_named [OF ok run new] by (simp add: completed_ids_list)
qed

text \<open>
  A sender is trusted by its prefix: any name that begins with a carrier's, or any number that begins with a
  short code, passes as that carrier.
\<close>

lemma prefix_is_trusted: "isTrustedCarrier ''UCB-friend of bKash'' \<and> isTrustedCarrier ''1621655501''"
  by code_simp

text \<open>
  An amount the AI model returns is not validated: one that decimal.js refuses makes the corroboration throw
  as soon as there is an open order, so the message is retried instead of going to manual review.
\<close>

definition grouped_ai :: "string \<Rightarrow> utf16 \<Rightarrow> ai_answer" where
  "grouped_ai s b = AiFields (Some ''1,500.00'') (Some ''9X7Y2'') (Some ''BDT'') None"

lemma ai_amount_throws:
  "fst (sms_processOne exact_decimal (bare_sms_platform\<lparr>pf_AI := Some grouped_ai\<rparr>) [] (demo_paid_sms\<lparr>sm_body := units ''Hi''\<rparr>) sms_world) = Inr (Retry 60)"
  by code_simp

end
