(* ===== verification/Platform.thy ===== *)
theory Platform
  imports ReconciliationCorrect Sms
begin

text \<open>
  The platform as one machine: requests of every service, calls and alarms of the ledger objects,
  the attempts of the refund workflows and the daily sweep, interleaved in any order, with any
  remote call lost at any point and any activity outside the modelled services that leaves the
  business tables alone.  The books are an invariant of this machine, and so is the refund bound.
\<close>

section \<open>The contract of every service\<close>

locale platform_safe = refund_safe +
  assumes attempt_count: "P w \<Longrightarrow> P (w\<lparr>w_db := count_attempt i now (w_db w)\<rparr>)"
begin

lemma base_ok: "P w \<Longrightarrow> world_ok w"
  using sound by (simp add: books_ok_def)

lemma ledger_safe_call:
  assumes "\<And>w0. preserves (ledger_step w0) m"
  shows "preserves P m"
proof (rule triple_from)
  fix w0 assume w0: "P w0"
  show "triple (\<lambda>w. w = w0) m (\<lambda>_. P) (\<lambda>_. P)"
    by (rule triple_weaken [OF assms [of w0]]) (use ledger [OF w0] ledger_step_refl [OF base_ok [OF w0]] in auto)
qed

lemma post_safe: "preserves P (stub_postTransaction m p)"
  by (rule ledger_safe_call, rule triple_weaken [OF stub_post_step]) auto

end

lemma drain_step: "preserves (ledger_step w0) (stub_drainOutbox m)"
  unfolding stub_drainOutbox_def ledger_call_def
proof (rule triple_call [OF ledger_step_stable])
  let ?op = "\<lambda>w. case drainOutbox True (w_now w) (w_d1_up w) (w_objects w m, w_db w) of (a, (d, db)) \<Rightarrow> (a, w\<lparr>w_objects := (w_objects w)(m := d), w_db := db\<rparr>)"
  show op: "ledger_step w0 (snd (?op w))" if w: "ledger_step w0 w" for w
  proof -
    obtain r d db where run: "drainOutbox True (w_now w) (w_d1_up w) (w_objects w m, w_db w) = (r, (d, db))" by (metis prod.exhaust)
    have "obj_ok (w_objects w m)" using w by (simp add: ledger_step_def ledger_safe_def world_ok_def)
    then have "ledger_safe w0 (w\<lparr>w_objects := (w_objects w)(m := d), w_db := db\<rparr>)"
      using exec_obj_ok [of "(w_objects w m, w_db w)" "CDrain True (w_now w) (w_d1_up w)"] run w
      by (intro ledger_safe_object) (simp_all add: ledger_step_def)
    moreover have "business db = business (w_db w)" using drain_business [of True "w_now w" "w_d1_up w" "w_objects w m" "w_db w"] run by simp
    ultimately show ?thesis using run w by (simp add: ledger_step_def same_business_def)
  qed
  show "ledger_step w0 (snd (?op w))" if "ledger_step w0 w" for w using op [OF that] .
qed

lemma read_step: "preserves (ledger_step w0) (stub_read m f)"
  by (rule triple_read [OF ledger_step_stable])

context platform_safe
begin

lemma drain_safe: "preserves P (stub_drainOutbox m)" and read_safe: "preserves P (stub_read m f)"
  by (rule ledger_safe_call, rule drain_step read_step)+

lemmas safe_rules = preserves_andThen preserves_catching preserves_forEach preserves_foldEach preserves_option preserves_sum preserves_if
  quiet frame post_safe drain_safe read_safe

lemma pending_safe: "preserves P (reconcilePendingPostings g l)"
proof -
  have failed: "preserves P (failed_posting row p res)" for row p res
    unfolding failed_posting_def Let_def
    by (intro safe_rules) (simp_all add: reject_posting_def bumpAttempts_def business_def)
  have heal: "preserves P (heal_audit_trail p t)" for p t
    unfolding heal_audit_trail_def by (intro safe_rules) simp
  have answer: "preserves P (case st of Posted \<Rightarrow> a | Duplicate \<Rightarrow> b | Failed \<Rightarrow> c)"
    if "preserves P a" "preserves P b" "preserves P c" for a b c :: "pending_result svc" and st
    using that by (cases st) simp_all
  have row: "preserves P (replay_row row res)" for row res
    unfolding replay_row_def
    by (intro safe_rules answer failed heal) (simp add: bumpAttempts_def business_def)
  show ?thesis
    unfolding reconcilePendingPostings_def poison_check_def by (intro safe_rules row)
qed

lemma verify_safe: "preserves P (verifyAllMerchants L)"
proof -
  have one: "preserves P (verifyDurableObjectConsistency L m)" for m
    unfolding verifyDurableObjectConsistency_def Let_def by (intro safe_rules)
  show ?thesis unfolding verifyAllMerchants_def verify_merchant_def by (intro safe_rules one)
qed

lemma sweep_safe: "preserves P (sweepStuckRefunds dup)"
  unfolding sweepStuckRefunds_def redrive_def by (intro safe_rules put_safe attempt_count)

lemma stats_safe: "preserves P collectOutboxStats"
  unfolding collectOutboxStats_def outbox_of_def Let_def by (intro safe_rules)

lemma run_safe: "preserves P (runReconciliation L dup t)"
  unfolding runReconciliation_def unless_hourly_def Let_def
  by (intro safe_rules pending_safe verify_safe sweep_safe stats_safe) (simp add: record_run_def business_def)

lemma sweep_attempt_safe: "preserves P (sweep_attempt L dup ph)"
  by (cases ph) (auto simp: sweep_attempt_def record_run_def business_def
      intro!: preserves_andThen quiet frame pending_safe verify_safe sweep_safe stats_safe triple_ret)

end

section \<open>Waiting instances\<close>

text \<open>What the waiting instances rely on survives every service: the contract is closed under it.\<close>

lemma phase_db:
  assumes "phase_ok ph w" and "\<And>r. row_for r (w_db w) \<Longrightarrow> row_for r db"
  shows "phase_ok ph (w\<lparr>w_db := db\<rparr>)"
  using assms by (cases ph) (simp_all add: phase_ok_def reversed_in_def posted_in_def)

lemma phase_step: "phase_ok ph w0 \<Longrightarrow> ledger_step w0 w \<Longrightarrow> phase_ok ph w"
  by (cases ph) (auto simp: phase_ok_def row_for_def reversed_in_def ledger_step_def same_business_def business_def dest: ledger_safe_posted)

lemma row_same: "op_refunds db = op_refunds db0 \<Longrightarrow> row_for r db0 \<Longrightarrow> row_for r db"
  by (simp add: row_for_def)

definition waiting :: "(world \<Rightarrow> bool) \<Rightarrow> wf_phase set \<Rightarrow> world \<Rightarrow> bool" where
  "waiting P phases w \<longleftrightarrow> P w \<and> (\<forall>ph \<in> phases. phase_ok ph w)"

lemma waiting_db:
  "waiting P phases w \<Longrightarrow> P (w\<lparr>w_db := db\<rparr>) \<Longrightarrow> (\<And>r. row_for r (w_db w) \<Longrightarrow> row_for r db) \<Longrightarrow> waiting P phases (w\<lparr>w_db := db\<rparr>)"
  by (simp add: waiting_def phase_db)

lemma row_statement: "(\<And>r. rf_core (f r) = rf_core r) \<Longrightarrow> row_for r db \<Longrightarrow> row_for r (db\<lparr>op_refunds := update_where q f (op_refunds db)\<rparr>)"
  by (simp add: row_for_update)

lemma waiting_statement:
  assumes "waiting P phases w" and "P (w\<lparr>w_db := (w_db w)\<lparr>op_refunds := update_where q f (op_refunds (w_db w))\<rparr>\<rparr>)" and "\<And>r. rf_core (f r) = rf_core r"
  shows "waiting P phases (w\<lparr>w_db := (w_db w)\<lparr>op_refunds := update_where q f (op_refunds (w_db w))\<rparr>\<rparr>)"
  by (rule waiting_db [OF assms(1,2)]) (rule row_statement [OF assms(3)])

lemma waiting_safe:
  assumes P: "platform_safe P F"
  shows "platform_safe (waiting P phases) F"
proof -
  have R: "refund_safe P F" using P by (rule platform_safe.axioms(1))
  have S: "payment_safe P" using R by (rule refund_safe.axioms(1))
  have inP: "waiting P phases w \<Longrightarrow> P w" for w by (simp add: waiting_def)
  show ?thesis
  proof
    show "books_ok w" if "waiting P phases w" for w using payment_safe.sound [OF S inP [OF that]] .
    show "book_pred (waiting P phases)"
      using payment_safe.frame [OF S] phase_frame unfolding waiting_def book_pred_def by meson
    show "waiting P phases w" if "waiting P phases w0" "ledger_step w0 w" for w0 w
      using that payment_safe.ledger [OF S inP [OF that(1)] that(2)] phase_step [OF _ that(2)] by (simp add: waiting_def)
    show "waiting P phases (w\<lparr>w_db := mark_processing i gid now (w_db w)\<rparr>)" if w: "waiting P phases w" for w i gid now
      by (rule waiting_db [OF w payment_safe.processing [OF S inP [OF w]]], erule row_same [rotated]) (simp add: mark_processing_def)
    show "waiting P phases (w\<lparr>w_db := mark_failed tid now (w_db w)\<rparr>)" if w: "waiting P phases w" for w tid now
      by (rule waiting_db [OF w payment_safe.failed [OF S inP [OF w]]], erule row_same [rotated]) (simp add: mark_failed_def)
    show "waiting P phases (w\<lparr>w_db := mark_completed tid i gtrx now (w_db w)\<rparr>)"
      if w: "waiting P phases w" and t: "t \<in> set (op_transactions (w_db w))" "t_id t = tid" "tx_owner (w_db w) t = Some (m, tx)" "posted_in w m tx"
      for w t tid m tx i gtrx now
      by (rule waiting_db [OF w payment_safe.completed [OF S inP [OF w] t]], erule row_same [rotated]) (simp add: mark_completed_def)
    show "waiting P phases (w\<lparr>w_db := db\<rparr>)" if w: "waiting P phases w" and ins: "insert_intent inp rg rn now (w_db w) = Inr (a, db)" for w inp rg rn now a db
      by (rule waiting_db [OF w payment_safe.intent [OF S inP [OF w] ins]], erule row_same [rotated]) (use ins in \<open>auto simp: insert_intent_def split: if_splits\<close>)
    show "waiting P phases (w\<lparr>w_db := db\<rparr>)" if w: "waiting P phases w" and ins: "insert_transaction inp rg rn now k (w_db w) = Inr (a, db)" for w inp rg rn now k a db
      by (rule waiting_db [OF w payment_safe.transaction [OF S inP [OF w] ins]], erule row_same [rotated]) (use ins in \<open>auto simp: insert_transaction_def split: if_splits\<close>)
    show "waiting P phases (w\<lparr>w_db := set_gateway_refund i g now (w_db w)\<rparr>)" if w: "waiting P phases w" for w i g now
      using refund_safe.gateway_id [OF R inP [OF w]] unfolding set_gateway_refund_def by (rule waiting_statement [OF w]) (simp add: rf_core_def)
    show "waiting P phases (w\<lparr>w_db := fail_refund i now (w_db w)\<rparr>)" if w: "waiting P phases w" for w i now
      using refund_safe.fail [OF R inP [OF w]] unfolding fail_refund_def by (rule waiting_statement [OF w]) (simp add: rf_core_def)
    show "waiting P phases (w\<lparr>w_db := close_refund i RfFailed now (w_db w)\<rparr>)" if w: "waiting P phases w" for w i now
      using refund_safe.close_failed [OF R inP [OF w]] unfolding close_refund_def by (rule waiting_statement [OF w]) (simp add: rf_core_def)
    show "waiting P phases (w\<lparr>w_db := close_refund i RfCompleted now (w_db w)\<rparr>)"
      if w: "waiting P phases w" and r: "r \<in> set (op_refunds (w_db w))" "rf_id r = i" "posted_in w (rf_merchant_id r) (refund_tx (rf_merchant_id r) (rf_refund_id r))"
      for w r i now
      using refund_safe.close_completed [OF R inP [OF w] r] unfolding close_refund_def by (rule waiting_statement [OF w]) (simp add: rf_core_def)
    show "waiting P phases (w\<lparr>w_db := db\<rparr>)"
      if w: "waiting P phases w" and chk: "check_refund F inp cap prior = Inr ()" and ins: "insert_refund F inp rid cur now (w_db w) = Inr (Some i, db)"
      for w inp cap prior rid cur now i db
      by (rule waiting_db [OF w refund_safe.reserve [OF R inP [OF w] chk ins]]) (use ins in \<open>auto simp: insert_refund_def row_for_def split: if_splits\<close>)
    show "waiting P phases (w\<lparr>w_db := count_attempt i now (w_db w)\<rparr>)" if w: "waiting P phases w" for w i now
      using platform_safe.attempt_count [OF P inP [OF w]] unfolding count_attempt_def by (rule waiting_statement [OF w]) (simp add: rf_core_def)
  qed
qed

section \<open>The contract holds of the books and of the bound\<close>

lemma count_attempt_books: "books_ok w \<Longrightarrow> books_ok (w\<lparr>w_db := count_attempt i now (w_db w)\<rparr>)"
  by (rule rf_statement_books [OF _ count_attempt_def]) (simp_all add: rf_core_def rf_completed_def)

interpretation books_plat: platform_safe books_ok F for F
  by unfold_locales (rule count_attempt_books)

lemma bound_platform_safe:
  assumes F: "accurate u val F"
  shows "platform_safe (refunds_ok u val) F"
proof (rule platform_safe.intro [OF bound_refund_safe [OF F]], unfold_locales)
  fix w i now assume w: "refunds_ok u val w"
  show "refunds_ok u val (w\<lparr>w_db := count_attempt i now (w_db w)\<rparr>)"
  proof (rule refunds_ok_evolves [OF F w count_attempt_books])
    show "books_ok w" using w by (simp add: refunds_ok_def)
    show "evolves (w_db w) (count_attempt i now (w_db w))"
      unfolding count_attempt_def by (rule evolves_statement) (simp_all add: rf_core_def)
  qed
qed

section \<open>The machine\<close>

text \<open>What is fixed when the program is deployed: the code of its dependencies and its platform.\<close>

record 'd deployment =
  dp_decimal :: "'d decimal_js"
  dp_build :: gateway_build
  dp_registry :: gateway_registry
  dp_decrypt :: "string \<Rightarrow> string option"
  dp_duplicate :: js_error
  dp_waits :: "step_config \<Rightarrow> int list"
  dp_doubles :: doubles
  dp_sms :: sms_platform

datatype request =
    CreateIntent create_intent_input intent_randoms
  | InitiatePayment int int
  | Callback int "(string \<times> string) list" string
  | CompleteTransaction int int string string
  | ProcessSms sms_message string
  | CreateRefund create_refund_input string
  | Reconcile recon_trigger
  | SweepAttempt sweep_phase
  | PostPayload int posting_payload
  | DrainOutbox int

fun serve :: "'d deployment \<Rightarrow> request \<Rightarrow> world \<Rightarrow> world" where
  "serve D (CreateIntent inp rn) w = snd (createIntent (dp_decimal D) (dp_build D) inp rn w)"
| "serve D (InitiatePayment i g) w = snd (initiatePayment (dp_build D) (dp_registry D) (dp_decrypt D) i g w)"
| "serve D (Callback i cb uuid) w = snd (handleCallback (dp_decimal D) (dp_registry D) (dp_decrypt D) i cb uuid w)"
| "serve D (CompleteTransaction tid i gtrx uuid) w = snd (completeTransaction (dp_decimal D) tid i gtrx uuid w)"
| "serve D (ProcessSms sm uuid) w = snd (sms_processOne (dp_decimal D) (dp_sms D) uuid sm w)"
| "serve D (CreateRefund inp rnd) w =
     snd (createRefund (dp_doubles D) (dp_build D) (dp_registry D) (dp_decrypt D) (dp_duplicate D) inp rnd w)"
| "serve D (Reconcile t) w = snd (runReconciliation (dp_decimal D) (dp_duplicate D) t w)"
| "serve D (SweepAttempt ph) w = snd (sweep_attempt (dp_decimal D) (dp_duplicate D) ph w)"
| "serve D (PostPayload m p) w = snd (stub_postTransaction m p w)"
| "serve D (DrainOutbox m) w = snd (stub_drainOutbox m w)"

text \<open>A caller that completes a transaction names the intent of that transaction.\<close>

fun admissible :: "request \<Rightarrow> world \<Rightarrow> bool" where
  "admissible (CompleteTransaction tid i gtrx uuid) w = tx_for tid i (w_db w)"
| "admissible _ w = True"

type_synonym instances = "string \<Rightarrow> (int \<times> wf_phase durable) option"

text \<open>
  The steps: a request, a call or an alarm of a ledger object, the start of a created workflow
  instance, an attempt of a running one, and activity elsewhere: time passes, calls are lost,
  queues move, other tables change.
\<close>

inductive platform_step :: "'d deployment \<Rightarrow> world \<times> instances \<Rightarrow> world \<times> instances \<Rightarrow> bool" for D where
  request: "admissible rq w \<Longrightarrow> platform_step D (w, runs) (serve D rq w, runs)"
| object: "own_call c \<Longrightarrow> do_exec c (w_objects w m, w_db w) = (r, (d, db)) \<Longrightarrow>
     platform_step D (w, runs) (w\<lparr>w_objects := (w_objects w)(m := d), w_db := db\<rparr>, runs)"
| start: "(i, rid) \<in> set (w_refund_instances w) \<Longrightarrow> runs i = None \<Longrightarrow>
     platform_step D (w, runs) (w, runs(i \<mapsto> (rid, durable_start (dp_waits D) (refund_workflow (dp_decimal D) (dp_registry D) (dp_decrypt D) rid []) WfLoad)))"
| attempt: "runs i = Some (rid, inst) \<Longrightarrow>
     durable_step (dp_waits D) (refund_workflow (dp_decimal D) (dp_registry D) (dp_decrypt D) rid uuid) (inst, w) = (inst', w') \<Longrightarrow>
     platform_step D (w, runs) (w', runs(i \<mapsto> (rid, inst')))"
| elsewhere: "w_objects w' = w_objects w \<Longrightarrow> business (w_db w') = business (w_db w) \<Longrightarrow> platform_step D (w, runs) (w', runs)"

text \<open>An empty platform: nothing was ever asked of a ledger object, and no intent, transaction or refund exists.\<close>

definition platform_start :: "world \<Rightarrow> bool" where
  "platform_start w \<longleftrightarrow> w_objects w = fresh_object \<and> business (w_db w) = business empty_d1"

inductive platform_reachable :: "'d deployment \<Rightarrow> world \<times> instances \<Rightarrow> bool" for D where
  init: "platform_start w \<Longrightarrow> platform_reachable D (w, \<lambda>_. None)"
| step: "platform_reachable D s \<Longrightarrow> platform_step D s s' \<Longrightarrow> platform_reachable D s'"

definition phases_of :: "instances \<Rightarrow> wf_phase set" where
  "phases_of runs = {du_phase inst | rid inst. (rid, inst) \<in> ran runs}"

lemma ran_upd: "ran (m(k \<mapsto> v)) \<subseteq> insert v (ran m)"
  by (auto simp: ran_def)

lemma phases_upd: "phases_of (runs(i \<mapsto> (rid, inst))) \<subseteq> insert (du_phase inst) (phases_of runs)"
  using ran_upd [of runs i "(rid, inst)"] by (auto simp: phases_of_def)

lemma waiting_mono: "waiting P A w \<Longrightarrow> B \<subseteq> A \<Longrightarrow> waiting P B w"
  by (auto simp: waiting_def)

context platform_safe
begin

lemma serve_safe:
  assumes w: "P w" and ad: "admissible rq w" and F: "dp_doubles D = F"
  shows "P (serve D rq w)"
proof (cases rq)
  case (CompleteTransaction tid i gtrx uuid)
  then show ?thesis using triple_snd [OF complete_safe] w ad by fastforce
qed (use w F in \<open>simp_all add: preservesD createIntent_safe initiate_safe callback_safe sms_safe createRefund_safe run_safe sweep_attempt_safe post_safe drain_safe\<close>)

lemma object_safe:
  assumes w: "P w" and c: "own_call c" and run: "do_exec c (w_objects w m, w_db w) = (r, (d, db))"
  shows "P (w\<lparr>w_objects := (w_objects w)(m := d), w_db := db\<rparr>)"
proof (rule ledger [OF w])
  have ok: "obj_ok (w_objects w m)" using base_ok [OF w] by (simp add: world_ok_def)
  have "ledger_safe w (w\<lparr>w_objects := (w_objects w)(m := d), w_db := db\<rparr>)"
    using exec_obj_ok [of "(w_objects w m, w_db w)" c] ok run
    by (intro ledger_safe_object ledger_safe_refl base_ok [OF w]) simp_all
  moreover have "business db = business (w_db w)"
    using do_exec_business [of "w_objects w m" c "w_db w"] ok c run by (simp add: obj_ok_def)
  ultimately show "ledger_step w (w\<lparr>w_objects := (w_objects w)(m := d), w_db := db\<rparr>)"
    by (simp add: ledger_step_def same_business_def)
qed

lemma waiting_contract: "platform_safe (waiting P phases) F"
  by (rule waiting_safe) (rule platform_safe_axioms)

lemma attempt_waiting:
  assumes w: "waiting P phases w" and ph: "du_phase inst \<in> phases"
    and run: "durable_step waits (refund_workflow L reg dec rid uuid) (inst, w) = (inst', w')"
  shows "waiting P (insert (du_phase inst') phases) w'"
proof (cases "terminal (du_phase inst) \<or> \<not> awake inst w")
  case True
  with run have "inst' = inst" "w' = w" by (auto simp: durable_step_def refund_workflow_def split: if_splits prod.splits)
  with w ph show ?thesis by (simp add: insert_absorb)
next
  case False
  obtain r v where a: "wf_attempt L reg dec uuid rid (du_phase inst) w = (r, v)" by fastforce
  with run False have inst': "inst' = durable_next waits (refund_workflow L reg dec rid uuid) (w_now v) inst r" and v: "w' = v"
    by (auto simp: durable_step_def refund_workflow_def)
  have R: "refund_safe (waiting P phases) F" using waiting_contract by (rule platform_safe.axioms(1))
  from refund_safe.attempt_safe [OF R, of "du_phase inst" L reg dec uuid rid] w ph a
  have out: "case r of Inl e \<Rightarrow> waiting P phases v | Inr x \<Rightarrow> waiting P phases v \<and> phase_ok (fst x) v"
    by (auto simp: triple_def waiting_def split: sum.splits dest!: spec [of _ w])
  have "phase_ok (du_phase inst') v"
  proof (cases r)
    case (Inl e)
    with out ph have "phase_ok (du_phase inst) v" by (simp add: waiting_def)
    moreover have "du_phase inst' = du_phase inst \<or> du_phase inst' = WfErrored e"
      by (cases "du_retries inst") (simp_all add: inst' Inl durable_next_def halt_step_def refund_workflow_def)
    ultimately show ?thesis by (auto simp: phase_ok_def)
  next
    case (Inr x)
    with out show ?thesis by (cases x) (simp add: inst' durable_next_def)
  qed
  with out show ?thesis by (cases r) (simp_all add: v waiting_def)
qed

lemma step_waiting:
  assumes st: "platform_step D (w, runs) (w', runs')" and w: "waiting P (phases_of runs) w" and F: "dp_doubles D = F"
  shows "waiting P (phases_of runs') w'"
  using st
proof cases
  case (request rq)
  with platform_safe.serve_safe [OF waiting_contract w _ F] show ?thesis by simp
next
  case (object c m r d db)
  with platform_safe.object_safe [OF waiting_contract w] show ?thesis by blast
next
  case (start i rid)
  have "waiting P (insert WfLoad (phases_of runs)) w" using w by (simp add: waiting_def phase_ok_def)
  moreover have "phases_of runs' \<subseteq> insert WfLoad (phases_of runs)"
    unfolding start by (rule phases_upd [THEN order_trans]) (simp add: durable_start_def)
  ultimately show ?thesis unfolding start(1) by (rule waiting_mono)
next
  case (attempt i rid inst uuid inst')
  have "du_phase inst \<in> phases_of runs" using attempt by (auto simp: phases_of_def intro: ranI)
  from attempt_waiting [OF w this attempt(3)] show ?thesis unfolding attempt(1) by (rule waiting_mono) (rule phases_upd)
next
  case elsewhere
  have "book_pred (waiting P (phases_of runs))"
    using waiting_contract platform_safe.axioms(1) refund_safe.axioms(1) payment_safe.frame by blast
  with w elsewhere show ?thesis by (auto elim: book_predD)
qed

lemma reachable_waiting:
  assumes "platform_reachable D s" and "dp_doubles D = F" and init: "\<And>w. platform_start w \<Longrightarrow> P w"
  shows "waiting P (phases_of (snd s)) (fst s)"
  using assms(1)
proof induction
  case (init w)
  then show ?case using assms(3) by (simp add: waiting_def phases_of_def)
next
  case (step s s')
  then show ?case using step_waiting [of D "fst s" "snd s" "fst s'" "snd s'"] assms(2) by simp
qed

end

section \<open>What holds on the platform\<close>

lemma start_world_ok: "platform_start w \<Longrightarrow> world_ok w"
  by (simp add: platform_start_def world_ok_def fresh_object_ok)

lemma start_books: "platform_start w \<Longrightarrow> books_ok w"
  using start_world_ok [of w]
  by (simp add: books_ok_def platform_start_def business_def empty_d1_def ids_ok_def keyed_def backed_def)

lemma start_refunds: "platform_start w \<Longrightarrow> refunds_ok u val w"
  using start_books [of w] by (simp add: refunds_ok_def bound_ok_def platform_start_def business_def empty_d1_def)

text \<open>C25: money marked as moved has moved.  In every reachable state of the platform, whatever was
  interleaved, lost or retried, each completed transaction has its payment posting in the ledger of
  the intent's merchant, and each completed refund has its reversal in the ledger of its merchant.\<close>

theorem platform_books:
  assumes "platform_reachable D (w, runs)"
  shows "(\<forall>t \<in> set (op_transactions (w_db w)). t_status t \<noteq> TCompleted \<or>
       (\<exists>p. intent_of (w_db w) t = Some p \<and> payment_tx (pi_merchant_id p) (pi_id p) \<in> posted_ids (w_objects w (pi_merchant_id p)))) \<and>
     (\<forall>r \<in> set (op_refunds (w_db w)). rf_status r \<noteq> RfCompleted \<or>
       refund_tx (rf_merchant_id r) (rf_refund_id r) \<in> posted_ids (w_objects w (rf_merchant_id r)))"
proof -
  have "books_ok w" using books_plat.reachable_waiting [OF assms refl start_books] by (simp add: waiting_def)
  then show ?thesis
    by (fastforce simp: books_ok_def backed_def tx_completed_def rf_completed_def tx_owner_def rf_owner_def posted_in_def)
qed

text \<open>C26: refunds never exceed what was captured.  In every reachable state, with doubles accurate to
  one unit in the last place, amounts in whole cents up to a thousand million and at most a
  thousand refunds, the live refunds of a transaction sum to at most its amount, exactly.\<close>

theorem platform_refunds_bounded:
  assumes "platform_reachable D (w, runs)" and F: "accurate u val (dp_doubles D)" and u: "u \<le> 1 / 2 ^ 53"
    and t: "t \<in> set (op_transactions (w_db w))" "0 \<le> val (t_amount t)" "val (t_amount t) \<le> 1000000000" "in_cents val (t_amount t)"
    and n: "length (refunds_of (t_id t) (t_merchant_id t) (w_db w)) \<le> 1000"
    and c: "list_all (\<lambda>r. in_cents val (rf_amount r)) (live_refunds (t_id t) (t_merchant_id t) (w_db w))"
  shows "refund_sum val (live_refunds (t_id t) (t_merchant_id t) (w_db w)) \<le> val (t_amount t)"
proof -
  have "refunds_ok u val w"
    using platform_safe.reachable_waiting [OF bound_platform_safe [OF F] assms(1) refl start_refunds] by (simp add: waiting_def)
  then have b: "bound_ok u val (w_db w)" by (simp add: refunds_ok_def)
  show ?thesis
  proof (rule bounded_within_cents [OF accurateD(1) [OF F] u _ n t(4,2,3)])
    show "tx_bounded u val (w_db w) t" using b t by (simp add: bound_ok_def)
    show "in_cents val (rf_amount r) \<and> 0 \<le> val (rf_amount r)" if "r \<in> set (live_refunds (t_id t) (t_merchant_id t) (w_db w))" for r
      using that b c by (auto simp: bound_ok_def live_refunds_def list_all_iff)
  qed
qed

section \<open>A refund from end to end\<close>

lemma reach_attempt:
  assumes "platform_reachable D (w, runs)" and "runs i = Some (rid, inst)"
    and "durable_step (dp_waits D) (refund_workflow (dp_decimal D) (dp_registry D) (dp_decrypt D) rid uuid) (inst, w) = x"
  shows "platform_reachable D (snd x, runs(i \<mapsto> (rid, fst x)))"
proof (rule platform_reachable.step [OF assms(1)])
  show "platform_step D (w, runs) (snd x, runs(i \<mapsto> (rid, fst x)))"
    by (rule platform_step.attempt [where rid = rid and inst = inst and uuid = uuid]) (simp_all add: assms(2,3))
qed

definition cents :: "string \<Rightarrow> rat" where
  "cents s = (case moneyToMinorStrict exact_decimal s of Inr n \<Rightarrow> of_int n / 100 | Inl e \<Rightarrow> 0)"

definition exact_doubles :: doubles where
  "exact_doubles = \<lparr>fp_parseFloat = Some \<circ> cents, fp_cast = cents, fp_sum = sum_list, fp_add = (+), fp_sub = (-), fp_tolerance = 1 / 1000,
     fp_toFixed2 = (\<lambda>_. [])\<rparr>"

lemma cents_in_cents: "in_cents cents s"
  by (cases "moneyToMinorStrict exact_decimal s") (auto simp: in_cents_def cents_def intro: range_eqI [of _ _ 0])

lemma exact_doubles_accurate: "accurate 0 cents exact_doubles"
  by (simp add: accurate_def exact_doubles_def)

definition demo_deployment :: "rat deployment" where
  "demo_deployment = \<lparr>dp_decimal = exact_decimal, dp_build = empty_build, dp_registry = demo_registry, dp_decrypt = Some,
     dp_duplicate = plain_duplicate, dp_waits = no_waits, dp_doubles = exact_doubles,
     dp_sms = bare_sms_platform\<rparr>"

definition demo_refund_input :: create_refund_input where
  "demo_refund_input = \<lparr>cri_merchant_id = 7, cri_transaction_id = 1, cri_amount = ''0.10'', cri_reason = None, cri_initiated_by = None\<rparr>"

lemmas createRefund_run [code] = createRefund_def [THEN fun_cong, unfolded prog_run]

text \<open>An intent is created, paid and refunded; the workflow of the refund runs its five steps.\<close>

definition story0 :: world where
  "story0 = demo_world\<lparr>w_db := (w_db demo_world)\<lparr>op_gateways := [demo_gateway]\<rparr>\<rparr>"

definition story1 :: world where
  "story1 = serve demo_deployment (CreateIntent demo_input demo_randoms) story0"

definition story2 :: world where
  "story2 = serve demo_deployment (Callback 1 [(''amount'', ''0.10''), (''trx'', ''op_x2'')] []) story1"

definition story3 :: world where
  "story3 = serve demo_deployment (CreateRefund demo_refund_input ''r1'') story2"

definition demo_workflow :: "wf_phase durable_code" where
  "demo_workflow = refund_workflow exact_decimal demo_registry Some 1 []"

definition run_step :: "wf_phase durable \<times> world \<Rightarrow> wf_phase durable \<times> world" where
  "run_step = durable_step no_waits demo_workflow"

definition story4 :: "nat \<Rightarrow> wf_phase durable \<times> world" where
  "story4 n = (run_step ^^ n) (durable_start no_waits demo_workflow WfLoad, story3)"

lemma story4_reachable: "platform_reachable demo_deployment (snd (story4 n), [''refund-1'' \<mapsto> (1, fst (story4 n))])"
proof (induction n)
  case 0
  have "platform_start story0" by (simp add: platform_start_def story0_def demo_world_def, code_simp)
  then have "platform_reachable demo_deployment (story0, \<lambda>_. None)" by (rule platform_reachable.init)
  then have "platform_reachable demo_deployment (story1, \<lambda>_. None)"
    unfolding story1_def by (rule platform_reachable.step) (rule platform_step.request, simp)
  then have "platform_reachable demo_deployment (story2, \<lambda>_. None)"
    unfolding story2_def by (rule platform_reachable.step) (rule platform_step.request, simp)
  then have r3: "platform_reachable demo_deployment (story3, \<lambda>_. None)"
    unfolding story3_def by (rule platform_reachable.step) (rule platform_step.request, simp)
  have "w_refund_instances story3 = [(''refund-1'', 1)]" by code_simp
  then have "platform_reachable demo_deployment (story3, [''refund-1'' \<mapsto> (1, durable_start (dp_waits demo_deployment)
      (refund_workflow (dp_decimal demo_deployment) (dp_registry demo_deployment) (dp_decrypt demo_deployment) 1 []) WfLoad)])"
    by (intro platform_reachable.step [OF r3] platform_step.start) simp_all
  moreover have "durable_start (dp_waits demo_deployment) (refund_workflow (dp_decimal demo_deployment) (dp_registry demo_deployment)
      (dp_decrypt demo_deployment) 1 []) WfLoad = fst (story4 0)"
    by (simp add: story4_def demo_workflow_def demo_deployment_def)
  moreover have "story3 = snd (story4 0)" by (simp add: story4_def)
  ultimately show ?case by (simp only:)
next
  case (Suc n)
  have "durable_step (dp_waits demo_deployment) (refund_workflow (dp_decimal demo_deployment) (dp_registry demo_deployment) (dp_decrypt demo_deployment) 1 [])
      (fst (story4 n), snd (story4 n)) = story4 (Suc n)"
    by (simp add: story4_def run_step_def demo_workflow_def demo_deployment_def)
  from reach_attempt [OF Suc.IH, of "''refund-1''" 1 "fst (story4 n)", OF _ this] show ?case by (simp only: fun_upd_same fun_upd_upd)
qed

definition summary :: "d1 \<Rightarrow> (tx_status \<times> (int \<times> int) option \<times> int \<times> int \<times> string) list \<times> (refund_status \<times> int \<times> string) list \<times> nat \<times> rat" where
  "summary db = (map (\<lambda>t. (t_status t, map_option (\<lambda>p. (pi_merchant_id p, pi_id p)) (intent_of db t), t_id t, t_merchant_id t, t_amount t)) (op_transactions db),
     map (\<lambda>r. (rf_status r, rf_merchant_id r, rf_refund_id r)) (op_refunds db), length (refunds_of 1 7 db), refund_sum cents (live_refunds 1 7 db))"

lemma story4_summary:
  "summary (w_db (snd (story4 5))) = ([(TCompleted, Some (7, 1), 1, 7, ''0.10'')], [(RfCompleted, 7, ''rfnd_r1'')], 1, 1 / 10)"
  by code_simp

lemmas story4_rows = story4_summary [unfolded summary_def prod.inject]

theorem platform_books_witness:
  "{payment_tx 7 1, refund_tx 7 ''rfnd_r1''} \<subseteq> posted_ids (w_objects (snd (story4 5)) 7)"
proof -
  note P = platform_books [OF story4_reachable [of 5]]
  from story4_rows obtain t p where "t \<in> set (op_transactions (w_db (snd (story4 5))))" "t_status t = TCompleted"
      "intent_of (w_db (snd (story4 5))) t = Some p" "pi_merchant_id p = 7" "pi_id p = 1"
    by auto
  with P have "payment_tx 7 1 \<in> posted_ids (w_objects (snd (story4 5)) 7)" by force
  moreover from story4_rows obtain r where "r \<in> set (op_refunds (w_db (snd (story4 5))))" "rf_status r = RfCompleted"
      "rf_merchant_id r = 7" "rf_refund_id r = ''rfnd_r1''"
    by auto
  with P have "refund_tx 7 ''rfnd_r1'' \<in> posted_ids (w_objects (snd (story4 5)) 7)" by force
  ultimately show ?thesis by simp
qed

lemma cents_ten: "cents ''0.10'' = 1 / 10"
  by code_simp

theorem platform_refunds_bounded_witness:
  "refund_sum cents (live_refunds 1 7 (w_db (snd (story4 5)))) = 1 / 10 \<and>
   refund_sum cents (live_refunds 1 7 (w_db (snd (story4 5)))) \<le> cents ''0.10''"
proof -
  from story4_rows obtain t where t: "t \<in> set (op_transactions (w_db (snd (story4 5))))" "t_id t = 1" "t_merchant_id t = 7" "t_amount t = ''0.10''"
    by auto
  have F: "accurate 0 cents (dp_doubles demo_deployment)" by (simp add: demo_deployment_def exact_doubles_accurate)
  have "refund_sum cents (live_refunds 1 7 (w_db (snd (story4 5)))) \<le> cents ''0.10''"
    using platform_refunds_bounded [OF story4_reachable [of 5] F _ t(1)]
    by (simp add: t story4_rows cents_ten cents_in_cents list_all_iff)
  with story4_rows show ?thesis by blast
qed

end
