(* ===== verification/Asn1.thy ===== *)
theory Asn1
  imports Prelude "HOL-Library.Word"
begin

text \<open>
  The DER reader of \<open>lib/asn1.ts\<close>, with which certificates of device attestations are read.  Bytes are
  \<open>8 word\<close>; a tag number or a length is built by shifts and ors, which JavaScript computes on 32-bit
  two's complement integers, so it is a \<open>32 word\<close> read with \<open>sint\<close>.  A byte read outside the array
  is \<open>undefined\<close>, here \<open>None\<close>; it counts as zero in a bit operation, and as a length it is the
  \<open>NaN\<close> of the offsets computed from it.  The reader need not return, so it takes fuel.
\<close>

unbundle bit_operations_syntax

type_synonym byte = "8 word"
type_synonym word32 = "32 word"

section \<open>Arrays\<close>

definition read_byte :: "byte list \<Rightarrow> int \<Rightarrow> byte option" where
  "read_byte bs i = (if 0 \<le> i \<and> i < int (length bs) then Some (bs ! nat i) else None)"

definition bits_of :: "byte option \<Rightarrow> byte" where
  "bits_of b = (case b of None \<Rightarrow> 0 | Some x \<Rightarrow> x)"

text \<open>\<open>Uint8Array.subarray(begin, end)\<close>: a negative index counts from the end; \<open>NaN\<close> is 0.\<close>

definition array_index :: "nat \<Rightarrow> int \<Rightarrow> nat" where
  "array_index n i = (if i < 0 then nat (int n + i) else min n (nat i))"

definition subarray :: "byte list \<Rightarrow> int \<Rightarrow> int option \<Rightarrow> byte list" where
  "subarray bs b e = (let lo = array_index (length bs) b; hi = array_index (length bs) (case e of None \<Rightarrow> 0 | Some i \<Rightarrow> i)
     in take (hi - lo) (drop lo bs))"

section \<open>Nodes\<close>

datatype tag_class = Universal | Application | Context | Private

datatype asn1_node = Asn1Node
  (node_tag: "byte option") (node_class: tag_class) (node_constructed: bool) (node_tagNumber: int) (node_headerLength: int)
  (node_length: "int option") (node_valueBytes: "byte list") (node_raw: "byte list") (node_children: "asn1_node list option")

datatype asn1_error = UnexpectedEnd | TruncatedHeader | IndefiniteLength | LengthTooLong | TruncatedLength | TruncatedValue

definition class_of :: "byte \<Rightarrow> tag_class" where
  "class_of b = (let n = drop_bit 6 (b AND 0xC0)
     in if n = 0 then Universal else if n = 1 then Application else if n = 2 then Context else Private)"

text \<open>The base-128 tag number: the bytes left bound the loop.\<close>

function tag_loop :: "byte list \<Rightarrow> int \<Rightarrow> word32 \<Rightarrow> int \<times> word32" where
  "tag_loop bs off tn =
     (if off < int (length bs)
      then let b = bits_of (read_byte bs off); tn' = push_bit 7 tn OR ucast (b AND 0x7F)
           in if b AND 0x80 = 0 then (off + 1, tn') else tag_loop bs (off + 1) tn'
      else (off, tn))"
  by pat_completeness auto
termination
  by (relation "measure (\<lambda>(bs, off, tn). nat (int (length bs) - off))") auto

declare tag_loop.simps [simp del]

definition read_tag :: "byte list \<Rightarrow> int \<Rightarrow> byte \<Rightarrow> int \<times> word32" where
  "read_tag bs off firstByte =
     (if firstByte AND 0x1F = 0x1F then tag_loop bs off 0 else (off, ucast (firstByte AND 0x1F)))"

fun length_loop :: "nat \<Rightarrow> byte list \<Rightarrow> int \<Rightarrow> word32 \<Rightarrow> word32" where
  "length_loop 0 bs off len = len"
| "length_loop (Suc n) bs off len = length_loop n bs (off + 1) (push_bit 8 len OR ucast (bits_of (read_byte bs off)))"

text \<open>The length and the offset after it; \<open>None\<close> is the length \<open>undefined\<close>.\<close>

definition read_length :: "byte list \<Rightarrow> int \<Rightarrow> asn1_error + int option \<times> int" where
  "read_length bs off =
     (let lengthByte = read_byte bs off; b = bits_of lengthByte
      in if b AND 0x80 = 0 then Inr (map_option uint lengthByte, off + 1)
         else let numOctets = unat (b AND 0x7F)
              in if numOctets = 0 then Inl IndefiniteLength
                 else if numOctets > 4 then Inl LengthTooLong
                 else if off + 1 + int numOctets > int (length bs) then Inl TruncatedLength
                 else Inr (Some (sint (length_loop numOctets bs (off + 1) 0)), off + 1 + int numOctets))"

record asn1_header =
  hd_firstByte :: "byte option"
  hd_tagNumber :: int
  hd_length :: "int option"
  hd_offset :: int

text \<open>Everything of \<open>parseAsn1Node\<close> before the children.\<close>

definition read_header :: "byte list \<Rightarrow> int \<Rightarrow> asn1_error + asn1_header" where
  "read_header bs start =
     (if start \<ge> int (length bs) then Inl UnexpectedEnd
      else case read_tag bs (start + 1) (bits_of (read_byte bs start)) of (off, tn) \<Rightarrow>
        if off \<ge> int (length bs) then Inl TruncatedHeader
        else (case read_length bs off of
            Inl e \<Rightarrow> Inl e
          | Inr (len, off') \<Rightarrow>
              if (case len of None \<Rightarrow> False | Some l \<Rightarrow> off' + l > int (length bs)) then Inl TruncatedValue
              else Inr \<lparr>hd_firstByte = read_byte bs start, hd_tagNumber = sint tn, hd_length = len, hd_offset = off'\<rparr>))"

definition value_end :: "asn1_header \<Rightarrow> int option" where
  "value_end h = map_option (\<lambda>l. hd_offset h + l) (hd_length h)"

definition is_constructed :: "asn1_header \<Rightarrow> bool" where
  "is_constructed h \<longleftrightarrow> bits_of (hd_firstByte h) AND 0x20 \<noteq> 0"

definition header_value :: "byte list \<Rightarrow> asn1_header \<Rightarrow> byte list" where
  "header_value bs h = subarray bs (hd_offset h) (value_end h)"

definition make_node :: "byte list \<Rightarrow> int \<Rightarrow> asn1_header \<Rightarrow> asn1_node list option \<Rightarrow> asn1_node" where
  "make_node bs start h children =
     Asn1Node (hd_firstByte h) (class_of (bits_of (hd_firstByte h))) (is_constructed h) (hd_tagNumber h) (hd_offset h - start) (hd_length h)
       (header_value bs h) (subarray bs start (value_end h)) children"

text \<open>\<open>parseAsn1Node\<close> and its loop over the children; \<open>None\<close> when the fuel is used up.\<close>

fun parseAsn1Node :: "nat \<Rightarrow> byte list \<Rightarrow> int \<Rightarrow> (asn1_error + asn1_node \<times> int option) option" and
    parse_children :: "nat \<Rightarrow> byte list \<Rightarrow> int option \<Rightarrow> (asn1_error + asn1_node list) option" where
  "parseAsn1Node 0 bs start = None"
| "parseAsn1Node (Suc n) bs start = (case read_header bs start of
      Inl e \<Rightarrow> Some (Inl e)
    | Inr h \<Rightarrow>
        if is_constructed h
        then (case parse_children n (header_value bs h) (Some 0) of
            None \<Rightarrow> None
          | Some (Inl e) \<Rightarrow> Some (Inl e)
          | Some (Inr children) \<Rightarrow> Some (Inr (make_node bs start h (Some children), value_end h)))
        else Some (Inr (make_node bs start h None, value_end h)))"
| "parse_children 0 bs childOffset = None"
| "parse_children (Suc n) bs childOffset = (case childOffset of
      None \<Rightarrow> Some (Inr [])
    | Some c \<Rightarrow>
        if c < int (length bs)
        then (case parseAsn1Node n bs c of
            None \<Rightarrow> None
          | Some (Inl e) \<Rightarrow> Some (Inl e)
          | Some (Inr (node, next)) \<Rightarrow> (case parse_children n bs next of
                None \<Rightarrow> None
              | Some (Inl e) \<Rightarrow> Some (Inl e)
              | Some (Inr nodes) \<Rightarrow> Some (Inr (node # nodes))))
        else Some (Inr []))"

definition parseAsn1 :: "nat \<Rightarrow> byte list \<Rightarrow> (asn1_error + asn1_node) option" where
  "parseAsn1 n bs = map_option (map_sum id fst) (parseAsn1Node n bs 0)"

section \<open>Reading values\<close>

definition asn1IntegerToBigInt :: "asn1_node \<Rightarrow> int option" where
  "asn1IntegerToBigInt node = (case node_valueBytes node of
      [] \<Rightarrow> None
    | b # bs \<Rightarrow>
        if b AND 0x80 \<noteq> 0 then Some (- (foldl (\<lambda>v x. v * 256 + uint (NOT x)) 0 (b # bs) + 1))
        else Some (foldl (\<lambda>v x. v * 256 + uint x) 0 (b # bs)))"

definition asn1IntegerToNumber :: "asn1_node \<Rightarrow> int option" where
  "asn1IntegerToNumber node = (case asn1IntegerToBigInt node of
      None \<Rightarrow> None
    | Some big \<Rightarrow> if big > 2 ^ 53 - 1 \<or> big < - (2 ^ 53 - 1) then None else Some big)"

definition asn1Boolean :: "asn1_node \<Rightarrow> bool option" where
  "asn1Boolean node = (case node_valueBytes node of [b] \<Rightarrow> Some (b \<noteq> 0) | _ \<Rightarrow> None)"

fun oid_arcs :: "nat \<Rightarrow> byte list \<Rightarrow> nat list" where
  "oid_arcs cur [] = []"
| "oid_arcs cur (b # bs) = (let cur' = cur * 128 + unat (b AND 0x7F)
     in if b AND 0x80 = 0 then cur' # oid_arcs 0 bs else oid_arcs cur' bs)"

definition asn1Oid :: "asn1_node \<Rightarrow> nat list option" where
  "asn1Oid node = (case node_valueBytes node of
      [] \<Rightarrow> None
    | b # bs \<Rightarrow> let first = min 2 (unat b div 40); second = unat b - first * 40 in Some (first # second # oid_arcs 0 bs))"

fun join_with :: "string \<Rightarrow> string list \<Rightarrow> string" where
  "join_with sep [] = []"
| "join_with sep [s] = s"
| "join_with sep (s # t # ss) = s @ sep @ join_with sep (t # ss)"

definition asn1OidToString :: "asn1_node \<Rightarrow> string option" where
  "asn1OidToString node = map_option (\<lambda>arcs. join_with ''.'' (map nat_str arcs)) (asn1Oid node)"

definition asn1BitString :: "asn1_node \<Rightarrow> (byte \<times> byte list) option" where
  "asn1BitString node = (case node_valueBytes node of [] \<Rightarrow> None | b # bs \<Rightarrow> Some (b, bs))"

text \<open>
  \<open>asn1Date\<close>: the digits of a UTCTime or GeneralizedTime, and \<open>Date.UTC\<close> of them as milliseconds.  Fields out of
  range carry over, and \<open>Date.UTC\<close> reads the years 0 to 99 as 1900 to 1999.
\<close>

definition ascii_digit :: "byte \<Rightarrow> bool" where
  "ascii_digit b \<longleftrightarrow> 48 \<le> uint b \<and> uint b \<le> 57"

definition two_digits :: "byte \<Rightarrow> byte \<Rightarrow> int" where
  "two_digits a b = (uint a - 48) * 10 + (uint b - 48)"

definition DayFromYear :: "int \<Rightarrow> int" where
  "DayFromYear y = 365 * (y - 1970) + (y - 1969) div 4 - (y - 1901) div 100 + (y - 1601) div 400"

definition leap_year :: "int \<Rightarrow> bool" where
  "leap_year y \<longleftrightarrow> y mod 4 = 0 \<and> (y mod 100 \<noteq> 0 \<or> y mod 400 = 0)"

definition month_start :: "int \<Rightarrow> int \<Rightarrow> int" where
  "month_start y m = [0, 31, 59, 90, 120, 151, 181, 212, 243, 273, 304, 334] ! nat m + (if leap_year y \<and> 2 \<le> m then 1 else 0)"

definition Date_UTC :: "int \<Rightarrow> int \<Rightarrow> int \<Rightarrow> int \<Rightarrow> int \<Rightarrow> int \<Rightarrow> int" where
  "Date_UTC year month day hour minute second =
     (let yr = (if 0 \<le> year \<and> year \<le> 99 then 1900 + year else year); ym = yr + month div 12; mn = month mod 12;
          days = DayFromYear ym + month_start ym mn + day - 1
      in ((days * 24 + hour) * 60 + minute) * 60000 + second * 1000)"

fun utc_time :: "byte list \<Rightarrow> int option" where
  "utc_time [y1, y2, m1, m2, d1, d2, h1, h2, n1, n2, z] =
     (if list_all ascii_digit [y1, y2, m1, m2, d1, d2, h1, h2, n1, n2] \<and> z = 0x5A
      then let yy = two_digits y1 y2; year = (if 50 \<le> yy then yy + 1900 else yy + 2000)
           in Some (Date_UTC year (two_digits m1 m2 - 1) (two_digits d1 d2) (two_digits h1 h2) (two_digits n1 n2) 0)
      else None)"
| "utc_time [y1, y2, m1, m2, d1, d2, h1, h2, n1, n2, s1, s2, z] =
     (if list_all ascii_digit [y1, y2, m1, m2, d1, d2, h1, h2, n1, n2, s1, s2] \<and> z = 0x5A
      then let yy = two_digits y1 y2; year = (if 50 \<le> yy then yy + 1900 else yy + 2000)
           in Some (Date_UTC year (two_digits m1 m2 - 1) (two_digits d1 d2) (two_digits h1 h2) (two_digits n1 n2) (two_digits s1 s2))
      else None)"
| "utc_time _ = None"

fun generalized_time :: "byte list \<Rightarrow> int option" where
  "generalized_time (c1 # c2 # y1 # y2 # m1 # m2 # d1 # d2 # h1 # h2 # n1 # n2 # s1 # s2 # zs) =
     (if list_all ascii_digit [c1, c2, y1, y2, m1, m2, d1, d2, h1, h2, n1, n2, s1, s2] \<and> (zs = [] \<or> zs = [0x5A])
      then Some (Date_UTC (two_digits c1 c2 * 100 + two_digits y1 y2) (two_digits m1 m2 - 1) (two_digits d1 d2) (two_digits h1 h2) (two_digits n1 n2) (two_digits s1 s2))
      else None)"
| "generalized_time _ = None"

definition asn1Date :: "asn1_node \<Rightarrow> int option" where
  "asn1Date node =
     (if node_tagNumber node = 0x17 then utc_time (node_valueBytes node)
      else if node_tagNumber node = 0x18 then generalized_time (node_valueBytes node) else None)"

definition findContextTag :: "asn1_node \<Rightarrow> int \<Rightarrow> asn1_node option" where
  "findContextTag node tn = (case node_children node of
      None \<Rightarrow> None
    | Some children \<Rightarrow> List.find (\<lambda>c. node_class c = Context \<and> node_tagNumber c = tn) children)"

section \<open>Bits and bytes\<close>

lemma or_plus: "push_bit k x OR take_bit k y = push_bit k x + take_bit k (y :: 'a :: len word)"
  by (rule disjunctive_add_eq_or [symmetric], rule bit_eqI) (auto simp: bit_simps)

lemma wstep:
  assumes "d < 2 ^ k"
  shows "push_bit k (word_of_nat v :: word32) OR word_of_nat d = word_of_nat (v * 2 ^ k + d)"
proof -
  have "take_bit k (word_of_nat d :: word32) = word_of_nat d"
    using assms by (metis of_nat_take_bit take_bit_nat_eq_self)
  then show ?thesis using or_plus [of k "word_of_nat v" "word_of_nat d :: word32"] by (simp add: push_bit_eq_mult)
qed

lemma and_low: "(b :: byte) AND 0x7F = take_bit 7 b" "b AND 0x1F = take_bit 5 b"
  by (simp_all add: take_bit_eq_mask mask_eq_exp_minus_1)

lemma and_bit: "(b :: byte) AND 0x80 = 0 \<longleftrightarrow> \<not> bit b 7" "b AND 0x20 = 0 \<longleftrightarrow> \<not> bit b 5"
  using and_exp_eq_0_iff_not_bit [of b 7] and_exp_eq_0_iff_not_bit [of b 5] by simp_all

lemma class_bits: "drop_bit 6 (b AND 0xC0) = drop_bit 6 (b :: byte)"
proof (rule bit_word_eqI)
  fix n assume "n < LENGTH(8)"
  then have "n \<in> {0,1,2,3,4,5,6,7}" by auto
  then show "bit (drop_bit 6 (b AND 0xC0)) n = bit (drop_bit 6 b) n" by (auto simp: bit_simps dest: bit_imp_le_length)
qed

lemma bit_byte: "n < 8 \<Longrightarrow> bit (word_of_nat m :: byte) n = odd (m div 2 ^ n)"
proof -
  assume "n < 8"
  then have "bit (word_of_nat m :: byte) n = bit m n" by (simp add: bit_simps)
  also have "\<dots> = odd (m div 2 ^ n)" by (rule bit_iff_odd)
  finally show ?thesis .
qed

lemma low_byte: "k \<le> 8 \<Longrightarrow> take_bit k (word_of_nat m :: byte) = word_of_nat (m mod 2 ^ k)"
  by (simp only: take_bit_of_nat take_bit_eq_mod [of k m])

lemma unat_byte: "m < 256 \<Longrightarrow> unat (word_of_nat m :: byte) = m"
  by (simp add: unat_of_nat)

lemma drop_byte: "m < 256 \<Longrightarrow> unat (drop_bit 6 (word_of_nat m :: byte)) = m div 64"
  by (simp only: unsigned_drop_bit_eq unat_byte) (simp add: take_bit_nat_eq_self drop_bit_eq_div)

lemma ucast_byte: "m < 256 \<Longrightarrow> ucast (word_of_nat m :: byte) = (word_of_nat m :: word32)"
  by (metis unat_byte of_nat_unat)

lemma fold_words: "list_all (\<lambda>d. d < 2 ^ k) ds \<Longrightarrow>
    foldl (\<lambda>w d. push_bit k w OR word_of_nat d) (word_of_nat v :: word32) ds = word_of_nat (foldl (\<lambda>v d. v * 2 ^ k + d) v ds)"
  by (induction ds arbitrary: v) (simp_all add: wstep del: of_nat_add of_nat_mult)

lemma sint_small: "n < 2 ^ 31 \<Longrightarrow> sint (word_of_nat n :: word32) = int n"
  by (simp add: sint_uint uint_nat unat_of_nat signed_take_bit_int_eq_self)

lemma read_byte_at [simp]: "read_byte (pre @ b # post) (int (length pre)) = Some b"
  by (simp add: read_byte_def)

section \<open>An encoder\<close>

text \<open>The digits of a number in base \<open>2 ^ k\<close>, the most significant first.\<close>

function digits_of :: "nat \<Rightarrow> nat \<Rightarrow> nat list" where
  "digits_of k n = (if k = 0 \<or> n < 2 ^ k then [n] else digits_of k (n div 2 ^ k) @ [n mod 2 ^ k])"
  by pat_completeness auto
termination
proof (relation "measure snd", simp)
  fix k n :: nat assume a: "\<not> (k = 0 \<or> n < 2 ^ k)"
  then have "1 < (2::nat) ^ k" and "2 ^ k \<le> n" using one_less_power [of "2::nat" k] by auto
  moreover from this have "0 < n" by linarith
  ultimately show "((k, n div 2 ^ k), k, n) \<in> measure snd" by simp
qed

declare digits_of.simps [simp del]

lemma digits_bound: "k \<noteq> 0 \<Longrightarrow> list_all (\<lambda>d. d < 2 ^ k) (digits_of k n)"
  by (induction k n rule: digits_of.induct) (subst digits_of.simps, auto)

lemma digits_value: "k \<noteq> 0 \<Longrightarrow> foldl (\<lambda>v d. v * 2 ^ k + d) 0 (digits_of k n) = n"
proof (induction k n rule: digits_of.induct)
  case (1 k n)
  show ?case
  proof (cases "n < 2 ^ k")
    case True
    then show ?thesis by (simp add: digits_of.simps [of k n])
  next
    case False
    with 1 have "foldl (\<lambda>v d. v * 2 ^ k + d) 0 (digits_of k (n div 2 ^ k)) = n div 2 ^ k" by simp
    then show ?thesis using False 1(2) div_mult_mod_eq [of n "2 ^ k"] by (simp add: digits_of.simps [of k n])
  qed
qed

lemma digits_not_Nil [simp]: "digits_of k n \<noteq> []"
  by (subst digits_of.simps) simp

lemma digits_length: "0 < m \<Longrightarrow> n < 2 ^ (k * m) \<Longrightarrow> length (digits_of k n) \<le> m"
proof (induction m arbitrary: n)
  case (Suc m)
  show ?case
  proof (cases "k = 0 \<or> n < 2 ^ k")
    case True
    then show ?thesis by (auto simp: digits_of.simps [of k n])
  next
    case False
    then have "m \<noteq> 0" using Suc.prems by (cases m) auto
    moreover have "n div 2 ^ k < 2 ^ (k * m)" using Suc.prems by (simp add: power_add less_mult_imp_div_less mult.commute)
    ultimately show ?thesis using Suc.IH [of "n div 2 ^ k"] False by (simp add: digits_of.simps [of k n])
  qed
qed simp

datatype der =
    Primitive tag_class nat "byte list"
  | Constructed tag_class nat "der list"

fun class_number :: "tag_class \<Rightarrow> nat" where
  "class_number Universal = 0"
| "class_number Application = 1"
| "class_number Context = 2"
| "class_number Private = 3"

definition tag_byte :: "tag_class \<Rightarrow> bool \<Rightarrow> nat \<Rightarrow> byte" where
  "tag_byte c constructed t = word_of_nat (64 * class_number c + (if constructed then 32 else 0) + min t 31)"

definition tag_bytes :: "tag_class \<Rightarrow> bool \<Rightarrow> nat \<Rightarrow> byte list" where
  "tag_bytes c constructed t = tag_byte c constructed t #
     (if t < 31 then [] else map (\<lambda>d. word_of_nat (128 + d)) (butlast (digits_of 7 t)) @ [word_of_nat (last (digits_of 7 t))])"

definition length_bytes :: "nat \<Rightarrow> byte list" where
  "length_bytes n = (if n < 128 then [word_of_nat n] else word_of_nat (128 + length (digits_of 8 n)) # map word_of_nat (digits_of 8 n))"

definition with_header :: "tag_class \<Rightarrow> bool \<Rightarrow> nat \<Rightarrow> byte list \<Rightarrow> byte list" where
  "with_header c constructed t content = tag_bytes c constructed t @ length_bytes (length content) @ content"

fun der_encode :: "der \<Rightarrow> byte list" where
  "der_encode (Primitive c t content) = with_header c False t content"
| "der_encode (Constructed c t ds) = with_header c True t (concat (map der_encode ds))"

text \<open>The node that a value stands for.\<close>

definition node_for :: "tag_class \<Rightarrow> bool \<Rightarrow> nat \<Rightarrow> byte list \<Rightarrow> asn1_node list option \<Rightarrow> asn1_node" where
  "node_for c constructed t content children =
     Asn1Node (Some (tag_byte c constructed t)) c constructed (int t) (int (length (tag_bytes c constructed t) + length (length_bytes (length content))))
       (Some (int (length content))) content (with_header c constructed t content) children"

fun der_node :: "der \<Rightarrow> asn1_node" where
  "der_node (Primitive c t content) = node_for c False t content None"
| "der_node (Constructed c t ds) = node_for c True t (concat (map der_encode ds)) (Some (map der_node ds))"

text \<open>Tag numbers and lengths that 31 bits hold.\<close>

fun der_ok :: "der \<Rightarrow> bool" where
  "der_ok (Primitive c t content) \<longleftrightarrow> t < 2 ^ 31 \<and> length content < 2 ^ 31"
| "der_ok (Constructed c t ds) \<longleftrightarrow> t < 2 ^ 31 \<and> length (concat (map der_encode ds)) < 2 ^ 31 \<and> list_all der_ok ds"

section \<open>Reading what the encoder wrote\<close>

lemma tag_loop_digits:
  assumes "list_all (\<lambda>d. d < 128) ds" and "d < 128"
  shows "tag_loop (pre @ map (\<lambda>d. word_of_nat (128 + d)) ds @ word_of_nat d # post) (int (length pre)) tn =
    (int (length pre) + int (length ds) + 1, foldl (\<lambda>w d. push_bit 7 w OR word_of_nat d) tn (ds @ [d]))"
  using assms
proof (induction ds arbitrary: pre tn)
  case Nil
  have "bits_of (read_byte (pre @ word_of_nat d # post) (int (length pre))) = word_of_nat d" by (simp add: bits_of_def)
  moreover have "\<not> bit (word_of_nat d :: byte) 7" using Nil by (simp add: bit_byte)
  ultimately show ?case using Nil
    by (subst tag_loop.simps) (simp add: Let_def and_low and_bit low_byte ucast_byte)
next
  case (Cons e ds)
  let ?rest = "map (\<lambda>d. word_of_nat (128 + d)) ds @ word_of_nat d # post"
  have r: "bits_of (read_byte (pre @ word_of_nat (128 + e) # ?rest) (int (length pre))) = word_of_nat (128 + e)"
    by (simp only: read_byte_at bits_of_def option.case)
  have "e < 128" using Cons.prems by simp
  then have "(128 + e) div 128 = 1" by (intro div_nat_eqI) simp_all
  then have b: "bit (word_of_nat (128 + e) :: byte) 7" by (simp add: bit_byte del: of_nat_add)
  have low: "ucast (take_bit 7 (word_of_nat (128 + e) :: byte)) = (word_of_nat e :: word32)"
    using Cons.prems by (simp add: low_byte ucast_byte del: of_nat_add)
  have "tag_loop (pre @ word_of_nat (128 + e) # ?rest) (int (length pre)) tn =
      tag_loop (pre @ word_of_nat (128 + e) # ?rest) (int (length pre) + 1) (push_bit 7 tn OR word_of_nat e)"
    unfolding tag_loop.simps [of "pre @ word_of_nat (128 + e) # ?rest" "int (length pre)"] r
    by (simp add: Let_def and_low and_bit b low del: of_nat_add)
  also have "\<dots> = tag_loop ((pre @ [word_of_nat (128 + e)]) @ ?rest) (int (length (pre @ [word_of_nat (128 + e) :: byte]))) (push_bit 7 tn OR word_of_nat e)"
    by (simp del: of_nat_add add: add.commute)
  also have "\<dots> = (int (length pre) + int (length (e # ds)) + 1, foldl (\<lambda>w d. push_bit 7 w OR word_of_nat d) tn ((e # ds) @ [d]))"
    using Cons.prems by (subst Cons.IH) simp_all
  finally show ?case by simp
qed

lemma tag_value_bound: "m < 32 \<Longrightarrow> 64 * class_number c + (if k then 32 else 0) + m < 256"
  by (cases c; cases k) simp_all

lemma tag_value_parts:
  assumes "m < 32"
  shows "(64 * class_number c + (if k then 32 else 0) + m) mod 32 = m"
    and "odd ((64 * class_number c + (if k then 32 else 0) + m) div 32) = k"
    and "(64 * class_number c + (if k then 32 else 0) + m) div 64 = class_number c"
proof -
  let ?j = "if k then 1 else 0 :: nat"
  have e: "64 * class_number c + (if k then 32 else 0) + m = (2 * class_number c + ?j) * 32 + m" by simp
  show "(64 * class_number c + (if k then 32 else 0) + m) mod 32 = m" unfolding e using assms by (simp only: mod_mult_self3 mod_less)
  have d: "(64 * class_number c + (if k then 32 else 0) + m) div 32 = 2 * class_number c + ?j" unfolding e using assms by simp
  then show "odd ((64 * class_number c + (if k then 32 else 0) + m) div 32) = k" by simp
  show "(64 * class_number c + (if k then 32 else 0) + m) div 64 = class_number c"
    by (rule div_nat_eqI) (use assms in simp_all)
qed

lemma tag_byte_bits:
  shows "take_bit 5 (tag_byte c k t) = word_of_nat (min t 31)" and "bit (tag_byte c k t) 5 = k" and "class_of (tag_byte c k t) = c"
proof -
  let ?n = "64 * class_number c + (if k then 32 else 0) + min t 31"
  have m: "min t 31 < 32" by simp
  note parts = tag_value_parts [OF m, of c k]
  show "take_bit 5 (tag_byte c k t) = word_of_nat (min t 31)"
    unfolding tag_byte_def using low_byte [of 5 ?n] parts(1) by (simp del: of_nat_add)
  show "bit (tag_byte c k t) 5 = k" unfolding tag_byte_def using bit_byte [of 5 ?n] parts(2) by (simp del: of_nat_add)
  have "unat (drop_bit 6 (tag_byte c k t)) = ?n div 64"
    unfolding tag_byte_def by (rule drop_byte [OF tag_value_bound [OF m]])
  then have "unat (drop_bit 6 (tag_byte c k t)) = class_number c" using parts(3) by simp
  then have "drop_bit 6 (tag_byte c k t) = word_of_nat (class_number c)" by (metis of_nat_unat ucast_id)
  then show "class_of (tag_byte c k t) = c" unfolding class_of_def class_bits by (cases c) simp_all
qed

lemma read_tag_bytes:
  assumes "t < 2 ^ 31"
  shows "read_tag (pre @ tag_bytes c k t @ post) (int (length pre) + 1) (tag_byte c k t) = (int (length pre) + int (length (tag_bytes c k t)), word_of_nat t)"
proof (cases "t < 31")
  case True
  then have "take_bit 5 (tag_byte c k t) = word_of_nat t" by (simp add: tag_byte_bits)
  moreover have "(word_of_nat t :: byte) \<noteq> 0x1F" 
  proof
    assume "(word_of_nat t :: byte) = 0x1F"
    then have "unat (word_of_nat t :: byte) = unat (0x1F :: byte)" by (rule arg_cong)
    then show False using True by (simp add: unat_byte)
  qed
  ultimately show ?thesis using True by (simp add: read_tag_def and_low tag_bytes_def ucast_byte)
next
  case False
  let ?ds = "digits_of 7 t"
  have ds: "?ds = butlast ?ds @ [last ?ds]" by simp
  have "list_all (\<lambda>d. d < 128) (butlast ?ds @ [last ?ds])" using digits_bound [of 7 t] by (simp flip: ds)
  then have bound: "list_all (\<lambda>d. d < 128) (butlast ?ds)" "last ?ds < 128" unfolding list_all_append by simp_all
  have "take_bit 5 (tag_byte c k t) = 0x1F" using False by (simp add: tag_byte_bits)
  then have "read_tag (pre @ tag_bytes c k t @ post) (int (length pre) + 1) (tag_byte c k t) =
      tag_loop ((pre @ [tag_byte c k t]) @ map (\<lambda>d. word_of_nat (128 + d)) (butlast ?ds) @ word_of_nat (last ?ds) # post)
        (int (length (pre @ [tag_byte c k t]))) 0"
    using False by (simp add: read_tag_def and_low tag_bytes_def add.commute del: of_nat_add)
  also have "\<dots> = (int (length (pre @ [tag_byte c k t])) + int (length (butlast ?ds)) + 1,
      foldl (\<lambda>w d. push_bit 7 w OR word_of_nat d) 0 (butlast ?ds @ [last ?ds]))"
    by (rule tag_loop_digits [OF bound])
  also have "foldl (\<lambda>w d. push_bit 7 w OR word_of_nat d) (0 :: word32) (butlast ?ds @ [last ?ds]) = word_of_nat t"
    using fold_words [of 7 ?ds 0] digits_bound [of 7 t] digits_value [of 7 t] by (simp flip: ds)
  finally show ?thesis using False by (simp add: tag_bytes_def of_nat_diff Suc_le_eq)
qed

lemma length_loop_fold:
  "length_loop (length ds) (pre @ map word_of_nat ds @ post) (int (length pre)) len =
    foldl (\<lambda>w b. push_bit 8 w OR ucast b) len (map word_of_nat ds :: byte list)"
proof (induction ds arbitrary: pre len)
  case (Cons d ds)
  let ?b = "word_of_nat d :: byte"
  have "length_loop (length (d # ds)) (pre @ map word_of_nat (d # ds) @ post) (int (length pre)) len =
      length_loop (length ds) ((pre @ [?b]) @ map word_of_nat ds @ post) (int (length (pre @ [?b]))) (push_bit 8 len OR ucast ?b)"
    by (simp add: bits_of_def add.commute)
  also have "\<dots> = foldl (\<lambda>w b. push_bit 8 w OR ucast b) (push_bit 8 len OR ucast ?b) (map word_of_nat ds :: byte list)"
    by (rule Cons.IH)
  finally show ?case by simp
qed simp

lemma foldl_ucast:
  "list_all (\<lambda>d. d < 256) ds \<Longrightarrow>
    foldl (\<lambda>w b. push_bit 8 w OR ucast b) w (map word_of_nat ds :: byte list) = foldl (\<lambda>w d. push_bit 8 w OR word_of_nat d) (w :: word32) ds"
  by (induction ds arbitrary: w) (simp_all add: ucast_byte)

lemma length_loop_digits:
  "length_loop (length (digits_of 8 n)) (pre @ map word_of_nat (digits_of 8 n) @ post) (int (length pre)) 0 = word_of_nat n"
  using fold_words [of 8 "digits_of 8 n" 0] digits_bound [of 8 n] digits_value [of 8 n]
  by (simp add: length_loop_fold foldl_ucast)

lemma read_length_bytes:
  assumes "n < 2 ^ 31"
  shows "read_length (pre @ length_bytes n @ post) (int (length pre)) = Inr (Some (int n), int (length pre) + int (length (length_bytes n)))"
proof (cases "n < 128")
  case True
  then have "\<not> bit (word_of_nat n :: byte) 7" by (simp add: bit_byte)
  with True show ?thesis by (simp add: read_length_def length_bytes_def bits_of_def and_bit uint_nat unat_byte)
next
  case False
  let ?ds = "digits_of 8 n"
  let ?b = "word_of_nat (128 + length ?ds) :: byte"
  have le: "length ?ds \<le> 4" using assms by (intro digits_length) simp_all
  then have "(128 + length ?ds) div 128 = 1" by (intro div_nat_eqI) simp_all
  then have b7: "bit ?b 7" using bit_byte [of 7 "128 + length ?ds"] by (simp del: of_nat_add)
  have "unat (take_bit 7 ?b) = (128 + length ?ds) mod 128"
    using low_byte [of 7 "128 + length ?ds"] unat_byte [of "(128 + length ?ds) mod 128"] by (simp del: of_nat_add)
  then have octets: "unat (take_bit 7 ?b) = length ?ds" using le by simp
  have loop: "length_loop (length ?ds) (pre @ ?b # map word_of_nat ?ds @ post) (int (length pre) + 1) 0 = word_of_nat n"
    using length_loop_digits [of n "pre @ [?b]" post] by (simp add: add.commute del: of_nat_add)
  show ?thesis using False le b7 octets loop assms
    by (simp add: read_length_def length_bytes_def bits_of_def and_bit and_low sint_small Let_def del: of_nat_add)
qed

lemma header_sizes: "1 \<le> length (tag_bytes c k t)" "1 \<le> length (length_bytes n)"
  by (simp_all add: tag_bytes_def length_bytes_def)

lemma subarray_middle: "subarray (pre @ xs @ post) (int (length pre)) (Some (int (length pre) + int (length xs))) = xs"
  by (simp add: subarray_def array_index_def Let_def nat_add_distrib)

lemma read_header_bytes:
  assumes "t < 2 ^ 31" and "length content < 2 ^ 31"
  shows "read_header (pre @ with_header c k t content @ post) (int (length pre)) =
    Inr \<lparr>hd_firstByte = Some (tag_byte c k t), hd_tagNumber = int t, hd_length = Some (int (length content)),
      hd_offset = int (length pre) + int (length (tag_bytes c k t) + length (length_bytes (length content)))\<rparr>"
proof -
  let ?tb = "tag_bytes c k t" and ?lb = "length_bytes (length content)"
  let ?bs = "pre @ with_header c k t content @ post"
  have shape: "?bs = pre @ ?tb @ (?lb @ content @ post)" "?bs = (pre @ ?tb) @ ?lb @ (content @ post)" by (simp_all add: with_header_def)
  have first: "read_byte ?bs (int (length pre)) = Some (tag_byte c k t)" by (simp add: with_header_def tag_bytes_def)
  have tag: "read_tag ?bs (int (length pre) + 1) (tag_byte c k t) = (int (length (pre @ ?tb)), word_of_nat t)"
    using read_tag_bytes [OF assms(1), of pre c k "?lb @ content @ post"] by (simp add: with_header_def)
  have len: "read_length ?bs (int (length (pre @ ?tb))) = Inr (Some (int (length content)), int (length (pre @ ?tb)) + int (length ?lb))"
    unfolding shape(2) by (rule read_length_bytes [OF assms(2)])
  have bound: "int (length pre) < int (length ?bs)" "int (length (pre @ ?tb)) < int (length ?bs)"
    using header_sizes(1) [of c k t] header_sizes(2) [of "length content"] by (simp_all add: with_header_def)
  show ?thesis
    using bound first tag len assms(1) unfolding read_header_def
    by (simp add: bits_of_def sint_small with_header_def)
qed

lemma node_read:
  fixes pre content post
  defines "h \<equiv> \<lambda>c k t. \<lparr>hd_firstByte = Some (tag_byte c k t), hd_tagNumber = int t, hd_length = Some (int (length content)),
      hd_offset = int (length pre) + int (length (tag_bytes c k t) + length (length_bytes (length content)))\<rparr>"
  shows "is_constructed (h c k t) = k" and "value_end (h c k t) = Some (int (length (pre @ with_header c k t content)))"
    and "header_value (pre @ with_header c k t content @ post) (h c k t) = content"
    and "make_node (pre @ with_header c k t content @ post) (int (length pre)) (h c k t) ch = node_for c k t content ch"
proof -
  show con: "is_constructed (h c k t) = k" by (simp add: is_constructed_def h_def bits_of_def and_bit tag_byte_bits)
  show fin: "value_end (h c k t) = Some (int (length (pre @ with_header c k t content)))"
    by (simp add: value_end_def h_def with_header_def)
  let ?hd = "pre @ tag_bytes c k t @ length_bytes (length content)"
  have "subarray (?hd @ content @ post) (int (length ?hd)) (Some (int (length ?hd) + int (length content))) = content"
    by (rule subarray_middle)
  then show val: "header_value (pre @ with_header c k t content @ post) (h c k t) = content"
    unfolding header_value_def fin by (simp add: h_def with_header_def add.assoc)
  have "subarray (pre @ with_header c k t content @ post) (int (length pre)) (value_end (h c k t)) = with_header c k t content"
    unfolding fin using subarray_middle [of pre "with_header c k t content" post] by simp
  with con val show "make_node (pre @ with_header c k t content @ post) (int (length pre)) (h c k t) ch = node_for c k t content ch"
    by (simp add: make_node_def node_for_def) (simp add: h_def bits_of_def tag_byte_bits)
qed

lemma parse_primitive:
  assumes "t < 2 ^ 31" and "length content < 2 ^ 31"
  shows "parseAsn1Node (Suc n) (pre @ with_header c False t content @ post) (int (length pre)) =
    Some (Inr (node_for c False t content None, Some (int (length (pre @ with_header c False t content)))))"
  using node_read(1,2,4) [where k = False] by (simp add: read_header_bytes [OF assms] del: of_nat_add length_append)

lemma parse_constructed:
  assumes "t < 2 ^ 31" and "length content < 2 ^ 31" and "parse_children n content (Some 0) = Some (Inr nodes)"
  shows "parseAsn1Node (Suc n) (pre @ with_header c True t content @ post) (int (length pre)) =
    Some (Inr (node_for c True t content (Some nodes), Some (int (length (pre @ with_header c True t content)))))"
  using node_read [where k = True] by (simp add: read_header_bytes [OF assms(1,2)] assms(3) del: of_nat_add length_append)

lemma with_header_size: "2 + length content \<le> length (with_header c k t content)"
  using header_sizes(1) [of c k t] header_sizes(2) [of "length content"] by (simp add: with_header_def)

lemma encode_size: "2 \<le> length (der_encode d)"
  by (cases d) (simp_all del: One_nat_def add: le_trans [OF le_add1 with_header_size])

lemma parse_children_all:
  assumes "\<And>d n pre post. d \<in> set ds \<Longrightarrow> 2 * length (der_encode d) \<le> n \<Longrightarrow>
    parseAsn1Node n (pre @ der_encode d @ post) (int (length pre)) = Some (Inr (der_node d, Some (int (length (pre @ der_encode d)))))"
  shows "2 * length (concat (map der_encode ds)) + 1 \<le> n \<Longrightarrow>
    parse_children n (pre @ concat (map der_encode ds)) (Some (int (length pre))) = Some (Inr (map der_node ds))"
  using assms
proof (induction ds arbitrary: n pre)
  case Nil
  then show ?case by (cases n) simp_all
next
  case (Cons d ds)
  let ?rest = "concat (map der_encode ds)"
  obtain m where m: "n = Suc m" using Cons.prems(1) by (cases n) simp_all
  have sz: "2 \<le> length (der_encode d)" by (rule encode_size)
  have node: "parseAsn1Node m (pre @ der_encode d @ ?rest) (int (length pre)) = Some (Inr (der_node d, Some (int (length (pre @ der_encode d)))))"
    using Cons.prems(1) m by (intro Cons.prems(2)) simp_all
  have "parse_children m ((pre @ der_encode d) @ ?rest) (Some (int (length (pre @ der_encode d)))) = Some (Inr (map der_node ds))"
    using Cons.prems m sz by (intro Cons.IH) simp_all
  then have rest: "parse_children m (pre @ der_encode d @ ?rest) (Some (int (length (pre @ der_encode d)))) = Some (Inr (map der_node ds))" by simp
  have "int (length pre) < int (length (pre @ der_encode d @ ?rest))" using sz by simp
  then show ?case by (simp add: m node rest del: length_append of_nat_add)
qed

theorem der_roundtrip_at:
  "der_ok d \<Longrightarrow> 2 * length (der_encode d) \<le> n \<Longrightarrow>
    parseAsn1Node n (pre @ der_encode d @ post) (int (length pre)) = Some (Inr (der_node d, Some (int (length (pre @ der_encode d)))))"
proof (induction d arbitrary: n pre post)
  case (Primitive c t content)
  then obtain m where "n = Suc m" using encode_size [of "Primitive c t content"] by (cases n) simp_all
  then show ?case using Primitive.prems by (simp add: parse_primitive del: parseAsn1Node.simps length_append of_nat_add)
next
  case (Constructed c t ds)
  let ?content = "concat (map der_encode ds)"
  obtain m where m: "n = Suc m" using Constructed.prems encode_size [of "Constructed c t ds"] by (cases n) simp_all
  have "2 * length ?content + 1 \<le> m"
    using Constructed.prems(2) m header_sizes(1) [of c True t] header_sizes(2) [of "length ?content"] by (simp add: with_header_def)
  then have "parse_children m ?content (Some 0) = Some (Inr (map der_node ds))"
    using parse_children_all [of ds m "[]"] Constructed by (simp add: list_all_iff)
  then show ?case using Constructed.prems m by (simp add: parse_constructed del: parseAsn1Node.simps length_append of_nat_add)
qed

text \<open>C30: parsing is the left inverse of DER encoding.  Whatever tree of primitive and constructed
  elements is encoded (any class, any tag number below \<open>2 ^ 31\<close> in one byte or in base 128, any content
  shorter than \<open>2 ^ 31\<close> bytes with its length in short or long form), \<open>parseAsn1\<close> returns, with fuel twice the number of
  bytes, the node of that tree, with its children, header length and raw bytes, whatever follows the element.
\<close>

theorem der_roundtrip:
  assumes "der_ok d" and "2 * length (der_encode d) \<le> n"
  shows "parseAsn1 n (der_encode d @ post) = Some (Inr (der_node d))"
  using der_roundtrip_at [OF assms, of "[]" post] by (simp add: parseAsn1_def)

theorem der_roundtrip_witness:
  "parseAsn1 30 [0xBF, 0x85, 0x3E, 5, 2, 1, 5, 0x30, 0, 9] =
     Some (Inr (der_node (Constructed Context 702 [Primitive Universal 2 [5], Constructed Universal 16 []])))"
proof -
  let ?d = "Constructed Context 702 [Primitive Universal 2 [5], Constructed Universal 16 []]"
  have enc: "der_encode ?d = [0xBF, 0x85, 0x3E, 5, 2, 1, 5, 0x30, 0]"
    by (simp add: with_header_def tag_bytes_def tag_byte_def length_bytes_def digits_of.simps)
  have "der_ok ?d" by (simp add: with_header_def tag_bytes_def length_bytes_def digits_of.simps)
  then show ?thesis using der_roundtrip [of ?d 30 "[9]"] unfolding enc by (simp del: der_node.simps)
qed

section \<open>A length of four octets is signed\<close>

text \<open>
  A four octet length with its top bit set is negative, so the next offset lies before the element and the
  bound check passes: the child below ends where it starts, and the loop over the children never ends.
\<close>

definition looping_bytes :: "byte list" where
  "looping_bytes = [0x30, 6, 4, 0x84, 0xFF, 0xFF, 0xFF, 0xFA]"

lemma looping_child:
  "read_header [4, 0x84, 0xFF, 0xFF, 0xFF, 0xFA] 0 = Inr \<lparr>hd_firstByte = Some 4, hd_tagNumber = 4, hd_length = Some (-6), hd_offset = 6\<rparr>"
  by code_simp

lemma looping_root: "read_header looping_bytes 0 = Inr \<lparr>hd_firstByte = Some 0x30, hd_tagNumber = 16, hd_length = Some 6, hd_offset = 2\<rparr>"
  by code_simp


lemma looping_values:
  "subarray [4, 0x84, 0xFF, 0xFF, 0xFF, 0xFA] 6 (Some 0) = []"
  "subarray looping_bytes 2 (Some 8) = [4, 0x84, 0xFF, 0xFF, 0xFF, 0xFA]"
  by (simp_all add: subarray_def array_index_def looping_bytes_def Let_def)

lemma looping_children: "parse_children n [4, 0x84, 0xFF, 0xFF, 0xFF, 0xFA] (Some 0) = None"
proof (induction n)
  case (Suc n)
  have "parseAsn1Node n [4, 0x84, 0xFF, 0xFF, 0xFF, 0xFA] 0 = None \<or>
    (\<exists>node. parseAsn1Node n [4, 0x84, 0xFF, 0xFF, 0xFF, 0xFA] 0 = Some (Inr (node, Some 0)))"
    by (cases n) (simp_all add: looping_child is_constructed_def value_end_def bits_of_def)
  then show ?case using Suc by auto
qed simp

text \<open>Eight bytes on which the parser does not return, whatever the fuel.  The length octets \<open>0x84 FF FF FF FA\<close>
  read as minus six, so the element ends where it begins, and its parent's loop parses it again for ever.
\<close>
theorem negative_length_diverges: "parseAsn1 n looping_bytes = None"
  by (cases n) (simp_all add: parseAsn1_def looping_root is_constructed_def bits_of_def header_value_def value_end_def looping_values looping_children)


section \<open>Integers are two's complement\<close>

definition big_endian :: "byte list \<Rightarrow> int" where
  "big_endian bs = foldl (\<lambda>v x. v * 256 + uint x) 0 bs"

lemma uint_not_byte: "uint (NOT (x :: byte)) = 255 - uint x"
proof -
  have "uint (NOT x) = (- uint x - 1) mod 256" by (simp add: unsigned_not_eq take_bit_eq_mod not_int_def)
  also have "\<dots> = (- uint x - 1 + 256) mod 256" by (simp only: mod_add_self2)
  also have "- uint x - 1 + 256 = 255 - uint x" by simp
  also have "(255 - uint x) mod 256 = 255 - uint x"
  proof (rule mod_pos_pos_trivial)
    have "uint x < 256" using unsigned_less [of x, where ?'a = int] by simp
    then show "0 \<le> 255 - uint x" by linarith
    have "0 \<le> uint x" by simp
    then show "255 - uint x < 256" by linarith
  qed
  finally show ?thesis .
qed

lemma complement_digits:
  "foldl (\<lambda>v x. v * 256 + uint (NOT x)) (256 ^ k - 1 - v) bs = 256 ^ (k + length bs) - 1 - foldl (\<lambda>v x. v * 256 + uint (x :: byte)) v bs"
proof (induction bs arbitrary: k v)
  case (Cons x bs)
  have step: "(256 ^ k - 1 - v) * 256 + uint (NOT x) = 256 ^ Suc k - 1 - (v * 256 + uint x)" by (simp add: uint_not_byte algebra_simps)
  show ?case unfolding foldl.simps step Cons.IH by simp
qed simp

lemma integer_twos_complement:
  assumes "node_valueBytes node = b # bs"
  shows "asn1IntegerToBigInt node = Some (big_endian (b # bs) - (if bit b 7 then 256 ^ length (b # bs) else 0))"
  using complement_digits [of 0 0 "b # bs"] by (simp add: asn1IntegerToBigInt_def assms and_bit big_endian_def)

end
