(* ===== verification/DeviceCrypto.thy ===== *)
theory DeviceCrypto
  imports Asn1 SmsParser
begin

text \<open>
  What a device signs and how its signature is decoded, after \<open>lib/device-crypto.ts\<close>: the canonical
  payload of length-prefixed fields, and the conversion between the DER form of an ECDSA
  signature and the fixed-width form of Web Crypto.  Unicode normalisation is an argument \<open>nfc\<close>.
\<close>

section \<open>The canonical payload\<close>

text \<open>The number of bytes \<open>TextEncoder\<close> writes: a lone surrogate is replaced by a three byte character.\<close>

fun utf8_length :: "utf16 \<Rightarrow> nat" where
  "utf8_length [] = 0"
| "utf8_length [c] = (if c < 128 then 1 else if c < 2048 then 2 else 3)"
| "utf8_length (c # d # s) =
     (if 0xD800 \<le> c \<and> c < 0xDC00 \<and> 0xDC00 \<le> d \<and> d < 0xE000 then 4 + utf8_length s
      else (if c < 128 then 1 else if c < 2048 then 2 else 3) + utf8_length (d # s))"

text \<open>A field is a string or a whole number; \<open>String(val)\<close> prints it.\<close>

datatype field = FText utf16 | FNumber int

fun String_of :: "field \<Rightarrow> utf16" where
  "String_of (FText s) = s"
| "String_of (FNumber i) = units (int_str i)"

definition encodeCanonicalField :: "(utf16 \<Rightarrow> utf16) \<Rightarrow> field \<Rightarrow> utf16" where
  "encodeCanonicalField nfc val =
     (let normalized = nfc (String_of val) in units (nat_str (utf8_length normalized)) @ units '':'' @ normalized)"

definition RECORD_SEPARATOR :: int where
  "RECORD_SEPARATOR = 30"

fun join_fields :: "utf16 list \<Rightarrow> utf16" where
  "join_fields [] = []"
| "join_fields [s] = s"
| "join_fields (s # t # ss) = s @ RECORD_SEPARATOR # join_fields (t # ss)"

record signature_params =
  sp_deviceId :: field
  sp_nonce :: utf16
  sp_timestamp :: field
  sp_sender :: utf16
  sp_body :: utf16

definition buildCanonicalSmsPayload :: "(utf16 \<Rightarrow> utf16) \<Rightarrow> signature_params \<Rightarrow> utf16" where
  "buildCanonicalSmsPayload nfc p = join_fields (map (encodeCanonicalField nfc)
     [sp_deviceId p, FText (sp_nonce p), sp_timestamp p, FText (sp_sender p), FText (sp_body p)])"

definition ROTATE_KEY_MARKER :: utf16 where
  "ROTATE_KEY_MARKER = units ''rotate-key''"

definition buildCanonicalKeyRotationPayload :: "(utf16 \<Rightarrow> utf16) \<Rightarrow> field \<Rightarrow> utf16 \<Rightarrow> field \<Rightarrow> utf16 \<Rightarrow> utf16" where
  "buildCanonicalKeyRotationPayload nfc deviceId nonce timestamp newPublicKey = join_fields (map (encodeCanonicalField nfc)
     [deviceId, FText nonce, timestamp, FText ROTATE_KEY_MARKER, FText newPublicKey])"

section \<open>Signature formats\<close>

datatype der_error = NoSequence | NoIntegerR | NoIntegerS | LengthR | LengthS

definition byte_at :: "byte list \<Rightarrow> nat \<Rightarrow> byte option" where
  "byte_at bs i = (if i < length bs then Some (bs ! i) else None)"

definition slice :: "byte list \<Rightarrow> nat \<Rightarrow> nat \<Rightarrow> byte list" where
  "slice bs a b = take (b - a) (drop a bs)"

text \<open>Leading zero bytes that only keep the sign positive.\<close>

fun trim_sign :: "byte list \<Rightarrow> byte list" where
  "trim_sign (x # y # bs) = (if x = 0 \<and> y AND 0x80 \<noteq> 0 then trim_sign (y # bs) else x # y # bs)"
| "trim_sign bs = bs"

definition signature_size :: "nat \<Rightarrow> byte list \<Rightarrow> byte list \<Rightarrow> nat" where
  "signature_size keySize r s =
     (if keySize = 32 \<and> (length r > 32 \<or> length s > 32)
      then if length r \<le> 48 \<and> length s \<le> 48 then 48
           else if length r \<le> 66 \<and> length s \<le> 66 then 66 else keySize
      else keySize)"

definition left_pad :: "nat \<Rightarrow> byte list \<Rightarrow> byte list" where
  "left_pad n bs = replicate (n - length bs) 0 @ bs"

definition der_halves :: "byte list \<Rightarrow> der_error + byte list \<times> byte list" where
  "der_halves der =
     (if byte_at der 0 \<noteq> Some 0x30 then Inl NoSequence
      else let o1 = (if bits_of (byte_at der 1) AND 0x80 \<noteq> 0 then 2 + unat (bits_of (byte_at der 1) AND 0x7F) else 2)
        in if byte_at der o1 \<noteq> Some 2 then Inl NoIntegerR
           else case byte_at der (o1 + 1) of
               None \<Rightarrow> Inl NoIntegerS
             | Some rLen \<Rightarrow>
                 let o2 = o1 + 2 + unat rLen
                 in if byte_at der o2 \<noteq> Some 2 then Inl NoIntegerS
                    else Inr (slice der (o1 + 2) o2,
                      case byte_at der (o2 + 1) of None \<Rightarrow> [] | Some sLen \<Rightarrow> slice der (o2 + 2) (o2 + 2 + unat sLen)))"

definition derToP1363 :: "byte list \<Rightarrow> nat \<Rightarrow> der_error + byte list" where
  "derToP1363 der keySize =
     (if length der = keySize * 2 then Inr der
      else case der_halves der of
          Inl e \<Rightarrow> Inl e
        | Inr (rBytes, sBytes) \<Rightarrow>
            let r = trim_sign rBytes; s = trim_sign sBytes; n = signature_size keySize r s
            in if length r > n then Inl LengthR
               else if length s > n then Inl LengthS
               else Inr (left_pad n r @ left_pad n s))"

fun drop_zeros :: "byte list \<Rightarrow> byte list" where
  "drop_zeros (x # y # bs) = (if x = 0 then drop_zeros (y # bs) else x # y # bs)"
| "drop_zeros bs = bs"

definition der_integer :: "byte list \<Rightarrow> byte list" where
  "der_integer h = (let r = drop_zeros h in if hd r AND 0x80 \<noteq> 0 then 0 # r else r)"

definition p1363ToDer :: "byte list \<Rightarrow> byte list option" where
  "p1363ToDer p =
     (if length p \<noteq> 64 then None
      else let r = der_integer (take 32 p); s = der_integer (drop 32 p)
        in Some ([0x30, word_of_nat (2 + length r + 2 + length s), 2, word_of_nat (length r)] @ r @ [2, word_of_nat (length s)] @ s))"

section \<open>The payload determines its fields\<close>

lemma utf8_length_snoc: "utf8_length s < utf8_length (s @ [c])"
  by (induction s rule: utf8_length.induct) auto

lemma utf8_length_append: "t \<noteq> [] \<Longrightarrow> utf8_length s < utf8_length (s @ t)"
proof (induction t rule: rev_induct)
  case (snoc c t)
  then show ?case using utf8_length_snoc [of "s @ t" c] by (cases "t = []") auto
qed simp

lemma prefix_same_length:
  assumes "s @ x = t @ y" and "utf8_length s = utf8_length t"
  shows "s = t \<and> x = y"
proof -
  obtain u where "s = t @ u \<and> u @ x = y \<or> s @ u = t \<and> x = u @ y" using assms(1) by (auto simp: append_eq_append_conv2)
  then show ?thesis using assms(2) utf8_length_append [of u s] utf8_length_append [of u t] by (cases "u = []") auto
qed

lemma units_inj [simp]: "units s = units t \<longleftrightarrow> s = t"
  unfolding units_def by (rule inj_map_eq_map) (simp add: inj_def)

lemma colon_split:
  assumes "units (nat_str m) @ units '':'' @ x = units (nat_str n) @ units '':'' @ y"
  shows "m = n \<and> x = y"
proof -
  have no: "58 \<notin> set (units (nat_str k))" for k
  proof
    assume "58 \<in> set (units (nat_str k))"
    then obtain c where c: "c \<in> set (nat_str k)" "58 = (of_char c :: int)" by (auto simp: units_def)
    then show False using nat_str_digits [OF c(1)] by (auto simp: is_digit_def)
  qed
  have "units (nat_str m) @ 58 # x = units (nat_str n) @ 58 # y" using assms by (simp add: units_def)
  from separator_inj [OF this no no] show ?thesis by simp
qed

lemma field_split:
  assumes "encodeCanonicalField nfc a @ x = encodeCanonicalField nfc b @ y"
  shows "nfc (String_of a) = nfc (String_of b) \<and> x = y"
proof -
  have "units (nat_str (utf8_length (nfc (String_of a)))) @ units '':'' @ nfc (String_of a) @ x =
      units (nat_str (utf8_length (nfc (String_of b)))) @ units '':'' @ nfc (String_of b) @ y"
    using assms by (simp add: encodeCanonicalField_def Let_def)
  from colon_split [OF this] show ?thesis using prefix_same_length by blast
qed

lemma join_fields_split:
  "length as = length bs \<Longrightarrow> join_fields (map (encodeCanonicalField nfc) as) = join_fields (map (encodeCanonicalField nfc) bs) \<Longrightarrow>
    map (\<lambda>f. nfc (String_of f)) as = map (\<lambda>f. nfc (String_of f)) bs"
proof (induction as bs rule: list_induct2)
  case (Cons a as b bs)
  show ?case
  proof (cases as)
    case Nil
    then show ?thesis using Cons field_split [of nfc a "[]" b "[]"] by simp
  next
    case (Cons a' as')
    then obtain b' bs' where b: "bs = b' # bs'" using Cons.hyps by (cases bs) auto
    have "encodeCanonicalField nfc a @ RECORD_SEPARATOR # join_fields (map (encodeCanonicalField nfc) as) =
        encodeCanonicalField nfc b @ RECORD_SEPARATOR # join_fields (map (encodeCanonicalField nfc) bs)"
      using Cons.prems by (simp add: Cons b)
    from field_split [OF this] show ?thesis using Cons.IH by simp
  qed
qed simp

text \<open>C31: two messages with the same signed payload are the same message, up to Unicode normalisation of each field:
  no content moves between the device id, the nonce, the time, the sender and the body.
\<close>

theorem canonical_payload_unambiguous:
  assumes "buildCanonicalSmsPayload nfc p = buildCanonicalSmsPayload nfc q"
  shows "nfc (String_of (sp_deviceId p)) = nfc (String_of (sp_deviceId q)) \<and> nfc (sp_nonce p) = nfc (sp_nonce q) \<and>
    nfc (String_of (sp_timestamp p)) = nfc (String_of (sp_timestamp q)) \<and> nfc (sp_sender p) = nfc (sp_sender q) \<and> nfc (sp_body p) = nfc (sp_body q)"
  using join_fields_split [OF _ assms [unfolded buildCanonicalSmsPayload_def]] by simp

definition demo_params :: "field \<Rightarrow> signature_params" where
  "demo_params d = \<lparr>sp_deviceId = d, sp_nonce = units ''n1'', sp_timestamp = FNumber 0, sp_sender = units ''bKash'', sp_body = [0xD83D, 0xDE00]\<rparr>"

theorem canonical_payload_unambiguous_witness:
  "buildCanonicalSmsPayload id (demo_params (FText (units ''17''))) = buildCanonicalSmsPayload id (demo_params (FNumber 17)) \<and>
   units ''17'' = String_of (FNumber 17)"
proof -
  have same: "buildCanonicalSmsPayload id (demo_params (FText (units ''17''))) = buildCanonicalSmsPayload id (demo_params (FNumber 17))"
    by (simp add: buildCanonicalSmsPayload_def demo_params_def int_str_def nat_str.simps digit_char_def encodeCanonicalField_def)
  from canonical_payload_unambiguous [OF this] same show ?thesis by (simp add: demo_params_def)
qed

text \<open>The two kinds of payload share their form: a message from a sender named like the marker reads as a key rotation.\<close>

lemma rotation_payload_is_an_sms_payload:
  "buildCanonicalKeyRotationPayload nfc d n t k =
    buildCanonicalSmsPayload nfc \<lparr>sp_deviceId = d, sp_nonce = n, sp_timestamp = t, sp_sender = ROTATE_KEY_MARKER, sp_body = k\<rparr>"
  by (simp add: buildCanonicalKeyRotationPayload_def buildCanonicalSmsPayload_def)

section \<open>Signatures survive the conversion\<close>

lemma drop_zeros_length: "length (drop_zeros h) \<le> length h"
  by (induction h rule: drop_zeros.induct) auto

lemma drop_zeros_not_Nil: "h \<noteq> [] \<Longrightarrow> drop_zeros h \<noteq> []"
  by (induction h rule: drop_zeros.induct) auto

lemma drop_zeros_pad: "h \<noteq> [] \<Longrightarrow> left_pad (length h) (drop_zeros h) = h"
proof (induction h rule: drop_zeros.induct)
  case (1 x y bs)
  show ?case
  proof (cases "x = 0")
    case True
    have "length (drop_zeros (y # bs)) \<le> length (y # bs)" by (rule drop_zeros_length)
    then show ?thesis using 1 True by (simp add: left_pad_def Suc_diff_le)
  qed (simp add: left_pad_def)
qed (simp_all add: left_pad_def)

lemma drop_zeros_hd: "drop_zeros h = x # y # bs \<Longrightarrow> x \<noteq> 0"
  by (induction h rule: drop_zeros.induct) (auto split: if_splits)

lemma trim_der_integer:
  assumes "h \<noteq> []"
  shows "trim_sign (der_integer h) = drop_zeros h"
proof -
  obtain x bs where d: "drop_zeros h = x # bs" using drop_zeros_not_Nil [OF assms] by (cases "drop_zeros h") auto
  have "trim_sign (x # bs) = x # bs" using drop_zeros_hd [of h x] d by (cases bs) auto
  then show ?thesis using d by (simp add: der_integer_def Let_def)
qed

lemma der_integer_length: "h \<noteq> [] \<Longrightarrow> 1 \<le> length (der_integer h) \<and> length (der_integer h) \<le> Suc (length h)"
  using drop_zeros_length [of h] drop_zeros_not_Nil [of h] by (auto simp: der_integer_def Let_def Suc_le_eq)

lemma der_halves_of:
  assumes "1 \<le> length r" "length r \<le> 33" "1 \<le> length s" "length s \<le> 33"
  shows "der_halves ([0x30, word_of_nat (2 + length r + 2 + length s), 2, word_of_nat (length r)] @ r @ [2, word_of_nat (length s)] @ s) = Inr (r, s)"
proof -
  let ?der = "[0x30, word_of_nat (2 + length r + 2 + length s), 2, word_of_nat (length r)] @ r @ [2, word_of_nat (length s)] @ s"
  have short: "\<not> bit (word_of_nat (2 + length r + 2 + length s) :: byte) 7"
    using assms bit_byte [of 7 "2 + length r + 2 + length s"] by (simp del: of_nat_add)
  have b: "byte_at ?der 0 = Some 0x30" "byte_at ?der 1 = Some (word_of_nat (2 + length r + 2 + length s))"
    "byte_at ?der 2 = Some 2" "byte_at ?der 3 = Some (word_of_nat (length r))"
    "byte_at ?der (4 + length r) = Some 2" "byte_at ?der (4 + length r + 1) = Some (word_of_nat (length s))"
    by (simp_all add: byte_at_def nth_append)
  have u: "unat (word_of_nat (length r) :: byte) = length r" "unat (word_of_nat (length s) :: byte) = length s"
    using assms by (simp_all add: unat_byte)
  have sl: "slice ?der 4 (4 + length r) = r" "slice ?der (6 + length r) (6 + length r + length s) = s"
    by (simp add: slice_def) (simp add: slice_def eval_nat_numeral)
  show ?thesis using short b u sl by (simp add: der_halves_def and_bit bits_of_def Let_def del: of_nat_add append_Cons)
qed

text \<open>C32: converting a 64 byte signature to DER and back returns the signature, unless its DER form happens to have 64 bytes itself:
  that form is returned as it stands.
\<close>

theorem signature_roundtrip:
  assumes "p1363ToDer p = Some der"
  shows "derToP1363 der 32 = Inr (if length der = 64 then der else p)"
proof -
  let ?r = "take 32 p" and ?s = "drop 32 p"
  have len: "length p = 64" using assms by (simp add: p1363ToDer_def split: if_splits)
  then have half: "length ?r = 32" "length ?s = 32" by simp_all
  then have ne: "?r \<noteq> []" "?s \<noteq> []" by auto
  have bounds: "1 \<le> length (der_integer ?r)" "length (der_integer ?r) \<le> 33" "1 \<le> length (der_integer ?s)" "length (der_integer ?s) \<le> 33"
    using der_integer_length [OF ne(1)] der_integer_length [OF ne(2)] half by simp_all
  have halves: "der_halves der = Inr (der_integer ?r, der_integer ?s)"
    using assms der_halves_of [OF bounds] by (simp add: p1363ToDer_def Let_def split: if_splits)
  have small: "length (drop_zeros ?r) \<le> 32" "length (drop_zeros ?s) \<le> 32"
    using drop_zeros_length [of ?r] drop_zeros_length [of ?s] half by simp_all
  then have "signature_size 32 (drop_zeros ?r) (drop_zeros ?s) = 32" by (simp add: signature_size_def)
  moreover have "left_pad 32 (drop_zeros ?r) @ left_pad 32 (drop_zeros ?s) = p"
    using drop_zeros_pad [OF ne(1)] drop_zeros_pad [OF ne(2)] half by simp
  ultimately show ?thesis using halves small by (simp add: derToP1363_def trim_der_integer [OF ne(1)] trim_der_integer [OF ne(2)] Let_def)
qed

theorem signature_roundtrip_witness: "derToP1363 [0x30, 6, 2, 1, 0, 2, 1, 1] 32 = Inr (replicate 63 0 @ [1])"
proof -
  have "p1363ToDer (replicate 63 0 @ [1]) = Some [0x30, 6, 2, 1, 0, 2, 1, 1]" by code_simp
  from signature_roundtrip [OF this] show ?thesis by simp
qed

text \<open>Two short halves make a DER signature of 64 bytes, which is then taken for the fixed-width form.\<close>

definition short_halves :: "byte list" where
  "short_halves = replicate 3 0 @ replicate 29 1 @ replicate 3 0 @ replicate 29 1"

lemma short_signature_mangled:
  "p1363ToDer short_halves = Some ([0x30, 62, 2, 29] @ replicate 29 1 @ [2, 29] @ replicate 29 1)"
  "derToP1363 ([0x30, 62, 2, 29] @ replicate 29 1 @ [2, 29] @ replicate 29 1) 32 \<noteq> Inr short_halves"
  by code_simp+

end
