(* ===== verification/DevicePolicy.thy ===== *)
theory DevicePolicy
  imports Hierarchy Sms DeviceCrypto
begin

text \<open>
  The trust policy of paired devices, after \<open>services/device-policy.ts\<close>: the tier of a device, the tier a
  merchant requires, the mode of enforcement, and the time-limited overrides.  The device tables
  of D1, the KV namespace and the queue of forwarded messages stand beside the world of the
  payment services, whose clock and fates they share.
\<close>

section \<open>Tiers and modes\<close>

datatype device_tier = Keyless | Basic | Attested | Strongbox
datatype enforcement_mode = EOff | EAudit | EEnforce

fun TIER_RANK :: "device_tier \<Rightarrow> nat" where
  "TIER_RANK Keyless = 0"
| "TIER_RANK Basic = 1"
| "TIER_RANK Attested = 2"
| "TIER_RANK Strongbox = 3"

text \<open>The tier a column names; an unknown name has no rank.\<close>

definition named_tier :: "string \<Rightarrow> device_tier option" where
  "named_tier s = map_of [(''keyless'', Keyless), (''basic'', Basic), (''attested'', Attested), (''strongbox'', Strongbox)] s"

record device_env =
  de_STRONGBOX_REQUIRED :: "string option"
  de_ATTESTATION_REQUIRED :: "string option"
  de_ATTESTATION_MAX_AGE_DAYS :: "string option"
  de_ATTESTATION_ALLOW_UNVERIFIED_BOOT :: "string option"
  de_ATTESTATION_ALLOW_UNLOCKED :: "string option"
  de_SIGNATURE_REQUIRED :: "string option"
  de_DEVICE_POLICY_GLOBAL_MODE :: "string option"
  de_ENVIRONMENT :: string

record policy_row =
  dp_merchant_id :: int
  dp_min_tier :: string
  dp_min_patch_level :: "string option"
  dp_strict_pairing :: int
  dp_enforcement_mode :: enforcement_mode

record effective_policy =
  ep_min_tier :: device_tier
  ep_min_patch_level :: "string option"
  ep_strict_pairing :: bool

text \<open>An attestation time that \<open>Date.parse\<close> does not read is \<open>Some None\<close>.\<close>

record device_facts =
  df_public_key :: "string option"
  df_attestation_verified_at :: "int option option"
  df_attestation_strong :: int
  df_attestation_verified_boot :: int
  df_device_patch_level :: "string option"

datatype tier_reason = NO_ATTESTATION | ATTESTATION_STALE | VERIFIED_BOOT_REQUIRED | PATCH_LEVEL_BELOW_MIN

definition platform_tier :: "device_env \<Rightarrow> device_tier" where
  "platform_tier env = (if de_STRONGBOX_REQUIRED env = Some ''true'' then Strongbox
     else if de_ATTESTATION_REQUIRED env = Some ''true'' then Attested else Basic)"

definition resolvePolicy :: "device_env \<Rightarrow> policy_row option \<Rightarrow> effective_policy" where
  "resolvePolicy env merchantRow =
     (let platformTier = platform_tier env;
          merchantTier = (case merchantRow of None \<Rightarrow> ''basic'' | Some r \<Rightarrow> dp_min_tier r)
      in \<lparr>ep_min_tier = (case named_tier merchantTier of None \<Rightarrow> platformTier
            | Some t \<Rightarrow> if TIER_RANK t > TIER_RANK platformTier then t else platformTier),
          ep_min_patch_level = Option.bind merchantRow dp_min_patch_level,
          ep_strict_pairing = (case merchantRow of None \<Rightarrow> False | Some r \<Rightarrow> dp_strict_pairing r = 1)\<rparr>)"

text \<open>\<open>parseInt(env.ATTESTATION_MAX_AGE_DAYS || '30', 10) * 86400000\<close>; \<open>None\<close> is \<open>NaN\<close>, and no age exceeds it.\<close>

definition max_attestation_age :: "device_env \<Rightarrow> int option" where
  "max_attestation_age env = map_option (\<lambda>d. d * 86400000) (parseInt_dec (or_else (truthy (de_ATTESTATION_MAX_AGE_DAYS env)) ''30''))"

definition computeDeviceTier ::
  "int \<Rightarrow> device_facts \<Rightarrow> effective_policy \<Rightarrow> int option \<Rightarrow> bool \<Rightarrow> device_tier \<times> tier_reason option" where
  "computeDeviceTier now device policy maxAge allowUnverifiedBoot =
     (if truthy (df_public_key device) = None then (Keyless, None)
      else case df_attestation_verified_at device of
          None \<Rightarrow> (Basic, Some NO_ATTESTATION)
        | Some None \<Rightarrow> (Basic, Some NO_ATTESTATION)
        | Some (Some verifiedAt) \<Rightarrow>
            if (case maxAge of None \<Rightarrow> False | Some m \<Rightarrow> now - verifiedAt > m) then (Basic, Some ATTESTATION_STALE)
            else if \<not> allowUnverifiedBoot \<and> df_attestation_verified_boot device \<noteq> 1 then (Basic, Some VERIFIED_BOOT_REQUIRED)
            else if (case truthy (ep_min_patch_level policy) of None \<Rightarrow> False
                | Some lowest \<Rightarrow> (case truthy (df_device_patch_level device) of None \<Rightarrow> True | Some p \<Rightarrow> p < lowest))
              then (Attested, Some PATCH_LEVEL_BELOW_MIN)
            else if df_attestation_strong device = 1 then (Strongbox, None) else (Attested, None))"

definition resolveEnforcementMode :: "device_env \<Rightarrow> enforcement_mode \<Rightarrow> enforcement_mode" where
  "resolveEnforcementMode env merchantMode = (let g = de_DEVICE_POLICY_GLOBAL_MODE env in
     if g = Some ''off'' then EOff
     else if g = Some ''audit'' \<and> merchantMode = EEnforce then EAudit
     else if g = Some ''enforce'' \<or> g = None then merchantMode
     else EAudit)"

definition shouldBlock :: "enforcement_mode \<Rightarrow> bool \<Rightarrow> bool" where
  "shouldBlock mode compliant = (if mode = EOff \<or> mode = EAudit then False else \<not> compliant)"

section \<open>Tables\<close>

datatype device_status = DActive | DRevoked

record paired_device =
  pd_id :: int
  pd_merchant_id :: int
  pd_store_id :: "int option"
  pd_user_id :: int
  pd_uuid :: string
  pd_device_name :: string
  pd_status :: device_status
  pd_public_key :: "string option"
  pd_key_algorithm :: "string option"
  pd_attestation_verified_at :: "int option option"
  pd_attestation_strong :: int
  pd_attestation_verified_boot :: int
  pd_device_patch_level :: "string option"
  pd_last_heartbeat_at :: "iso option"
  pd_created_at :: iso

record override_row =
  ov_id :: int
  ov_merchant_id :: int
  ov_device_id :: int
  ov_authorized_by :: int
  ov_authorized_at :: iso
  ov_reason :: utf16
  ov_acknowledged_tier :: device_tier
  ov_required_tier :: device_tier
  ov_expires_at :: iso
  ov_revoked_at :: "iso option"
  ov_revoked_by :: "int option"
  ov_revocation_reason :: "utf16 option"

record nonce_row =
  nr_device_id :: int
  nr_nonce :: string
  nr_created_at :: iso

record pairing_token =
  pt_id :: int
  pt_merchant_id :: int
  pt_user_id :: int
  pt_token_hash :: string
  pt_expires_at :: iso
  pt_used_at :: "iso option"

datatype policy_context = CPairing | CSms | CSmsBatch

record daily_stat =
  ds_key :: "int \<times> int \<times> policy_context \<times> device_tier \<times> device_tier \<times> bool"
  ds_evaluation_count :: int

record policy_audit =
  pa_merchant_id :: int
  pa_actor_id :: int
  pa_actor_type :: string
  pa_action :: string
  pa_old :: "override_row option"
  pa_new :: override_row
  pa_created_at :: iso

record device_tables =
  op_paired_devices :: "paired_device list"
  op_merchant_device_policies :: "policy_row list"
  op_device_policy_overrides :: "override_row list"
  op_device_nonces :: "nonce_row list"
  op_device_pairing_tokens :: "pairing_token list"
  op_device_policy_daily_stats :: "daily_stat list"
  op_api_key_owners :: "(int \<times> int option) list"
  op_merchant_user_ids :: "int list"
  op_policy_audit_logs :: "policy_audit list"
  seq_paired_devices :: int
  seq_overrides :: int

text \<open>A KV entry is gone when its \<open>expirationTtl\<close> has passed.\<close>

record mobile =
  mo_world :: world
  mo_env :: device_env
  mo_tables :: device_tables
  mo_kv_attempts :: "(string \<times> (int \<times> int) \<times> int) list"
  mo_kv_challenges :: "(string \<times> (byte list \<times> int) \<times> int) list"
  mo_sms_queue :: "sms_message list"

type_synonym 'a mprog = "(mobile, exn, 'a) prog"

abbreviation mo_now :: "mobile \<Rightarrow> int" where
  "mo_now s \<equiv> w_now (mo_world s)"

definition m_remote :: "(mobile \<Rightarrow> 'a \<times> mobile) \<Rightarrow> 'a mprog" where
  "m_remote op s = (case next_fate (mo_world s) of (f, w) \<Rightarrow>
     (let s1 = s\<lparr>mo_world := w\<rparr> in case f of
        Arrives \<Rightarrow> (Inr (fst (op s1)), snd (op s1))
      | Lost \<Rightarrow> (Inl (Error ''Network connection lost''), s1)
      | ReplyLost \<Rightarrow> (Inl (Error ''Network connection lost''), snd (op s1))))"

definition m_get :: "(device_tables \<Rightarrow> 'a) \<Rightarrow> 'a mprog" where
  "m_get f = m_remote (\<lambda>s. (f (mo_tables s), s))"

definition m_run :: "(device_tables \<Rightarrow> 'a \<times> device_tables) \<Rightarrow> 'a mprog" where
  "m_run f = m_remote (\<lambda>s. (fst (f (mo_tables s)), s\<lparr>mo_tables := snd (f (mo_tables s))\<rparr>))"

definition m_put :: "(device_tables \<Rightarrow> device_tables) \<Rightarrow> unit mprog" where
  "m_put f = m_run (\<lambda>t. ((), f t))"

text \<open>A service of the payment side, run in its own world.\<close>

definition on_world :: "'a svc \<Rightarrow> 'a mprog" where
  "on_world m s = (case m (mo_world s) of (r, w) \<Rightarrow> (r, s\<lparr>mo_world := w\<rparr>))"

section \<open>Overrides\<close>

text \<open>
  \<open>expires_at > datetime('now')\<close> compares the text \<open>YYYY-MM-DDThh:mm:ss.sssZ\<close> with \<open>YYYY-MM-DD hh:mm:ss\<close>.  The first ten
  characters decide when the days differ; on the same day \<open>T\<close> is greater than the blank.  So an
  override counts as unexpired to the end of its last day (in UTC).
\<close>

definition utc_day :: "iso \<Rightarrow> int" where
  "utc_day t = t div 86400000"

definition active_override :: "int \<Rightarrow> override_row \<Rightarrow> bool" where
  "active_override now r \<longleftrightarrow> ov_revoked_at r = None \<and> utc_day now \<le> utc_day (ov_expires_at r)"

definition overrides_of :: "int \<Rightarrow> int \<Rightarrow> int \<Rightarrow> device_tables \<Rightarrow> override_row list" where
  "overrides_of now mid did t =
     filter (\<lambda>r. ov_merchant_id r = mid \<and> ov_device_id r = did \<and> active_override now r) (op_device_policy_overrides t)"

definition first_by :: "('r \<Rightarrow> int) \<Rightarrow> 'r list \<Rightarrow> 'r option" where
  "first_by k rs = (case sort_key k rs of [] \<Rightarrow> None | r # _ \<Rightarrow> Some r)"

definition lookupActiveOverride :: "int \<Rightarrow> int \<Rightarrow> override_row option mprog" where
  "lookupActiveOverride mid did =
     andThen (reading mo_now) (\<lambda>now.
     catching (m_get (\<lambda>t. first_by (\<lambda>r. - ov_expires_at r) (overrides_of now mid did t))) (\<lambda>_. ret None))"

definition getDeviceOverrideRow :: "int \<Rightarrow> int \<Rightarrow> override_row option mprog" where
  "getDeviceOverrideRow mid did =
     m_get (\<lambda>t. first_by (\<lambda>r. - ov_id r) (filter (\<lambda>r. ov_merchant_id r = mid \<and> ov_device_id r = did) (op_device_policy_overrides t)))"

datatype policy_error =
    INVALID_DEVICE_ID | REASON_REQUIRED | INVALID_EXPIRY | DEVICE_NOT_FOUND | OVERRIDE_ALREADY_ACTIVE int | OVERRIDE_QUOTA_EXCEEDED
  | NO_ACTOR_RESOLVED | INSERT_FAILED | OVERRIDE_NOT_FOUND | UPDATE_FAILED

text \<open>A parameter that is no whole number, or no string, is \<open>None\<close>.\<close>

record grant_params =
  gp_merchantId :: int
  gp_deviceId :: "int option"
  gp_authorizedBy :: int
  gp_actorType :: string
  gp_reason :: "utf16 option"
  gp_expiresInDays :: "int option"

definition valid_reason :: "nat \<Rightarrow> utf16 option \<Rightarrow> bool" where
  "valid_reason n reason = (case reason of None \<Rightarrow> False | Some r \<Rightarrow> \<not> (length (units_trim r) < n \<or> length r > 500))"

definition find_device :: "int \<Rightarrow> int \<Rightarrow> device_tables \<Rightarrow> paired_device option" where
  "find_device did mid t = List.find (\<lambda>d. pd_id d = did \<and> pd_merchant_id d = mid) (op_paired_devices t)"

definition find_policy :: "int \<Rightarrow> device_tables \<Rightarrow> policy_row option" where
  "find_policy mid t = List.find (\<lambda>p. dp_merchant_id p = mid) (op_merchant_device_policies t)"

definition facts_of :: "paired_device \<Rightarrow> device_facts" where
  "facts_of d = \<lparr>df_public_key = pd_public_key d, df_attestation_verified_at = pd_attestation_verified_at d,
     df_attestation_strong = pd_attestation_strong d, df_attestation_verified_boot = pd_attestation_verified_boot d,
     df_device_patch_level = pd_device_patch_level d\<rparr>"

text \<open>The user behind an API key.\<close>

definition resolve_actor :: "int \<Rightarrow> int mprog" where
  "resolve_actor k = (if k > 0
     then andThen (m_get (\<lambda>t. map_of (op_api_key_owners t) k)) (\<lambda>keyUser.
       ret (case keyUser of Some (Some u) \<Rightarrow> if u > 0 then u else k | _ \<Rightarrow> k))
     else ret k)"

definition known_user :: "int \<Rightarrow> bool mprog" where
  "known_user u = (if u > 0 then m_get (\<lambda>t. u \<in> set (op_merchant_user_ids t)) else ret False)"

definition insert_override :: "override_row \<Rightarrow> device_tables \<Rightarrow> int \<times> device_tables" where
  "insert_override r t = (seq_overrides t, t\<lparr>op_device_policy_overrides := op_device_policy_overrides t @ [r\<lparr>ov_id := seq_overrides t\<rparr>],
     seq_overrides := seq_overrides t + 1\<rparr>)"

definition log_policy :: "policy_audit \<Rightarrow> device_tables \<Rightarrow> device_tables" where
  "log_policy a t = t\<lparr>op_policy_audit_logs := op_policy_audit_logs t @ [a]\<rparr>"

definition find_override :: "int \<Rightarrow> device_tables \<Rightarrow> override_row option" where
  "find_override i t = List.find (\<lambda>r. ov_id r = i) (op_device_policy_overrides t)"

text \<open>The insertion and what follows it, for an actor and the tiers already computed.\<close>

definition record_override :: "grant_params \<Rightarrow> int \<Rightarrow> int \<Rightarrow> int \<Rightarrow> device_tier \<Rightarrow> device_tier \<Rightarrow> (policy_error + override_row) mprog" where
  "record_override p did now actor acknowledged required =
     andThen (m_run (insert_override \<lparr>ov_id = 0, ov_merchant_id = gp_merchantId p, ov_device_id = did, ov_authorized_by = actor,
         ov_authorized_at = now, ov_reason = units_trim (or_else (gp_reason p) []), ov_acknowledged_tier = acknowledged,
         ov_required_tier = required, ov_expires_at = now + or_else (gp_expiresInDays p) 0 * 86400000, ov_revoked_at = None,
         ov_revoked_by = None, ov_revocation_reason = None\<rparr>)) (\<lambda>newId.
     andThen (m_get (find_override newId)) (\<lambda>createdRow. case createdRow of
         None \<Rightarrow> ret (Inl INSERT_FAILED)
       | Some r \<Rightarrow>
           andThen (m_get (\<lambda>t. length (filter (\<lambda>o'. ov_merchant_id o' = gp_merchantId p \<and> utc_day (ov_authorized_at o') = utc_day now)
             (op_device_policy_overrides t)))) (\<lambda>todayGrants.
           andThen (m_put (log_policy \<lparr>pa_merchant_id = gp_merchantId p, pa_actor_id = actor, pa_actor_type = gp_actorType p,
             pa_action = ''device_policy_override.granted'', pa_old = None, pa_new = r, pa_created_at = now\<rparr>)) (\<lambda>_.
           ret (Inr r)))))"

definition active_of :: "int \<Rightarrow> int \<Rightarrow> device_tables \<Rightarrow> override_row list" where
  "active_of now mid t = filter (\<lambda>r. ov_merchant_id r = mid \<and> active_override now r) (op_device_policy_overrides t)"

definition allow_unverified_boot :: "device_env \<Rightarrow> bool" where
  "allow_unverified_boot env \<longleftrightarrow> de_ATTESTATION_ALLOW_UNVERIFIED_BOOT env = Some ''true''"

definition grant_checked :: "device_env \<Rightarrow> grant_params \<Rightarrow> int \<Rightarrow> int \<Rightarrow> (policy_error + override_row) mprog" where
  "grant_checked env p did now =
     andThen (m_get (find_device did (gp_merchantId p))) (\<lambda>device. case device of
         None \<Rightarrow> ret (Inl DEVICE_NOT_FOUND)
       | Some d \<Rightarrow>
     if pd_status d \<noteq> DActive then ret (Inl DEVICE_NOT_FOUND) else
     andThen (m_get (\<lambda>t. first_by (\<lambda>r. - ov_id r) (overrides_of now (gp_merchantId p) did t))) (\<lambda>existingActive. case existingActive of
         Some r \<Rightarrow> ret (Inl (OVERRIDE_ALREADY_ACTIVE (ov_id r)))
       | None \<Rightarrow>
     andThen (m_get (\<lambda>t. length (active_of now (gp_merchantId p) t))) (\<lambda>activeCount.
     if activeCount \<ge> 20 then ret (Inl OVERRIDE_QUOTA_EXCEEDED) else
     andThen (m_get (find_policy (gp_merchantId p))) (\<lambda>merchantPolicyRow.
       let policy = resolvePolicy env merchantPolicyRow;
           acknowledged = fst (computeDeviceTier now (facts_of d) policy (max_attestation_age env) (allow_unverified_boot env))
       in andThen (resolve_actor (gp_authorizedBy p)) (\<lambda>actor.
          andThen (known_user actor) (\<lambda>userRow.
          if \<not> userRow then ret (Inl NO_ACTOR_RESOLVED)
          else record_override p did now actor acknowledged (ep_min_tier policy)))))))"

definition grantDeviceOverride :: "grant_params \<Rightarrow> (policy_error + override_row) mprog" where
  "grantDeviceOverride p =
     andThen (reading (\<lambda>s. (mo_env s, mo_now s))) (\<lambda>(env, now).
     case gp_deviceId p of
       None \<Rightarrow> ret (Inl INVALID_DEVICE_ID)
     | Some did \<Rightarrow>
         if did \<le> 0 then ret (Inl INVALID_DEVICE_ID)
         else if \<not> valid_reason 10 (gp_reason p) then ret (Inl REASON_REQUIRED)
         else if gp_expiresInDays p \<notin> {Some 30, Some 60, Some 90} then ret (Inl INVALID_EXPIRY)
         else grant_checked env p did now)"

record revoke_params =
  rp_merchantId :: int
  rp_deviceId :: "int option"
  rp_revokedBy :: int
  rp_actorType :: string
  rp_reason :: "utf16 option"

definition mark_revoked :: "int \<Rightarrow> int \<Rightarrow> int \<Rightarrow> utf16 \<Rightarrow> int \<Rightarrow> device_tables \<Rightarrow> device_tables" where
  "mark_revoked i mid actor reason now t = t\<lparr>op_device_policy_overrides :=
     update_where (\<lambda>r. ov_id r = i \<and> ov_merchant_id r = mid)
       (\<lambda>r. r\<lparr>ov_revoked_at := Some now, ov_revoked_by := Some actor, ov_revocation_reason := Some reason\<rparr>) (op_device_policy_overrides t)\<rparr>"

definition revokeDeviceOverride :: "revoke_params \<Rightarrow> (policy_error + override_row) mprog" where
  "revokeDeviceOverride p =
     andThen (reading mo_now) (\<lambda>now.
     case rp_deviceId p of
       None \<Rightarrow> ret (Inl INVALID_DEVICE_ID)
     | Some did \<Rightarrow>
     if did \<le> 0 then ret (Inl INVALID_DEVICE_ID) else
     andThen (m_get (\<lambda>t. first_by (\<lambda>r. - ov_id r) (overrides_of now (rp_merchantId p) did t))) (\<lambda>activeOverride. case activeOverride of
         None \<Rightarrow> ret (Inl OVERRIDE_NOT_FOUND)
       | Some r \<Rightarrow>
     if \<not> valid_reason 5 (rp_reason p) then ret (Inl REASON_REQUIRED) else
     andThen (resolve_actor (rp_revokedBy p)) (\<lambda>actor.
     andThen (known_user actor) (\<lambda>userRow.
     if \<not> userRow then ret (Inl NO_ACTOR_RESOLVED) else
     andThen (m_put (mark_revoked (ov_id r) (rp_merchantId p) actor (units_trim (or_else (rp_reason p) [])) now)) (\<lambda>_.
     andThen (m_get (find_override (ov_id r))) (\<lambda>updatedRow. case updatedRow of
         None \<Rightarrow> ret (Inl UPDATE_FAILED)
       | Some u \<Rightarrow>
           andThen (m_put (log_policy \<lparr>pa_merchant_id = rp_merchantId p, pa_actor_id = actor, pa_actor_type = rp_actorType p,
             pa_action = ''device_policy_override.revoked'', pa_old = Some r, pa_new = u, pa_created_at = now\<rparr>)) (\<lambda>_.
           ret (Inr u))))))))"

section \<open>Rules for calls\<close>

text \<open>The same device state, whatever calls have been lost on the way.\<close>

definition same_device :: "mobile \<Rightarrow> mobile \<Rightarrow> bool" where
  "same_device s0 s \<longleftrightarrow> mo_tables s = mo_tables s0 \<and> mo_now s = mo_now s0 \<and> mo_env s = mo_env s0 \<and>
     mo_kv_attempts s = mo_kv_attempts s0 \<and> mo_kv_challenges s = mo_kv_challenges s0 \<and> mo_sms_queue s = mo_sms_queue s0"

definition m_pred :: "(mobile \<Rightarrow> bool) \<Rightarrow> bool" where
  "m_pred P \<longleftrightarrow> (\<forall>s s'. same_device s s' \<longrightarrow> P s \<longrightarrow> P s')"

named_theorems device_rules \<open>calls that keep a predicate of the device state\<close>

lemma m_predD: "m_pred P \<Longrightarrow> same_device s s' \<Longrightarrow> P s \<Longrightarrow> P s'"
  by (simp add: m_pred_def)

lemma same_device_refl [simp]: "same_device s s"
  by (simp add: same_device_def)

lemma same_device_pred [simp]: "m_pred (same_device s0)"
  by (simp add: m_pred_def same_device_def)

lemma same_fate: "next_fate (mo_world s) = (f, w) \<Longrightarrow> same_device s (s\<lparr>mo_world := w\<rparr>)"
  by (auto simp: same_device_def dest: next_fate_frame)

lemma triple_m_remote:
  assumes "m_pred P" and "\<And>s. P s \<Longrightarrow> Q (fst (op s)) (snd (op s))" and "\<And>e s. P s \<Longrightarrow> E e s" and "\<And>e s. P s \<Longrightarrow> E e (snd (op s))"
  shows "triple P (m_remote op) Q E"
proof (rule tripleI)
  fix s assume P: "P s"
  obtain f w where nf: "next_fate (mo_world s) = (f, w)" by (cases "next_fate (mo_world s)")
  from m_predD [OF assms(1) same_fate [OF nf] P] have "P (s\<lparr>mo_world := w\<rparr>)" .
  then show "case m_remote op s of (Inl e, s') \<Rightarrow> E e s' | (Inr a, s') \<Rightarrow> Q a s'"
    using assms(2-4) by (cases f) (auto simp: m_remote_def nf Let_def)
qed

lemma preserves_m_get [device_rules]: "m_pred I \<Longrightarrow> preserves I (m_get f)"
  unfolding m_get_def by (rule triple_m_remote) auto

lemma preserves_m_put [device_rules]:
  "m_pred I \<Longrightarrow> (\<And>s. I s \<Longrightarrow> I (s\<lparr>mo_tables := f (mo_tables s)\<rparr>)) \<Longrightarrow> preserves I (m_put f)"
  unfolding m_put_def m_run_def by (rule triple_m_remote) auto

lemma preserves_pure [device_rules]: "preserves I (ret a)" "preserves I (throw e)" "preserves I (reading g)"
  by (auto intro: triple_rules)

lemmas device_steps = preserves_andThen preserves_if preserves_option preserves_catching device_rules

text \<open>A reading call from a known state returns what that state holds.\<close>

lemma get_same: "triple (same_device s0) (m_get f) (\<lambda>r s. same_device s0 s \<and> r = f (mo_tables s0)) (\<lambda>_. same_device s0)"
  unfolding m_get_def by (rule triple_m_remote) (auto simp: same_device_def)

text \<open>So a program that starts with a reading call may go on from the value the state holds.\<close>

lemma read_then:
  assumes "m_pred I" and "I s0" and "triple (same_device s0) (k (f (mo_tables s0))) (\<lambda>_. I) (\<lambda>_. I)"
  shows "triple (same_device s0) (andThen (m_get f) k) (\<lambda>_. I) (\<lambda>_. I)"
proof -
  have "triple (same_device s0) (m_get f) (\<lambda>r s. same_device s0 s \<and> r = f (mo_tables s0)) (\<lambda>_. I)"
    by (rule triple_weaken [OF get_same]) (use m_predD [OF assms(1) _ assms(2)] in auto)
  then show ?thesis by (rule triple_andThen) (use assms(3) in \<open>auto simp: triple_def\<close>)
qed

lemma same_then:
  assumes "m_pred I" and "I s0" and "preserves (same_device s0) m" and "\<And>a. triple (same_device s0) (k a) (\<lambda>_. I) (\<lambda>_. I)"
  shows "triple (same_device s0) (andThen m k) (\<lambda>_. I) (\<lambda>_. I)"
  by (rule triple_andThen [OF triple_weaken [OF assms(3)] assms(4)]) (use m_predD [OF assms(1) _ assms(2)] in auto)

lemma same_done: "m_pred I \<Longrightarrow> I s0 \<Longrightarrow> triple (same_device s0) (ret a) (\<lambda>_. I) (\<lambda>_. I)"
  by (rule triple_ret) (auto dest: m_predD)

section \<open>Overrides stay within their bounds\<close>

definition override_ok :: "mobile \<Rightarrow> bool" where
  "override_ok s \<longleftrightarrow> (\<forall>m. length (active_of (mo_now s) m (mo_tables s)) \<le> 20 \<and>
     (\<forall>d. length (overrides_of (mo_now s) m d (mo_tables s)) \<le> 1))"

lemma override_ok_pred [simp]: "m_pred override_ok"
  by (simp add: m_pred_def same_device_def override_ok_def)

lemma insert_override_active:
  "active_of now m (snd (insert_override r t)) = active_of now m t @ (if ov_merchant_id r = m \<and> active_override now r then [r\<lparr>ov_id := seq_overrides t\<rparr>] else [])"
  "overrides_of now m d (snd (insert_override r t)) =
     overrides_of now m d t @ (if ov_merchant_id r = m \<and> ov_device_id r = d \<and> active_override now r then [r\<lparr>ov_id := seq_overrides t\<rparr>] else [])"
  by (simp_all add: active_of_def overrides_of_def insert_override_def active_override_def)

lemma override_ok_tables:
  assumes "override_ok s" and "op_device_policy_overrides t = op_device_policy_overrides (mo_tables s)"
  shows "override_ok (s\<lparr>mo_tables := t\<rparr>)"
  using assms by (simp add: override_ok_def active_of_def overrides_of_def)

lemma length_filter_mono: "(\<And>x. P x \<Longrightarrow> Q x) \<Longrightarrow> length (filter P xs) \<le> length (filter Q xs)"
  by (induction xs) auto

lemma length_filter_update:
  "(\<And>r. P (f r) \<Longrightarrow> P r) \<Longrightarrow> length (filter P (update_where q f rs)) \<le> length (filter P rs)"
  by (induction rs) auto

lemma mark_revoked_ok:
  assumes "override_ok s"
  shows "override_ok (s\<lparr>mo_tables := mark_revoked i mid actor reason now (mo_tables s)\<rparr>)"
proof -
  let ?f = "\<lambda>r. r\<lparr>ov_revoked_at := Some now, ov_revoked_by := Some actor, ov_revocation_reason := Some reason\<rparr>"
  have a: "length (active_of n m (mark_revoked i mid actor reason now t)) \<le> length (active_of n m t)"
    and b: "length (overrides_of n m d (mark_revoked i mid actor reason now t)) \<le> length (overrides_of n m d t)" for n m d t
    unfolding active_of_def overrides_of_def mark_revoked_def
    by (auto intro!: length_filter_update simp: active_override_def)
  show ?thesis unfolding override_ok_def
    using assms le_trans [OF a] le_trans [OF b] by (simp add: override_ok_def)
qed

lemma log_policy_ok: "override_ok s \<Longrightarrow> override_ok (s\<lparr>mo_tables := log_policy a (mo_tables s)\<rparr>)"
  by (rule override_ok_tables) (simp_all add: log_policy_def)

lemma record_override_ok:
  assumes "override_ok s0" and "length (active_of (mo_now s0) (gp_merchantId p) (mo_tables s0)) < 20"
    and "overrides_of (mo_now s0) (gp_merchantId p) did (mo_tables s0) = []"
  shows "triple (same_device s0) (record_override p did now actor a r) (\<lambda>_. override_ok) (\<lambda>_. override_ok)"
proof -
  have room: "override_ok (s\<lparr>mo_tables := snd (insert_override row (mo_tables s))\<rparr>)"
    if "same_device s0 s" "ov_merchant_id row = gp_merchantId p" "ov_device_id row = did" for s row
  proof -
    have "length (active_of (mo_now s0) m (snd (insert_override row (mo_tables s0)))) \<le> 20" for m
      using assms(1,2) that(2) by (auto simp: insert_override_active override_ok_def)
    moreover have "length (overrides_of (mo_now s0) m d (snd (insert_override row (mo_tables s0)))) \<le> 1" for m d
      using assms(1,3) that(2,3) by (auto simp: insert_override_active override_ok_def)
    ultimately show ?thesis using that(1) by (simp add: override_ok_def same_device_def)
  qed
  have ins: "triple (same_device s0) (m_run (insert_override row)) (\<lambda>_. override_ok) (\<lambda>_. override_ok)"
    if "ov_merchant_id row = gp_merchantId p" "ov_device_id row = did" for row
    unfolding m_run_def by (rule triple_m_remote) (auto simp: room that intro: m_predD [OF override_ok_pred _ assms(1)])
  show ?thesis unfolding record_override_def
    by (rule triple_andThen [OF ins]) (auto intro!: device_steps log_policy_ok)
qed

lemma resolve_actor_same: "preserves (same_device s0) (resolve_actor k)"
  unfolding resolve_actor_def by (intro device_steps same_device_pred)

lemma known_user_same: "preserves (same_device s0) (known_user u)"
  unfolding known_user_def by (intro device_steps same_device_pred)

lemma first_by_None: "first_by k rs = None \<longleftrightarrow> rs = []"
  by (auto simp: first_by_def split: list.split) (metis length_0_conv length_sort)

lemma grant_checked_ok:
  assumes "override_ok s0" and "now = mo_now s0"
  shows "triple (same_device s0) (grant_checked env p did now) (\<lambda>_. override_ok) (\<lambda>_. override_ok)"
proof -
  note fin = same_done [OF override_ok_pred assms(1)]
  show ?thesis unfolding grant_checked_def
    by (auto intro!: read_then [OF override_ok_pred assms(1)] fin same_then [OF override_ok_pred assms(1) resolve_actor_same]
          same_then [OF override_ok_pred assms(1) known_user_same] record_override_ok assms(1)
        split: option.split simp: Let_def first_by_None assms(2) not_le)
qed

lemma grant_ok:
  assumes "override_ok s"
  shows "override_ok (snd (grantDeviceOverride p s))"
proof -
  let ?k = "\<lambda>(env, now). case gp_deviceId p of None \<Rightarrow> ret (Inl INVALID_DEVICE_ID) | Some did \<Rightarrow>
      if did \<le> 0 then ret (Inl INVALID_DEVICE_ID) else if \<not> valid_reason 10 (gp_reason p) then ret (Inl REASON_REQUIRED)
      else if gp_expiresInDays p \<notin> {Some 30, Some 60, Some 90} then ret (Inl INVALID_EXPIRY) else grant_checked env p did now"
  have "triple (same_device s) (?k (mo_env s, mo_now s)) (\<lambda>_. override_ok) (\<lambda>_. override_ok)"
    by (auto intro!: same_done [OF override_ok_pred assms] grant_checked_ok [OF assms refl] split: option.split)
  from triple_snd [OF this same_device_refl] show ?thesis
    by (simp add: grantDeviceOverride_def andThen_def reading_def)
qed

lemma resolve_actor_ok: "preserves override_ok (resolve_actor k)" "preserves override_ok (known_user u)"
  unfolding resolve_actor_def known_user_def by (intro device_steps override_ok_pred)+

lemma revoke_ok: "preserves override_ok (revokeDeviceOverride p)"
  unfolding revokeDeviceOverride_def
  by (intro device_steps override_ok_pred resolve_actor_ok mark_revoked_ok log_policy_ok)

datatype override_request = Grant grant_params | Revoke revoke_params

text \<open>Requests one after the other, each some milliseconds after the one before.\<close>

definition tick :: "nat \<Rightarrow> mobile \<Rightarrow> mobile" where
  "tick dt s = s\<lparr>mo_world := (mo_world s)\<lparr>w_now := mo_now s + int dt\<rparr>\<rparr>"

fun serve_overrides :: "(nat \<times> override_request) list \<Rightarrow> mobile \<Rightarrow> mobile" where
  "serve_overrides [] s = s"
| "serve_overrides ((dt, Grant p) # rs) s = serve_overrides rs (snd (grantDeviceOverride p (tick dt s)))"
| "serve_overrides ((dt, Revoke p) # rs) s = serve_overrides rs (snd (revokeDeviceOverride p (tick dt s)))"

lemma active_later: "n \<le> n' \<Longrightarrow> active_override n' r \<Longrightarrow> active_override n r"
  using zdiv_mono1 [of n n' 86400000] by (auto simp: active_override_def utc_day_def)

lemma tick_ok:
  assumes "override_ok s"
  shows "override_ok (tick dt s)"
proof -
  have a: "length (active_of (mo_now s + int dt) m t) \<le> length (active_of (mo_now s) m t)"
    and b: "length (overrides_of (mo_now s + int dt) m d t) \<le> length (overrides_of (mo_now s) m d t)" for m d t
    unfolding active_of_def overrides_of_def by (auto intro!: length_filter_mono elim: active_later [rotated])
  show ?thesis unfolding override_ok_def tick_def
    using assms le_trans [OF a] le_trans [OF b] by (simp add: override_ok_def)
qed

lemma serve_ok: "override_ok s \<Longrightarrow> override_ok (serve_overrides rs s)"
  by (induction rs s rule: serve_overrides.induct) (auto intro!: grant_ok tick_ok preservesD [OF revoke_ok])


section \<open>Tiers\<close>

text \<open>The stricter of the two tiers is required.\<close>

lemma strictest_tier_wins:
  "TIER_RANK (ep_min_tier (resolvePolicy env row)) =
     max (TIER_RANK (platform_tier env)) (case Option.bind row (named_tier \<circ> dp_min_tier) of None \<Rightarrow> 0 | Some t \<Rightarrow> TIER_RANK t)"
  by (cases row) (auto simp: resolvePolicy_def Let_def named_tier_def platform_tier_def split: option.split)

text \<open>The two upper tiers need a key and an attestation that is recent and, unless waived, of a verified boot.\<close>

lemma attested_tier:
  assumes "TIER_RANK Attested \<le> TIER_RANK (fst (computeDeviceTier now d policy maxAge allow))"
  shows "truthy (df_public_key d) \<noteq> None \<and> (\<exists>v. df_attestation_verified_at d = Some (Some v) \<and> (\<forall>m. maxAge = Some m \<longrightarrow> now - v \<le> m)) \<and>
    (allow \<or> df_attestation_verified_boot d = 1)"
  using assms unfolding computeDeviceTier_def by (auto split: if_splits option.splits)

lemma strongbox_tier:
  assumes "fst (computeDeviceTier now d policy maxAge allow) = Strongbox"
  shows "df_attestation_strong d = 1 \<and> (\<forall>lowest. truthy (ep_min_patch_level policy) = Some lowest \<longrightarrow>
    (\<exists>p. truthy (df_device_patch_level d) = Some p \<and> \<not> p < lowest))"
  using assms unfolding computeDeviceTier_def by (auto split: if_splits option.splits)

text \<open>A maximal age that is no number switches the check off, and a merchant that is off is audited under a global audit.\<close>

lemma unreadable_age_never_stale:
  "max_attestation_age (env\<lparr>de_ATTESTATION_MAX_AGE_DAYS := Some ''soon''\<rparr>) = None"
  by (simp add: max_attestation_age_def truthy_def or_else_def parseInt_dec_def is_space_def parse_digits_def is_digit_def)

lemma global_audit_raises_off: "de_DEVICE_POLICY_GLOBAL_MODE env = Some ''audit'' \<Longrightarrow> resolveEnforcementMode env EOff = EAudit"
  by (simp add: resolveEnforcementMode_def)

lemma override_outlives_its_time: "ov_revoked_at r = None \<Longrightarrow> ov_expires_at r = 0 \<Longrightarrow> active_override 86399999 r"
  by (simp add: active_override_def utc_day_def)


section \<open>A run\<close>

definition demo_device :: paired_device where
  "demo_device = \<lparr>pd_id = 7, pd_merchant_id = 1, pd_store_id = Some 1, pd_user_id = 3, pd_uuid = ''u'', pd_device_name = ''Phone'', pd_status = DActive,
     pd_public_key = Some ''k'', pd_key_algorithm = Some ''ES256'', pd_attestation_verified_at = None, pd_attestation_strong = 0,
     pd_attestation_verified_boot = 0, pd_device_patch_level = None, pd_last_heartbeat_at = None, pd_created_at = 0\<rparr>"

definition demo_tables :: device_tables where
  "demo_tables = \<lparr>op_paired_devices = [demo_device],
     op_merchant_device_policies = [\<lparr>dp_merchant_id = 1, dp_min_tier = ''attested'', dp_min_patch_level = None, dp_strict_pairing = 0, dp_enforcement_mode = EEnforce\<rparr>],
     op_device_policy_overrides = [], op_device_nonces = [], op_device_pairing_tokens = [], op_device_policy_daily_stats = [],
     op_api_key_owners = [(9, Some 3)], op_merchant_user_ids = [3], op_policy_audit_logs = [], seq_paired_devices = 8, seq_overrides = 1\<rparr>"

definition demo_device_env :: device_env where
  "demo_device_env = \<lparr>de_STRONGBOX_REQUIRED = None, de_ATTESTATION_REQUIRED = None, de_ATTESTATION_MAX_AGE_DAYS = None,
     de_ATTESTATION_ALLOW_UNVERIFIED_BOOT = None, de_ATTESTATION_ALLOW_UNLOCKED = None, de_SIGNATURE_REQUIRED = Some ''true'',
     de_DEVICE_POLICY_GLOBAL_MODE = None, de_ENVIRONMENT = ''production''\<rparr>"

definition demo_mobile :: mobile where
  "demo_mobile = \<lparr>mo_world = demo_world, mo_env = demo_device_env, mo_tables = demo_tables, mo_kv_attempts = [], mo_kv_challenges = [], mo_sms_queue = []\<rparr>"

definition demo_grant :: override_request where
  "demo_grant = Grant \<lparr>gp_merchantId = 1, gp_deviceId = Some 7, gp_authorizedBy = 9, gp_actorType = ''api_key'',
     gp_reason = Some (units ''till phone''), gp_expiresInDays = Some 30\<rparr>"

lemmas m_remote_run = m_remote_def [unfolded Let_def]
lemmas m_get_run [code] = m_get_def [THEN fun_cong, unfolded m_remote_def Let_def]
lemmas m_run_run [code] = m_run_def [THEN fun_cong, unfolded m_remote_def Let_def]
lemmas m_put_run [code] = m_put_def [THEN fun_cong]
lemmas resolve_actor_run [code] = resolve_actor_def [THEN fun_cong, unfolded prog_run]
lemmas known_user_run [code] = known_user_def [THEN fun_cong, unfolded prog_run]
lemmas record_override_run [code] = record_override_def [THEN fun_cong, unfolded prog_run]
lemmas grant_checked_run [code] = grant_checked_def [THEN fun_cong, unfolded prog_run]
lemmas grantDeviceOverride_run [code] = grantDeviceOverride_def [THEN fun_cong, unfolded prog_run]

lemma demo_grants_run: "map ov_device_id (op_device_policy_overrides (mo_tables (serve_overrides [(0, demo_grant), (5, demo_grant)] demo_mobile))) = [7]"
  by code_simp


end
