(* ===== verification/Mobile.thy ===== *)
theory Mobile
  imports DevicePolicy
begin

text \<open>
  The routes of \<open>controllers/mobile.ts\<close> that act for a paired device: forwarding of payment messages, one or in
  a batch, key rotation, revocation and heartbeat.  The status gate, the tier gate, the velocity
  limit, the nonces and the signatures stand between a device and the queue that
  \<open>sms-consumer.ts\<close> drains.  Web Crypto, \<open>atob\<close>, date parsing and Unicode normalisation are arguments.
\<close>

record mobile_platform =
  mp_nfc :: "utf16 \<Rightarrow> utf16"
  mp_date :: "utf16 \<Rightarrow> int option"
  mp_base64 :: "string \<Rightarrow> byte list option"
  mp_verify :: "string \<Rightarrow> byte list \<Rightarrow> utf16 \<Rightarrow> bool"

datatype mobile_error =
    VALIDATION_ERROR | UNTRUSTED_CARRIER_SHORTCODE | DEVICE_REVOKED | DEVICE_MUST_REPAIR | DEVICE_TIER_INSUFFICIENT | SMS_VELOCITY_EXCEEDED
  | MISSING_SIGNATURE | TIMESTAMP_OUT_OF_BOUNDS | NONCE_REPLAYED | INVALID_DEVICE_SIGNATURE | NOT_FOUND

type_synonym 'a answer = "(mobile_error + 'a) mprog"

abbreviation reject :: "mobile_error \<Rightarrow> 'a answer" where
  "reject e \<equiv> ret (Inl e)"

abbreviation respond :: "'a \<Rightarrow> 'a answer" where
  "respond a \<equiv> ret (Inr a)"

text \<open>A statement that may violate a constraint.\<close>

definition m_exec :: "(device_tables \<Rightarrow> exn + 'a \<times> device_tables) \<Rightarrow> 'a mprog" where
  "m_exec f = andThen (m_run (\<lambda>t. case f t of Inl e \<Rightarrow> (Inl e, t) | Inr (a, t') \<Rightarrow> (Inr a, t')))
     (\<lambda>r. case r of Inl e \<Rightarrow> throw e | Inr a \<Rightarrow> ret a)"

section \<open>Signatures, nonces and the queue\<close>

definition verifyDeviceSignature :: "mobile_platform \<Rightarrow> string \<Rightarrow> string \<Rightarrow> utf16 \<Rightarrow> string \<Rightarrow> bool" where
  "verifyDeviceSignature P publicKey signature payload algorithm =
     (if algorithm \<noteq> ''ES256'' then False
      else case mp_base64 P (filter (\<lambda>c. \<not> white (of_char c)) signature) of
          None \<Rightarrow> False
        | Some sigBytes \<Rightarrow> (case derToP1363 sigBytes 32 of Inl _ \<Rightarrow> False | Inr p1363Sig \<Rightarrow> mp_verify P publicKey p1363Sig payload))"

fun truthy_field :: "field option \<Rightarrow> field option" where
  "truthy_field (Some (FText s)) = (if s = [] then None else Some (FText s))"
| "truthy_field (Some (FNumber n)) = (if n = 0 then None else Some (FNumber n))"
| "truthy_field None = None"

fun read_timestamp :: "mobile_platform \<Rightarrow> field \<Rightarrow> int option" where
  "read_timestamp P (FNumber n) = Some n"
| "read_timestamp P (FText s) = mp_date P s"

definition timestamp_out_of_bounds :: "mobile_platform \<Rightarrow> int \<Rightarrow> field \<Rightarrow> bool" where
  "timestamp_out_of_bounds P now f = (case read_timestamp P f of None \<Rightarrow> True | Some ts \<Rightarrow> \<bar>now - ts\<bar> > 300000)"

definition nonce_exists :: "int \<Rightarrow> string \<Rightarrow> device_tables \<Rightarrow> bool" where
  "nonce_exists did n t = list_ex (\<lambda>r. nr_device_id r = did \<and> nr_nonce r = n) (op_device_nonces t)"

definition sql_second :: "int \<Rightarrow> int" where
  "sql_second now = now div 1000 * 1000"

definition insert_nonce :: "int \<Rightarrow> string \<Rightarrow> int \<Rightarrow> device_tables \<Rightarrow> exn + unit \<times> device_tables" where
  "insert_nonce did n now t =
     (if nonce_exists did n t then Inl unique_violation
      else Inr ((), t\<lparr>op_device_nonces := op_device_nonces t @ [\<lparr>nr_device_id = did, nr_nonce = n, nr_created_at = sql_second now\<rparr>]\<rparr>))"

definition recent_nonces :: "int \<Rightarrow> int \<Rightarrow> device_tables \<Rightarrow> nat" where
  "recent_nonces did now t =
     length (filter (\<lambda>r. nr_device_id r = did \<and> nr_created_at r > sql_second now - 60000) (op_device_nonces t))"

definition sms_send :: "sms_message \<Rightarrow> unit mprog" where
  "sms_send m = m_remote (\<lambda>s. ((), s\<lparr>mo_sms_queue := mo_sms_queue s @ [m]\<rparr>))"

text \<open>\<open>Promise.all\<close> starts every send before it waits; it rejects when one has failed.\<close>

fun send_all :: "sms_message list \<Rightarrow> unit mprog" where
  "send_all [] = ret ()"
| "send_all (m # ms) =
     andThen (catching (andThen (sms_send m) (\<lambda>_. ret None)) (\<lambda>e. ret (Some e))) (\<lambda>r.
     andThen (send_all ms) (\<lambda>_. case r of None \<Rightarrow> ret () | Some e \<Rightarrow> throw e))"

section \<open>The gates\<close>

text \<open>The gate of every authenticated route.\<close>

definition status_gate :: "int \<Rightarrow> int \<Rightarrow> 'a answer \<Rightarrow> 'a answer" where
  "status_gate mid did next =
     (if did \<noteq> 0 \<and> mid \<noteq> 0
      then andThen (m_get (find_device did mid)) (\<lambda>device.
        if map_option pd_status device = Some DRevoked then reject DEVICE_REVOKED else next)
      else next)"

definition count_evaluation :: "int \<times> int \<times> policy_context \<times> device_tier \<times> device_tier \<times> bool \<Rightarrow> int \<Rightarrow> device_tables \<Rightarrow> device_tables" where
  "count_evaluation k n t = t\<lparr>op_device_policy_daily_stats :=
     (if k \<in> ds_key ` set (op_device_policy_daily_stats t)
      then update_where (\<lambda>r. ds_key r = k) (\<lambda>r. r\<lparr>ds_evaluation_count := ds_evaluation_count r + n\<rparr>) (op_device_policy_daily_stats t)
      else op_device_policy_daily_stats t @ [\<lparr>ds_key = k, ds_evaluation_count = n\<rparr>])\<rparr>"

definition recordPolicyEvaluation :: "int \<Rightarrow> policy_context \<Rightarrow> enforcement_mode \<Rightarrow> device_tier \<Rightarrow> device_tier \<Rightarrow> bool \<Rightarrow> int \<Rightarrow> unit mprog" where
  "recordPolicyEvaluation mid ctx mode required achieved compliant n =
     (if mode = EOff then ret ()
      else andThen (reading mo_now) (\<lambda>now.
        catching (m_put (count_evaluation (mid, utc_day now, ctx, required, achieved, compliant) n)) (\<lambda>_. ret ())))"

definition no_device :: device_facts where
  "no_device = \<lparr>df_public_key = None, df_attestation_verified_at = None, df_attestation_strong = 0, df_attestation_verified_boot = 0,
     df_device_patch_level = None\<rparr>"

definition device_facts_of :: "paired_device option \<Rightarrow> device_facts" where
  "device_facts_of device = (case device of None \<Rightarrow> no_device | Some d \<Rightarrow> facts_of d)"

definition device_with_policy :: "int \<Rightarrow> int \<Rightarrow> device_tables \<Rightarrow> paired_device option \<times> policy_row option" where
  "device_with_policy did mid t = (case find_device did mid t of None \<Rightarrow> (None, None) | Some d \<Rightarrow> (Some d, find_policy mid t))"

text \<open>The tier a device has, the tier its merchant requires, and the mode.\<close>

definition device_standing :: "device_env \<Rightarrow> int \<Rightarrow> paired_device option \<Rightarrow> policy_row option \<Rightarrow> device_tier \<times> device_tier \<times> enforcement_mode" where
  "device_standing env now device row =
     (let policy = resolvePolicy env row
      in (fst (computeDeviceTier now (device_facts_of device) policy (max_attestation_age env) (allow_unverified_boot env)),
          ep_min_tier policy, resolveEnforcementMode env (case row of None \<Rightarrow> EAudit | Some r \<Rightarrow> dp_enforcement_mode r)))"

definition signature_required :: "device_env \<Rightarrow> bool" where
  "signature_required env \<longleftrightarrow> de_SIGNATURE_REQUIRED env = Some ''true''"

definition tier_gate :: "policy_context \<Rightarrow> int \<Rightarrow> int \<Rightarrow> int \<Rightarrow> paired_device option \<Rightarrow> policy_row option \<Rightarrow> 'a answer \<Rightarrow> 'a answer" where
  "tier_gate ctx n mid did device row next =
     (if map_option pd_status device = Some DRevoked then reject DEVICE_REVOKED else
      andThen (reading (\<lambda>s. (mo_env s, device_standing (mo_env s) (mo_now s) device row))) (\<lambda>(env, achieved, required, mode).
      if achieved = Keyless \<and> signature_required env then reject DEVICE_MUST_REPAIR else
      let compliant = (TIER_RANK achieved \<ge> TIER_RANK required) in
      andThen (recordPolicyEvaluation mid ctx mode required achieved compliant n) (\<lambda>_.
      if shouldBlock mode compliant
      then andThen (lookupActiveOverride mid (case device of None \<Rightarrow> did | Some d \<Rightarrow> pd_id d)) (\<lambda>activeOverride.
        case activeOverride of None \<Rightarrow> reject DEVICE_TIER_INSUFFICIENT | Some _ \<Rightarrow> next)
      else next)))"

section \<open>Forwarding one message\<close>

record forwarded =
  fw_id :: "string option"
  fw_sender :: "string option"
  fw_body :: "utf16 option"
  fw_timestamp :: "field option"
  fw_nonce :: "string option"
  fw_signature :: "string option"

definition canonical_sms :: "mobile_platform \<Rightarrow> int \<Rightarrow> string \<Rightarrow> field \<Rightarrow> string \<Rightarrow> utf16 \<Rightarrow> utf16" where
  "canonical_sms P did nonce ts sender body = buildCanonicalSmsPayload (mp_nfc P)
     \<lparr>sp_deviceId = FNumber did, sp_nonce = units nonce, sp_timestamp = ts, sp_sender = units sender, sp_body = body\<rparr>"

definition key_algorithm :: "paired_device \<Rightarrow> string" where
  "key_algorithm d = or_else (pd_key_algorithm d) ''ES256''"

definition device_key :: "paired_device option \<Rightarrow> string option" where
  "device_key device = Option.bind device (\<lambda>d. truthy (pd_public_key d))"

definition signed_checks :: "mobile_platform \<Rightarrow> int \<Rightarrow> int \<Rightarrow> paired_device \<Rightarrow> string \<Rightarrow> forwarded \<Rightarrow> string \<Rightarrow> utf16 \<Rightarrow> unit answer" where
  "signed_checks P now did d key m sender body = (case (truthy (fw_signature m), truthy (fw_nonce m), truthy_field (fw_timestamp m)) of
      (Some sig, Some nonce, Some ts) \<Rightarrow>
        if timestamp_out_of_bounds P now ts then reject TIMESTAMP_OUT_OF_BOUNDS else
        andThen (m_get (nonce_exists did nonce)) (\<lambda>nonceExists.
        if nonceExists then reject NONCE_REPLAYED
        else if \<not> verifyDeviceSignature P key sig (canonical_sms P did nonce ts sender body) (key_algorithm d) then reject INVALID_DEVICE_SIGNATURE
        else andThen (m_exec (insert_nonce did nonce now)) (\<lambda>_. respond ()))
    | _ \<Rightarrow> reject MISSING_SIGNATURE)"

definition queue_message :: "int \<Rightarrow> int \<Rightarrow> paired_device option \<Rightarrow> carrier_validation \<Rightarrow> utf16 \<Rightarrow> bool \<Rightarrow> string \<Rightarrow> sms_message" where
  "queue_message mid did device carrier body verified sender =
     \<lparr>sm_merchant_id = mid, sm_device_id = Some did, sm_store_id = Option.bind device pd_store_id, sm_sender = cv_canonicalSender carrier,
      sm_body = body, sm_signature_verified = Some verified, sm_raw_sender = Some sender\<rparr>"

definition enqueue_one :: "mobile_platform \<Rightarrow> int \<Rightarrow> int \<Rightarrow> paired_device option \<Rightarrow> carrier_validation \<Rightarrow> forwarded \<Rightarrow> string \<Rightarrow> utf16 \<Rightarrow> bool answer" where
  "enqueue_one P mid did device carrier m sender body =
     andThen (reading (\<lambda>s. (mo_env s, mo_now s))) (\<lambda>(env, now).
     andThen (m_get (recent_nonces did now)) (\<lambda>recentCount.
     if recentCount \<ge> 60 then reject SMS_VELOCITY_EXCEEDED else
     case (device, device_key device) of
       (Some d, Some key) \<Rightarrow>
         andThen (signed_checks P now did d key m sender body) (\<lambda>checked. case checked of
             Inl e \<Rightarrow> reject e
           | Inr _ \<Rightarrow> andThen (sms_send (queue_message mid did device carrier body True sender)) (\<lambda>_. respond True))
     | _ \<Rightarrow>
         if signature_required env then reject DEVICE_MUST_REPAIR
         else andThen (sms_send (queue_message mid did device carrier body False sender)) (\<lambda>_. respond False)))"

definition forward_sms :: "mobile_platform \<Rightarrow> int \<Rightarrow> int \<Rightarrow> forwarded \<Rightarrow> bool answer" where
  "forward_sms P mid did m = (case (truthy (fw_sender m), fw_body m) of
      (Some sender, Some (c # cs)) \<Rightarrow>
        let carrier = validateCarrierSender sender in
        if \<not> cv_trusted carrier then reject UNTRUSTED_CARRIER_SHORTCODE else
        andThen (m_get (device_with_policy did mid)) (\<lambda>(device, row).
        tier_gate CSms 1 mid did device row (enqueue_one P mid did device carrier m sender (c # cs)))
    | _ \<Rightarrow> reject VALIDATION_ERROR)"


section \<open>Forwarding a batch\<close>

record batch_request =
  bq_messages :: "forwarded list"
  bq_nonce :: "string option"
  bq_timestamp :: "field option"
  bq_signature :: "string option"

record batch_state =
  bs_queued :: "string list"
  bs_rejected :: "(string option \<times> mobile_error) list"
  bs_messages :: "sms_message list"
  bs_seen :: "string list"

definition drop_message :: "forwarded \<Rightarrow> mobile_error \<Rightarrow> batch_state \<Rightarrow> batch_state mprog" where
  "drop_message m e b = ret (b\<lparr>bs_rejected := bs_rejected b @ [(fw_id m, e)]\<rparr>)"

definition keep_message :: "forwarded \<Rightarrow> sms_message \<Rightarrow> batch_state \<Rightarrow> batch_state" where
  "keep_message m q b = b\<lparr>bs_messages := bs_messages b @ [q], bs_queued := bs_queued b @ (case fw_id m of None \<Rightarrow> [] | Some i \<Rightarrow> [i])\<rparr>"

text \<open>A message of its own \<open>nonce\<close>, \<open>timestamp\<close> and \<open>signature\<close>, with those of the batch in their place where it has none.\<close>

definition own_or_batch :: "'a option \<Rightarrow> 'a option \<Rightarrow> 'a option" where
  "own_or_batch a b = (case a of Some x \<Rightarrow> Some x | None \<Rightarrow> b)"

definition batch_signed :: "mobile_platform \<Rightarrow> int \<Rightarrow> int \<Rightarrow> paired_device \<Rightarrow> string \<Rightarrow> batch_request \<Rightarrow> forwarded \<Rightarrow> string \<Rightarrow> utf16 \<Rightarrow>
    sms_message \<Rightarrow> batch_state \<Rightarrow> batch_state mprog" where
  "batch_signed P now did d key req m sender body q b =
     (case (truthy (own_or_batch (fw_nonce m) (bq_nonce req)), truthy_field (own_or_batch (fw_timestamp m) (bq_timestamp req)),
            truthy (own_or_batch (fw_signature m) (bq_signature req))) of
       (Some nonce, Some ts, Some sig) \<Rightarrow>
         if timestamp_out_of_bounds P now ts then drop_message m TIMESTAMP_OUT_OF_BOUNDS b
         else if nonce \<in> set (bs_seen b) then drop_message m NONCE_REPLAYED b
         else andThen (m_get (nonce_exists did nonce)) (\<lambda>nonceExists.
           if nonceExists then drop_message m NONCE_REPLAYED b
           else if \<not> verifyDeviceSignature P key sig (canonical_sms P did nonce ts sender body) (key_algorithm d)
           then drop_message m INVALID_DEVICE_SIGNATURE b
           else andThen (m_exec (insert_nonce did nonce now)) (\<lambda>_. ret (keep_message m q (b\<lparr>bs_seen := bs_seen b @ [nonce]\<rparr>))))
     | _ \<Rightarrow> drop_message m MISSING_SIGNATURE b)"

definition batch_message :: "mobile_platform \<Rightarrow> int \<Rightarrow> int \<Rightarrow> int \<Rightarrow> paired_device option \<Rightarrow> batch_request \<Rightarrow> forwarded \<Rightarrow> batch_state \<Rightarrow> batch_state mprog" where
  "batch_message P now mid did device req m b = (case (truthy (fw_sender m), fw_body m) of
      (Some sender, Some (c # cs)) \<Rightarrow>
        let carrier = validateCarrierSender sender in
        if \<not> cv_trusted carrier then drop_message m UNTRUSTED_CARRIER_SHORTCODE b
        else (case (device, device_key device) of
            (Some d, Some key) \<Rightarrow> batch_signed P now did d key req m sender (c # cs) (queue_message mid did device carrier (c # cs) True sender) b
          | _ \<Rightarrow> ret (keep_message m (queue_message mid did device carrier (c # cs) False sender) b))
    | _ \<Rightarrow> drop_message m VALIDATION_ERROR b)"

fun batch_loop :: "mobile_platform \<Rightarrow> int \<Rightarrow> int \<Rightarrow> int \<Rightarrow> paired_device option \<Rightarrow> batch_request \<Rightarrow> forwarded list \<Rightarrow> batch_state \<Rightarrow> batch_state mprog" where
  "batch_loop P now mid did device req [] b = ret b"
| "batch_loop P now mid did device req (m # ms) b =
     andThen (batch_message P now mid did device req m b) (batch_loop P now mid did device req ms)"

definition forward_checked :: "mobile_platform \<Rightarrow> int \<Rightarrow> int \<Rightarrow> paired_device option \<Rightarrow> batch_request \<Rightarrow> batch_state answer" where
  "forward_checked P mid did device req =
     andThen (reading (\<lambda>s. (mo_env s, mo_now s))) (\<lambda>(env, now).
     if device_key device = None \<and> signature_required env then reject DEVICE_MUST_REPAIR else
     andThen (m_get (recent_nonces did now)) (\<lambda>recentCount.
     if recentCount + length (bq_messages req) > 120 then reject SMS_VELOCITY_EXCEEDED else
     andThen (batch_loop P now mid did device req (bq_messages req) \<lparr>bs_queued = [], bs_rejected = [], bs_messages = [], bs_seen = []\<rparr>) (\<lambda>b.
     andThen (send_all (bs_messages b)) (\<lambda>_. respond b))))"

definition forward_batch :: "mobile_platform \<Rightarrow> int \<Rightarrow> int \<Rightarrow> batch_request \<Rightarrow> batch_state answer" where
  "forward_batch P mid did req =
     (if bq_messages req = [] then reject VALIDATION_ERROR
      else andThen (m_get (device_with_policy did mid)) (\<lambda>(device, row).
        tier_gate CSmsBatch (int (length (bq_messages req))) mid did device row (forward_checked P mid did device req)))"

section \<open>Keys, revocation and heartbeat\<close>

record rotation_request =
  rr_new_public_key :: "string option"
  rr_key_algorithm :: "string option"
  rr_nonce :: "string option"
  rr_timestamp :: "field option"
  rr_signature :: "string option"

definition set_key :: "int \<Rightarrow> int \<Rightarrow> string \<Rightarrow> string \<Rightarrow> device_tables \<Rightarrow> device_tables" where
  "set_key did mid key alg t = t\<lparr>op_paired_devices := update_where (\<lambda>d. pd_id d = did \<and> pd_merchant_id d = mid)
     (\<lambda>d. d\<lparr>pd_public_key := Some key, pd_key_algorithm := Some alg\<rparr>) (op_paired_devices t)\<rparr>"

definition canonical_rotation :: "mobile_platform \<Rightarrow> int \<Rightarrow> string \<Rightarrow> field \<Rightarrow> string \<Rightarrow> utf16" where
  "canonical_rotation P did nonce ts key = buildCanonicalKeyRotationPayload (mp_nfc P) (FNumber did) (units nonce) ts (units key)"

definition rotate_signed :: "mobile_platform \<Rightarrow> int \<Rightarrow> int \<Rightarrow> int \<Rightarrow> paired_device \<Rightarrow> string \<Rightarrow> string \<Rightarrow> rotation_request \<Rightarrow> unit answer" where
  "rotate_signed P now mid did d key newKey req = (case (truthy (rr_signature req), truthy (rr_nonce req), truthy_field (rr_timestamp req)) of
      (Some sig, Some nonce, Some ts) \<Rightarrow>
        if timestamp_out_of_bounds P now ts then reject TIMESTAMP_OUT_OF_BOUNDS else
        andThen (m_get (nonce_exists did nonce)) (\<lambda>nonceExists.
        if nonceExists then reject NONCE_REPLAYED
        else if \<not> verifyDeviceSignature P key sig (canonical_rotation P did nonce ts newKey) (key_algorithm d) then reject INVALID_DEVICE_SIGNATURE
        else andThen (m_exec (insert_nonce did nonce now)) (\<lambda>_.
          andThen (m_put (set_key did mid newKey (or_else (rr_key_algorithm req) ''ES256''))) (\<lambda>_. respond ())))
    | _ \<Rightarrow> reject MISSING_SIGNATURE)"

definition rotate_key :: "mobile_platform \<Rightarrow> int \<Rightarrow> int \<Rightarrow> rotation_request \<Rightarrow> unit answer" where
  "rotate_key P mid did req = (case truthy (rr_new_public_key req) of
      None \<Rightarrow> reject VALIDATION_ERROR
    | Some newKey \<Rightarrow>
        andThen (reading mo_now) (\<lambda>now.
        andThen (m_get (find_device did mid)) (\<lambda>device. case device of
            None \<Rightarrow> reject DEVICE_REVOKED
          | Some d \<Rightarrow>
              if pd_status d = DRevoked then reject DEVICE_REVOKED
              else (case truthy (pd_public_key d) of
                  None \<Rightarrow> reject DEVICE_MUST_REPAIR
                | Some key \<Rightarrow> rotate_signed P now mid did d key newKey req))))"

text \<open>The device is named by its id when the path is all digits, else by its uuid.\<close>

datatype device_name = ById int | ByUuid string

fun named_device :: "device_name \<Rightarrow> int \<Rightarrow> paired_device \<Rightarrow> bool" where
  "named_device (ById i) mid d = (pd_id d = i \<and> pd_merchant_id d = mid)"
| "named_device (ByUuid u) mid d = (pd_uuid d = u \<and> pd_merchant_id d = mid)"

definition device_identifier :: "string \<Rightarrow> device_name" where
  "device_identifier s = (if s \<noteq> [] \<and> list_all is_digit s then ById (int (digits_val s)) else ByUuid s)"

definition revoke_devices :: "device_name \<Rightarrow> int \<Rightarrow> device_tables \<Rightarrow> nat \<times> device_tables" where
  "revoke_devices n mid t = (length (filter (named_device n mid) (op_paired_devices t)),
     t\<lparr>op_paired_devices := update_where (named_device n mid) (\<lambda>d. d\<lparr>pd_status := DRevoked\<rparr>) (op_paired_devices t)\<rparr>)"

definition revoke_device :: "int \<Rightarrow> string \<Rightarrow> unit answer" where
  "revoke_device mid identifier =
     andThen (m_run (revoke_devices (device_identifier identifier) mid)) (\<lambda>changes.
     if changes = 0 then reject NOT_FOUND else respond ())"

definition heartbeat :: "int \<Rightarrow> int \<Rightarrow> unit answer" where
  "heartbeat mid did = andThen (reading mo_now) (\<lambda>now.
     andThen (m_put (\<lambda>t. t\<lparr>op_paired_devices := update_where (\<lambda>d. pd_id d = did \<and> pd_merchant_id d = mid)
       (\<lambda>d. d\<lparr>pd_last_heartbeat_at := Some now\<rparr>) (op_paired_devices t)\<rparr>)) (\<lambda>_. respond ()))"

text \<open>The nightly pruning of \<open>cron/handler.ts\<close>: nonces older than ten minutes.\<close>

definition prune_nonces :: "int \<Rightarrow> device_tables \<Rightarrow> device_tables" where
  "prune_nonces now t = t\<lparr>op_device_nonces := filter (\<lambda>r. \<not> nr_created_at r < sql_second now - 600000) (op_device_nonces t)\<rparr>"

datatype mobile_request =
    ForwardSms forwarded
  | ForwardBatch batch_request
  | RotateKey rotation_request
  | RevokeDevice string
  | Heartbeat

text \<open>One authenticated request of a device, behind the status gate.\<close>

definition handle :: "mobile_platform \<Rightarrow> int \<Rightarrow> int \<Rightarrow> mobile_request \<Rightarrow> unit answer" where
  "handle P mid did r = status_gate mid did (case r of
      ForwardSms m \<Rightarrow> andThen (forward_sms P mid did m) (\<lambda>a. ret (map_sum id (\<lambda>_. ()) a))
    | ForwardBatch q \<Rightarrow> andThen (forward_batch P mid did q) (\<lambda>a. ret (map_sum id (\<lambda>_. ()) a))
    | RotateKey q \<Rightarrow> rotate_key P mid did q
    | RevokeDevice i \<Rightarrow> revoke_device mid i
    | Heartbeat \<Rightarrow> heartbeat mid did)"


end
