(* ===== verification/MobileCorrect.thy ===== *)
theory MobileCorrect
  imports Mobile
begin

text \<open>
  What the device routes guarantee: every message they queue has passed the gates, and a signed
  message is accepted once, across batches, lost calls, other requests and the pruning of nonces.
\<close>

section \<open>Reading devices, policies and overrides\<close>

definition core_of :: "device_tables \<Rightarrow> paired_device list \<times> policy_row list \<times> override_row list" where
  "core_of t = (op_paired_devices t, op_merchant_device_policies t, op_device_policy_overrides t)"

text \<open>A state in which nothing that the gates read, and not the queue, has changed since \<open>s0\<close>.\<close>

definition core :: "mobile \<Rightarrow> mobile \<Rightarrow> bool" where
  "core s0 s \<longleftrightarrow> core_of (mo_tables s) = core_of (mo_tables s0) \<and> mo_now s = mo_now s0 \<and> mo_env s = mo_env s0 \<and> mo_sms_queue s = mo_sms_queue s0"

lemma core_refl [simp]: "core s s"
  by (simp add: core_def)

lemma core_pred [simp]: "m_pred (core s0)"
  by (simp add: m_pred_def core_def same_device_def)

lemma core_read:
  assumes "\<And>t. core_of t = core_of (mo_tables s0) \<Longrightarrow> f t = f (mo_tables s0)"
  shows "triple (core s0) (m_get f) (\<lambda>r s. core s0 s \<and> r = f (mo_tables s0)) (\<lambda>_. core s0)"
  unfolding m_get_def by (rule triple_m_remote) (auto simp: core_def intro: assms)

text \<open>The messages queued since \<open>s0\<close> all satisfy a predicate.\<close>

definition grown :: "mobile \<Rightarrow> (sms_message \<Rightarrow> bool) \<Rightarrow> mobile \<Rightarrow> bool" where
  "grown s0 V s \<longleftrightarrow> (\<exists>qs. mo_sms_queue s = mo_sms_queue s0 @ qs \<and> list_all V qs)"

lemma grown_pred [simp]: "m_pred (grown s0 V)"
  by (auto simp: m_pred_def grown_def same_device_def)

lemma core_grown: "core s0 s \<Longrightarrow> grown s0 V s"
  by (simp add: core_def grown_def)

lemma grown_tables [simp]: "grown s0 V (s\<lparr>mo_tables := t\<rparr>) = grown s0 V s"
  by (simp add: grown_def)

lemma sms_send_grown: "V q \<Longrightarrow> preserves (grown s0 V) (sms_send q)"
  unfolding sms_send_def by (rule triple_m_remote) (auto simp: grown_def)

lemma send_all_grown: "list_all V qs \<Longrightarrow> preserves (grown s0 V) (send_all qs)"
  by (induction qs) (auto intro!: device_steps sms_send_grown split: option.split)

lemma triple_if: "(b \<Longrightarrow> triple P m Q E) \<Longrightarrow> (\<not> b \<Longrightarrow> triple P n Q E) \<Longrightarrow> triple P (if b then m else n) Q E"
  by simp

lemma triple_guard: "(A \<Longrightarrow> triple P m Q E) \<Longrightarrow> triple (\<lambda>s. P s \<and> A) m Q E"
  by (auto simp: triple_def)

lemma core_then:
  assumes "\<And>t. core_of t = core_of (mo_tables s0) \<Longrightarrow> f t = f (mo_tables s0)"
    and "triple (core s0) (k (f (mo_tables s0))) (\<lambda>_. grown s0 V) (\<lambda>_. grown s0 V)"
  shows "triple (core s0) (andThen (m_get f) k) (\<lambda>_. grown s0 V) (\<lambda>_. grown s0 V)"
proof -
  from assms(1) have "triple (core s0) (m_get f) (\<lambda>r s. core s0 s \<and> r = f (mo_tables s0)) (\<lambda>_. core s0)" by (rule core_read)
  then have "triple (core s0) (m_get f) (\<lambda>r s. core s0 s \<and> r = f (mo_tables s0)) (\<lambda>_. grown s0 V)"
    by (rule triple_weaken) (auto intro: core_grown)
  then show ?thesis
  proof (rule triple_andThen)
    show "triple (\<lambda>s. core s0 s \<and> a = f (mo_tables s0)) (k a) (\<lambda>_. grown s0 V) (\<lambda>_. grown s0 V)" for a
      by (rule triple_guard) (simp add: assms(2))
  qed
qed

lemma keep_core:
  assumes "preserves (core s0) m" and "\<And>a. triple (core s0) (k a) (\<lambda>_. grown s0 V) (\<lambda>_. grown s0 V)"
  shows "triple (core s0) (andThen m k) (\<lambda>_. grown s0 V) (\<lambda>_. grown s0 V)"
  by (rule triple_andThen [OF triple_weaken [OF assms(1)] assms(2)]) (auto intro: core_grown)

lemma core_done: "triple (core s0) (ret a) (\<lambda>_. grown s0 V) (\<lambda>_. grown s0 V)"
  by (rule triple_ret) (rule core_grown)

lemma core_reading:
  assumes "triple (core s0) (k (f s0)) Q E" and "\<And>s. core s0 s \<Longrightarrow> f s = f s0"
  shows "triple (core s0) (andThen (reading f) k) Q E"
proof (rule tripleI)
  fix s assume c: "core s0 s"
  have "case k (f s0) s of (Inl e, s') \<Rightarrow> E e s' | (Inr a, s') \<Rightarrow> Q a s'" using assms(1) c by (simp only: triple_def)
  then show "case andThen (reading f) k s of (Inl e, s') \<Rightarrow> E e s' | (Inr a, s') \<Rightarrow> Q a s'"
    by (simp add: andThen_def reading_def assms(2) [OF c])
qed

lemma core_put:
  assumes "\<And>t. core_of (f t) = core_of t"
  shows "preserves (core s0) (m_put f)"
  by (rule preserves_m_put) (auto simp: core_def assms)

lemma evaluation_core: "preserves (core s0) (recordPolicyEvaluation mid ctx mode r a c n)"
  unfolding recordPolicyEvaluation_def
  by (intro preserves_if preserves_andThen preserves_catching preserves_pure core_put) (simp add: count_evaluation_def core_of_def)

lemma nonce_insert_core: "preserves (core s0) (m_exec (insert_nonce did n now))"
  unfolding m_exec_def m_run_def
  by (intro preserves_andThen preserves_sum preserves_pure triple_m_remote)
     (auto simp: core_def core_of_def insert_nonce_def split: if_splits)

section \<open>Every queued message is vetted\<close>

text \<open>The device as the gates see it in \<open>s0\<close>, and the message they let through.\<close>

definition admitted :: "mobile \<Rightarrow> int \<Rightarrow> int \<Rightarrow> bool" where
  "admitted s0 mid did \<longleftrightarrow> (case device_with_policy did mid (mo_tables s0) of (device, row) \<Rightarrow>
     map_option pd_status device \<noteq> Some DRevoked \<and>
     (case device_standing (mo_env s0) (mo_now s0) device row of (achieved, required, mode) \<Rightarrow>
        (signature_required (mo_env s0) \<longrightarrow> achieved \<noteq> Keyless) \<and>
        (mode = EEnforce \<longrightarrow> TIER_RANK required \<le> TIER_RANK achieved \<or> overrides_of (mo_now s0) mid did (mo_tables s0) \<noteq> [])))"

definition signed_by_device :: "mobile_platform \<Rightarrow> mobile \<Rightarrow> int \<Rightarrow> int \<Rightarrow> sms_message \<Rightarrow> bool" where
  "signed_by_device P s0 mid did q \<longleftrightarrow> (\<exists>d key nonce ts sig sender. find_device did mid (mo_tables s0) = Some d \<and> pd_public_key d = Some key \<and>
     sm_raw_sender q = Some sender \<and> \<not> timestamp_out_of_bounds P (mo_now s0) ts \<and>
     verifyDeviceSignature P key sig (canonical_sms P did nonce ts sender (sm_body q)) (key_algorithm d))"

definition vetted :: "mobile_platform \<Rightarrow> mobile \<Rightarrow> int \<Rightarrow> int \<Rightarrow> sms_message \<Rightarrow> bool" where
  "vetted P s0 mid did q \<longleftrightarrow> admitted s0 mid did \<and> sm_merchant_id q = mid \<and> sm_device_id q = Some did \<and>
     (\<exists>sender. sm_raw_sender q = Some sender \<and> cv_trusted (validateCarrierSender sender) \<and> sm_sender q = cv_canonicalSender (validateCarrierSender sender)) \<and>
     (if sm_signature_verified q = Some True then signed_by_device P s0 mid did q else \<not> signature_required (mo_env s0))"

lemma override_lookup:
  "triple (core s0) (lookupActiveOverride mid did)
     (\<lambda>x s. core s0 s \<and> (x \<noteq> None \<longrightarrow> overrides_of (mo_now s0) mid did (mo_tables s0) \<noteq> [])) (\<lambda>_. grown s0 V)"
proof -
  let ?f = "\<lambda>t. first_by (\<lambda>r. - ov_expires_at r) (overrides_of (mo_now s0) mid did t)"
  have "triple (core s0) (m_get ?f) (\<lambda>x s. core s0 s \<and> x = ?f (mo_tables s0)) (\<lambda>_. core s0)"
    by (rule core_read) (simp add: overrides_of_def core_of_def)
  then have "triple (core s0) (m_get ?f)
      (\<lambda>x s. core s0 s \<and> (x \<noteq> None \<longrightarrow> overrides_of (mo_now s0) mid did (mo_tables s0) \<noteq> [])) (\<lambda>_. core s0)"
    by (rule triple_weaken) (auto simp: first_by_def)
  then have "triple (core s0) (catching (m_get ?f) (\<lambda>_. ret None))
      (\<lambda>x s. core s0 s \<and> (x \<noteq> None \<longrightarrow> overrides_of (mo_now s0) mid did (mo_tables s0) \<noteq> [])) (\<lambda>_. grown s0 V)"
    by (rule triple_catching) (rule triple_ret, simp)
  then show ?thesis unfolding lookupActiveOverride_def by (rule core_reading) (simp add: core_def)
qed

lemma tier_gate_core:
  assumes "device_with_policy did mid (mo_tables s0) = (device, row)"
    and "admitted s0 mid did \<Longrightarrow> triple (core s0) next (\<lambda>_. grown s0 V) (\<lambda>_. grown s0 V)"
  shows "triple (core s0) (tier_gate ctx n mid did device row next) (\<lambda>_. grown s0 V) (\<lambda>_. grown s0 V)"
proof -
  obtain a r mode where st: "device_standing (mo_env s0) (mo_now s0) device row = (a, r, mode)" by (metis prod_cases3)
  have did: "(case device of None \<Rightarrow> did | Some d \<Rightarrow> pd_id d) = did"
    using assms(1) by (auto simp: device_with_policy_def find_device_def split: option.splits dest: find_Some_iff)
  have over: "triple (core s0) (andThen (lookupActiveOverride mid did) (\<lambda>x. case x of None \<Rightarrow> reject DEVICE_TIER_INSUFFICIENT | Some _ \<Rightarrow> next))
      (\<lambda>_. grown s0 V) (\<lambda>_. grown s0 V)"
    if "overrides_of (mo_now s0) mid did (mo_tables s0) \<noteq> [] \<Longrightarrow> triple (core s0) next (\<lambda>_. grown s0 V) (\<lambda>_. grown s0 V)"
    by (rule triple_andThen [OF override_lookup], rule triple_guard) (use that in \<open>auto intro: core_done split: option.split\<close>)
  show ?thesis unfolding tier_gate_def
    using assms(2) over
    by (auto intro!: core_done core_reading keep_core [OF evaluation_core] simp: st did Let_def core_def admitted_def assms(1) shouldBlock_def
      split: enforcement_mode.splits)
qed

definition signed_content :: "mobile_platform \<Rightarrow> int \<Rightarrow> int \<Rightarrow> paired_device \<Rightarrow> string \<Rightarrow> string \<Rightarrow> utf16 \<Rightarrow> bool" where
  "signed_content P now did d key sender body \<longleftrightarrow> (\<exists>nonce ts sig. \<not> timestamp_out_of_bounds P now ts \<and>
     verifyDeviceSignature P key sig (canonical_sms P did nonce ts sender body) (key_algorithm d))"

lemma signed_contentI: "\<not> timestamp_out_of_bounds P now ts \<Longrightarrow>
    verifyDeviceSignature P key sig (canonical_sms P did nonce ts sender body) (key_algorithm d) \<Longrightarrow> signed_content P now did d key sender body"
  by (auto simp: signed_content_def)

lemma signed_checks_core:
  "triple (core s0) (signed_checks P now did d key m sender body)
     (\<lambda>r s. core s0 s \<and> (r = Inr () \<longrightarrow> signed_content P now did d key sender body)) (\<lambda>_. grown s0 V)"
proof -
  have fin: "triple (core s0) (ret (Inl e)) (\<lambda>r s. core s0 s \<and> (r = Inr () \<longrightarrow> A)) (\<lambda>_. grown s0 V)" for e :: mobile_error and A
    by (rule triple_ret) simp
  have get: "triple (core s0) (m_get f) (\<lambda>_. core s0) (\<lambda>_. grown s0 V)" for f :: "device_tables \<Rightarrow> bool"
    by (rule triple_weaken [OF preserves_m_get [OF core_pred]]) (auto intro: core_grown)
  have ins: "triple (core s0) (m_exec (insert_nonce did n now)) (\<lambda>_. core s0) (\<lambda>_. grown s0 V)" for n
    by (rule triple_weaken [OF nonce_insert_core]) (auto intro: core_grown)
  have ok: "triple (core s0) (andThen (m_exec (insert_nonce did n now)) (\<lambda>_. ret (Inr ())))
      (\<lambda>r s. core s0 s \<and> (r = Inr () \<longrightarrow> signed_content P now did d key sender body)) (\<lambda>_. grown s0 V)"
    if "signed_content P now did d key sender body" for n
    by (rule triple_andThen [OF ins], rule triple_ret) (simp add: that)
  show ?thesis unfolding signed_checks_def
    by (auto intro!: fin ok triple_andThen [OF get] intro: signed_contentI split: option.split)
qed

lemma device_with_policy_core: "core_of t = core_of t' \<Longrightarrow> device_with_policy did mid t = device_with_policy did mid t'"
  by (simp add: device_with_policy_def find_device_def find_policy_def core_of_def cong: option.case_cong)

lemma enqueue_one_vetted:
  assumes dp: "find_device did mid (mo_tables s0) = device" and adm: "admitted s0 mid did" and tr: "cv_trusted (validateCarrierSender sender)"
  shows "triple (core s0) (enqueue_one P mid did device (validateCarrierSender sender) m sender body)
    (\<lambda>_. grown s0 (vetted P s0 mid did)) (\<lambda>_. grown s0 (vetted P s0 mid did))"
proof -
  let ?V = "vetted P s0 mid did"
  have send: "triple (core s0) (andThen (sms_send q) (\<lambda>_. ret (Inr x))) (\<lambda>_. grown s0 ?V) (\<lambda>_. grown s0 ?V)" if "?V q" for q x
    by (rule triple_weaken [where P = "grown s0 ?V"]) (auto intro!: device_steps sms_send_grown that intro: core_grown)
  have signed: "triple (core s0) (andThen (signed_checks P (mo_now s0) did d key m sender body) (\<lambda>checked. case checked of
        Inl e \<Rightarrow> reject e
      | Inr _ \<Rightarrow> andThen (sms_send (queue_message mid did device (validateCarrierSender sender) body True sender)) (\<lambda>_. respond True)))
      (\<lambda>_. grown s0 ?V) (\<lambda>_. grown s0 ?V)"
    if d: "device = Some d" and k: "pd_public_key d = Some key" for d key
  proof (rule triple_andThen [OF signed_checks_core], rule triple_guard)
    fix r :: "mobile_error + unit" assume r: "r = Inr () \<longrightarrow> signed_content P (mo_now s0) did d key sender body"
    have "?V (queue_message mid did device (validateCarrierSender sender) body True sender)" if "r = Inr ()"
      using adm tr r that dp d k by (auto simp: vetted_def queue_message_def signed_by_device_def signed_content_def)
    then show "triple (core s0) (case r of Inl e \<Rightarrow> reject e
        | Inr _ \<Rightarrow> andThen (sms_send (queue_message mid did device (validateCarrierSender sender) body True sender)) (\<lambda>_. respond True))
        (\<lambda>_. grown s0 ?V) (\<lambda>_. grown s0 ?V)"
      by (cases r) (auto intro: core_done send)
  qed
  have unsigned: "?V (queue_message mid did device (validateCarrierSender sender) body False sender)" if "\<not> signature_required (mo_env s0)"
    using adm tr that by (simp add: vetted_def queue_message_def)
  have key: "pd_public_key d = Some key" if "device_key (Some d) = Some key" for d key
    using that by (simp add: device_key_def truthy_SomeD)
  have rest: "triple (core s0) (case (device, device_key device) of
        (Some d, Some key) \<Rightarrow> andThen (signed_checks P (mo_now s0) did d key m sender body) (\<lambda>checked. case checked of
            Inl e \<Rightarrow> reject e
          | Inr _ \<Rightarrow> andThen (sms_send (queue_message mid did device (validateCarrierSender sender) body True sender)) (\<lambda>_. respond True))
      | _ \<Rightarrow> if signature_required (mo_env s0) then reject DEVICE_MUST_REPAIR
          else andThen (sms_send (queue_message mid did device (validateCarrierSender sender) body False sender)) (\<lambda>_. respond False))
      (\<lambda>_. grown s0 ?V) (\<lambda>_. grown s0 ?V)"
  proof (cases device)
    case None
    then show ?thesis using unsigned by (auto intro!: core_done send)
  next
    case (Some d)
    show ?thesis
    proof (cases "device_key (Some d)")
      case None
      then show ?thesis using unsigned Some by (auto intro!: core_done send)
    next
      case (Some k)
      then show ?thesis using signed [OF \<open>device = Some d\<close> key [OF Some]] unfolding \<open>device = Some d\<close> by simp
    qed
  qed
  show ?thesis unfolding enqueue_one_def
    by (rule core_reading, unfold prod.case, intro keep_core [OF preserves_m_get [OF core_pred]] triple_if core_done rest [unfolded prod.case])
       (simp_all add: core_def)
qed

lemma forward_sms_vetted:
  "triple (core s0) (forward_sms P mid did m) (\<lambda>_. grown s0 (vetted P s0 mid did)) (\<lambda>_. grown s0 (vetted P s0 mid did))"
proof -
  let ?V = "vetted P s0 mid did"
  have gate: "triple (core s0) (andThen (m_get (device_with_policy did mid)) (\<lambda>(device, row).
      tier_gate CSms 1 mid did device row (enqueue_one P mid did device (validateCarrierSender sender) m sender body))) (\<lambda>_. grown s0 ?V) (\<lambda>_. grown s0 ?V)"
    if tr: "cv_trusted (validateCarrierSender sender)" for sender body
  proof (rule core_then)
    obtain device row where dp: "device_with_policy did mid (mo_tables s0) = (device, row)" by (metis surj_pair)
    then have "find_device did mid (mo_tables s0) = device" by (auto simp: device_with_policy_def split: option.splits)
    from tier_gate_core [OF dp enqueue_one_vetted [OF this _ tr]] show "triple (core s0)
        (case device_with_policy did mid (mo_tables s0) of (device, row) \<Rightarrow>
          tier_gate CSms 1 mid did device row (enqueue_one P mid did device (validateCarrierSender sender) m sender body)) (\<lambda>_. grown s0 ?V) (\<lambda>_. grown s0 ?V)"
      by (simp add: dp)
  qed (rule device_with_policy_core)
  show ?thesis unfolding forward_sms_def Let_def
    by (auto intro!: core_done gate split: option.split list.split)
qed

section \<open>Batches\<close>

lemma drop_message_core: "list_all V (bs_messages b) \<Longrightarrow>
    triple (core s0) (drop_message m e b) (\<lambda>b' s. core s0 s \<and> list_all V (bs_messages b')) (\<lambda>_. grown s0 V)"
  unfolding drop_message_def by (rule triple_ret) simp

lemma keep_message_core: "V q \<Longrightarrow> list_all V (bs_messages b) \<Longrightarrow>
    triple (core s0) (ret (keep_message m q b)) (\<lambda>b' s. core s0 s \<and> list_all V (bs_messages b')) (\<lambda>_. grown s0 V)"
  by (rule triple_ret) (simp add: keep_message_def)

lemma batch_signed_core:
  assumes "list_all V (bs_messages b)" and "signed_content P now did d key sender body \<Longrightarrow> V q"
  shows "triple (core s0) (batch_signed P now did d key req m sender body q b)
    (\<lambda>b' s. core s0 s \<and> list_all V (bs_messages b')) (\<lambda>_. grown s0 V)"
proof -
  have get: "triple (core s0) (m_get f) (\<lambda>_. core s0) (\<lambda>_. grown s0 V)" for f :: "device_tables \<Rightarrow> bool"
    by (rule triple_weaken [OF preserves_m_get [OF core_pred]]) (auto intro: core_grown)
  have ins: "triple (core s0) (m_exec (insert_nonce did n now)) (\<lambda>_. core s0) (\<lambda>_. grown s0 V)" for n
    by (rule triple_weaken [OF nonce_insert_core]) (auto intro: core_grown)
  show ?thesis unfolding batch_signed_def
    by (auto intro!: drop_message_core assms(1) keep_message_core triple_andThen [OF get] triple_andThen [OF ins]
      intro: assms(2) [OF signed_contentI] split: option.split)
qed

lemma no_key_case: "(case (device, None) of (Some d, Some key) \<Rightarrow> f d key | _ \<Rightarrow> g) = g"
  by (cases device) simp_all

lemma batch_message_vetted:
  assumes dp: "find_device did mid (mo_tables s0) = device" and adm: "admitted s0 mid did"
    and key: "device_key device = None \<Longrightarrow> \<not> signature_required (mo_env s0)" and b: "list_all (vetted P s0 mid did) (bs_messages b)"
  shows "triple (core s0) (batch_message P (mo_now s0) mid did device req m b)
    (\<lambda>b' s. core s0 s \<and> list_all (vetted P s0 mid did) (bs_messages b')) (\<lambda>_. grown s0 (vetted P s0 mid did))"
proof -
  have unsigned: "vetted P s0 mid did (queue_message mid did device (validateCarrierSender sender) body False sender)"
    if "cv_trusted (validateCarrierSender sender)" "device_key device = None" for sender body
    using adm that key by (simp add: vetted_def queue_message_def)
  have signed: "vetted P s0 mid did (queue_message mid did device (validateCarrierSender sender) body True sender)"
    if "cv_trusted (validateCarrierSender sender)" "device = Some d" "device_key device = Some k" "signed_content P (mo_now s0) did d k sender body"
    for sender body d k
    using adm that dp by (auto simp: vetted_def queue_message_def signed_by_device_def signed_content_def device_key_def dest: truthy_SomeD)
  show ?thesis
  proof (cases "device_key device")
    case None
    then show ?thesis unfolding batch_message_def Let_def None no_key_case
      by (auto intro!: drop_message_core keep_message_core unsigned [OF _ None] b split: option.split list.split)
  next
    case (Some k)
    then obtain d where d: "device = Some d" by (cases device) (simp_all add: device_key_def)
    note signed' = signed [OF _ d Some]
    show ?thesis unfolding batch_message_def Let_def Some unfolding d option.case prod.case
      by (auto intro!: drop_message_core batch_signed_core b signed' [unfolded d] split: option.split list.split)
  qed
qed

lemma batch_loop_vetted:
  assumes dp: "find_device did mid (mo_tables s0) = device" and adm: "admitted s0 mid did"
    and key: "device_key device = None \<Longrightarrow> \<not> signature_required (mo_env s0)"
  shows "list_all (vetted P s0 mid did) (bs_messages b) \<Longrightarrow> triple (core s0) (batch_loop P (mo_now s0) mid did device req ms b)
    (\<lambda>b' s. core s0 s \<and> list_all (vetted P s0 mid did) (bs_messages b')) (\<lambda>_. grown s0 (vetted P s0 mid did))"
proof (induction ms arbitrary: b)
  case Nil
  then show ?case by (auto intro: triple_ret)
next
  case (Cons m ms)
  show ?case unfolding batch_loop.simps
    by (rule triple_andThen [OF batch_message_vetted [OF dp adm key Cons.prems]], assumption, rule triple_guard, rule Cons.IH)
qed

lemma forward_batch_vetted:
  "triple (core s0) (forward_batch P mid did req) (\<lambda>_. grown s0 (vetted P s0 mid did)) (\<lambda>_. grown s0 (vetted P s0 mid did))"
proof -
  let ?V = "vetted P s0 mid did"
  obtain device row where dp: "device_with_policy did mid (mo_tables s0) = (device, row)" by (metis surj_pair)
  then have fd: "find_device did mid (mo_tables s0) = device" by (auto simp: device_with_policy_def split: option.splits)
  have send: "triple (\<lambda>s. core s0 s \<and> list_all ?V (bs_messages b)) (andThen (send_all (bs_messages b)) (\<lambda>_. respond b))
      (\<lambda>_. grown s0 ?V) (\<lambda>_. grown s0 ?V)" for b
    by (rule triple_guard, rule triple_weaken [where P = "grown s0 ?V"])
       (auto intro!: device_steps send_all_grown intro: core_grown)
  have checked: "triple (core s0) (forward_checked P mid did device req) (\<lambda>_. grown s0 ?V) (\<lambda>_. grown s0 ?V)" if adm: "admitted s0 mid did"
  proof -
    have loop: "triple (core s0) (andThen (batch_loop P (mo_now s0) mid did device req (bq_messages req)
          \<lparr>bs_queued = [], bs_rejected = [], bs_messages = [], bs_seen = []\<rparr>) (\<lambda>b. andThen (send_all (bs_messages b)) (\<lambda>_. respond b)))
        (\<lambda>_. grown s0 ?V) (\<lambda>_. grown s0 ?V)"
      if "device_key device = None \<Longrightarrow> \<not> signature_required (mo_env s0)"
      by (rule triple_andThen [OF batch_loop_vetted [OF fd adm that] send]) simp_all
    show ?thesis unfolding forward_checked_def
      by (rule core_reading) (auto intro!: core_done keep_core [OF preserves_m_get [OF core_pred]] loop simp: core_def)
  qed
  show ?thesis unfolding forward_batch_def
    using tier_gate_core [OF dp checked] by (auto intro!: core_done core_then device_with_policy_core simp: dp)
qed

section \<open>Every request\<close>

lemma grown_alone:
  assumes "preserves (grown s0 V) m"
  shows "triple (core s0) m (\<lambda>_. grown s0 V) (\<lambda>_. grown s0 V)"
  by (rule triple_weaken [OF assms]) (auto intro: core_grown)

lemma exec_grown: "preserves (grown s0 V) (m_exec f)"
  unfolding m_exec_def m_run_def
  by (intro preserves_andThen preserves_sum preserves_pure triple_m_remote grown_pred) auto

lemma put_grown: "preserves (grown s0 V) (m_put f)"
  by (rule preserves_m_put) auto

lemma rotate_grown: "preserves (grown s0 V) (rotate_key P mid did req)"
  unfolding rotate_key_def rotate_signed_def
  by (auto intro!: device_steps exec_grown put_grown split: option.split)

lemma revoke_grown: "preserves (grown s0 V) (revoke_device mid i)"
  unfolding revoke_device_def m_run_def
  by (intro preserves_andThen preserves_if preserves_pure triple_m_remote grown_pred) auto

lemma heartbeat_grown: "preserves (grown s0 V) (heartbeat mid did)"
  unfolding heartbeat_def by (intro device_steps put_grown)

lemma status_gate_grown:
  assumes "triple (core s0) next (\<lambda>_. grown s0 V) (\<lambda>_. grown s0 V)"
  shows "triple (core s0) (status_gate mid did next) (\<lambda>_. grown s0 V) (\<lambda>_. grown s0 V)"
  unfolding status_gate_def using assms
  by (auto intro!: core_done keep_core [OF preserves_m_get [OF core_pred]])

lemma and_done: "triple (core s0) m (\<lambda>_. grown s0 V) (\<lambda>_. grown s0 V) \<Longrightarrow>
    triple (core s0) (andThen m (\<lambda>a. ret (f a))) (\<lambda>_. grown s0 V) (\<lambda>_. grown s0 V)"
  by (erule triple_andThen) (rule triple_ret)

text \<open>C35: whatever request a device makes and whatever calls are lost, each message it adds to the queue is vetted: its merchant and device
  are those of the request, its sender is a known carrier, the device is not revoked, it meets the required tier or holds an active override
  where the mode enforces tiers, and it is marked as verified exactly when a signature under the key on file covers its sender and body
  within the time window; unsigned messages pass only where no signature is required.
\<close>

theorem queued_messages_vetted:
  assumes "handle P mid did r s = (x, s')"
  shows "\<exists>qs. mo_sms_queue s' = mo_sms_queue s @ qs \<and> list_all (vetted P s mid did) qs"
proof -
  have "triple (core s) (handle P mid did r) (\<lambda>_. grown s (vetted P s mid did)) (\<lambda>_. grown s (vetted P s mid did))"
    unfolding handle_def
    by (rule status_gate_grown, cases r)
       (simp_all add: and_done forward_sms_vetted forward_batch_vetted grown_alone rotate_grown revoke_grown heartbeat_grown)
  from triple_snd [OF this core_refl] assms show ?thesis by (simp add: grown_def)
qed

section \<open>No message twice\<close>

text \<open>
  A nonce spent at \<open>t\<close> by a message stamped \<open>ts\<close> stays on record as long as the stamp is fresh.
\<close>

definition spent :: "int \<Rightarrow> string \<Rightarrow> int \<Rightarrow> int \<Rightarrow> mobile \<Rightarrow> bool" where
  "spent did n t ts s \<longleftrightarrow> \<lparr>nr_device_id = did, nr_nonce = n, nr_created_at = sql_second t\<rparr> \<in> set (op_device_nonces (mo_tables s)) \<or> mo_now s - ts > 300000"

lemma spent_pred [simp]: "m_pred (spent did n t ts)"
  by (auto simp: m_pred_def spent_def same_device_def)

lemma spent_tables:
  "set (op_device_nonces (mo_tables s)) \<subseteq> set (op_device_nonces t') \<Longrightarrow> spent did n t ts s \<Longrightarrow> spent did n t ts (s\<lparr>mo_tables := t'\<rparr>)"
  by (auto simp: spent_def)

lemma spent_put:
  "(\<And>t. op_device_nonces (f t) = op_device_nonces t) \<Longrightarrow> preserves (spent did n t0 ts) (m_put f)"
  by (rule preserves_m_put) (auto simp: spent_def)

lemma spent_insert: "preserves (spent did n t ts) (m_exec (insert_nonce d k now))"
  unfolding m_exec_def m_run_def
  by (intro preserves_andThen preserves_sum preserves_pure triple_m_remote spent_pred)
     (auto simp: insert_nonce_def spent_def split: if_splits)

lemma spent_send: "preserves (spent did n t ts) (sms_send q)"
  unfolding sms_send_def by (rule triple_m_remote) (auto simp: spent_def)

lemma spent_send_all: "preserves (spent did n t ts) (send_all qs)"
  by (induction qs) (auto intro!: device_steps spent_send split: option.split)

lemma spent_evaluation: "preserves (spent did n t ts) (recordPolicyEvaluation m ctx mode r a c k)"
  unfolding recordPolicyEvaluation_def
  by (intro preserves_if preserves_andThen preserves_catching preserves_pure spent_put) (simp add: count_evaluation_def)

lemma spent_override: "preserves (spent did n t ts) (lookupActiveOverride m d)"
  unfolding lookupActiveOverride_def by (intro device_steps spent_pred)

lemmas spent_steps = preserves_andThen preserves_if preserves_option preserves_catching preserves_pure
  preserves_m_get [OF spent_pred] spent_put spent_insert spent_send spent_send_all spent_evaluation spent_override

lemma spent_rotate: "preserves (spent did n t ts) (rotate_key P mid d req)"
  unfolding rotate_key_def rotate_signed_def
  by (auto intro!: spent_steps split: option.split) (simp add: set_key_def)

lemma spent_revoke: "preserves (spent did n t ts) (revoke_device mid i)"
  unfolding revoke_device_def m_run_def
  by (intro preserves_andThen preserves_if preserves_pure triple_m_remote spent_pred) (auto simp: revoke_devices_def spent_def)

lemma spent_heartbeat: "preserves (spent did n t ts) (heartbeat mid d)"
  unfolding heartbeat_def by (intro spent_steps) simp

lemma spent_gate: "preserves (spent did n t ts) next \<Longrightarrow> preserves (spent did n t ts) (tier_gate ctx k m d device row next)"
  unfolding tier_gate_def by (auto intro!: spent_steps split: option.split prod.split simp: Let_def)

lemma spent_signed: "preserves (spent did n t ts) (signed_checks P now d dv key m sender body)"
  unfolding signed_checks_def by (auto intro!: spent_steps split: option.split)

lemma spent_enqueue: "preserves (spent did n t ts) (enqueue_one P mid d device carrier m sender body)"
  unfolding enqueue_one_def by (auto intro!: spent_steps spent_signed preserves_sum split: option.split prod.split)

lemma spent_forward: "preserves (spent did n t ts) (forward_sms P mid d m)"
  unfolding forward_sms_def Let_def
  by (auto intro!: spent_steps spent_gate spent_enqueue split: option.split list.split prod.split)

lemma spent_batch_signed: "preserves (spent did n t ts) (batch_signed P now d dv key req m sender body q b)"
  unfolding batch_signed_def drop_message_def by (auto intro!: spent_steps split: option.split)

lemma spent_batch_message: "preserves (spent did n t ts) (batch_message P now mid d device req m b)"
  unfolding batch_message_def drop_message_def Let_def
  by (auto intro!: spent_steps spent_batch_signed split: option.split list.split)

lemma spent_loop: "preserves (spent did n t ts) (batch_loop P now mid d device req ms b)"
  by (induction ms arbitrary: b) (auto intro!: spent_steps spent_batch_message)

lemma spent_forward_batch: "preserves (spent did n t ts) (forward_batch P mid d req)"
  unfolding forward_batch_def forward_checked_def
  by (auto intro!: spent_steps spent_gate spent_loop split: prod.split)

lemma spent_handle: "preserves (spent did n t ts) (handle P mid d r)"
  unfolding handle_def status_gate_def
  by (auto intro!: spent_steps spent_forward spent_forward_batch spent_rotate spent_revoke spent_heartbeat split: mobile_request.split)

definition prune :: "unit mprog" where
  "prune = andThen (reading mo_now) (\<lambda>now. catching (m_put (prune_nonces now)) (\<lambda>_. ret ()))"

text \<open>What may happen between two messages: requests of any device, overrides, the pruning job, and time.\<close>

datatype device_event = Request int int mobile_request | Override override_request | Prune | Wait nat

fun happen :: "mobile_platform \<Rightarrow> device_event list \<Rightarrow> mobile \<Rightarrow> mobile" where
  "happen P [] s = s"
| "happen P (Request mid did r # es) s = happen P es (snd (handle P mid did r s))"
| "happen P (Override q # es) s = happen P es (serve_overrides [(0, q)] s)"
| "happen P (Prune # es) s = happen P es (snd (prune s))"
| "happen P (Wait dt # es) s = happen P es (tick dt s)"

lemma sql_second_bounds: "sql_second t \<le> t" "t < sql_second t + 1000"
  unfolding sql_second_def using div_mult_mod_eq [of t 1000] pos_mod_sign [of 1000 t] pos_mod_bound [of 1000 t] by linarith+

lemma pruned_late:
  assumes "sql_second t < sql_second now - 600000"
  shows "t + 600000 < now"
proof -
  have "t div 1000 < now div 1000 - 600" using assms unfolding sql_second_def by linarith
  then have "t div 1000 + 1 \<le> now div 1000 - 600" by linarith
  then have "sql_second t + 1000 \<le> sql_second now - 600000" unfolding sql_second_def by linarith
  then show ?thesis using sql_second_bounds(2) [of t] sql_second_bounds(1) [of now] by linarith
qed

lemma spent_prune:
  assumes "\<bar>t - ts\<bar> \<le> 300000"
  shows "preserves (spent did n t ts) prune"
proof -
  have put: "triple (\<lambda>s. spent did n t ts s \<and> mo_now s = now) (m_put (prune_nonces now)) (\<lambda>_. spent did n t ts) (\<lambda>_. spent did n t ts)" for now
    unfolding m_put_def m_run_def
  proof (rule triple_m_remote, goal_cases)
    case 1
    then show ?case by (auto simp: m_pred_def spent_def same_device_def)
  next
    have p: "spent did n t ts (s\<lparr>mo_tables := prune_nonces now (mo_tables s)\<rparr>)" if "spent did n t ts s" "mo_now s = now" for s
      using that assms pruned_late [of t now] by (cases "sql_second t < sql_second now - 600000") (auto simp: spent_def prune_nonces_def)
    {
      case (2 s)
      with p show ?case by simp
    next
      case (4 e s)
      with p show ?case by simp
    }
  qed simp
  have "triple (spent did n t ts) (reading mo_now) (\<lambda>now s. spent did n t ts s \<and> mo_now s = now) (\<lambda>_. spent did n t ts)"
    by (rule triple_reading) simp
  then show ?thesis unfolding prune_def
    by (rule triple_andThen) (rule triple_catching [OF put], rule triple_ret)
qed

lemma spent_tick: "spent did n t ts s \<Longrightarrow> spent did n t ts (tick dt s)"
  by (auto simp: spent_def tick_def)

lemma spent_grant: "preserves (spent did n t ts) (grantDeviceOverride p)" "preserves (spent did n t ts) (revokeDeviceOverride q)"
proof -
  have ins: "preserves (spent did n t ts) (m_run (insert_override r))" for r
    unfolding m_run_def by (rule triple_m_remote) (auto simp: insert_override_def spent_def)
  have act: "preserves (spent did n t ts) (resolve_actor k)" "preserves (spent did n t ts) (known_user u)" for k u
    unfolding resolve_actor_def known_user_def by (intro spent_steps)+
  have "preserves (spent did n t ts) (grant_checked env p d now)" for env d now
    unfolding grant_checked_def record_override_def Let_def
    by (intro spent_steps ins act) (simp_all add: log_policy_def)
  then show "preserves (spent did n t ts) (grantDeviceOverride p)"
    unfolding grantDeviceOverride_def by (auto intro!: spent_steps split: prod.split)
  show "preserves (spent did n t ts) (revokeDeviceOverride q)"
    unfolding revokeDeviceOverride_def
    by (intro spent_steps act) (simp_all add: log_policy_def mark_revoked_def)
qed

lemma spent_serve: "spent did n t ts s \<Longrightarrow> spent did n t ts (serve_overrides rs s)"
  by (induction rs s rule: serve_overrides.induct) (auto intro: preservesD [OF spent_grant(1)] preservesD [OF spent_grant(2)] spent_tick)

lemma spent_happen: "\<bar>t - ts\<bar> \<le> 300000 \<Longrightarrow> spent did n t ts s \<Longrightarrow> spent did n t ts (happen P es s)"
proof (induction P es s rule: happen.induct)
  case (3 P q es s)
  then show ?case using spent_serve by (simp del: serve_overrides.simps)
qed (auto intro: preservesD [OF spent_handle] preservesD [OF spent_prune] spent_tick)

section \<open>Acceptance spends the nonce, and a spent nonce is refused\<close>

definition stamped :: "mobile_platform \<Rightarrow> forwarded \<Rightarrow> string \<Rightarrow> int \<Rightarrow> bool" where
  "stamped P m n ts \<longleftrightarrow> truthy (fw_nonce m) = Some n \<and> (\<exists>f. truthy_field (fw_timestamp m) = Some f \<and> read_timestamp P f = Some ts)"

definition accepted_at :: "mobile_platform \<Rightarrow> int \<Rightarrow> forwarded \<Rightarrow> int \<Rightarrow> mobile \<Rightarrow> bool" where
  "accepted_at P did m t s \<longleftrightarrow> (\<exists>n ts. stamped P m n ts \<and> \<bar>t - ts\<bar> \<le> 300000 \<and>
     \<lparr>nr_device_id = did, nr_nonce = n, nr_created_at = sql_second t\<rparr> \<in> set (op_device_nonces (mo_tables s)))"

lemma get_holds: "m_pred P \<Longrightarrow> triple P (m_get f) (\<lambda>r s. P s \<and> r = f (mo_tables s)) (\<lambda>_ _. True)"
  unfolding m_get_def by (rule triple_m_remote) auto

lemma now_pred [simp]: "m_pred (\<lambda>s. mo_now s = t)"
  by (simp add: m_pred_def same_device_def)

lemma insert_nonce_holds:
  "triple (\<lambda>s. mo_now s = t) (m_exec (insert_nonce did n t))
     (\<lambda>_ s. \<lparr>nr_device_id = did, nr_nonce = n, nr_created_at = sql_second t\<rparr> \<in> set (op_device_nonces (mo_tables s))) (\<lambda>_ _. True)"
proof -
  let ?row = "\<lparr>nr_device_id = did, nr_nonce = n, nr_created_at = sql_second t\<rparr>"
  have "triple (\<lambda>s. mo_now s = t) (m_run (\<lambda>tb. case insert_nonce did n t tb of Inl e \<Rightarrow> (Inl e, tb) | Inr (a, t') \<Rightarrow> (Inr a, t')))
      (\<lambda>r s. r = Inr () \<longrightarrow> ?row \<in> set (op_device_nonces (mo_tables s))) (\<lambda>_ _. True)"
    unfolding m_run_def by (rule triple_m_remote) (auto simp: insert_nonce_def)
  then show ?thesis unfolding m_exec_def
  proof (rule triple_andThen)
    fix r :: "exn + unit"
    show "triple (\<lambda>s. r = Inr () \<longrightarrow> ?row \<in> set (op_device_nonces (mo_tables s))) (case r of Inl e \<Rightarrow> throw e | Inr a \<Rightarrow> ret a)
        (\<lambda>_ s. ?row \<in> set (op_device_nonces (mo_tables s))) (\<lambda>_ _. True)"
      by (cases r) (auto intro: triple_throw triple_ret)
  qed
qed

lemma signed_checks_accept:
  "triple (\<lambda>s. mo_now s = t) (signed_checks P t did d key m sender body) (\<lambda>r s. r = Inr () \<longrightarrow> accepted_at P did m t s) (\<lambda>_ _. True)"
proof -
  have rej: "triple Q (ret (Inl e)) (\<lambda>r s. r = Inr () \<longrightarrow> A s) (\<lambda>_ _. True)" for Q A and e :: mobile_error
    by (rule triple_ret) simp
  have now: "triple (\<lambda>s. mo_now s = t) (m_get f) (\<lambda>_ s. mo_now s = t) (\<lambda>_ _. True)" for f :: "device_tables \<Rightarrow> bool"
    by (rule triple_weaken [OF preserves_m_get [OF now_pred]]) auto
  have fin: "triple (\<lambda>s. mo_now s = t) (andThen (m_exec (insert_nonce did n t)) (\<lambda>_. respond ())) (\<lambda>r s. r = Inr () \<longrightarrow> accepted_at P did m t s) (\<lambda>_ _. True)"
    if n: "truthy (fw_nonce m) = Some n" and f: "truthy_field (fw_timestamp m) = Some f" and b: "\<not> timestamp_out_of_bounds P t f" for n f
  proof -
    obtain ts where "read_timestamp P f = Some ts" "\<bar>t - ts\<bar> \<le> 300000"
      using b by (auto simp: timestamp_out_of_bounds_def split: option.splits)
    then have st: "stamped P m n ts" "\<bar>t - ts\<bar> \<le> 300000" using n f by (auto simp: stamped_def)
    show ?thesis
      by (rule triple_andThen [OF insert_nonce_holds], rule triple_ret) (use st in \<open>auto simp: accepted_at_def\<close>)
  qed
  show ?thesis unfolding signed_checks_def
    by (auto intro!: rej fin triple_andThen [OF now] split: option.split)
qed

lemma accepted_keeps: "triple (accepted_at P did m t) (sms_send q) (\<lambda>_. accepted_at P did m t) (\<lambda>_ _. True)"
  unfolding sms_send_def by (rule triple_m_remote) (auto simp: accepted_at_def m_pred_def same_device_def)

lemma now_kept: "triple (\<lambda>s. mo_now s = t) (m_get f) (\<lambda>_ s. mo_now s = t) (\<lambda>_ _. True)"
  by (rule triple_weaken [OF preserves_m_get [OF now_pred]]) auto

text \<open>Only an answer that accepts is of interest; every refusal satisfies the postcondition.\<close>

abbreviation if_accepted :: "(mobile \<Rightarrow> bool) \<Rightarrow> mobile_error + bool \<Rightarrow> mobile \<Rightarrow> bool" where
  "if_accepted A r s \<equiv> r = Inr True \<longrightarrow> A s"

lemma refuse_any: "triple Q (ret (Inl e)) (if_accepted A) (\<lambda>_ _. True)"
  by (rule triple_ret) simp

lemma read_now: "(\<And>env. triple (\<lambda>s. mo_now s = t) (k (env, t)) Q E) \<Longrightarrow> triple (\<lambda>s. mo_now s = t) (andThen (reading (\<lambda>s. (mo_env s, mo_now s))) k) Q E"
  by (auto simp: triple_def andThen_def reading_def)

lemma gate_rule:
  assumes "m_pred R" and "\<And>mode r a c. preserves R (recordPolicyEvaluation mid ctx mode r a c n)" and "\<And>d. preserves R (lookupActiveOverride mid d)"
    and "triple R next Q (\<lambda>_ _. True)" and "\<And>e. triple R (reject e) Q (\<lambda>_ _. True)"
  shows "triple R (tier_gate ctx n mid did device row next) Q (\<lambda>_ _. True)"
proof -
  have rd: "triple R (reading f) (\<lambda>_. R) (\<lambda>_ _. True)" for f :: "mobile \<Rightarrow> device_env \<times> device_tier \<times> device_tier \<times> enforcement_mode"
    by (rule triple_reading)
  have ev: "triple R (recordPolicyEvaluation mid ctx mode r a c n) (\<lambda>_. R) (\<lambda>_ _. True)" for mode r a c
    by (rule triple_weaken [OF assms(2)]) auto
  have ov: "triple R (lookupActiveOverride mid d) (\<lambda>_. R) (\<lambda>_ _. True)" for d
    by (rule triple_weaken [OF assms(3)]) auto
  show ?thesis unfolding tier_gate_def
    by (auto intro!: assms(4,5) triple_andThen [OF rd] triple_andThen [OF ev] triple_andThen [OF ov]
      simp: Let_def split: prod.split option.split)
qed

lemma now_evaluation: "preserves (\<lambda>s. mo_now s = t) (recordPolicyEvaluation mid ctx mode r a c n)"
  unfolding recordPolicyEvaluation_def
  by (intro preserves_if preserves_andThen preserves_catching preserves_pure preserves_m_put now_pred) simp

lemma now_override: "preserves (\<lambda>s. mo_now s = t) (lookupActiveOverride mid did)"
  unfolding lookupActiveOverride_def by (intro device_steps now_pred)

lemma enqueue_accepts:
  "triple (\<lambda>s. mo_now s = t) (enqueue_one P mid did device carrier m sender body) (if_accepted (accepted_at P did m t)) (\<lambda>_ _. True)"
proof -
  have unsigned: "triple Q (andThen (sms_send q) (\<lambda>_. respond False)) (if_accepted A) (\<lambda>_ _. True)" for Q q A
    by (auto simp: triple_def andThen_def ret_def split: prod.split sum.split)
  have signed: "triple (\<lambda>s. mo_now s = t) (andThen (signed_checks P t did d key m sender body) (\<lambda>checked. case checked of
        Inl e \<Rightarrow> reject e | Inr _ \<Rightarrow> andThen (sms_send q) (\<lambda>_. respond True))) (if_accepted (accepted_at P did m t)) (\<lambda>_ _. True)" for d key q
  proof (rule triple_andThen [OF signed_checks_accept])
    fix r :: "mobile_error + unit"
    show "triple (\<lambda>s. r = Inr () \<longrightarrow> accepted_at P did m t s) (case r of Inl e \<Rightarrow> reject e | Inr _ \<Rightarrow> andThen (sms_send q) (\<lambda>_. respond True))
        (if_accepted (accepted_at P did m t)) (\<lambda>_ _. True)"
      by (cases r) (auto intro!: refuse_any triple_andThen [OF accepted_keeps] triple_ret)
  qed
  show ?thesis unfolding enqueue_one_def
    by (rule read_now) (auto intro!: refuse_any signed unsigned triple_andThen [OF now_kept] split: option.split)
qed

lemma forward_accepts:
  "triple (\<lambda>s. mo_now s = t) (forward_sms P mid did m) (if_accepted (accepted_at P did m t)) (\<lambda>_ _. True)"
  unfolding forward_sms_def Let_def
  by (auto intro!: refuse_any gate_rule now_pred now_evaluation now_override enqueue_accepts triple_andThen [OF now_kept] split: option.split list.split prod.split)

text \<open>A stale stamp or a nonce on record is refused.\<close>

lemma nonce_listed: "\<lparr>nr_device_id = did, nr_nonce = n, nr_created_at = c\<rparr> \<in> set (op_device_nonces t) \<Longrightarrow> nonce_exists did n t"
  by (force simp: nonce_exists_def list_ex_iff)

lemma spent_refused:
  assumes "stamped P m n ts"
  shows "triple (\<lambda>s. spent did n t ts s \<and> mo_now s = now) (signed_checks P now did d key m sender body) (\<lambda>r _. r \<noteq> Inr ()) (\<lambda>_ _. True)"
proof -
  obtain f where f: "truthy (fw_nonce m) = Some n" "truthy_field (fw_timestamp m) = Some f" "read_timestamp P f = Some ts"
    using assms by (auto simp: stamped_def)
  have pr: "m_pred (\<lambda>s. spent did n t ts s \<and> mo_now s = now)"
    by (auto simp: m_pred_def spent_def same_device_def)
  have get: "triple (\<lambda>s. spent did n t ts s \<and> mo_now s = now) (m_get (nonce_exists did n)) (\<lambda>r _. \<not> timestamp_out_of_bounds P now f \<longrightarrow> r) (\<lambda>_ _. True)"
    by (rule triple_weaken [OF get_holds [OF pr]])
       (auto simp: spent_def timestamp_out_of_bounds_def f intro: nonce_listed)
  have rej: "triple Q (reject e) (\<lambda>r _. r \<noteq> Inr ()) (\<lambda>_ _. True)" for Q and e :: mobile_error
    by (rule triple_ret) simp
  show ?thesis unfolding signed_checks_def f(1,2) option.case
    by (auto intro!: rej triple_andThen [OF get] split: option.split) (auto simp: triple_def)
qed

text \<open>The state between: the nonce is spent and the clock stands.\<close>

definition used_up :: "int \<Rightarrow> string \<Rightarrow> int \<Rightarrow> int \<Rightarrow> int \<Rightarrow> mobile \<Rightarrow> bool" where
  "used_up did n t ts now s \<longleftrightarrow> spent did n t ts s \<and> mo_now s = now"

lemma triple_conj: "preserves P m \<Longrightarrow> preserves Q m \<Longrightarrow> preserves (\<lambda>s. P s \<and> Q s) m"
  by (auto simp: triple_def split: prod.splits sum.splits)

lemma used_up_pred: "m_pred (used_up did n t ts now)"
  by (auto simp: m_pred_def used_up_def spent_def same_device_def)

lemma used_up_kept:
  "preserves (used_up did n t ts now) (recordPolicyEvaluation mid ctx mode r a c k)"
  "preserves (used_up did n t ts now) (lookupActiveOverride mid d)"
  unfolding used_up_def by (intro triple_conj spent_evaluation spent_override now_evaluation now_override)+

lemma used_up_get: "triple (used_up did n t ts now) (m_get f) (\<lambda>_. used_up did n t ts now) (\<lambda>_ _. True)"
  by (rule triple_weaken [OF preserves_m_get [OF used_up_pred]]) auto

lemma used_up_now:
  "(\<And>env. triple (used_up did n t ts now) (k (env, now)) Q E) \<Longrightarrow>
     triple (used_up did n t ts now) (andThen (reading (\<lambda>s. (mo_env s, mo_now s))) k) Q E"
  by (auto simp: triple_def andThen_def reading_def used_up_def)

lemma enqueue_refused:
  assumes "stamped P m n ts"
  shows "triple (used_up did n t ts now) (enqueue_one P mid did device carrier m sender body) (\<lambda>r _. r \<noteq> Inr True) (\<lambda>_ _. True)"
proof -
  have rej: "triple Q (reject e) (\<lambda>r _. r \<noteq> Inr True) (\<lambda>_ _. True)" for Q and e :: mobile_error
    by (rule triple_ret) simp
  have unsigned: "triple Q (andThen (sms_send q) (\<lambda>_. respond False)) (\<lambda>r _. r \<noteq> Inr True) (\<lambda>_ _. True)" for Q q
    by (auto simp: triple_def andThen_def ret_def split: prod.split sum.split)
  have signed: "triple (used_up did n t ts now) (andThen (signed_checks P now did d key m sender body) (\<lambda>checked. case checked of
        Inl e \<Rightarrow> reject e | Inr _ \<Rightarrow> andThen (sms_send q) (\<lambda>_. respond True))) (\<lambda>r _. r \<noteq> Inr True) (\<lambda>_ _. True)" for d key q
  proof (rule triple_andThen [OF spent_refused [OF assms, folded used_up_def]])
    fix r :: "mobile_error + unit"
    show "triple (\<lambda>_. r \<noteq> Inr ()) (case r of Inl e \<Rightarrow> reject e | Inr _ \<Rightarrow> andThen (sms_send q) (\<lambda>_. respond True)) (\<lambda>r _. r \<noteq> Inr True) (\<lambda>_ _. True)"
      by (cases r) (auto intro!: rej, simp add: triple_def)
  qed
  show ?thesis unfolding enqueue_one_def
    by (rule used_up_now) (auto intro!: rej signed unsigned triple_andThen [OF used_up_get] split: option.split)
qed

lemma forward_refused:
  assumes "stamped P m n ts"
  shows "triple (used_up did n t ts now) (forward_sms P mid did m) (\<lambda>r _. r \<noteq> Inr True) (\<lambda>_ _. True)"
proof -
  have rej: "triple Q (reject e) (\<lambda>r _. r \<noteq> Inr True) (\<lambda>_ _. True)" for Q and e :: mobile_error
    by (rule triple_ret) simp
  show ?thesis unfolding forward_sms_def Let_def
    by (auto intro!: rej gate_rule used_up_pred used_up_kept enqueue_refused [OF assms] triple_andThen [OF used_up_get]
      split: option.split list.split prod.split)
qed

text \<open>C36: a signed message is accepted once.  After a message of a device has been accepted as signed, the same message from that device is
  never accepted as signed again, whatever requests of any devices, override changes, prunings of the nonce table, lost calls and waiting lie between:
  its nonce is pruned only when its stamp has long left the time window.
\<close>

theorem no_replay:
  assumes "forward_sms P mid did m s = (Inr (Inr True), s1)"
  shows "fst (forward_sms P mid did m (happen P es s1)) \<noteq> Inr (Inr True)"
proof -
  have "accepted_at P did m (mo_now s) s1"
    using tripleD [OF forward_accepts, of s "mo_now s" P mid did m "Inr True" s1] assms by simp
  then obtain n ts where st: "stamped P m n ts" and near: "\<bar>mo_now s - ts\<bar> \<le> 300000" and row: "spent did n (mo_now s) ts s1"
    by (auto simp: accepted_at_def spent_def)
  let ?s = "happen P es s1"
  have "used_up did n (mo_now s) ts (mo_now ?s) ?s" using spent_happen [OF near row] by (simp add: used_up_def)
  then show ?thesis
    using tripleD [OF forward_refused [OF st], of did "mo_now s" "mo_now ?s" ?s mid "Inr True"] by (cases "forward_sms P mid did m ?s") auto
qed

section \<open>A message and its replay\<close>

lemmas m_exec_run [code] = m_exec_def [THEN fun_cong, unfolded prog_run]
lemmas sms_send_run [code] = sms_send_def [THEN fun_cong, unfolded m_remote_def Let_def]
lemmas recordPolicyEvaluation_run [code] = recordPolicyEvaluation_def [THEN fun_cong, unfolded prog_run]
lemmas lookupActiveOverride_run [code] = lookupActiveOverride_def [THEN fun_cong, unfolded prog_run]
lemmas tier_gate_run [code] = tier_gate_def [THEN fun_cong, unfolded prog_run]
lemmas signed_checks_run [code] = signed_checks_def [THEN fun_cong, unfolded prog_run]
lemmas enqueue_one_run [code] = enqueue_one_def [THEN fun_cong, unfolded prog_run]
lemmas forward_sms_run [code] = forward_sms_def [THEN fun_cong, unfolded prog_run]
lemmas status_gate_run [code] = status_gate_def [THEN fun_cong, unfolded prog_run]

definition demo_platform :: mobile_platform where
  "demo_platform = \<lparr>mp_nfc = id, mp_date = \<lambda>_. None, mp_base64 = \<lambda>_. Some (replicate 64 1), mp_verify = \<lambda>_ _ _. True\<rparr>"

definition demo_message :: forwarded where
  "demo_message = \<lparr>fw_id = None, fw_sender = Some ''bKash'', fw_body = Some [65], fw_timestamp = Some (FNumber 1000), fw_nonce = Some ''n1'',
     fw_signature = Some ''c2ln''\<rparr>"

definition demo_served :: mobile where
  "demo_served = serve_overrides [(0, demo_grant)] demo_mobile"

lemma demo_accepted: "fst (forward_sms demo_platform 1 7 demo_message demo_served) = Inr (Inr True)"
  by code_simp

theorem no_replay_witness:
  "fst (forward_sms demo_platform 1 7 demo_message demo_served) = Inr (Inr True) \<and>
   fst (forward_sms demo_platform 1 7 demo_message
     (happen demo_platform [Wait 5, Prune] (snd (forward_sms demo_platform 1 7 demo_message demo_served)))) \<noteq> Inr (Inr True)"
proof -
  have "forward_sms demo_platform 1 7 demo_message demo_served = (Inr (Inr True), snd (forward_sms demo_platform 1 7 demo_message demo_served))"
    using demo_accepted by (metis prod.collapse)
  from no_replay [OF this] demo_accepted show ?thesis by blast
qed

lemma demo_queued: "length (mo_sms_queue (snd (handle demo_platform 1 7 (ForwardSms demo_message) demo_served))) = 1 \<and> mo_sms_queue demo_served = []"
  by code_simp

theorem queued_messages_vetted_witness:
  "\<exists>q. mo_sms_queue (snd (handle demo_platform 1 7 (ForwardSms demo_message) demo_served)) = [q] \<and> vetted demo_platform demo_served 1 7 q"
proof -
  obtain qs where "mo_sms_queue (snd (handle demo_platform 1 7 (ForwardSms demo_message) demo_served)) = mo_sms_queue demo_served @ qs"
      "list_all (vetted demo_platform demo_served 1 7) qs"
    using queued_messages_vetted [of demo_platform 1 7 "ForwardSms demo_message" demo_served] by (metis prod.collapse)
  then show ?thesis using demo_queued by (cases qs) auto
qed

text \<open>
  The velocity limit counts nonces, and a device without a key leaves none: its messages are not limited.
\<close>

lemma keyless_spends_no_nonce:
  assumes "device_key device = None"
  shows "preserves (\<lambda>s. op_device_nonces (mo_tables s) = ns) (enqueue_one P mid did device carrier m sender body)"
proof -
  have p: "m_pred (\<lambda>s. op_device_nonces (mo_tables s) = ns)" by (simp add: m_pred_def same_device_def)
  have send: "preserves (\<lambda>s. op_device_nonces (mo_tables s) = ns) (sms_send q)" for q
    unfolding sms_send_def by (rule triple_m_remote [OF p]) auto
  have none: "(case (device, None) of (Some d, Some key) \<Rightarrow> f d key | _ \<Rightarrow> g) = g" for f and g :: "bool answer" by (cases device) simp_all
  show ?thesis unfolding enqueue_one_def assms none
    by (auto intro!: device_steps p send split: prod.split)
qed

end
