(* ===== verification/X509.thy ===== *)
theory X509
  imports DeviceCrypto "HOL-Library.Monad_Syntax"
begin

text \<open>
  Certificates, after \<open>lib/x509.ts\<close>.  A field read from a missing child is a \<open>TypeError\<close>, so reading a
  certificate is a partial function: \<open>None\<close> stands for any exception.  The two verifications of
  \<open>crypto.subtle\<close> (import of the key included) are arguments; they answer \<open>False\<close> where the call rejects.
\<close>

record x509_extension =
  xe_oid :: string
  xe_critical :: bool
  xe_extnValue :: "byte list"

record certificate =
  ce_raw :: "byte list"
  ce_tbsRaw :: "byte list"
  ce_serialNumber :: int
  ce_signatureAlgorithmOid :: string
  ce_signatureBytes :: "byte list"
  ce_issuerRaw :: "byte list"
  ce_subjectRaw :: "byte list"
  ce_notBefore :: int
  ce_notAfter :: int
  ce_spkiRaw :: "byte list"
  ce_spkiNode :: asn1_node
  ce_extensions :: "(string \<times> x509_extension) list"

section \<open>Reading a certificate\<close>

definition child :: "asn1_node list \<Rightarrow> nat \<Rightarrow> asn1_node option" where
  "child ns i = (if i < length ns then Some (ns ! i) else None)"

definition context_tag :: "int \<Rightarrow> asn1_node \<Rightarrow> bool" where
  "context_tag t n \<longleftrightarrow> node_class n = Context \<and> node_tagNumber n = t"

text \<open>One extension: \<open>Some None\<close> when it is skipped.\<close>

definition read_extension :: "asn1_node \<Rightarrow> x509_extension option option" where
  "read_extension ext = (case node_children ext of
      Some (o1 # c1 # rest) \<Rightarrow> do {
        extOid \<leftarrow> asn1OidToString o1;
        if rest \<noteq> [] \<and> node_tagNumber c1 = 1
        then do { critical \<leftarrow> asn1Boolean c1;
                  Some (Some \<lparr>xe_oid = extOid, xe_critical = critical, xe_extnValue = node_valueBytes (hd rest)\<rparr>) }
        else Some (Some \<lparr>xe_oid = extOid, xe_critical = False, xe_extnValue = node_valueBytes c1\<rparr>) }
    | _ \<Rightarrow> Some None)"

fun read_extensions :: "asn1_node list \<Rightarrow> (string \<times> x509_extension) list \<Rightarrow> (string \<times> x509_extension) list option" where
  "read_extensions [] m = Some m"
| "read_extensions (ext # exts) m = do {
     x \<leftarrow> read_extension ext;
     read_extensions exts (case x of None \<Rightarrow> m | Some e \<Rightarrow> AList.update (xe_oid e) e m) }"

fun optional_fields :: "asn1_node list \<Rightarrow> (string \<times> x509_extension) list \<Rightarrow> (string \<times> x509_extension) list option" where
  "optional_fields [] m = Some m"
| "optional_fields (opt # opts) m =
     (if context_tag 3 opt
      then case node_children opt of
          Some (extsSeq # _) \<Rightarrow> (case node_children extsSeq of
              Some exts \<Rightarrow> do { m' \<leftarrow> read_extensions exts m; optional_fields opts m' }
            | None \<Rightarrow> optional_fields opts m)
        | _ \<Rightarrow> optional_fields opts m
      else optional_fields opts m)"

definition validity :: "asn1_node \<Rightarrow> (int \<times> int) option" where
  "validity n = (case node_children n of
      Some (a # b # _) \<Rightarrow> do { notBefore \<leftarrow> asn1Date a; notAfter \<leftarrow> asn1Date b; Some (notBefore, notAfter) }
    | _ \<Rightarrow> None)"

definition algorithm_oid :: "asn1_node \<Rightarrow> string option" where
  "algorithm_oid n = (case node_children n of
      None \<Rightarrow> asn1OidToString n
    | Some [] \<Rightarrow> None
    | Some (c # _) \<Rightarrow> asn1OidToString c)"

definition certificate_of :: "byte list \<Rightarrow> asn1_node \<Rightarrow> certificate option" where
  "certificate_of certDer rootNode = (case node_children rootNode of
      Some (tbsNode # sigAlgNode # sigValNode # _) \<Rightarrow> do {
        sigAlgOid \<leftarrow> algorithm_oid sigAlgNode;
        (unusedBits, signatureBytes) \<leftarrow> asn1BitString sigValNode;
        tbs \<leftarrow> node_children tbsNode;
        if length tbs < 6 then None else do {
          let i = (if context_tag 0 (hd tbs) then 1 else 0);
          serialNode \<leftarrow> child tbs i;
          serialNumber \<leftarrow> asn1IntegerToBigInt serialNode;
          issuerNode \<leftarrow> child tbs (i + 2);
          validityNode \<leftarrow> child tbs (i + 3);
          (notBefore, notAfter) \<leftarrow> validity validityNode;
          subjectNode \<leftarrow> child tbs (i + 4);
          spkiNode \<leftarrow> child tbs (i + 5);
          extensions \<leftarrow> optional_fields (drop (i + 6) tbs) [];
          Some \<lparr>ce_raw = certDer, ce_tbsRaw = node_raw tbsNode, ce_serialNumber = serialNumber, ce_signatureAlgorithmOid = sigAlgOid,
            ce_signatureBytes = signatureBytes, ce_issuerRaw = node_raw issuerNode, ce_subjectRaw = node_raw subjectNode,
            ce_notBefore = notBefore, ce_notAfter = notAfter, ce_spkiRaw = node_raw spkiNode, ce_spkiNode = spkiNode, ce_extensions = extensions\<rparr> } }
    | _ \<Rightarrow> None)"

text \<open>With fuel for the DER reader: the outer \<open>None\<close> is a reader that has not returned, the inner one an exception.\<close>

definition parseX509Certificate :: "nat \<Rightarrow> byte list \<Rightarrow> certificate option option" where
  "parseX509Certificate n certDer = (case parseAsn1 n certDer of
      None \<Rightarrow> None
    | Some (Inl _) \<Rightarrow> Some None
    | Some (Inr rootNode) \<Rightarrow> Some (certificate_of certDer rootNode))"

section \<open>Signatures\<close>

fun equalBytes :: "byte list \<Rightarrow> byte list \<Rightarrow> bool" where
  "equalBytes [] [] = True"
| "equalBytes (x # xs) (y # ys) = (x = y \<and> equalBytes xs ys)"
| "equalBytes _ _ = False"

lemma equalBytes_iff [simp]: "equalBytes xs ys = (xs = ys)"
  by (induction xs ys rule: equalBytes.induct) auto

datatype signature_scheme = RSASSA_PKCS1_v1_5 | ECDSA
datatype hash_name = SHA_256 | SHA_384 | SHA_512
datatype curve_name = P_256 | P_384 | P_521

definition SIG_ALGS :: "(string \<times> signature_scheme \<times> hash_name) list" where
  "SIG_ALGS = [(''1.2.840.113549.1.1.11'', RSASSA_PKCS1_v1_5, SHA_256), (''1.2.840.113549.1.1.12'', RSASSA_PKCS1_v1_5, SHA_384),
    (''1.2.840.113549.1.1.13'', RSASSA_PKCS1_v1_5, SHA_512), (''1.2.840.10045.4.3.2'', ECDSA, SHA_256),
    (''1.2.840.10045.4.3.3'', ECDSA, SHA_384), (''1.2.840.10045.4.3.4'', ECDSA, SHA_512)]"

definition ALLOWED_SIG_OIDS :: "string list" where
  "ALLOWED_SIG_OIDS = [''1.2.840.113549.1.1.11'', ''1.2.840.113549.1.1.12'', ''1.2.840.113549.1.1.13'',
    ''1.2.840.10045.4.3.2'', ''1.2.840.10045.4.3.3'', ''1.2.840.10045.4.3.4'']"

record subtle =
  su_verify_rsa :: "hash_name \<Rightarrow> byte list \<Rightarrow> byte list \<Rightarrow> byte list \<Rightarrow> bool"
  su_verify_ecdsa :: "curve_name \<Rightarrow> hash_name \<Rightarrow> byte list \<Rightarrow> byte list \<Rightarrow> byte list \<Rightarrow> bool"

definition spki_curve :: "asn1_node \<Rightarrow> curve_name \<times> nat" where
  "spki_curve spki = (case node_children spki of
      Some (algId # _) \<Rightarrow> (case node_children algId of
          Some (_ # c # _) \<Rightarrow>
            (if asn1OidToString c = Some ''1.3.132.0.34'' then (P_384, 48)
             else if asn1OidToString c = Some ''1.3.132.0.35'' then (P_521, 66) else (P_256, 32))
        | _ \<Rightarrow> (P_256, 32))
    | _ \<Rightarrow> (P_256, 32))"

text \<open>\<open>None\<close> is the exception \<open>UNSUPPORTED_SIG_ALG\<close>.\<close>

definition verifyCertificateSignature :: "subtle \<Rightarrow> certificate \<Rightarrow> certificate \<Rightarrow> bool option" where
  "verifyCertificateSignature S c parent =
     (if ce_signatureAlgorithmOid c \<notin> set ALLOWED_SIG_OIDS then None
      else case map_of SIG_ALGS (ce_signatureAlgorithmOid c) of
          None \<Rightarrow> None
        | Some (RSASSA_PKCS1_v1_5, h) \<Rightarrow> Some (su_verify_rsa S h (ce_spkiRaw parent) (ce_signatureBytes c) (ce_tbsRaw c))
        | Some (ECDSA, h) \<Rightarrow> (case spki_curve (ce_spkiNode parent) of (curve, keySize) \<Rightarrow>
            (case derToP1363 (ce_signatureBytes c) keySize of
                Inl _ \<Rightarrow> Some False
              | Inr sig \<Rightarrow> Some (su_verify_ecdsa S curve h (ce_spkiRaw parent) sig (ce_tbsRaw c)))))"

end
