(* ===== verification/KeyAttestation.thy ===== *)
theory KeyAttestation
  imports X509
begin

text \<open>
  The verifier of Android key attestations, after \<open>services/key-attestation.ts\<close>: the chain of
  certificates up to a pinned root, and the key description in the first certificate.  The pinned
  keys are data of the verifier.  The audit record of the verdict is not modelled.
\<close>

datatype attestation_failure =
    ChainTooShort | ChainTooLong | CertParseFailed | CertExpired | UnsupportedSigAlg | ChainSignatureInvalid | RootNotTrusted
  | ExtensionMissing | KeyDescriptionMalformed | KeyDescriptionTruncated | ChallengeMismatch | NotHardware | StrongBoxRequired
  | KeyNotAppScoped | TeeEnforcedEmpty | OriginInvalid | PurposeInvalid | AlgorithmInvalid | CurveInvalid | VerifiedBootFailed | DeviceUnlocked

record attestation_verdict =
  av_verified :: bool
  av_strong :: bool
  av_verifiedBoot :: bool
  av_deviceLocked :: bool
  av_osVersion :: int
  av_patchLevel :: string
  av_failure :: "attestation_failure option"

record verify_options =
  vo_allowUnverifiedBoot :: bool
  vo_allowUnlocked :: bool
  vo_requireStrongBox :: bool

record attestation_verifier =
  ver_pinnedRoots :: "byte list list"
  ver_testRootCertDer :: "byte list option"

definition refuse_with :: "bool \<Rightarrow> bool \<Rightarrow> bool \<Rightarrow> attestation_failure \<Rightarrow> attestation_verdict" where
  "refuse_with strong vb locked f = \<lparr>av_verified = False, av_strong = strong, av_verifiedBoot = vb, av_deviceLocked = locked,
     av_osVersion = 0, av_patchLevel = [], av_failure = Some f\<rparr>"

abbreviation refuse :: "attestation_failure \<Rightarrow> attestation_verdict" where
  "refuse \<equiv> refuse_with False False False"

definition KEY_DESCRIPTION_OID :: string where
  "KEY_DESCRIPTION_OID = ''1.3.6.1.4.1.11129.2.1.17''"

section \<open>The chain\<close>

fun parse_chain :: "nat \<Rightarrow> byte list list \<Rightarrow> certificate list option option" where
  "parse_chain n [] = Some (Some [])"
| "parse_chain n (d # ds) = (case parseX509Certificate n d of
      None \<Rightarrow> None
    | Some None \<Rightarrow> Some None
    | Some (Some c) \<Rightarrow> (case parse_chain n ds of
          None \<Rightarrow> None
        | Some None \<Rightarrow> Some None
        | Some (Some cs) \<Rightarrow> Some (Some (c # cs))))"

definition in_validity :: "int \<Rightarrow> certificate \<Rightarrow> bool" where
  "in_validity now c \<longleftrightarrow> \<not> (now < ce_notBefore c \<or> now > ce_notAfter c)"

fun check_chain :: "subtle \<Rightarrow> int \<Rightarrow> certificate list \<Rightarrow> attestation_failure option" where
  "check_chain S now [] = None"
| "check_chain S now (c # cs) =
     (if \<not> in_validity now c then Some CertExpired
      else if ce_signatureAlgorithmOid c \<notin> set ALLOWED_SIG_OIDS then Some UnsupportedSigAlg
      else case cs of
          [] \<Rightarrow> None
        | parent # _ \<Rightarrow> (case verifyCertificateSignature S c parent of
              None \<Rightarrow> Some UnsupportedSigAlg
            | Some valid \<Rightarrow> if valid then check_chain S now cs else Some ChainSignatureInvalid))"

text \<open>The outer option is the fuel of the reader, the inner one an exception.\<close>

definition root_trusted :: "attestation_verifier \<Rightarrow> nat \<Rightarrow> certificate \<Rightarrow> bool option option" where
  "root_trusted V n rootCert =
     (if list_ex (equalBytes (ce_spkiRaw rootCert)) (ver_pinnedRoots V) then Some (Some True)
      else case ver_testRootCertDer V of
          None \<Rightarrow> Some (Some False)
        | Some der \<Rightarrow> map_option (map_option (\<lambda>t. equalBytes (ce_spkiRaw rootCert) (ce_spkiRaw t) \<or> equalBytes (ce_raw rootCert) der))
            (parseX509Certificate n der))"

section \<open>The key description\<close>

fun authorization_items :: "asn1_node list \<Rightarrow> (int \<times> asn1_node) list \<Rightarrow> (int \<times> asn1_node) list" where
  "authorization_items [] m = m"
| "authorization_items (item # items) m =
     authorization_items items (if node_class item = Context then AList.update (node_tagNumber item) item m else m)"

definition parseAuthorizationList :: "asn1_node \<Rightarrow> (int \<times> asn1_node) list" where
  "parseAuthorizationList seqNode = (case node_children seqNode of None \<Rightarrow> [] | Some items \<Rightarrow> authorization_items items [])"

text \<open>\<open>asn1IntegerToNumber(node.children[0])\<close>, for a node with children.\<close>

definition first_number :: "asn1_node list \<Rightarrow> int option" where
  "first_number cs = (case cs of [] \<Rightarrow> None | c # _ \<Rightarrow> asn1IntegerToNumber c)"

definition tag_children :: "(int \<times> asn1_node) list \<Rightarrow> int \<Rightarrow> asn1_node list option" where
  "tag_children m t = Option.bind (map_of m t) node_children"

definition origin_generated :: "(int \<times> asn1_node) list \<Rightarrow> bool option" where
  "origin_generated tee = (case tag_children tee 702 of None \<Rightarrow> Some False | Some cs \<Rightarrow> map_option (\<lambda>k. k = 0) (first_number cs))"

fun any_sign :: "asn1_node list \<Rightarrow> bool option" where
  "any_sign [] = Some False"
| "any_sign (p # ps) = (case asn1IntegerToNumber p of None \<Rightarrow> None | Some k \<Rightarrow> if k = 2 then Some True else any_sign ps)"

definition sign_purpose :: "(int \<times> asn1_node) list \<Rightarrow> bool option" where
  "sign_purpose tee = (case tag_children tee 1 of
      None \<Rightarrow> Some False
    | Some [] \<Rightarrow> None
    | Some (c # cs) \<Rightarrow> any_sign (case node_children c of Some ps \<Rightarrow> ps | None \<Rightarrow> c # cs))"

definition absent_or :: "(int \<times> asn1_node) list \<Rightarrow> int \<Rightarrow> int \<Rightarrow> bool option" where
  "absent_or tee t k = (case tag_children tee t of None \<Rightarrow> Some True | Some cs \<Rightarrow> map_option (\<lambda>v. v = k) (first_number cs))"

text \<open>\<open>(deviceLocked, verifiedBoot)\<close> of the root of trust.\<close>

definition root_of_trust :: "(int \<times> asn1_node) list \<Rightarrow> (bool \<times> bool) option" where
  "root_of_trust tee = (case tag_children tee 704 of
      None \<Rightarrow> Some (False, False)
    | Some [] \<Rightarrow> None
    | Some (rotSeq # _) \<Rightarrow> (case node_children rotSeq of
          Some (_ # lockedNode # stateNode # _) \<Rightarrow> do {
            locked \<leftarrow> asn1Boolean lockedNode; vbState \<leftarrow> asn1IntegerToNumber stateNode; Some (locked, vbState = 0) }
        | _ \<Rightarrow> Some (False, False)))"

definition js_rem :: "int \<Rightarrow> int \<Rightarrow> int" where
  "js_rem a b = (if 0 \<le> a then a mod b else - ((- a) mod b))"

definition patch_string :: "int \<Rightarrow> string" where
  "patch_string p = int_str (p div 100) @ ''-'' @ (let month = int_str (js_rem p 100) in if length month < 2 then CHR ''0'' # month else month)"

definition os_version :: "(int \<times> asn1_node) list \<Rightarrow> int option" where
  "os_version tee = (case tag_children tee 705 of None \<Rightarrow> Some 0 | Some cs \<Rightarrow> first_number cs)"

definition patch_level :: "(int \<times> asn1_node) list \<Rightarrow> string option" where
  "patch_level tee = (case tag_children tee 706 of None \<Rightarrow> Some [] | Some cs \<Rightarrow> map_option patch_string (first_number cs))"

text \<open>The checks of the authorization lists; \<open>None\<close> is an exception.\<close>

definition check_lists :: "verify_options \<Rightarrow> bool \<Rightarrow> (int \<times> asn1_node) list \<Rightarrow> (int \<times> asn1_node) list \<Rightarrow> attestation_verdict option" where
  "check_lists opts strong sw tee =
     (if map_of sw 600 \<noteq> None \<or> map_of tee 600 \<noteq> None then Some (refuse_with strong False False KeyNotAppScoped)
      else if tee = [] then Some (refuse_with strong False False TeeEnforcedEmpty)
      else do {
        generated \<leftarrow> origin_generated tee;
        if \<not> generated then Some (refuse_with strong False False OriginInvalid) else do {
        signs \<leftarrow> sign_purpose tee;
        if \<not> signs then Some (refuse_with strong False False PurposeInvalid) else do {
        ec \<leftarrow> absent_or tee 2 3;
        if \<not> ec then Some (refuse_with strong False False AlgorithmInvalid) else do {
        p256 \<leftarrow> absent_or tee 10 1;
        if \<not> p256 then Some (refuse_with strong False False CurveInvalid) else do {
        (locked, vb) \<leftarrow> root_of_trust tee;
        if \<not> vb \<and> \<not> vo_allowUnverifiedBoot opts then Some (refuse_with strong False locked VerifiedBootFailed)
        else if \<not> locked \<and> \<not> vo_allowUnlocked opts then Some (refuse_with strong vb False DeviceUnlocked)
        else do {
          osVersion \<leftarrow> os_version tee;
          patchLevel \<leftarrow> patch_level tee;
          Some \<lparr>av_verified = True, av_strong = strong, av_verifiedBoot = vb, av_deviceLocked = locked,
            av_osVersion = osVersion, av_patchLevel = patchLevel, av_failure = None\<rparr> } }}}}})"

definition check_description :: "verify_options \<Rightarrow> byte list \<Rightarrow> asn1_node list \<Rightarrow> attestation_verdict option" where
  "check_description opts expectedChallenge cs =
     (if length cs < 8 then Some (refuse KeyDescriptionTruncated)
      else do {
        attestationVersion \<leftarrow> asn1IntegerToNumber (cs ! 0);
        securityLevel \<leftarrow> asn1IntegerToNumber (cs ! 1);
        keymasterVersion \<leftarrow> asn1IntegerToNumber (cs ! 2);
        keymasterLevel \<leftarrow> asn1IntegerToNumber (cs ! 3);
        if \<not> equalBytes (node_valueBytes (cs ! 4)) expectedChallenge then Some (refuse ChallengeMismatch)
        else if securityLevel = 0 then Some (refuse NotHardware)
        else let strong = (securityLevel = 2)
          in if vo_requireStrongBox opts \<and> \<not> strong then Some (refuse StrongBoxRequired)
             else check_lists opts strong (parseAuthorizationList (cs ! 6)) (parseAuthorizationList (cs ! 7)) })"

text \<open>The key description of the first certificate.\<close>

definition check_leaf :: "nat \<Rightarrow> verify_options \<Rightarrow> byte list \<Rightarrow> certificate \<Rightarrow> attestation_verdict option option" where
  "check_leaf n opts expectedChallenge leafCert = (case map_of (ce_extensions leafCert) KEY_DESCRIPTION_OID of
      None \<Rightarrow> Some (Some (refuse ExtensionMissing))
    | Some attExt \<Rightarrow> (case parseAsn1 n (xe_extnValue attExt) of
          None \<Rightarrow> None
        | Some (Inl _) \<Rightarrow> Some (Some (refuse KeyDescriptionMalformed))
        | Some (Inr keyDesc) \<Rightarrow> Some (case node_children keyDesc of
              None \<Rightarrow> Some (refuse KeyDescriptionTruncated)
            | Some cs \<Rightarrow> check_description opts expectedChallenge cs)))"

definition verify_attestation ::
  "attestation_verifier \<Rightarrow> subtle \<Rightarrow> nat \<Rightarrow> int \<Rightarrow> verify_options \<Rightarrow> byte list list \<Rightarrow> byte list \<Rightarrow> attestation_verdict option option" where
  "verify_attestation V S n now opts chain expectedChallenge =
     (if length chain < 2 then Some (Some (refuse ChainTooShort))
      else if length chain > 5 then Some (Some (refuse ChainTooLong))
      else case parse_chain n chain of
          None \<Rightarrow> None
        | Some None \<Rightarrow> Some (Some (refuse CertParseFailed))
        | Some (Some certs) \<Rightarrow> (case check_chain S now certs of
              Some f \<Rightarrow> Some (Some (refuse f))
            | None \<Rightarrow> (case root_trusted V n (last certs) of
                  None \<Rightarrow> None
                | Some None \<Rightarrow> Some None
                | Some (Some trusted) \<Rightarrow>
                    if trusted then check_leaf n opts expectedChallenge (hd certs) else Some (Some (refuse RootNotTrusted)))))"

section \<open>What a verified attestation means\<close>

lemma parse_chain_length: "parse_chain n ds = Some (Some cs) \<Longrightarrow> length cs = length ds"
  by (induction ds arbitrary: cs) (auto split: option.splits)

lemma check_chain_sound:
  "check_chain S now cs = None \<Longrightarrow>
    list_all (in_validity now) cs \<and> successively (\<lambda>c p. verifyCertificateSignature S c p = Some True) cs"
proof (induction S now cs rule: check_chain.induct)
  case (2 S now c cs)
  show ?case
  proof (cases cs)
    case Nil
    then show ?thesis using "2.prems" by (simp split: if_splits)
  next
    case (Cons p ps)
    then have "verifyCertificateSignature S c p = Some True" "check_chain S now cs = None"
      using "2.prems" by (auto split: if_splits option.splits)
    then show ?thesis using 2 Cons by (auto split: if_splits)
  qed
qed simp

text \<open>A chain stays valid when its first key signs one more certificate: no certificate has to be marked as an authority.\<close>

lemma check_chain_extends:
  assumes "check_chain S now (c # cs) = None" and "in_validity now x" and "ce_signatureAlgorithmOid x \<in> set ALLOWED_SIG_OIDS"
    and "verifyCertificateSignature S x c = Some True"
  shows "check_chain S now (x # c # cs) = None"
  using assms by simp

lemma signature_ignores_extensions [simp]:
  "verifyCertificateSignature S (c\<lparr>ce_extensions := x\<rparr>) (p\<lparr>ce_extensions := y\<rparr>) = verifyCertificateSignature S c p"
  by (cases c; cases p) (simp only: verifyCertificateSignature_def certificate.select_convs certificate.update_convs)

lemma check_chain_map:
  assumes "\<And>c. in_validity now (f c) = in_validity now c" and "\<And>c. ce_signatureAlgorithmOid (f c) = ce_signatureAlgorithmOid c"
    and "\<And>c p. verifyCertificateSignature S (f c) (f p) = verifyCertificateSignature S c p"
  shows "check_chain S now (map f cs) = check_chain S now cs"
proof (induction cs)
  case (Cons c cs)
  show ?case
  proof (cases cs)
    case (Cons p ps)
    then have "check_chain S now (f p # map f ps) = check_chain S now (p # ps)" using Cons.IH by simp
    then show ?thesis
      unfolding Cons list.map check_chain.simps(2) [of S now "f c"] check_chain.simps(2) [of S now c] list.case assms by (rule arg_cong)
  qed (simp add: assms)
qed simp

lemma check_chain_ignores_extensions: "check_chain S now (map (\<lambda>c. c\<lparr>ce_extensions := e c\<rparr>) cs) = check_chain S now cs"
  by (rule check_chain_map) (simp_all add: in_validity_def)

definition describes :: "nat \<Rightarrow> byte list \<Rightarrow> certificate \<Rightarrow> int \<Rightarrow> (int \<times> asn1_node) list \<Rightarrow> (int \<times> asn1_node) list \<Rightarrow> bool" where
  "describes n challenge c level sw tee \<longleftrightarrow>
     (\<exists>att keyDesc cs. map_of (ce_extensions c) KEY_DESCRIPTION_OID = Some att \<and> parseAsn1 n (xe_extnValue att) = Some (Inr keyDesc) \<and>
        node_children keyDesc = Some cs \<and> 8 \<le> length cs \<and> asn1IntegerToNumber (cs ! 1) = Some level \<and> node_valueBytes (cs ! 4) = challenge \<and>
        sw = parseAuthorizationList (cs ! 6) \<and> tee = parseAuthorizationList (cs ! 7))"

definition lists_satisfy :: "verify_options \<Rightarrow> attestation_verdict \<Rightarrow> (int \<times> asn1_node) list \<Rightarrow> (int \<times> asn1_node) list \<Rightarrow> bool" where
  "lists_satisfy opts v sw tee \<longleftrightarrow>
     map_of sw 600 = None \<and> map_of tee 600 = None \<and> origin_generated tee = Some True \<and> sign_purpose tee = Some True \<and>
     absent_or tee 2 3 = Some True \<and> absent_or tee 10 1 = Some True \<and> root_of_trust tee = Some (av_deviceLocked v, av_verifiedBoot v) \<and>
     (vo_allowUnverifiedBoot opts \<or> av_verifiedBoot v) \<and> (vo_allowUnlocked opts \<or> av_deviceLocked v)"

lemma refuse_not_verified [simp]: "\<not> av_verified (refuse_with s b l f)"
  by (simp add: refuse_with_def)

lemma bind_passed:
  assumes "Option.bind m (\<lambda>b. if \<not> b then Some (refuse_with x y z f) else k) = Some v" and "av_verified v"
  shows "m = Some True \<and> k = Some v"
  using assms by (cases m) (auto split: if_splits)

lemma check_lists_sound:
  assumes "check_lists opts strong sw tee = Some v" and "av_verified v"
  shows "lists_satisfy opts v sw tee \<and> av_strong v = strong"
proof -
  have ne: "map_of sw 600 = None \<and> map_of tee 600 = None \<and> tee \<noteq> []"
    using assms by (cases "map_of sw 600 \<noteq> None \<or> map_of tee 600 \<noteq> None"; cases "tee = []") (auto simp: check_lists_def)
  note run = assms(1) [unfolded check_lists_def, simplified ne, simplified]
  note origin = bind_passed [OF run assms(2)]
  note purpose = bind_passed [OF conjunct2 [OF origin] assms(2)]
  note algorithm = bind_passed [OF conjunct2 [OF purpose] assms(2)]
  note curve = bind_passed [OF conjunct2 [OF algorithm] assms(2)]
  obtain locked vb where rot: "root_of_trust tee = Some (locked, vb)" using conjunct2 [OF curve] by (cases "root_of_trust tee") auto
  have "(vo_allowUnverifiedBoot opts \<or> vb) \<and> (vo_allowUnlocked opts \<or> locked) \<and> av_verifiedBoot v = vb \<and> av_deviceLocked v = locked \<and> av_strong v = strong"
    using conjunct2 [OF curve] assms(2) by (auto simp: rot bind_eq_Some_conv split: if_splits)
  then show ?thesis using ne origin purpose algorithm curve rot by (simp add: lists_satisfy_def)
qed

lemma check_leaf_sound:
  assumes "check_leaf n opts challenge c = Some (Some v)" and "av_verified v"
  shows "\<exists>level sw tee. describes n challenge c level sw tee \<and> level \<noteq> 0 \<and> av_strong v = (level = 2) \<and>
    (vo_requireStrongBox opts \<longrightarrow> level = 2) \<and> lists_satisfy opts v sw tee"
proof -
  obtain att keyDesc cs where d: "map_of (ce_extensions c) KEY_DESCRIPTION_OID = Some att" "parseAsn1 n (xe_extnValue att) = Some (Inr keyDesc)"
    "node_children keyDesc = Some cs" "check_description opts challenge cs = Some v"
    using assms by (auto simp: check_leaf_def split: option.splits sum.splits)
  obtain level where l: "8 \<le> length cs" "asn1IntegerToNumber (cs ! 1) = Some level" "node_valueBytes (cs ! 4) = challenge" "level \<noteq> 0"
      "vo_requireStrongBox opts \<longrightarrow> level = 2"
      "check_lists opts (level = 2) (parseAuthorizationList (cs ! 6)) (parseAuthorizationList (cs ! 7)) = Some v"
    using d(4) assms(2) unfolding check_description_def by (auto simp: bind_eq_Some_conv Let_def split: if_splits)
  have "describes n challenge c level (parseAuthorizationList (cs ! 6)) (parseAuthorizationList (cs ! 7))"
    unfolding describes_def using d l by blast
  then show ?thesis using l check_lists_sound [OF l(6) assms(2)] by blast
qed

text \<open>C33: what a verified verdict guarantees.  The chain has two to five certificates, each within its validity and each signed by
  the next, and ends in a trusted root key; the first certificate describes a key for exactly the expected challenge, held in hardware
  (in a StrongBox where that is required), generated there, able to sign, on the curve P-256 where it names one; and the boot state
  and the lock were verified unless the options waive it.
\<close>

theorem verified_attestation_sound:
  assumes "verify_attestation V S n now opts chain challenge = Some (Some v)" and "av_verified v"
  shows "\<exists>certs level sw tee. parse_chain n chain = Some (Some certs) \<and> 2 \<le> length certs \<and> length certs \<le> 5 \<and>
    list_all (in_validity now) certs \<and> successively (\<lambda>c p. verifyCertificateSignature S c p = Some True) certs \<and>
    root_trusted V n (last certs) = Some (Some True) \<and>
    describes n challenge (hd certs) level sw tee \<and> level \<noteq> 0 \<and> av_strong v = (level = 2) \<and>
    (vo_requireStrongBox opts \<longrightarrow> level = 2) \<and> lists_satisfy opts v sw tee"
proof -
  obtain certs where c: "2 \<le> length chain" "length chain \<le> 5" "parse_chain n chain = Some (Some certs)" "check_chain S now certs = None"
      "root_trusted V n (last certs) = Some (Some True)" "check_leaf n opts challenge (hd certs) = Some (Some v)"
    using assms unfolding verify_attestation_def by (auto split: if_splits option.splits)
  from check_leaf_sound [OF c(6) assms(2)] check_chain_sound [OF c(4)] parse_chain_length [OF c(3)] c
  show ?thesis by auto
qed

section \<open>A chain that verifies\<close>

definition seq :: "der list \<Rightarrow> der" where
  "seq = Constructed Universal 16"

definition demo_description :: "byte list \<Rightarrow> der" where
  "demo_description challenge = seq [Primitive Universal 2 [3], Primitive Universal 10 [1], Primitive Universal 2 [4], Primitive Universal 10 [1],
     Primitive Universal 4 challenge, Primitive Universal 4 [], seq [],
     seq [Constructed Context 1 [Constructed Universal 17 [Primitive Universal 2 [2]]],
          Constructed Context 702 [Primitive Universal 2 [0]],
          Constructed Context 704 [seq [Primitive Universal 4 [], Primitive Universal 1 [0xFF], Primitive Universal 10 [0]]]]]"

definition demo_oid :: "byte list" where
  "demo_oid = [0x2A, 0x86, 0x48, 0x86, 0xF7, 0x0D, 0x01, 0x01, 0x0B]"

definition demo_key_oid :: "byte list" where
  "demo_key_oid = [0x2B, 0x06, 0x01, 0x04, 0x01, 0xD6, 0x79, 0x02, 0x01, 0x11]"

text \<open>Valid from 1970 to 2049.\<close>

definition demo_validity :: der where
  "demo_validity = seq [Primitive Universal 0x17 [0x37, 0x30, 0x30, 0x31, 0x30, 0x31, 0x30, 0x30, 0x30, 0x30, 0x5A],
     Primitive Universal 0x17 [0x34, 0x39, 0x30, 0x31, 0x30, 0x31, 0x30, 0x30, 0x30, 0x30, 0x5A]]"

definition demo_certificate :: "byte list \<Rightarrow> der list \<Rightarrow> der" where
  "demo_certificate key exts = seq [seq ([Primitive Universal 2 [1], seq [], seq [], demo_validity, seq [], seq [Primitive Universal 3 key]] @ exts),
     seq [Primitive Universal 6 demo_oid], Primitive Universal 3 [0]]"

definition demo_leaf :: der where
  "demo_leaf = demo_certificate [1] [Constructed Context 3 [seq [seq [Primitive Universal 6 demo_key_oid,
     Primitive Universal 4 (der_encode (demo_description [7, 7]))]]]]"

definition demo_root :: der where
  "demo_root = demo_certificate [2] []"

lemmas demo_defs = seq_def demo_description_def demo_oid_def demo_key_oid_def demo_validity_def demo_certificate_def demo_leaf_def demo_root_def
lemmas encode_simps = with_header_def tag_bytes_def tag_byte_def length_bytes_def digits_of.simps

lemma demo_fits: "der_ok demo_leaf" "der_ok demo_root" "der_ok (demo_description [7, 7])"
    "length (der_encode demo_leaf) \<le> 200" "length (der_encode demo_root) \<le> 200" "length (der_encode (demo_description [7, 7])) \<le> 200"
  by (simp_all add: demo_defs encode_simps)

lemma demo_parses:
  "parseAsn1 400 (der_encode demo_leaf) = Some (Inr (der_node demo_leaf))"
  "parseAsn1 400 (der_encode demo_root) = Some (Inr (der_node demo_root))"
  "parseAsn1 400 (der_encode (demo_description [7, 7])) = Some (Inr (der_node (demo_description [7, 7])))"
  using demo_fits der_roundtrip_at [where pre = "[]" and post = "[]" and n = 400] by (simp_all add: parseAsn1_def)

lemma demo_oids:
  "node_valueBytes n = demo_oid \<Longrightarrow> asn1OidToString n = Some ''1.2.840.113549.1.1.11''"
  "node_valueBytes n = demo_key_oid \<Longrightarrow> asn1OidToString n = Some KEY_DESCRIPTION_OID"
  by (simp_all add: asn1OidToString_def asn1Oid_def demo_oid_def demo_key_oid_def KEY_DESCRIPTION_OID_def nat_str.simps digit_char_def)

lemma demo_dates:
  "node_tagNumber n = 0x17 \<Longrightarrow> node_valueBytes n = [0x37, 0x30, 0x30, 0x31, 0x30, 0x31, 0x30, 0x30, 0x30, 0x30, 0x5A] \<Longrightarrow> asn1Date n = Some 0"
  "node_tagNumber n = 0x17 \<Longrightarrow> node_valueBytes n = [0x34, 0x39, 0x30, 0x31, 0x30, 0x31, 0x30, 0x30, 0x30, 0x30, 0x5A] \<Longrightarrow> asn1Date n = Some 2493072000000"
  by (simp_all add: asn1Date_def two_digits_def ascii_digit_def Date_UTC_def DayFromYear_def month_start_def leap_year_def)

lemma demo_small:
  "node_valueBytes n = [b] \<Longrightarrow> b \<in> {0, 1, 2, 3, 4} \<Longrightarrow> asn1IntegerToBigInt n = Some (uint b)"
  "node_valueBytes n = [b] \<Longrightarrow> b \<in> {0, 1, 2, 3, 4} \<Longrightarrow> asn1IntegerToNumber n = Some (uint b)"
  by (auto simp: asn1IntegerToNumber_def asn1IntegerToBigInt_def)

lemmas certificate_simps = certificate_of_def algorithm_oid_def context_tag_def child_def validity_def read_extension_def node_for_def
  asn1BitString_def asn1Boolean_def

lemma demo_root_reads:
  "\<exists>c. certificate_of (der_encode demo_root) (der_node demo_root) = Some c \<and> ce_notBefore c = 0 \<and> ce_notAfter c = 2493072000000 \<and>
     ce_signatureAlgorithmOid c = ''1.2.840.113549.1.1.11'' \<and> ce_spkiRaw c = der_encode (seq [Primitive Universal 3 [2]])"
  by (simp add: demo_root_def demo_certificate_def demo_validity_def seq_def certificate_simps demo_oids demo_dates demo_small)

lemma demo_leaf_reads:
  "\<exists>c. certificate_of (der_encode demo_leaf) (der_node demo_leaf) = Some c \<and> ce_notBefore c = 0 \<and> ce_notAfter c = 2493072000000 \<and>
     ce_signatureAlgorithmOid c = ''1.2.840.113549.1.1.11'' \<and>
     map_of (ce_extensions c) KEY_DESCRIPTION_OID =
       Some \<lparr>xe_oid = KEY_DESCRIPTION_OID, xe_critical = False, xe_extnValue = der_encode (demo_description [7, 7])\<rparr>"
  by (simp add: demo_leaf_def demo_certificate_def demo_validity_def seq_def certificate_simps demo_oids demo_dates demo_small)

definition strict_options :: verify_options where
  "strict_options = \<lparr>vo_allowUnverifiedBoot = False, vo_allowUnlocked = False, vo_requireStrongBox = False\<rparr>"

definition demo_verifier :: attestation_verifier where
  "demo_verifier = \<lparr>ver_pinnedRoots = [der_encode (seq [Primitive Universal 3 [2]])], ver_testRootCertDer = None\<rparr>"

definition accepting_subtle :: subtle where
  "accepting_subtle = \<lparr>su_verify_rsa = \<lambda>_ _ _ _. True, su_verify_ecdsa = \<lambda>_ _ _ _ _. False\<rparr>"

definition demo_verdict :: attestation_verdict where
  "demo_verdict = \<lparr>av_verified = True, av_strong = False, av_verifiedBoot = True, av_deviceLocked = True, av_osVersion = 0, av_patchLevel = [], av_failure = None\<rparr>"

lemmas list_simps = parseAuthorizationList_def origin_generated_def sign_purpose_def absent_or_def root_of_trust_def os_version_def patch_level_def
  tag_children_def first_number_def

lemma demo_described:
  assumes "map_of (ce_extensions c) KEY_DESCRIPTION_OID =
    Some \<lparr>xe_oid = KEY_DESCRIPTION_OID, xe_critical = False, xe_extnValue = der_encode (demo_description [7, 7])\<rparr>"
  shows "check_leaf 400 strict_options [7, 7] c = Some (Some demo_verdict)"
proof -
  obtain cs where cs: "node_children (der_node (demo_description [7, 7])) = Some cs"
    by (simp add: demo_description_def seq_def node_for_def)
  have "check_description strict_options [7, 7] cs = Some demo_verdict"
    using cs unfolding check_description_def check_lists_def
    by (clarsimp simp: demo_description_def seq_def node_for_def demo_small list_simps asn1Boolean_def strict_options_def demo_verdict_def)
  then show ?thesis by (simp add: check_leaf_def assms demo_parses(3) cs)
qed

lemma demo_verified:
  assumes "0 \<le> now" and "now \<le> 2493072000000"
  shows "verify_attestation demo_verifier accepting_subtle 400 now strict_options [der_encode demo_leaf, der_encode demo_root] [7, 7] = Some (Some demo_verdict)"
proof -
  obtain l where l: "certificate_of (der_encode demo_leaf) (der_node demo_leaf) = Some l" "ce_notBefore l = 0" "ce_notAfter l = 2493072000000"
      "ce_signatureAlgorithmOid l = ''1.2.840.113549.1.1.11''" "check_leaf 400 strict_options [7, 7] l = Some (Some demo_verdict)"
    using demo_leaf_reads demo_described by blast
  obtain r where r: "certificate_of (der_encode demo_root) (der_node demo_root) = Some r" "ce_notBefore r = 0" "ce_notAfter r = 2493072000000"
      "ce_signatureAlgorithmOid r = ''1.2.840.113549.1.1.11''" "ce_spkiRaw r = der_encode (seq [Primitive Universal 3 [2]])"
    using demo_root_reads by blast
  have parsed: "parse_chain 400 [der_encode demo_leaf, der_encode demo_root] = Some (Some [l, r])"
    using l(1) r(1) by (simp add: parseX509Certificate_def demo_parses)
  have checked: "check_chain accepting_subtle now [l, r] = None"
    using l r assms by (simp add: in_validity_def verifyCertificateSignature_def ALLOWED_SIG_OIDS_def SIG_ALGS_def accepting_subtle_def)
  have trusted: "root_trusted demo_verifier 400 r = Some (Some True)"
    using r(5) by (simp add: root_trusted_def demo_verifier_def)
  show ?thesis unfolding verify_attestation_def parsed using checked trusted l(5) by simp
qed

theorem verified_attestation_sound_witness:
  "\<exists>certs. parse_chain 400 [der_encode demo_leaf, der_encode demo_root] = Some (Some certs) \<and> 2 \<le> length certs \<and>
    root_trusted demo_verifier 400 (last certs) = Some (Some True)"
proof -
  have "verify_attestation demo_verifier accepting_subtle 400 1700000000000 strict_options [der_encode demo_leaf, der_encode demo_root] [7, 7] = Some (Some demo_verdict)"
    by (rule demo_verified) simp_all
  from verified_attestation_sound [OF this] show ?thesis by (auto simp: demo_verdict_def)
qed

end
