(* ===== verification/Pairing.thy ===== *)
theory Pairing
  imports Mobile KeyAttestation
begin

text \<open>
  Pairing a device with a one-time code, after \<open>controllers/mobile.ts\<close>: the attestation challenge, the
  attempt counter in KV, the atomic claim of the code, the attestation, the tier policy and the new device row.
  Hashing, base64, random values and the verifier's keys are arguments.  Access tokens are not modelled.
  A run of the DER reader that uses up its fuel is a request that the runtime stops for its CPU time.
\<close>

record pairing_platform =
  pp_sha256 :: "string \<Rightarrow> string"
  pp_base64ToBytes :: "string \<Rightarrow> byte list option"
  pp_bytesToBase64 :: "byte list \<Rightarrow> string"
  pp_verifier :: attestation_verifier
  pp_subtle :: subtle
  pp_cpu :: nat
  pp_mock_verdict :: attestation_verdict

datatype pairing_error =
    INVALID_OTP | OTP_LOCKED | OTP_EXPIRED | ATTESTATION_CHALLENGE_EXPIRED | ATTESTATION_INVALID | ATTESTATION_KEY_MISMATCH
  | DEVICE_KEY_REQUIRED | PAIRING_TIER_INSUFFICIENT | INVALID_STORE_ID | STORE_NOT_FOUND | NO_DEFAULT_STORE

type_synonym 'a pairing = "(pairing_error + 'a) mprog"

abbreviation deny :: "pairing_error \<Rightarrow> 'a pairing" where
  "deny e \<equiv> ret (Inl e)"

section \<open>Codes and keys of the KV namespace\<close>

definition otp_code :: "string option \<Rightarrow> string option \<Rightarrow> string option" where
  "otp_code otp token = (case (case truthy otp of Some c \<Rightarrow> Some c | None \<Rightarrow> token) of
      None \<Rightarrow> None
    | Some c \<Rightarrow> let t = trim c in if length t = 6 \<and> list_all is_digit t then Some t else None)"

definition kv_read :: "int \<Rightarrow> (string \<times> 'v \<times> int) list \<Rightarrow> string \<Rightarrow> 'v option" where
  "kv_read now kv k = (case map_of kv k of None \<Rightarrow> None | Some (v, expiry) \<Rightarrow> if now < expiry then Some v else None)"

definition get_attempts :: "string \<Rightarrow> (int \<times> int) option mprog" where
  "get_attempts k = m_remote (\<lambda>s. (kv_read (mo_now s) (mo_kv_attempts s) k, s))"

definition put_attempts :: "string \<Rightarrow> int \<Rightarrow> int \<Rightarrow> unit mprog" where
  "put_attempts k n lockedUntil = m_remote (\<lambda>s. ((), s\<lparr>mo_kv_attempts := AList.update k ((n, lockedUntil), mo_now s + 900000) (mo_kv_attempts s)\<rparr>))"

definition delete_attempts :: "string \<Rightarrow> unit mprog" where
  "delete_attempts k = m_remote (\<lambda>s. ((), s\<lparr>mo_kv_attempts := AList.delete k (mo_kv_attempts s)\<rparr>))"

definition get_challenge :: "string \<Rightarrow> (byte list \<times> int) option mprog" where
  "get_challenge k = m_remote (\<lambda>s. (kv_read (mo_now s) (mo_kv_challenges s) k, s))"

definition put_challenge :: "string \<Rightarrow> byte list \<Rightarrow> int \<Rightarrow> unit mprog" where
  "put_challenge k c expires = m_remote (\<lambda>s. ((), s\<lparr>mo_kv_challenges := AList.update k ((c, expires), mo_now s + 300000) (mo_kv_challenges s)\<rparr>))"

definition delete_challenge :: "string \<Rightarrow> unit mprog" where
  "delete_challenge k = m_remote (\<lambda>s. ((), s\<lparr>mo_kv_challenges := AList.delete k (mo_kv_challenges s)\<rparr>))"

definition attemptKey :: "string \<Rightarrow> string" where
  "attemptKey otpHash = ''otp:attempt:'' @ otpHash"

definition challengeKey :: "string \<Rightarrow> string" where
  "challengeKey otpHash = ''attest:challenge:'' @ otpHash"

definition find_token :: "string \<Rightarrow> device_tables \<Rightarrow> pairing_token option" where
  "find_token h t = List.find (\<lambda>r. pt_token_hash r = h) (op_device_pairing_tokens t)"

section \<open>The challenge\<close>

text \<open>The answer is the challenge and the seconds it still has.\<close>

definition handlePairInitiate :: "pairing_platform \<Rightarrow> byte list \<Rightarrow> string option \<Rightarrow> string option \<Rightarrow> (byte list \<times> int) pairing" where
  "handlePairInitiate P randBytes otp token = (case otp_code otp token of
      None \<Rightarrow> deny INVALID_OTP
    | Some code \<Rightarrow>
        andThen (reading mo_now) (\<lambda>now. let otpHash = pp_sha256 P code in
        andThen (m_get (find_token otpHash)) (\<lambda>tokenRow. case tokenRow of
            None \<Rightarrow> deny INVALID_OTP
          | Some tok \<Rightarrow>
              if pt_used_at tok \<noteq> None then deny INVALID_OTP
              else if pt_expires_at tok < now then deny OTP_EXPIRED
              else andThen (get_challenge (challengeKey otpHash)) (\<lambda>existing.
                let fresh = andThen (put_challenge (challengeKey otpHash) randBytes (now + 300000)) (\<lambda>_. ret (Inr (randBytes, 300)))
                in case existing of
                     None \<Rightarrow> fresh
                   | Some (challenge, expires_at) \<Rightarrow>
                       if expires_at > now then ret (Inr (challenge, max 1 (- ((now - expires_at) div 1000)))) else fresh))))"

section \<open>Attempts and the claim\<close>

definition OTP_MAX_ATTEMPTS :: int where
  "OTP_MAX_ATTEMPTS = 5"

definition OTP_LOCKOUT_MS :: int where
  "OTP_LOCKOUT_MS = 15 * 60 * 1000"

definition attempt_locked :: "string \<Rightarrow> int \<Rightarrow> bool mprog" where
  "attempt_locked k now = catching
     (andThen (get_attempts k) (\<lambda>raw. ret (case raw of None \<Rightarrow> False
        | Some (attemptCount, lockedUntil) \<Rightarrow> attemptCount \<ge> OTP_MAX_ATTEMPTS \<and> now < lockedUntil)))
     (\<lambda>_. ret False)"

text \<open>Whether the attempt locks the code.\<close>

definition recordBadAttempt :: "string \<Rightarrow> int \<Rightarrow> bool mprog" where
  "recordBadAttempt k now = catching
     (andThen (get_attempts k) (\<lambda>raw.
      let n = (case raw of None \<Rightarrow> 0 | Some (c, _) \<Rightarrow> c) + 1
      in andThen (put_attempts k n (now + OTP_LOCKOUT_MS)) (\<lambda>_. ret (n > OTP_MAX_ATTEMPTS))))
     (\<lambda>_. ret False)"

definition bad_attempt :: "string \<Rightarrow> int \<Rightarrow> 'a pairing" where
  "bad_attempt k now = andThen (recordBadAttempt k now) (\<lambda>locked. deny (if locked then OTP_LOCKED else INVALID_OTP))"

definition claim_token :: "int \<Rightarrow> int \<Rightarrow> device_tables \<Rightarrow> nat \<times> device_tables" where
  "claim_token i now t = (length (filter (\<lambda>r. pt_id r = i \<and> pt_used_at r = None) (op_device_pairing_tokens t)),
     t\<lparr>op_device_pairing_tokens := update_where (\<lambda>r. pt_id r = i \<and> pt_used_at r = None) (\<lambda>r. r\<lparr>pt_used_at := Some now\<rparr>) (op_device_pairing_tokens t)\<rparr>)"

section \<open>Attestation at pairing\<close>

record pairing_request =
  pq_otp :: "string option"
  pq_token :: "string option"
  pq_device_name :: "string option"
  pq_public_key :: "string option"
  pq_key_algorithm :: "string option"
  pq_cert_chain :: "string list"
  pq_store_id :: "int option option"

fun decode_chain :: "pairing_platform \<Rightarrow> string list \<Rightarrow> byte list list option" where
  "decode_chain P [] = Some []"
| "decode_chain P (c # cs) = (case pp_base64ToBytes P c of None \<Rightarrow> None | Some d \<Rightarrow> map_option ((#) d) (decode_chain P cs))"

definition cpu_exceeded :: exn where
  "cpu_exceeded = Error ''Worker exceeded CPU time limit''"

definition env_options :: "device_env \<Rightarrow> verify_options" where
  "env_options env = \<lparr>vo_allowUnverifiedBoot = allow_unverified_boot env,
     vo_allowUnlocked = (de_ATTESTATION_ALLOW_UNLOCKED env = Some ''true''), vo_requireStrongBox = (de_STRONGBOX_REQUIRED env = Some ''true'')\<rparr>"

definition run_verifier :: "pairing_platform \<Rightarrow> device_env \<Rightarrow> int \<Rightarrow> byte list list \<Rightarrow> byte list \<Rightarrow> exn + attestation_verdict" where
  "run_verifier P env now derChain challenge =
     (if de_ENVIRONMENT env = ''test'' then Inr (pp_mock_verdict P)
      else case verify_attestation (pp_verifier P) (pp_subtle P) (pp_cpu P) now (env_options env) derChain challenge of
          None \<Rightarrow> Inl cpu_exceeded
        | Some None \<Rightarrow> Inl (Error ''attestation'')
        | Some (Some v) \<Rightarrow> Inr v)"

text \<open>The key and algorithm bound to the leaf certificate, or the answer that ends the request.\<close>

definition bind_key :: "pairing_platform \<Rightarrow> device_env \<Rightarrow> byte list \<Rightarrow> string option \<Rightarrow> string option \<Rightarrow> exn + pairing_error + string option \<times> string option" where
  "bind_key P env leafDer publicKey algorithm =
     (let failed = (if de_ENVIRONMENT env \<noteq> ''test'' then Inr (Inl ATTESTATION_INVALID) else Inr (Inr (publicKey, algorithm)))
      in case parseX509Certificate (pp_cpu P) leafDer of
          None \<Rightarrow> Inl cpu_exceeded
        | Some None \<Rightarrow> failed
        | Some (Some leafCert) \<Rightarrow> (case truthy publicKey of
              None \<Rightarrow> Inr (Inr (Some (pp_bytesToBase64 P (ce_spkiRaw leafCert)), Some ''ES256''))
            | Some pk \<Rightarrow> (case pp_base64ToBytes P pk of
                  None \<Rightarrow> failed
                | Some bs \<Rightarrow> if equalBytes bs (ce_spkiRaw leafCert) then Inr (Inr (publicKey, algorithm)) else Inr (Inl ATTESTATION_KEY_MISMATCH))))"

record attested_key =
  ak_verdict :: "attestation_verdict option"
  ak_public_key :: "string option"
  ak_algorithm :: "string option"

definition attest_chain :: "pairing_platform \<Rightarrow> device_env \<Rightarrow> int \<Rightarrow> pairing_request \<Rightarrow> byte list \<Rightarrow> attested_key pairing" where
  "attest_chain P env now q challenge = (case decode_chain P (pq_cert_chain q) of
      None \<Rightarrow> deny ATTESTATION_INVALID
    | Some derChain \<Rightarrow> (case run_verifier P env now derChain challenge of
          Inl e \<Rightarrow> throw e
        | Inr verdict \<Rightarrow>
            if \<not> av_verified verdict then deny ATTESTATION_INVALID
            else (case bind_key P env (hd derChain) (pq_public_key q) (pq_key_algorithm q) of
                Inl e \<Rightarrow> throw e
              | Inr (Inl err) \<Rightarrow> deny err
              | Inr (Inr (key, alg)) \<Rightarrow> ret (Inr \<lparr>ak_verdict = Some verdict, ak_public_key = key, ak_algorithm = alg\<rparr>))))"

definition attest :: "pairing_platform \<Rightarrow> device_env \<Rightarrow> int \<Rightarrow> string \<Rightarrow> pairing_request \<Rightarrow> attested_key pairing" where
  "attest P env now otpHash q =
     (if pq_cert_chain q = [] then ret (Inr \<lparr>ak_verdict = None, ak_public_key = pq_public_key q, ak_algorithm = pq_key_algorithm q\<rparr>)
      else andThen (get_challenge (challengeKey otpHash)) (\<lambda>challengeRaw.
        andThen (delete_challenge (challengeKey otpHash)) (\<lambda>_. case challengeRaw of
            None \<Rightarrow> deny ATTESTATION_CHALLENGE_EXPIRED
          | Some (challenge, expires_at) \<Rightarrow>
              if \<not> now \<le> expires_at then deny ATTESTATION_CHALLENGE_EXPIRED else attest_chain P env now q challenge)))"

section \<open>The device row\<close>

definition attested_facts :: "int \<Rightarrow> attested_key \<Rightarrow> device_facts" where
  "attested_facts now k =
     \<lparr>df_public_key = ak_public_key k,
      df_attestation_verified_at = (case ak_verdict k of Some v \<Rightarrow> if av_verified v then Some (Some now) else None | None \<Rightarrow> None),
      df_attestation_strong = (case ak_verdict k of Some v \<Rightarrow> if av_strong v then 1 else 0 | None \<Rightarrow> 0),
      df_attestation_verified_boot = (case ak_verdict k of Some v \<Rightarrow> if av_verifiedBoot v then 1 else 0 | None \<Rightarrow> 0),
      df_device_patch_level = map_option av_patchLevel (ak_verdict k)\<rparr>"

definition insert_device :: "pairing_token \<Rightarrow> int \<Rightarrow> string \<Rightarrow> string \<Rightarrow> attested_key \<Rightarrow> int \<Rightarrow> device_tables \<Rightarrow> exn + unit \<times> device_tables" where
  "insert_device tok storeId uuid name k now t =
     (if uuid \<in> pd_uuid ` set (op_paired_devices t) then Inl unique_violation
      else let f = attested_facts now k in
        Inr ((), t\<lparr>op_paired_devices := op_paired_devices t @ [\<lparr>pd_id = seq_paired_devices t, pd_merchant_id = pt_merchant_id tok,
            pd_store_id = Some storeId, pd_user_id = pt_user_id tok, pd_uuid = uuid, pd_device_name = name, pd_status = DActive,
            pd_public_key = ak_public_key k,
            pd_key_algorithm = (case ak_algorithm k of Some a \<Rightarrow> Some a | None \<Rightarrow> if truthy (ak_public_key k) = None then None else Some ''ES256''),
            pd_attestation_verified_at = df_attestation_verified_at f, pd_attestation_strong = df_attestation_strong f,
            pd_attestation_verified_boot = df_attestation_verified_boot f, pd_device_patch_level = df_device_patch_level f,
            pd_last_heartbeat_at = Some now, pd_created_at = now\<rparr>], seq_paired_devices := seq_paired_devices t + 1\<rparr>))"

definition resolve_store :: "int \<Rightarrow> int option option \<Rightarrow> int pairing" where
  "resolve_store mid storeId = (case storeId of
      Some None \<Rightarrow> deny INVALID_STORE_ID
    | Some (Some i) \<Rightarrow>
        if i \<le> 0 then deny INVALID_STORE_ID
        else andThen (on_world (getStore i mid)) (\<lambda>store. case store of None \<Rightarrow> deny STORE_NOT_FOUND | Some st \<Rightarrow> ret (Inr (st_id st)))
    | None \<Rightarrow> andThen (on_world (resolveMainStore mid)) (\<lambda>store. case store of None \<Rightarrow> deny NO_DEFAULT_STORE | Some st \<Rightarrow> ret (Inr (st_id st))))"

definition blocks_pairing :: "device_env \<Rightarrow> policy_row option \<Rightarrow> device_tier \<Rightarrow> bool" where
  "blocks_pairing env row tier =
     (let policy = resolvePolicy env row; satisfied = (TIER_RANK tier \<ge> TIER_RANK (ep_min_tier policy));
          mode = resolveEnforcementMode env (case row of None \<Rightarrow> EAudit | Some r \<Rightarrow> dp_enforcement_mode r)
      in shouldBlock mode satisfied \<or> (\<not> satisfied \<and> ep_strict_pairing policy))"

text \<open>After the code is claimed: policy, store, device.\<close>

definition register_device :: "device_env \<Rightarrow> int \<Rightarrow> pairing_token \<Rightarrow> string \<Rightarrow> pairing_request \<Rightarrow> attested_key \<Rightarrow> (int \<times> device_tier) pairing" where
  "register_device env now tok uuid q k =
     (if signature_required env \<and> truthy (ak_public_key k) = None then deny DEVICE_KEY_REQUIRED else
      andThen (m_get (find_policy (pt_merchant_id tok))) (\<lambda>row.
      let policy = resolvePolicy env row;
          tier = fst (computeDeviceTier now (attested_facts now k) policy (max_attestation_age env) (allow_unverified_boot env));
          mode = resolveEnforcementMode env (case row of None \<Rightarrow> EAudit | Some r \<Rightarrow> dp_enforcement_mode r)
      in andThen (recordPolicyEvaluation (pt_merchant_id tok) CPairing mode (ep_min_tier policy) tier (TIER_RANK tier \<ge> TIER_RANK (ep_min_tier policy)) 1) (\<lambda>_.
         if blocks_pairing env row tier then deny PAIRING_TIER_INSUFFICIENT else
         andThen (resolve_store (pt_merchant_id tok) (pq_store_id q)) (\<lambda>store. case store of
             Inl e \<Rightarrow> deny e
           | Inr storeId \<Rightarrow>
               andThen (m_exec (insert_device tok storeId uuid (or_else (pq_device_name q) ''Android SMS Companion'') k now)) (\<lambda>_.
               andThen (m_get (\<lambda>t. List.find (\<lambda>d. pd_uuid d = uuid) (op_paired_devices t))) (\<lambda>deviceRow.
               ret (Inr (case deviceRow of None \<Rightarrow> 0 | Some d \<Rightarrow> pd_id d, tier))))))))"

definition claimed :: "pairing_platform \<Rightarrow> device_env \<Rightarrow> int \<Rightarrow> string \<Rightarrow> string \<Rightarrow> pairing_token \<Rightarrow> pairing_request \<Rightarrow> (int \<times> device_tier) pairing" where
  "claimed P env now otpHash uuid tok q =
     andThen (catching (delete_attempts (attemptKey otpHash)) (\<lambda>_. ret ())) (\<lambda>_.
     andThen (attest P env now otpHash q) (\<lambda>attested. case attested of
         Inl e \<Rightarrow> deny e
       | Inr k \<Rightarrow> register_device env now tok uuid q k))"

definition handlePairing :: "pairing_platform \<Rightarrow> string \<Rightarrow> pairing_request \<Rightarrow> (int \<times> device_tier) pairing" where
  "handlePairing P uuid q = (case otp_code (pq_otp q) (pq_token q) of
      None \<Rightarrow> deny INVALID_OTP
    | Some code \<Rightarrow>
        andThen (reading (\<lambda>s. (mo_env s, mo_now s))) (\<lambda>(env, now). let otpHash = pp_sha256 P code in
        andThen (attempt_locked (attemptKey otpHash) now) (\<lambda>locked. if locked then deny OTP_LOCKED else
        andThen (m_get (find_token otpHash)) (\<lambda>tokenRow. case tokenRow of
            None \<Rightarrow> bad_attempt (attemptKey otpHash) now
          | Some tok \<Rightarrow>
              if pt_used_at tok \<noteq> None then bad_attempt (attemptKey otpHash) now
              else if pt_expires_at tok < now then deny OTP_EXPIRED
              else andThen (m_run (claim_token (pt_id tok) now)) (\<lambda>changes.
                if changes = 0 then deny INVALID_OTP else claimed P env now otpHash uuid tok q)))))"

section \<open>A code pairs one device\<close>

definition unused_codes :: "device_tables \<Rightarrow> nat" where
  "unused_codes t = length (filter (\<lambda>r. pt_used_at r = None) (op_device_pairing_tokens t))"

definition budget :: "mobile \<Rightarrow> nat" where
  "budget s = length (op_paired_devices (mo_tables s)) + unused_codes (mo_tables s)"

definition in_budget :: "nat \<Rightarrow> nat \<Rightarrow> mobile \<Rightarrow> bool" where
  "in_budget k M s \<longleftrightarrow> budget s + k \<le> M"

lemma within_pred [simp]: "m_pred (in_budget k M)"
  by (simp add: m_pred_def in_budget_def budget_def same_device_def)

lemma within_weaken: "in_budget (Suc k) M s \<Longrightarrow> in_budget k M s"
  by (simp add: in_budget_def)

lemma claim_uses: "unused_codes (snd (claim_token i now t)) + fst (claim_token i now t) = unused_codes t"
proof -
  have "length (filter (\<lambda>r. pt_used_at r = None) (update_where (\<lambda>r. pt_id r = i \<and> pt_used_at r = None) (\<lambda>r. r\<lparr>pt_used_at := Some now\<rparr>) rs)) +
      length (filter (\<lambda>r. pt_id r = i \<and> pt_used_at r = None) rs) = length (filter (\<lambda>r. pt_used_at r = None) rs)" for rs
    by (induction rs) auto
  then show ?thesis by (simp add: unused_codes_def claim_token_def)
qed

lemma claim_devices: "op_paired_devices (snd (claim_token i now t)) = op_paired_devices t"
  by (simp add: claim_token_def)

lemma claim_within: "triple (in_budget 0 M) (m_run (claim_token i now)) (\<lambda>n. in_budget (if n = 0 then 0 else Suc 0) M) (\<lambda>_. in_budget 0 M)"
proof -
  have c: "budget (s\<lparr>mo_tables := snd (claim_token i now (mo_tables s))\<rparr>) + fst (claim_token i now (mo_tables s)) = budget s" for s
    using claim_uses [of i now "mo_tables s"] by (simp add: budget_def claim_devices)
  have "in_budget 0 M (s\<lparr>mo_tables := snd (claim_token i now (mo_tables s))\<rparr>)"
    "in_budget (if fst (claim_token i now (mo_tables s)) = 0 then 0 else Suc 0) M (s\<lparr>mo_tables := snd (claim_token i now (mo_tables s))\<rparr>)"
    if "in_budget 0 M s" for s
    using that c [of s] by (auto simp: in_budget_def)
  then show ?thesis unfolding m_run_def by (intro triple_m_remote within_pred) auto
qed

lemma kv_within:
  "preserves (in_budget k M) (get_attempts a)" "preserves (in_budget k M) (put_attempts a n l)" "preserves (in_budget k M) (delete_attempts a)"
  "preserves (in_budget k M) (get_challenge a)" "preserves (in_budget k M) (put_challenge a c e)" "preserves (in_budget k M) (delete_challenge a)"
  unfolding get_attempts_def put_attempts_def delete_attempts_def get_challenge_def put_challenge_def delete_challenge_def
  by (intro triple_m_remote within_pred; simp add: in_budget_def budget_def)+

lemma on_world_within: "preserves (in_budget k M) (on_world m)"
  by (auto simp: triple_def on_world_def in_budget_def budget_def split: prod.split sum.split)

lemma evaluation_within: "preserves (in_budget k M) (recordPolicyEvaluation m ctx mode r a c n)"
  unfolding recordPolicyEvaluation_def
  by (intro preserves_if preserves_andThen preserves_catching preserves_pure preserves_m_put within_pred)
     (simp add: in_budget_def budget_def unused_codes_def count_evaluation_def)

lemmas within_steps = preserves_andThen preserves_if preserves_option preserves_catching preserves_pure preserves_m_get [OF within_pred]
  kv_within on_world_within evaluation_within

lemma insert_within: "triple (in_budget (Suc 0) M) (m_exec (insert_device tok st uuid name k now)) (\<lambda>_. in_budget 0 M) (\<lambda>_. in_budget 0 M)"
proof -
  have one: "budget (s\<lparr>mo_tables := t\<rparr>) \<le> M" if "Suc (budget s) \<le> M" "insert_device tok st uuid name k now (mo_tables s) = Inr (a, t)" for s a t
    using that by (auto simp: in_budget_def budget_def unused_codes_def insert_device_def Let_def split: if_splits)
  have run: "triple (in_budget (Suc 0) M) (m_run (\<lambda>t. case insert_device tok st uuid name k now t of Inl e \<Rightarrow> (Inl e, t) | Inr (a, t') \<Rightarrow> (Inr a, t')))
      (\<lambda>_. in_budget 0 M) (\<lambda>_. in_budget 0 M)"
    unfolding m_run_def by (intro triple_m_remote within_pred) (auto intro: one within_weaken simp: in_budget_def split: sum.split)
  show ?thesis unfolding m_exec_def
    by (rule triple_andThen [OF run]) (intro preserves_sum preserves_pure)
qed

lemma spend:
  assumes "preserves (in_budget (Suc 0) M) m" and "\<And>a. triple (in_budget (Suc 0) M) (k a) (\<lambda>_. in_budget 0 M) (\<lambda>_. in_budget 0 M)"
  shows "triple (in_budget (Suc 0) M) (andThen m k) (\<lambda>_. in_budget 0 M) (\<lambda>_. in_budget 0 M)"
  by (rule triple_andThen [OF triple_weaken [OF assms(1)] assms(2)]) (auto intro: within_weaken)

lemma unspent: "triple (in_budget (Suc 0) M) (ret a) (\<lambda>_. in_budget 0 M) (\<lambda>_. in_budget 0 M)" "triple (in_budget (Suc 0) M) (throw e) (\<lambda>_. in_budget 0 M) (\<lambda>_. in_budget 0 M)"
  by (auto intro!: triple_ret triple_throw within_weaken)

lemma store_within: "preserves (in_budget k M) (resolve_store m st)"
  unfolding resolve_store_def by (auto intro!: within_steps split: option.split)

lemma register_within: "triple (in_budget (Suc 0) M) (register_device env now tok uuid q k) (\<lambda>_. in_budget 0 M) (\<lambda>_. in_budget 0 M)"
  unfolding register_device_def Let_def
  by (auto intro!: unspent spend store_within within_steps triple_andThen [OF insert_within] split: sum.split)

lemma attest_within: "preserves (in_budget k M) (attest P env now h q)"
  unfolding attest_def attest_chain_def
  by (auto intro!: within_steps split: option.split sum.split prod.split)

lemma claimed_within: "triple (in_budget (Suc 0) M) (claimed P env now h uuid tok q) (\<lambda>_. in_budget 0 M) (\<lambda>_. in_budget 0 M)"
  unfolding claimed_def
  by (auto intro!: unspent spend within_steps attest_within register_within split: sum.split)

lemma pairing_within: "preserves (in_budget 0 M) (handlePairing P uuid q)"
proof -
  have attempts: "preserves (in_budget 0 M) (attempt_locked k now)" "preserves (in_budget 0 M) (bad_attempt k now :: (int \<times> device_tier) pairing)" for k now
    unfolding attempt_locked_def bad_attempt_def recordBadAttempt_def Let_def by (intro within_steps)+
  have claim: "preserves (in_budget 0 M) (andThen (m_run (claim_token i now)) (\<lambda>changes.
      if changes = 0 then deny INVALID_OTP else claimed P env now h uuid tok q))" for i now env h tok
  proof (rule triple_andThen [OF claim_within])
    show "triple (in_budget (if a = 0 then 0 else Suc 0) M) (if a = 0 then deny INVALID_OTP else claimed P env now h uuid tok q) (\<lambda>_. in_budget 0 M) (\<lambda>_. in_budget 0 M)" for a
      using claimed_within [of M P env now h uuid tok q] by (auto intro: triple_ret)
  qed
  show ?thesis unfolding handlePairing_def Let_def
    by (auto intro!: within_steps attempts claim split: option.split prod.split)
qed

text \<open>Pairing requests and requests for a challenge, some time apart.\<close>

datatype pairing_event = Pair string pairing_request | Initiate "byte list" "string option" "string option"

fun serve_pairings :: "pairing_platform \<Rightarrow> (nat \<times> pairing_event) list \<Rightarrow> mobile \<Rightarrow> mobile" where
  "serve_pairings P [] s = s"
| "serve_pairings P ((dt, Pair uuid q) # es) s = serve_pairings P es (snd (handlePairing P uuid q (tick dt s)))"
| "serve_pairings P ((dt, Initiate r otp token) # es) s = serve_pairings P es (snd (handlePairInitiate P r otp token (tick dt s)))"

lemma initiate_within: "preserves (in_budget k M) (handlePairInitiate P r otp token)"
  unfolding handlePairInitiate_def Let_def by (auto intro!: within_steps split: option.split prod.split)

lemma tick_within: "in_budget k M s \<Longrightarrow> in_budget k M (tick dt s)"
  by (simp add: in_budget_def budget_def tick_def)

lemma serve_within: "in_budget 0 M s \<Longrightarrow> in_budget 0 M (serve_pairings P es s)"
  by (induction P es s rule: serve_pairings.induct)
     (auto intro: tick_within preservesD [OF pairing_within] preservesD [OF initiate_within])

text \<open>C37: one code pairs at most one device.  Whatever pairing requests arrive and whatever calls are lost, the devices paired and the codes still unused are
  together never more than before: each new device has used up a code of its own.
\<close>

theorem codes_single_use:
  "length (op_paired_devices (mo_tables (serve_pairings P es s))) + unused_codes (mo_tables (serve_pairings P es s))
     \<le> length (op_paired_devices (mo_tables s)) + unused_codes (mo_tables s)"
proof -
  have "in_budget 0 (budget s) s" by (simp add: in_budget_def)
  from serve_within [OF this, of P es] show ?thesis by (simp add: in_budget_def budget_def)
qed

section \<open>An attested device was attested\<close>

definition genuine :: "pairing_platform \<Rightarrow> mobile \<Rightarrow> pairing_request \<Rightarrow> byte list \<Rightarrow> string option \<Rightarrow> bool" where
  "genuine P s0 q challenge key \<longleftrightarrow> (\<exists>derChain v leaf.
     decode_chain P (pq_cert_chain q) = Some derChain \<and>
     verify_attestation (pp_verifier P) (pp_subtle P) (pp_cpu P) (mo_now s0) (env_options (mo_env s0)) derChain challenge = Some (Some v) \<and> av_verified v \<and>
     parseX509Certificate (pp_cpu P) (hd derChain) = Some (Some leaf) \<and>
     (key = Some (pp_bytesToBase64 P (ce_spkiRaw leaf)) \<or> (\<exists>pk. key = Some pk \<and> pp_base64ToBytes P pk = Some (ce_spkiRaw leaf))))"

definition fresh_challenge :: "pairing_platform \<Rightarrow> mobile \<Rightarrow> string \<Rightarrow> byte list \<Rightarrow> bool" where
  "fresh_challenge P s0 code challenge \<longleftrightarrow> (\<exists>expires_at. kv_read (mo_now s0) (mo_kv_challenges s0) (challengeKey (pp_sha256 P code)) = Some (challenge, expires_at) \<and>
     mo_now s0 \<le> expires_at)"

lemma attest_chain_genuine:
  assumes "de_ENVIRONMENT (mo_env s0) \<noteq> ''test''"
  shows "triple (\<lambda>_. True) (attest_chain P (mo_env s0) (mo_now s0) q challenge) (\<lambda>r _. \<forall>k. r = Inr k \<longrightarrow> genuine P s0 q challenge (ak_public_key k)) (\<lambda>_ _. True)"
proof -
  have "genuine P s0 q challenge key"
    if "decode_chain P (pq_cert_chain q) = Some derChain" "run_verifier P (mo_env s0) (mo_now s0) derChain challenge = Inr v" "av_verified v"
      "bind_key P (mo_env s0) (hd derChain) (pq_public_key q) (pq_key_algorithm q) = Inr (Inr (key, alg))" for derChain v key alg
    using that assms
    by (auto simp: genuine_def run_verifier_def bind_key_def Let_def split: option.splits if_splits dest: truthy_SomeD)
  then show ?thesis unfolding attest_chain_def
    by (auto intro!: triple_ret triple_throw split: option.split sum.split prod.split)
qed

text \<open>The challenges and the clock are those of the start.\<close>

definition as_issued :: "mobile \<Rightarrow> mobile \<Rightarrow> bool" where
  "as_issued s0 s \<longleftrightarrow> mo_kv_challenges s = mo_kv_challenges s0 \<and> mo_now s = mo_now s0"

lemma as_issued_pred: "m_pred (as_issued s0)"
  by (simp add: m_pred_def as_issued_def same_device_def)

lemma as_issued_steps:
  "preserves (as_issued s0) (get_attempts a)" "preserves (as_issued s0) (put_attempts a n l)" "preserves (as_issued s0) (delete_attempts a)"
  "preserves (as_issued s0) (m_get f)" "preserves (as_issued s0) (m_run g)"
  unfolding get_attempts_def put_attempts_def delete_attempts_def m_get_def m_run_def
  by (intro triple_m_remote as_issued_pred; simp add: as_issued_def)+

lemma issued_then:
  assumes "preserves (as_issued s0) m" and "\<And>a. triple (as_issued s0) (k a) Q (\<lambda>_ _. True)"
  shows "triple (as_issued s0) (andThen m k) Q (\<lambda>_ _. True)"
  by (rule triple_andThen [OF triple_weaken [OF assms(1)] assms(2)]) auto

lemma attest_genuine:
  assumes "de_ENVIRONMENT (mo_env s0) \<noteq> ''test''"
  shows "triple (as_issued s0) (attest P (mo_env s0) (mo_now s0) (pp_sha256 P code) q)
    (\<lambda>r _. \<forall>k. r = Inr k \<longrightarrow> ak_verdict k \<noteq> None \<longrightarrow> (\<exists>challenge. fresh_challenge P s0 code challenge \<and> genuine P s0 q challenge (ak_public_key k))) (\<lambda>_ _. True)"
proof -
  define Q :: "pairing_error + attested_key \<Rightarrow> mobile \<Rightarrow> bool" where "Q = (\<lambda>r _. \<forall>k. r = Inr k \<longrightarrow> ak_verdict k \<noteq> None \<longrightarrow> (\<exists>challenge. fresh_challenge P s0 code challenge \<and> genuine P s0 q challenge (ak_public_key k)))"
  let ?read = "kv_read (mo_now s0) (mo_kv_challenges s0) (challengeKey (pp_sha256 P code))"
  have get: "triple (as_issued s0) (get_challenge (challengeKey (pp_sha256 P code))) (\<lambda>r _. r = ?read) (\<lambda>_ _. True)"
    unfolding get_challenge_def by (intro triple_m_remote as_issued_pred) (simp_all add: as_issued_def)
  have del: "triple (\<lambda>_. A) (delete_challenge k) (\<lambda>_ _. A) (\<lambda>_ _. True)" for A k
    unfolding delete_challenge_def by (rule triple_m_remote) (simp_all add: m_pred_def)
  have chain: "triple (\<lambda>_. r = ?read) (case r of None \<Rightarrow> deny ATTESTATION_CHALLENGE_EXPIRED
      | Some (challenge, expires_at) \<Rightarrow> if \<not> mo_now s0 \<le> expires_at then deny ATTESTATION_CHALLENGE_EXPIRED
          else attest_chain P (mo_env s0) (mo_now s0) q challenge) Q (\<lambda>_ _. True)" for r
  proof (cases r)
    case (Some p)
    obtain challenge e where p: "p = (challenge, e)" by (cases p)
    show ?thesis
    proof (cases "r = ?read \<and> mo_now s0 \<le> e")
      case True
      then have read: "?read = Some (challenge, e)" and live: "mo_now s0 \<le> e" using Some p by simp_all
      then have fresh: "fresh_challenge P s0 code challenge" unfolding fresh_challenge_def by blast
      have "triple (\<lambda>_. r = ?read) (attest_chain P (mo_env s0) (mo_now s0) q challenge) Q (\<lambda>_ _. True)"
        by (rule triple_weaken [OF attest_chain_genuine [OF assms]]) (use fresh in \<open>auto simp: Q_def\<close>)
      then show ?thesis using live unfolding Some p option.case prod.case by (simp del: not_le)
    next
      case False
      then show ?thesis using Some p by (auto simp: triple_def ret_def Q_def)
    qed
  qed (auto intro: triple_ret simp: Q_def)
  have none: "Q (Inr \<lparr>ak_verdict = None, ak_public_key = a, ak_algorithm = b\<rparr>) s" for a b s by (simp add: Q_def)
  have "triple (as_issued s0) (attest P (mo_env s0) (mo_now s0) (pp_sha256 P code) q) Q (\<lambda>_ _. True)"
    unfolding attest_def by (auto intro!: none triple_ret triple_andThen [OF get] triple_andThen [OF del] chain)
  then show ?thesis by (simp add: Q_def)
qed

definition paired_with :: "string \<Rightarrow> string option \<Rightarrow> mobile \<Rightarrow> bool" where
  "paired_with uuid key s \<longleftrightarrow> (\<exists>d \<in> set (op_paired_devices (mo_tables s)). pd_uuid d = uuid \<and> pd_public_key d = key)"

lemma register_result:
  "triple (\<lambda>_. True) (register_device env now tok uuid q k)
     (\<lambda>r s. \<forall>i tier. r = Inr (i, tier) \<longrightarrow> TIER_RANK Attested \<le> TIER_RANK tier \<longrightarrow> ak_verdict k \<noteq> None \<and> paired_with uuid (ak_public_key k) s) (\<lambda>_ _. True)"
proof -
  let ?Q = "\<lambda>r s. \<forall>i tier. r = Inr (i, tier) \<longrightarrow> TIER_RANK Attested \<le> TIER_RANK tier \<longrightarrow> ak_verdict k \<noteq> None \<and> paired_with uuid (ak_public_key k) s"
  have den: "triple P (deny e) ?Q (\<lambda>_ _. True)" for P e by (rule triple_ret) simp
  have any: "triple (\<lambda>_. True) m (\<lambda>_ _. True) (\<lambda>_ _. True)" for m :: "'x mprog" by (auto simp: triple_def split: prod.split sum.split)
  have pp: "m_pred (paired_with uuid key)" for key by (simp add: m_pred_def paired_with_def same_device_def)
  have ins: "triple (\<lambda>_. True) (m_exec (insert_device tok st uuid name k now)) (\<lambda>_. paired_with uuid (ak_public_key k)) (\<lambda>_ _. True)" for st name
  proof -
    have "triple (\<lambda>_. True) (m_run (\<lambda>t. case insert_device tok st uuid name k now t of Inl e \<Rightarrow> (Inl e, t) | Inr (a, t') \<Rightarrow> (Inr a, t')))
        (\<lambda>r s. r = Inr () \<longrightarrow> paired_with uuid (ak_public_key k) s) (\<lambda>_ _. True)"
      unfolding m_run_def by (rule triple_m_remote) (auto simp: m_pred_def insert_device_def Let_def paired_with_def)
    then show ?thesis unfolding m_exec_def
    proof (rule triple_andThen)
      fix r :: "exn + unit"
      show "triple (\<lambda>s. r = Inr () \<longrightarrow> paired_with uuid (ak_public_key k) s) (case r of Inl e \<Rightarrow> throw e | Inr a \<Rightarrow> ret a)
          (\<lambda>_. paired_with uuid (ak_public_key k)) (\<lambda>_ _. True)"
        by (cases r) (auto intro: triple_throw triple_ret)
    qed
  qed
  have get: "triple (paired_with uuid key) (m_get f) (\<lambda>_. paired_with uuid key) (\<lambda>_ _. True)" for key and f :: "device_tables \<Rightarrow> paired_device option"
    by (rule triple_weaken [OF preserves_m_get [OF pp]]) auto
  have verdict: "\<exists>v. ak_verdict k = Some v"
    if "2 \<le> TIER_RANK (fst (computeDeviceTier now (attested_facts now k) policy age allow))" for policy age allow
    using attested_tier [of now "attested_facts now k" policy age allow] that by (auto simp: attested_facts_def split: option.splits)
  show ?thesis unfolding register_device_def Let_def
    by (auto intro!: den triple_andThen [OF any] triple_andThen [OF ins] triple_andThen [OF get] triple_ret verdict split: sum.split)
qed

lemma claimed_result:
  assumes "de_ENVIRONMENT (mo_env s0) \<noteq> ''test''"
  shows "triple (as_issued s0) (claimed P (mo_env s0) (mo_now s0) (pp_sha256 P code) uuid tok q)
    (\<lambda>r s. \<forall>i tier. r = Inr (i, tier) \<longrightarrow> TIER_RANK Attested \<le> TIER_RANK tier \<longrightarrow>
       (\<exists>challenge key. fresh_challenge P s0 code challenge \<and> genuine P s0 q challenge key \<and> paired_with uuid key s)) (\<lambda>_ _. True)"
proof -
  have reg: "triple (\<lambda>_. ak_verdict k \<noteq> None \<longrightarrow> (\<exists>challenge. fresh_challenge P s0 code challenge \<and> genuine P s0 q challenge (ak_public_key k)))
      (register_device (mo_env s0) (mo_now s0) tok uuid q k)
      (\<lambda>r s. \<forall>i tier. r = Inr (i, tier) \<longrightarrow> TIER_RANK Attested \<le> TIER_RANK tier \<longrightarrow>
        (\<exists>challenge key. fresh_challenge P s0 code challenge \<and> genuine P s0 q challenge key \<and> paired_with uuid key s)) (\<lambda>_ _. True)" for k
    using register_result [of "mo_env s0" "mo_now s0" tok uuid q k]
    by (fastforce simp: triple_def split: prod.splits sum.splits)
  have after: "triple (\<lambda>_. \<forall>k. r = Inr k \<longrightarrow> ak_verdict k \<noteq> None \<longrightarrow> (\<exists>challenge. fresh_challenge P s0 code challenge \<and> genuine P s0 q challenge (ak_public_key k)))
      (case r of Inl e \<Rightarrow> deny e | Inr k \<Rightarrow> register_device (mo_env s0) (mo_now s0) tok uuid q k)
      (\<lambda>r s. \<forall>i tier. r = Inr (i, tier) \<longrightarrow> TIER_RANK Attested \<le> TIER_RANK tier \<longrightarrow>
        (\<exists>challenge key. fresh_challenge P s0 code challenge \<and> genuine P s0 q challenge key \<and> paired_with uuid key s)) (\<lambda>_ _. True)" for r
    using reg by (cases r) (auto intro: triple_ret)
  show ?thesis unfolding claimed_def
    by (intro issued_then preserves_catching as_issued_steps preserves_pure triple_andThen [OF attest_genuine [OF assms]] after)
qed


text \<open>C38: outside tests, a pairing that reports the tier attested or strongbox rests on a genuine attestation: the code had a challenge that was issued for it and had not
  expired, the submitted chain passed the verifier for exactly that challenge, and the device now on file has the key of the leaf certificate.
\<close>

theorem attested_pairing_genuine:
  assumes "handlePairing P uuid q s = (Inr (Inr (i, tier)), s')" and "de_ENVIRONMENT (mo_env s) \<noteq> ''test''" and "TIER_RANK Attested \<le> TIER_RANK tier"
  shows "\<exists>code challenge key. otp_code (pq_otp q) (pq_token q) = Some code \<and> fresh_challenge P s code challenge \<and> genuine P s q challenge key \<and> paired_with uuid key s'"
proof -
  obtain code where code: "otp_code (pq_otp q) (pq_token q) = Some code"
    using assms(1) by (cases "otp_code (pq_otp q) (pq_token q)") (auto simp: handlePairing_def ret_def)
  define Q :: "pairing_error + int \<times> device_tier \<Rightarrow> mobile \<Rightarrow> bool" where "Q = (\<lambda>r s'. \<forall>i tier. r = Inr (i, tier) \<longrightarrow> TIER_RANK Attested \<le> TIER_RANK tier \<longrightarrow>
       (\<exists>challenge key. fresh_challenge P s code challenge \<and> genuine P s q challenge key \<and> paired_with uuid key s'))"
  have den: "triple R (deny e) Q (\<lambda>_ _. True)" for R e by (rule triple_ret) (simp add: Q_def)
  have bad: "triple (as_issued s) (bad_attempt k now) Q (\<lambda>_ _. True)" for k now
    by (auto simp: Q_def triple_def bad_attempt_def andThen_def ret_def split: prod.split sum.split)
  have locked: "preserves (as_issued s) (attempt_locked k now)" for k now
    unfolding attempt_locked_def by (intro preserves_catching preserves_andThen as_issued_steps preserves_pure)
  have claim: "triple (as_issued s) (claimed P (mo_env s) (mo_now s) (pp_sha256 P code) uuid tok q) Q (\<lambda>_ _. True)" for tok
    using claimed_result [OF assms(2)] by (simp add: Q_def)
  let ?rest = "andThen (attempt_locked (attemptKey (pp_sha256 P code)) (mo_now s)) (\<lambda>locked. if locked then deny OTP_LOCKED else
        andThen (m_get (find_token (pp_sha256 P code))) (\<lambda>tokenRow. case tokenRow of
            None \<Rightarrow> bad_attempt (attemptKey (pp_sha256 P code)) (mo_now s)
          | Some tok \<Rightarrow>
              if pt_used_at tok \<noteq> None then bad_attempt (attemptKey (pp_sha256 P code)) (mo_now s)
              else if pt_expires_at tok < mo_now s then deny OTP_EXPIRED
              else andThen (m_run (claim_token (pt_id tok) (mo_now s))) (\<lambda>changes.
                if changes = 0 then deny INVALID_OTP else claimed P (mo_env s) (mo_now s) (pp_sha256 P code) uuid tok q)))"
  have "triple (as_issued s) ?rest Q (\<lambda>_ _. True)"
    by (auto intro!: issued_then locked as_issued_steps bad den claim split: option.split)
  moreover have "handlePairing P uuid q s = ?rest s"
    by (simp add: handlePairing_def code Let_def andThen_def reading_def)
  moreover have "as_issued s s" by (simp add: as_issued_def)
  ultimately have "Q (Inr (i, tier)) s'" using assms(1) by (auto simp: triple_def)
  with assms(3) show ?thesis using code unfolding Q_def by blast
qed

text \<open>A merchant with a store, a code and the challenge issued for it; a phone with the chain of the attestation example.\<close>

definition demo_code :: pairing_token where
  "demo_code = \<lparr>pt_id = 1, pt_merchant_id = 1, pt_user_id = 3, pt_token_hash = ''123456'', pt_expires_at = 5000, pt_used_at = None\<rparr>"

definition demo_unpaired :: mobile where
  "demo_unpaired = demo_mobile\<lparr>mo_world := demo_world\<lparr>w_db := ensure_main_store 1 1 ''BDT'' ''u2'' (ensure_main_brand 1 ''u1'' (w_db demo_world))\<rparr>,
     mo_tables := demo_tables\<lparr>op_device_pairing_tokens := [demo_code]\<rparr>,
     mo_kv_challenges := [(''attest:challenge:123456'', ([7, 7], 2000), 301000)]\<rparr>"

definition demo_claimed :: mobile where
  "demo_claimed = demo_unpaired\<lparr>mo_tables := demo_tables\<lparr>op_device_pairing_tokens := [demo_code\<lparr>pt_used_at := Some 1000\<rparr>]\<rparr>,
     mo_kv_attempts := [], mo_kv_challenges := []\<rparr>"

definition demo_pairing_platform :: pairing_platform where
  "demo_pairing_platform = \<lparr>pp_sha256 = (\<lambda>s. s),
     pp_base64ToBytes = (\<lambda>s. if s = ''leaf'' then Some (der_encode demo_leaf) else if s = ''root'' then Some (der_encode demo_root) else None),
     pp_bytesToBase64 = (\<lambda>_. ''spki''), pp_verifier = demo_verifier, pp_subtle = accepting_subtle, pp_cpu = 400, pp_mock_verdict = demo_verdict\<rparr>"

definition demo_request :: pairing_request where
  "demo_request = \<lparr>pq_otp = Some ''123456'', pq_token = None, pq_device_name = None, pq_public_key = None, pq_key_algorithm = None,
     pq_cert_chain = [''leaf'', ''root''], pq_store_id = None\<rparr>"

definition demo_key :: attested_key where
  "demo_key = \<lparr>ak_verdict = Some demo_verdict, ak_public_key = Some ''spki'', ak_algorithm = Some ''ES256''\<rparr>"

lemma demo_key_bound: "bind_key demo_pairing_platform demo_device_env (der_encode demo_leaf) None None = Inr (Inr (Some ''spki'', Some ''ES256''))"
  using demo_leaf_reads by (auto simp: bind_key_def demo_pairing_platform_def parseX509Certificate_def demo_parses truthy_def)

lemma demo_attested: "attest_chain demo_pairing_platform demo_device_env 1000 demo_request [7, 7] = ret (Inr demo_key)"
proof -
  have "run_verifier demo_pairing_platform demo_device_env 1000 [der_encode demo_leaf, der_encode demo_root] [7, 7] = Inr demo_verdict"
    using demo_verified [of 1000]
    by (simp add: run_verifier_def demo_pairing_platform_def demo_device_env_def env_options_def strict_options_def allow_unverified_boot_def)
  moreover have "decode_chain demo_pairing_platform [''leaf'', ''root''] = Some [der_encode demo_leaf, der_encode demo_root]"
    by (simp add: demo_pairing_platform_def)
  ultimately show ?thesis
    using demo_key_bound by (simp add: attest_chain_def demo_request_def demo_key_def demo_verdict_def)
qed

lemmas register_device_run [code] = register_device_def [THEN fun_cong, unfolded prog_run]

lemma demo_registered: "fst (register_device demo_device_env 1000 demo_code ''phone'' demo_request demo_key demo_claimed) = Inr (Inr (8, Attested))"
  by code_simp

lemma calls_arrive: "w_fates (mo_world s) = [] \<Longrightarrow> m_remote op s = (Inr (fst (op s)), snd (op s))"
  by (simp add: m_remote_def next_fate_def)

lemma demo_unpaired_simps [simp]: "mo_world demo_claimed = mo_world demo_unpaired" "w_fates (mo_world demo_unpaired) = []" "mo_now demo_unpaired = 1000"
    "mo_env demo_unpaired = demo_device_env" "mo_kv_attempts demo_unpaired = []"
    "mo_kv_challenges demo_unpaired = [(''attest:challenge:123456'', ([7, 7], 2000), 301000)]"
    "mo_tables demo_unpaired = demo_tables\<lparr>op_device_pairing_tokens := [demo_code]\<rparr>"
  by (simp_all add: demo_unpaired_def demo_claimed_def demo_mobile_def demo_world_def)

lemmas calls_simps = calls_arrive get_attempts_def delete_attempts_def get_challenge_def delete_challenge_def m_get_def m_run_def kv_read_def

lemma demo_code_found: "find_token ''123456'' (mo_tables demo_unpaired) = Some demo_code" "otp_code (Some ''123456'') None = Some ''123456''"
    "claim_token 1 1000 (mo_tables demo_unpaired) = (1, demo_tables\<lparr>op_device_pairing_tokens := [demo_code\<lparr>pt_used_at := Some 1000\<rparr>]\<rparr>)"
  by (simp_all add: find_token_def demo_code_def claim_token_def demo_tables_def) code_simp

lemma demo_claims: "claimed demo_pairing_platform demo_device_env 1000 ''123456'' ''phone'' demo_code demo_request
    (demo_unpaired\<lparr>mo_tables := demo_tables\<lparr>op_device_pairing_tokens := [demo_code\<lparr>pt_used_at := Some 1000\<rparr>]\<rparr>\<rparr>) =
    register_device demo_device_env 1000 demo_code ''phone'' demo_request demo_key demo_claimed"
proof -
  have chain: "pq_cert_chain demo_request \<noteq> []" by (simp add: demo_request_def)
  show ?thesis
    by (simp add: claimed_def attest_def chain catching_def andThen_def ret_def calls_simps challengeKey_def attemptKey_def demo_attested demo_claimed_def)
qed

lemma demo_pairs: "fst (handlePairing demo_pairing_platform ''phone'' demo_request demo_unpaired) = Inr (Inr (8, Attested))"
proof -
  have q: "pq_otp demo_request = Some ''123456''" "pq_token demo_request = None" by (simp_all add: demo_request_def)
  have c: "pt_id demo_code = 1" "pt_expires_at demo_code = 5000" "pt_used_at demo_code = None" by (simp_all add: demo_code_def)
  have P: "pp_sha256 demo_pairing_platform = (\<lambda>s. s)" by (simp add: demo_pairing_platform_def)
  show ?thesis using demo_registered
    by (simp add: handlePairing_def q c P demo_code_found demo_code_found [simplified] demo_claims Let_def attempt_locked_def reading_def catching_def andThen_def ret_def calls_simps)
qed

theorem attested_pairing_genuine_witness:
  "fst (handlePairing demo_pairing_platform ''phone'' demo_request demo_unpaired) = Inr (Inr (8, Attested)) \<and>
   (\<exists>code challenge key. otp_code (pq_otp demo_request) (pq_token demo_request) = Some code \<and>
     fresh_challenge demo_pairing_platform demo_unpaired code challenge \<and> genuine demo_pairing_platform demo_unpaired demo_request challenge key)"
proof -
  have run: "handlePairing demo_pairing_platform ''phone'' demo_request demo_unpaired =
      (Inr (Inr (8, Attested)), snd (handlePairing demo_pairing_platform ''phone'' demo_request demo_unpaired))"
    using demo_pairs by (metis prod.collapse)
  have "de_ENVIRONMENT (mo_env demo_unpaired) \<noteq> ''test''" by (simp add: demo_device_env_def)
  from attested_pairing_genuine [OF run this] demo_pairs show ?thesis by auto
qed

end
