(* ===== verification/Edge.thy ===== *)
theory Edge
  imports Pairing
begin

text \<open>
  The guards in front of the handlers: retries under an idempotency key (\<open>middleware/idempotency.ts\<close>), the request limits
  (\<open>middleware/rate-limit.ts\<close>) and the comparison of secrets (\<open>lib/timing-safe.ts\<close>).  The handler behind a guard is an argument
  that answers, takes some time and changes the application's state.  What the code hands to \<open>waitUntil\<close> is a background task,
  which completes at some later time, in any order, or is lost.
\<close>

section \<open>lib/timing-safe.ts\<close>

text \<open>On the bytes of the two strings; bit operations work on 32-bit integers.\<close>

fun diff_loop :: "byte list \<Rightarrow> byte list \<Rightarrow> word32 \<Rightarrow> word32" where
  "diff_loop [] [] d = d"
| "diff_loop (a # as) [] d = diff_loop as [] (d OR ucast (a XOR 0))"
| "diff_loop [] (b # bs) d = diff_loop [] bs (d OR ucast (0 XOR b))"
| "diff_loop (a # as) (b # bs) d = diff_loop as bs (d OR ucast (a XOR b))"

definition timingSafeEqual :: "byte list \<Rightarrow> byte list \<Rightarrow> bool" where
  "timingSafeEqual as bs \<longleftrightarrow> diff_loop as bs (word_of_nat (length as) XOR word_of_nat (length bs)) = 0"

lemma ucast_zero: "(ucast (x :: byte) = (0 :: word32)) = (x = 0)"
proof
  assume "ucast x = (0 :: word32)"
  then have "unat (ucast x :: word32) = 0" by simp
  then have "unat x = 0" using unsigned_less [of x, where 'a = nat] by (simp add: unsigned_ucast_eq take_bit_eq_mod)
  then show "x = 0" by (simp add: unsigned_eq_0_iff)
qed simp

lemma xor_zero: "(a XOR b = 0) = (a = (b :: 'a::len word))"
  by (metis xor.assoc xor.left_neutral xor.right_neutral xor_self_eq)

lemma diff_loop_nonzero: "d \<noteq> 0 \<Longrightarrow> diff_loop as bs d \<noteq> 0"
  by (induction as bs d rule: diff_loop.induct) (auto simp: or_eq_0_iff)

lemma diff_loop_zero: "length as = length bs \<Longrightarrow> (diff_loop as bs d = 0) = (d = 0 \<and> as = bs)"
  by (induction as bs d rule: diff_loop.induct) (auto simp: or_eq_0_iff ucast_zero xor_zero)

text \<open>The comparison is equality, for strings of any length a JavaScript engine allows.\<close>

lemma timingSafeEqual_iff:
  assumes "length as < 2 ^ 32" and "length bs < 2 ^ 32"
  shows "timingSafeEqual as bs = (as = bs)"
proof (cases "length as = length bs")
  case True
  then show ?thesis by (simp add: timingSafeEqual_def diff_loop_zero)
next
  case False
  have "unat (word_of_nat (length as) :: word32) = length as" "unat (word_of_nat (length bs) :: word32) = length bs"
    using assms by (simp_all add: unat_of_nat)
  with False have "(word_of_nat (length as) :: word32) \<noteq> word_of_nat (length bs)" by metis
  then have "(word_of_nat (length as) :: word32) XOR word_of_nat (length bs) \<noteq> 0" by (simp add: xor_zero)
  from diff_loop_nonzero [OF this] False show ?thesis by (auto simp: timingSafeEqual_def)
qed

section \<open>The guards' state\<close>

record response =
  rs_status :: nat
  rs_body :: string

record idempotency_row =
  ik_id :: nat
  ik_merchant_id :: int
  ik_key :: string
  ik_body_hash :: string
  ik_status :: nat
  ik_body :: string
  ik_expires_at :: iso

datatype background = StoreResponse idempotency_row | PutCounter string int int int

record 's edge =
  ed_app :: 's
  ed_now :: int
  ed_fates :: "fate list"
  ed_keys :: "idempotency_row list"
  ed_seq :: nat
  ed_counters :: "(string \<times> (int \<times> int) \<times> int) list"
  ed_background :: "background list"

type_synonym ('s, 'a) guard = "('s edge, exn, 'a) prog"
type_synonym 's handler = "'s \<Rightarrow> response \<times> nat \<times> 's"

definition e_remote :: "('s edge \<Rightarrow> 'a \<times> 's edge) \<Rightarrow> ('s, 'a) guard" where
  "e_remote op e = (case ed_fates e of
      [] \<Rightarrow> (Inr (fst (op e)), snd (op e))
    | f # fs \<Rightarrow> (let e1 = e\<lparr>ed_fates := fs\<rparr> in case f of
          Arrives \<Rightarrow> (Inr (fst (op e1)), snd (op e1))
        | Lost \<Rightarrow> (Inl (Error ''Network connection lost''), e1)
        | ReplyLost \<Rightarrow> (Inl (Error ''Network connection lost''), snd (op e1))))"

definition in_background :: "background \<Rightarrow> ('s, unit) guard" where
  "in_background b = writing (\<lambda>e. e\<lparr>ed_background := ed_background e @ [b]\<rparr>)"

definition run_next :: "'s handler \<Rightarrow> ('s, response) guard" where
  "run_next h e = (case h (ed_app e) of (r, dt, a) \<Rightarrow> (Inr r, e\<lparr>ed_app := a, ed_now := ed_now e + int dt\<rparr>))"

section \<open>middleware/idempotency.ts\<close>

record edge_request =
  er_method :: string
  er_key :: "string option"
  er_merchant :: "int option"
  er_body :: string

datatype edge_answer = KeyRequired | InvalidKey | Replay nat string | Passed response

definition valid_key :: "string \<Rightarrow> bool" where
  "valid_key k \<longleftrightarrow> 8 \<le> length k \<and> length k \<le> 64 \<and>
     list_all (\<lambda>c. CHR ''a'' \<le> c \<and> c \<le> CHR ''z'' \<or> CHR ''A'' \<le> c \<and> c \<le> CHR ''Z'' \<or> is_digit c \<or> c = CHR ''_'' \<or> c = CHR ''-'') k"

definition find_key :: "int \<Rightarrow> string \<Rightarrow> idempotency_row list \<Rightarrow> idempotency_row option" where
  "find_key mid k = List.find (\<lambda>r. ik_merchant_id r = mid \<and> ik_key r = k)"

definition delete_key :: "nat \<Rightarrow> 's edge \<Rightarrow> 's edge" where
  "delete_key i e = e\<lparr>ed_keys := filter (\<lambda>r. ik_id r \<noteq> i) (ed_keys e)\<rparr>"

definition insert_response :: "idempotency_row \<Rightarrow> 's edge \<Rightarrow> 's edge" where
  "insert_response row e =
     (if find_key (ik_merchant_id row) (ik_key row) (ed_keys e) \<noteq> None then e
      else e\<lparr>ed_keys := ed_keys e @ [row\<lparr>ik_id := ed_seq e\<rparr>], ed_seq := ed_seq e + 1\<rparr>)"

definition TTL_HOURS :: int where
  "TTL_HOURS = 24"

definition process_request :: "'s handler \<Rightarrow> int \<Rightarrow> string \<Rightarrow> string \<Rightarrow> ('s, edge_answer) guard" where
  "process_request h mid k bodyHash =
     andThen (run_next h) (\<lambda>r.
     andThen (reading ed_now) (\<lambda>now.
     andThen (if 200 \<le> rs_status r \<and> rs_status r < 400
              then in_background (StoreResponse \<lparr>ik_id = 0, ik_merchant_id = mid, ik_key = k, ik_body_hash = bodyHash,
                ik_status = rs_status r, ik_body = rs_body r, ik_expires_at = now + TTL_HOURS * 3600 * 1000\<rparr>)
              else ret ()) (\<lambda>_.
     ret (Passed r))))"

definition KeyConflict :: exn where
  "KeyConflict = HttpError 409 ''Idempotency key was used with a different request body. Use a new key.'' ''CONFLICT''"

definition idempotency :: "(string \<Rightarrow> string) \<Rightarrow> bool \<Rightarrow> 's handler \<Rightarrow> edge_request \<Rightarrow> ('s, edge_answer) guard" where
  "idempotency sha256 required h q =
     (let pass = andThen (run_next h) (\<lambda>r. ret (Passed r)) in
      if er_method q \<notin> {''POST'', ''PUT'', ''PATCH''} then pass
      else case truthy (er_key q) of
          None \<Rightarrow> if required then ret KeyRequired else pass
        | Some k \<Rightarrow>
            if \<not> valid_key k then ret InvalidKey
            else case er_merchant q of
                None \<Rightarrow> pass
              | Some mid \<Rightarrow>
                  if mid = 0 then pass
                  else andThen (e_remote (\<lambda>e. (find_key mid k (ed_keys e), e))) (\<lambda>existing. case existing of
                      None \<Rightarrow> process_request h mid k (sha256 (er_body q))
                    | Some row \<Rightarrow>
                        andThen (reading ed_now) (\<lambda>now.
                        if ik_expires_at row < now
                        then andThen (catching (e_remote (\<lambda>e. ((), delete_key (ik_id row) e))) (\<lambda>_. ret ())) (\<lambda>_.
                          process_request h mid k (sha256 (er_body q)))
                        else if ik_body_hash row \<noteq> sha256 (er_body q) then throw KeyConflict
                        else ret (Replay (ik_status row) (ik_body row)))))"

section \<open>middleware/rate-limit.ts\<close>

record limit_config =
  lc_windowSec :: int
  lc_maxRequests :: int
  lc_keyPrefix :: string

definition ANON_ROUTE_LIMITS :: "(string \<times> limit_config) list" where
  "ANON_ROUTE_LIMITS =
     [(''api-read'', \<lparr>lc_windowSec = 60, lc_maxRequests = 120, lc_keyPrefix = ''rl:api:r:''\<rparr>),
      (''api-write'', \<lparr>lc_windowSec = 60, lc_maxRequests = 30, lc_keyPrefix = ''rl:api:w:''\<rparr>),
      (''mobile'', \<lparr>lc_windowSec = 60, lc_maxRequests = 60, lc_keyPrefix = ''rl:mobile:''\<rparr>),
      (''install'', \<lparr>lc_windowSec = 3600, lc_maxRequests = 3, lc_keyPrefix = ''rl:install:''\<rparr>),
      (''otp'', \<lparr>lc_windowSec = 3600, lc_maxRequests = 10, lc_keyPrefix = ''rl:otp:''\<rparr>),
      (''password'', \<lparr>lc_windowSec = 3600, lc_maxRequests = 5, lc_keyPrefix = ''rl:pwd:''\<rparr>),
      (''checkout'', \<lparr>lc_windowSec = 600, lc_maxRequests = 30, lc_keyPrefix = ''rl:chk:''\<rparr>)]"

datatype limit_answer = Admitted response | TooMany int | LimiterDown

definition counter_key :: "limit_config \<Rightarrow> string \<Rightarrow> string \<Rightarrow> string" where
  "counter_key c grp ip = lc_keyPrefix c @ ip @ '':'' @ grp"

definition get_counter :: "string \<Rightarrow> ('s, (int \<times> int) option) guard" where
  "get_counter k = e_remote (\<lambda>e. (kv_read (ed_now e) (ed_counters e) k, e))"

text \<open>The count and the end of the window with this request in it.\<close>

definition next_count :: "limit_config \<Rightarrow> int \<Rightarrow> (int \<times> int) option \<Rightarrow> int \<times> int" where
  "next_count c now raw =
     (let fresh = now + lc_windowSec c * 1000;
          (count, resetAt) = (case raw of None \<Rightarrow> (0, fresh) | Some (n, r) \<Rightarrow> (n, if r = 0 then fresh else r))
      in if now > resetAt then (1, fresh) else (count + 1, resetAt))"

definition perIpRateLimit :: "limit_config \<Rightarrow> string \<Rightarrow> string \<Rightarrow> 's handler \<Rightarrow> ('s, limit_answer) guard" where
  "perIpRateLimit c grp ip h =
     andThen (catching (andThen (get_counter (counter_key c grp ip)) (\<lambda>raw. ret (Some raw))) (\<lambda>_. ret None)) (\<lambda>r. case r of
         None \<Rightarrow> ret LimiterDown
       | Some raw \<Rightarrow>
           andThen (reading ed_now) (\<lambda>now. case next_count c now raw of (count, resetAt) \<Rightarrow>
           if count > lc_maxRequests c then ret (TooMany (- ((now - resetAt) div 1000)))
           else andThen (in_background (PutCounter (counter_key c grp ip) count resetAt (lc_windowSec c))) (\<lambda>_.
             andThen (run_next h) (\<lambda>a. ret (Admitted a)))))"

text \<open>The limit per API key: the platform's binding counts, and a missing binding lets everything pass.\<close>

definition rateLimitMiddleware :: "(string \<Rightarrow> bool) option \<Rightarrow> (string \<Rightarrow> bool) option \<Rightarrow> int option \<Rightarrow> string \<Rightarrow> 's handler \<Rightarrow> ('s, limit_answer) guard" where
  "rateLimitMiddleware RATE_LIMIT_READ RATE_LIMIT_WRITE apiKeyId method h =
     (let pass = andThen (run_next h) (\<lambda>a. ret (Admitted a)) in
      case apiKeyId of
          None \<Rightarrow> pass
        | Some k \<Rightarrow> (case (if method = ''GET'' \<or> method = ''HEAD'' then RATE_LIMIT_READ else RATE_LIMIT_WRITE) of
              None \<Rightarrow> pass
            | Some limit \<Rightarrow> andThen (e_remote (\<lambda>e. (limit (''key:'' @ int_str k), e))) (\<lambda>success.
                if success then pass else ret (TooMany 60))))"

section \<open>Background tasks and runs\<close>

definition put_counter :: "string \<Rightarrow> int \<Rightarrow> int \<Rightarrow> int \<Rightarrow> 's edge \<Rightarrow> 's edge" where
  "put_counter k count resetAt ttl e = e\<lparr>ed_counters := AList.update k ((count, resetAt), ed_now e + ttl * 1000) (ed_counters e)\<rparr>"

fun run_background :: "background \<Rightarrow> ('s, unit) guard" where
  "run_background (StoreResponse row) = catching (e_remote (\<lambda>e. ((), insert_response row e))) (\<lambda>_. ret ())"
| "run_background (PutCounter k count resetAt ttl) = e_remote (\<lambda>e. ((), put_counter k count resetAt ttl e))"

text \<open>One of the pending tasks completes.\<close>

definition settle :: "nat \<Rightarrow> 's edge \<Rightarrow> 's edge" where
  "settle i e = (if i < length (ed_background e)
     then snd (run_background (ed_background e ! i) (e\<lparr>ed_background := take i (ed_background e) @ drop (Suc i) (ed_background e)\<rparr>)) else e)"

datatype edge_event = Guarded bool edge_request | Limited limit_config string string | Settle nat | Elapse nat

fun edge_run :: "(string \<Rightarrow> string) \<Rightarrow> 's handler \<Rightarrow> edge_event list \<Rightarrow> 's edge \<Rightarrow> 's edge" where
  "edge_run H h [] e = e"
| "edge_run H h (Guarded required q # es) e = edge_run H h es (snd (idempotency H required h q e))"
| "edge_run H h (Limited c grp ip # es) e = edge_run H h es (snd (perIpRateLimit c grp ip h e))"
| "edge_run H h (Settle i # es) e = edge_run H h es (settle i e)"
| "edge_run H h (Elapse dt # es) e = edge_run H h es (e\<lparr>ed_now := ed_now e + int dt\<rparr>)"

section \<open>A stored answer is replayed\<close>

text \<open>The ids of the table are unique, and until it expires the row of a key stays the row of that key.\<close>

definition keys_ok :: "'s edge \<Rightarrow> bool" where
  "keys_ok e \<longleftrightarrow> distinct (map ik_id (ed_keys e)) \<and> list_all (\<lambda>r. ik_id r < ed_seq e) (ed_keys e)"

definition kept :: "idempotency_row \<Rightarrow> 's edge \<Rightarrow> bool" where
  "kept row e \<longleftrightarrow> keys_ok e \<and> (ed_now e \<le> ik_expires_at row \<longrightarrow> find_key (ik_merchant_id row) (ik_key row) (ed_keys e) = Some row)"

lemma kept_stateI:
  assumes "kept row e" and "ed_keys e' = ed_keys e" and "ed_seq e' = ed_seq e" and "ed_now e \<le> ed_now e'"
  shows "kept row e'"
  using assms by (simp add: kept_def keys_ok_def)

lemma kept_remote:
  assumes "\<And>e. P e \<Longrightarrow> kept row e" and "\<And>e fs. P e \<Longrightarrow> P (e\<lparr>ed_fates := fs\<rparr>)" and "\<And>e. P e \<Longrightarrow> Q (fst (op e)) (snd (op e)) \<and> kept row (snd (op e))"
  shows "triple P (e_remote op) Q (\<lambda>_. kept row)"
proof -
  have "kept row (e\<lparr>ed_fates := fs\<rparr>)" if "P e" for e and fs using assms(1) assms(2) [OF that] by blast
  then show ?thesis using assms(2,3)
    by (simp add: triple_def e_remote_def Let_def split: list.split fate.split)
qed

lemma kept_fates [simp]: "kept row (e\<lparr>ed_fates := fs\<rparr>) = kept row e" "kept row (e\<lparr>ed_background := bs\<rparr>) = kept row e"
  by (simp_all add: kept_def keys_ok_def)

lemma find_key_mem: "find_key mid k rows = Some r \<Longrightarrow> r \<in> set rows \<and> ik_merchant_id r = mid \<and> ik_key r = k"
  by (induction rows) (auto simp: find_key_def split: if_splits)

lemma find_key_append: "find_key mid k rows = Some r \<Longrightarrow> find_key mid k (rows @ rs) = Some r"
  by (induction rows) (auto simp: find_key_def)

lemma find_key_filter: "find_key mid k rows = Some r \<Longrightarrow> p r \<Longrightarrow> find_key mid k (filter p rows) = Some r \<or> \<not> p r"
  by (induction rows) (auto simp: find_key_def split: if_splits)

lemma insert_kept: "kept row e \<Longrightarrow> kept row (insert_response r e)"
  by (auto simp: kept_def keys_ok_def insert_response_def list_all_iff find_key_append)

lemma delete_kept:
  assumes "kept row e" and "i = ik_id row \<Longrightarrow> ik_expires_at row < ed_now e"
  shows "kept row (delete_key i e)"
proof -
  have "keys_ok (delete_key i e)"
    using assms(1) by (simp add: kept_def keys_ok_def delete_key_def list_all_iff distinct_map_filter)
  moreover have "find_key (ik_merchant_id row) (ik_key row) (filter (\<lambda>r. ik_id r \<noteq> i) (ed_keys e)) = Some row" if "ed_now e \<le> ik_expires_at row"
    using assms that find_key_filter [of "ik_merchant_id row" "ik_key row" "ed_keys e" row "\<lambda>r. ik_id r \<noteq> i"]
    by (auto simp: kept_def)
  ultimately show ?thesis by (simp add: kept_def delete_key_def)
qed

text \<open>A row found expired is not the kept one, unless that has expired too.\<close>

lemma expired_other:
  assumes "kept row e" and "r \<in> set (ed_keys e)" and "ik_expires_at r < ed_now e" and "ik_id r = ik_id row"
  shows "ik_expires_at row < ed_now e"
proof (rule ccontr)
  assume live: "\<not> ik_expires_at row < ed_now e"
  then have "row \<in> set (ed_keys e)" using assms(1) find_key_mem by (fastforce simp: kept_def)
  with assms have "r = row" by (auto simp: kept_def keys_ok_def distinct_map inj_on_def)
  with live assms(3) show False by simp
qed

lemma next_kept: "triple (kept row) (run_next h) (\<lambda>_. kept row) (\<lambda>_. kept row)"
  by (auto simp: triple_def run_next_def split: prod.split elim: kept_stateI)

lemma background_kept: "preserves (kept row) (in_background b)"
  by (simp add: triple_def in_background_def writing_def)

lemma process_kept: "preserves (kept row) (process_request h mid k bh)"
  unfolding process_request_def
  by (intro preserves_andThen preserves_if next_kept background_kept preserves_pure)

lemma idempotency_kept: "preserves (kept row) (idempotency H required h q)"
proof -
  have lookup: "triple (kept row) (e_remote (\<lambda>e. (find_key mid k (ed_keys e), e)))
      (\<lambda>x e. kept row e \<and> (\<forall>r. x = Some r \<longrightarrow> r \<in> set (ed_keys e))) (\<lambda>_. kept row)" for mid k
    by (rule kept_remote) (auto dest: find_key_mem)
  have del: "triple (\<lambda>e. kept row e \<and> (i = ik_id row \<longrightarrow> ik_expires_at row < ed_now e)) (e_remote (\<lambda>e. ((), delete_key i e)))
      (\<lambda>_. kept row) (\<lambda>_. kept row)" for i
    by (rule kept_remote) (auto intro: delete_kept)
  have renew: "triple (\<lambda>e. kept row e \<and> (i = ik_id row \<longrightarrow> ik_expires_at row < ed_now e))
      (andThen (catching (e_remote (\<lambda>e. ((), delete_key i e))) (\<lambda>_. ret ())) (\<lambda>_. process_request h mid k bh)) (\<lambda>_. kept row) (\<lambda>_. kept row)" for i mid k bh
    by (rule triple_andThen [OF triple_catching [OF del] process_kept]) (rule triple_ret)
  have found: "triple (\<lambda>e. kept row e \<and> (\<forall>r. existing = Some r \<longrightarrow> r \<in> set (ed_keys e))) (case existing of
        None \<Rightarrow> process_request h mid k (H (er_body q))
      | Some r \<Rightarrow> andThen (reading ed_now) (\<lambda>now.
          if ik_expires_at r < now
          then andThen (catching (e_remote (\<lambda>e. ((), delete_key (ik_id r) e))) (\<lambda>_. ret ())) (\<lambda>_. process_request h mid k (H (er_body q)))
          else if ik_body_hash r \<noteq> H (er_body q) then throw KeyConflict
          else ret (Replay (ik_status r) (ik_body r)))) (\<lambda>_. kept row) (\<lambda>_. kept row)" for existing mid k
  proof (cases existing)
    case None
    then show ?thesis using process_kept by (simp add: triple_def)
  next
    case (Some r)
    show ?thesis unfolding Some option.case
    proof (rule triple_andThen)
      show "triple (\<lambda>e. kept row e \<and> (\<forall>r'. Some r = Some r' \<longrightarrow> r' \<in> set (ed_keys e))) (reading ed_now)
          (\<lambda>now e. now = ed_now e \<and> kept row e \<and> r \<in> set (ed_keys e)) (\<lambda>_. kept row)"
        by (rule triple_reading) simp
    next
      fix now
      show "triple (\<lambda>e. now = ed_now e \<and> kept row e \<and> r \<in> set (ed_keys e)) (if ik_expires_at r < now
          then andThen (catching (e_remote (\<lambda>e. ((), delete_key (ik_id r) e))) (\<lambda>_. ret ())) (\<lambda>_. process_request h mid k (H (er_body q)))
          else if ik_body_hash r \<noteq> H (er_body q) then throw KeyConflict
          else ret (Replay (ik_status r) (ik_body r))) (\<lambda>_. kept row) (\<lambda>_. kept row)"
        by (auto intro!: triple_ret triple_throw triple_weaken [OF renew] dest: expired_other)
    qed
  qed
  show ?thesis unfolding idempotency_def Let_def
    by (auto intro!: preserves_andThen next_kept preserves_pure triple_andThen [OF lookup] found split: option.split)
qed

lemma limit_kept: "preserves (kept row) (perIpRateLimit c grp ip h)"
proof -
  have get: "preserves (kept row) (get_counter k)" for k
    unfolding get_counter_def by (rule kept_remote) auto
  show ?thesis unfolding perIpRateLimit_def
    by (auto intro!: preserves_andThen preserves_if preserves_catching get preserves_pure background_kept next_kept split: option.split prod.split)
qed

lemma run_background_kept: "preserves (kept row) (run_background b)"
proof (cases b)
  case (StoreResponse r)
  have "preserves (kept row) (e_remote (\<lambda>e. ((), insert_response r e)))" by (rule kept_remote) (auto intro: insert_kept)
  then show ?thesis unfolding StoreResponse run_background.simps by (intro preserves_catching preserves_pure)
next
  case (PutCounter k n r ttl)
  have "kept row (put_counter k n r ttl e) = kept row e" for e by (simp add: kept_def keys_ok_def put_counter_def)
  then show ?thesis unfolding PutCounter run_background.simps by (intro kept_remote) auto
qed

lemma settle_kept: "kept row e \<Longrightarrow> kept row (settle i e)"
  by (auto simp: settle_def intro!: preservesD [OF run_background_kept])

lemma elapse_kept: "kept row e \<Longrightarrow> kept row (e\<lparr>ed_now := ed_now e + int dt\<rparr>)"
  by (erule kept_stateI) simp_all

lemma run_kept: "kept row e \<Longrightarrow> kept row (edge_run H h es e)"
  by (induction H h es e rule: edge_run.induct)
     (auto intro: preservesD [OF idempotency_kept] preservesD [OF limit_kept] settle_kept elapse_kept)

lemma run_append: "edge_run H h (es @ fs) e = edge_run H h fs (edge_run H h es e)"
  by (induction H h es e rule: edge_run.induct) simp_all

lemma run_keys_ok:
  assumes "ed_keys e = []"
  shows "keys_ok (edge_run H h es e)"
proof -
  let ?row = "\<lparr>ik_id = 0, ik_merchant_id = 0, ik_key = [], ik_body_hash = [], ik_status = 0, ik_body = [], ik_expires_at = ed_now e - 1\<rparr>"
  have "kept ?row e" using assms by (simp add: kept_def keys_ok_def)
  from run_kept [OF this] show ?thesis by (simp add: kept_def)
qed

text \<open>C39: a stored answer is given again, and the handler is not run.  Once the answer to a request has been stored under its key, then, whatever other
  requests, background tasks, lost calls and waiting come in between, every request with that key before the answer expires leaves the application's state
  alone: it gets the stored answer if its body is the same and a conflict if it is not, unless the lookup itself is lost.
\<close>

theorem stored_answer_replayed:
  assumes "ed_keys e0 = []" and "find_key mid k (ed_keys (edge_run H h es e0)) = Some row"
    and "e = edge_run H h (es @ fs) e0" and "ed_now e \<le> ik_expires_at row"
    and "er_method q \<in> {''POST'', ''PUT'', ''PATCH''}" and "er_key q = Some k" and "valid_key k" and "er_merchant q = Some mid" and "mid \<noteq> 0"
  shows "ed_app (snd (idempotency H required h q e)) = ed_app e \<and>
    (fst (idempotency H required h q e) = Inl (Error ''Network connection lost'') \<or>
     fst (idempotency H required h q e) =
       (if ik_body_hash row = H (er_body q) then Inr (Replay (ik_status row) (ik_body row)) else Inl KeyConflict))"
proof -
  have key: "ik_merchant_id row = mid" "ik_key row = k" using find_key_mem [OF assms(2)] by simp_all
  have "kept row (edge_run H h es e0)" using run_keys_ok [OF assms(1)] assms(2) by (simp add: kept_def key)
  then have "kept row e" unfolding assms(3) run_append by (rule run_kept)
  then have found: "find_key mid k (ed_keys e) = Some row" using assms(4) by (simp add: kept_def key)
  have "truthy (Some k) = Some k" using assms(7) by (auto simp: truthy_def valid_key_def)
  then show ?thesis using assms(4-9) found
    by (auto simp: idempotency_def Let_def andThen_def reading_def throw_def ret_def e_remote_def split: list.split fate.split)
qed

section \<open>Limits\<close>

text \<open>Requests of one client, each sent after the counter of the one before has been written.\<close>

fun paced :: "limit_config \<Rightarrow> string \<Rightarrow> string \<Rightarrow> 's handler \<Rightarrow> nat list \<Rightarrow> 's edge \<Rightarrow> nat \<times> 's edge" where
  "paced c grp ip h [] e = (0, e)"
| "paced c grp ip h (dt # dts) e = (case perIpRateLimit c grp ip h (e\<lparr>ed_now := ed_now e + int dt\<rparr>) of
      (x, e1) \<Rightarrow> (case paced c grp ip h dts (settle 0 e1) of
         (n, e2) \<Rightarrow> ((case x of Inr (Admitted _) \<Rightarrow> Suc n | _ \<Rightarrow> n), e2)))"

lemma paced_step:
  "snd (paced c grp ip h (dt # dts) e) = snd (paced c grp ip h dts (settle 0 (snd (perIpRateLimit c grp ip h (e\<lparr>ed_now := ed_now e + int dt\<rparr>)))))"
  "fst (paced c grp ip h (dt # dts) e) =
     (case fst (perIpRateLimit c grp ip h (e\<lparr>ed_now := ed_now e + int dt\<rparr>)) of Inr (Admitted _) \<Rightarrow> Suc | _ \<Rightarrow> id)
       (fst (paced c grp ip h dts (settle 0 (snd (perIpRateLimit c grp ip h (e\<lparr>ed_now := ed_now e + int dt\<rparr>))))))"
  by (auto split: prod.split sum.split limit_answer.split)

definition quiet_edge :: "'s edge \<Rightarrow> bool" where
  "quiet_edge e \<longleftrightarrow> ed_fates e = [] \<and> ed_background e = []"

definition counted :: "string \<Rightarrow> int \<Rightarrow> int \<Rightarrow> 's edge \<Rightarrow> bool" where
  "counted k n until e \<longleftrightarrow> (n = 0 \<and> map_of (ed_counters e) k = None \<or>
     (\<exists>r x. map_of (ed_counters e) k = Some ((n, r), x) \<and> until \<le> r \<and> until \<le> x))"

lemma next_counted:
  assumes "counted k n until e" and "ed_now e < until" and "until \<le> ed_now e + lc_windowSec c * 1000"
  shows "\<exists>r. next_count c (ed_now e) (kv_read (ed_now e) (ed_counters e) k) = (n + 1, r) \<and> until \<le> r"
  using assms by (auto simp: counted_def next_count_def kv_read_def Let_def)

lemma limit_quiet:
  assumes "quiet_edge e" and "counted (counter_key c grp ip) n until e" and "ed_now e < until" and "until \<le> ed_now e + lc_windowSec c * 1000"
  shows "if n + 1 \<le> lc_maxRequests c
    then \<exists>a e1. perIpRateLimit c grp ip h e = (Inr (Admitted a), e1) \<and> quiet_edge (settle 0 e1) \<and> ed_now e \<le> ed_now (settle 0 e1) \<and>
      counted (counter_key c grp ip) (n + 1) until (settle 0 e1)
    else \<exists>t. perIpRateLimit c grp ip h e = (Inr (TooMany t), e)"
proof -
  let ?k = "counter_key c grp ip"
  obtain r where r: "next_count c (ed_now e) (kv_read (ed_now e) (ed_counters e) ?k) = (n + 1, r)" "until \<le> r"
    using next_counted [OF assms(2-4)] by blast
  have q: "ed_fates e = []" "ed_background e = []" using assms(1) by (simp_all add: quiet_edge_def)
  obtain a dt s where h: "h (ed_app e) = (a, dt, s)" by (cases "h (ed_app e)") auto
  let ?put = "PutCounter ?k (n + 1) r (lc_windowSec c)"
  let ?e1 = "e\<lparr>ed_background := [?put], ed_app := s, ed_now := ed_now e + int dt\<rparr>"
  have run: "perIpRateLimit c grp ip h e = (if n + 1 > lc_maxRequests c then (Inr (TooMany (- ((ed_now e - r) div 1000))), e) else (Inr (Admitted a), ?e1))"
    by (simp add: perIpRateLimit_def get_counter_def andThen_def catching_def e_remote_def ret_def reading_def writing_def in_background_def run_next_def q r h)
  have settled: "settle 0 ?e1 = put_counter ?k (n + 1) r (lc_windowSec c) (?e1\<lparr>ed_background := []\<rparr>)"
    by (simp add: settle_def e_remote_def q)
  have "counted ?k (n + 1) until (settle 0 ?e1)" "quiet_edge (settle 0 ?e1)" "ed_now e \<le> ed_now (settle 0 ?e1)"
    unfolding settled using r(2) assms(4) q by (auto simp: counted_def put_counter_def quiet_edge_def update_conv)
  then show ?thesis using run by (auto simp: not_le)
qed

definition later :: "int \<Rightarrow> 's edge \<Rightarrow> bool" where
  "later t e \<longleftrightarrow> t \<le> ed_now e"

lemma later_remote: "(\<And>e. ed_now (snd (op e)) = ed_now e) \<Longrightarrow> preserves (later t) (e_remote op)"
  by (simp add: triple_def later_def e_remote_def Let_def split: list.split fate.split)

lemma later_steps: "preserves (later t) (in_background b)" "preserves (later t) (run_next h)" "preserves (later t) (get_counter k)" "preserves (later t) (run_background b)"
proof -
  show "preserves (later t) (in_background b)" "preserves (later t) (run_next h)"
    by (auto simp: triple_def later_def in_background_def writing_def run_next_def split: prod.split)
  show "preserves (later t) (get_counter k)" unfolding get_counter_def by (rule later_remote) simp
  show "preserves (later t) (run_background b)"
    by (cases b) (auto intro!: later_remote preserves_catching preserves_pure simp: insert_response_def put_counter_def)
qed

lemma limit_later: "later t e \<Longrightarrow> later t (snd (perIpRateLimit c grp ip h e))"
  unfolding perIpRateLimit_def
  by (erule preservesD [rotated])
     (auto intro!: preserves_andThen preserves_if preserves_catching preserves_pure later_steps split: option.split prod.split)

lemma settle_later: "later t e \<Longrightarrow> later t (settle i e)"
  by (auto simp: settle_def later_def intro!: preservesD [OF later_steps(4), unfolded later_def])

lemma paced_later: "later t e \<Longrightarrow> later t (snd (paced c grp ip h dts e))"
proof (induction dts arbitrary: e)
  case (Cons dt dts)
  have "later t (e\<lparr>ed_now := ed_now e + int dt\<rparr>)" using Cons.prems by (simp add: later_def)
  from Cons.IH [OF settle_later [OF limit_later [OF this]]]
  show ?case unfolding paced_step .
qed simp

lemma paced_counted:
  assumes "quiet_edge e" and "counted (counter_key c grp ip) n until e" and "until \<le> ed_now e + lc_windowSec c * 1000"
    and "ed_now (snd (paced c grp ip h dts e)) < until" and "n \<le> lc_maxRequests c"
  shows "n + int (fst (paced c grp ip h dts e)) \<le> lc_maxRequests c"
  using assms
proof (induction dts arbitrary: e n)
  case (Cons dt dts)
  let ?e = "e\<lparr>ed_now := ed_now e + int dt\<rparr>"
  let ?x = "perIpRateLimit c grp ip h ?e"
  have "later (ed_now ?e) (snd (paced c grp ip h dts (settle 0 (snd ?x))))"
    by (intro paced_later settle_later limit_later) (simp add: later_def)
  then have now: "ed_now ?e < until" using Cons.prems(4) unfolding paced_step by (simp add: later_def)
  have q: "quiet_edge ?e" "counted (counter_key c grp ip) n until ?e" "until \<le> ed_now ?e + lc_windowSec c * 1000"
    using Cons.prems by (simp_all add: quiet_edge_def counted_def)
  note step = limit_quiet [OF q(1,2) now q(3), of h]
  show ?case
  proof (cases "n + 1 \<le> lc_maxRequests c")
    case True
    with step obtain a e1 where s: "?x = (Inr (Admitted a), e1)" "quiet_edge (settle 0 e1)" "ed_now ?e \<le> ed_now (settle 0 e1)"
        "counted (counter_key c grp ip) (n + 1) until (settle 0 e1)" by auto
    have "(n + 1) + int (fst (paced c grp ip h dts (settle 0 e1))) \<le> lc_maxRequests c"
      using Cons.prems(3,4) s True unfolding paced_step by (intro Cons.IH) simp_all
    with s(1) show ?thesis unfolding paced_step by simp
  next
    case False
    with step obtain t where s: "?x = (Inr (TooMany t), ?e)" by auto
    have same: "settle 0 ?e = ?e" using q(1) by (simp add: settle_def quiet_edge_def)
    have "n + int (fst (paced c grp ip h dts ?e)) \<le> lc_maxRequests c"
      using Cons.prems(4,5) q s same unfolding paced_step by (intro Cons.IH) simp_all
    with s same show ?thesis unfolding paced_step by simp
  qed
qed simp

text \<open>C40: as long as every counter write takes effect before the next request of the client, the limit of a route holds: in any stretch of time shorter
  than the window that starts without a counter, at most the configured number of requests is admitted.
\<close>

theorem rate_limit_bounds:
  assumes "ed_fates e = []" and "ed_background e = []" and "map_of (ed_counters e) (counter_key c grp ip) = None" and "0 \<le> lc_maxRequests c"
    and "ed_now (snd (paced c grp ip h dts e)) < ed_now e + lc_windowSec c * 1000"
  shows "int (fst (paced c grp ip h dts e)) \<le> lc_maxRequests c"
  using paced_counted [of e c grp ip 0 "ed_now e + lc_windowSec c * 1000" h dts] assms
  by (simp add: quiet_edge_def counted_def)

text \<open>Before that write has taken effect, or when it is lost, the next request is admitted as if it were the first: the write is handed to
  \<open>waitUntil\<close>, so its failure reaches no handler and the limit does not fail closed.\<close>

lemma unwritten_counter_admits:
  assumes "ed_fates e = []" and "map_of (ed_counters e) (counter_key c grp ip) = None" and "1 \<le> lc_maxRequests c" and "0 \<le> lc_windowSec c"
  shows "\<exists>a e1. perIpRateLimit c grp ip h e = (Inr (Admitted a), e1) \<and> ed_fates e1 = [] \<and> map_of (ed_counters e1) (counter_key c grp ip) = None"
  using assms
  by (auto simp: perIpRateLimit_def get_counter_def andThen_def catching_def e_remote_def ret_def reading_def writing_def in_background_def
    run_next_def kv_read_def next_count_def Let_def split: prod.split)

section \<open>Examples\<close>

text \<open>A handler that counts how often it has run, and a client that retries a payment.\<close>

definition demo_handler :: "nat handler" where
  "demo_handler n = (\<lparr>rs_status = 201, rs_body = ''paid''\<rparr>, 5, n + 1)"

definition demo_edge :: "nat edge" where
  "demo_edge = \<lparr>ed_app = 0, ed_now = 1000, ed_fates = [], ed_keys = [], ed_seq = 0, ed_counters = [], ed_background = []\<rparr>"

definition demo_retry :: edge_request where
  "demo_retry = \<lparr>er_method = ''POST'', er_key = Some ''order-0001'', er_merchant = Some 1, er_body = ''amount=5''\<rparr>"

text \<open>A retry that arrives before the first answer is stored runs the handler a second time.\<close>

lemma unsettled_retry_runs_again:
  "ed_app (edge_run id demo_handler [Guarded True demo_retry, Guarded True demo_retry, Settle 0, Settle 0] demo_edge) = 2"
  by code_simp

lemma demo_stored:
  "find_key 1 ''order-0001'' (ed_keys (edge_run id demo_handler [Guarded True demo_retry, Settle 0] demo_edge)) =
     Some \<lparr>ik_id = 0, ik_merchant_id = 1, ik_key = ''order-0001'', ik_body_hash = ''amount=5'', ik_status = 201, ik_body = ''paid'', ik_expires_at = 86401005\<rparr>"
  by code_simp

theorem stored_answer_replayed_witness:
  "let e = edge_run id demo_handler ([Guarded True demo_retry, Settle 0] @ [Elapse 60]) demo_edge in
     ed_app e = 1 \<and> ed_app (snd (idempotency id True demo_handler demo_retry e)) = 1 \<and>
     fst (idempotency id True demo_handler demo_retry e) = Inr (Replay 201 ''paid'')"
proof -
  let ?e = "edge_run id demo_handler ([Guarded True demo_retry, Settle 0] @ [Elapse 60]) demo_edge"
  have facts: "ed_keys demo_edge = []" "ed_now ?e \<le> 86401005" "er_method demo_retry \<in> {''POST'', ''PUT'', ''PATCH''}" "valid_key ''order-0001''"
      "er_key demo_retry = Some ''order-0001''" "er_merchant demo_retry = Some 1" "ed_app ?e = 1"
      "fst (idempotency id True demo_handler demo_retry ?e) = Inr (Replay 201 ''paid'')"
    by code_simp+
  show ?thesis
    using stored_answer_replayed [OF facts(1) demo_stored refl _ facts(3) facts(5) facts(4) facts(6), of "[Elapse 60]" True] facts
    by (simp add: Let_def)
qed

theorem rate_limit_bounds_witness:
  "map_of ANON_ROUTE_LIMITS ''install'' = Some \<lparr>lc_windowSec = 3600, lc_maxRequests = 3, lc_keyPrefix = ''rl:install:''\<rparr> \<and>
   int (fst (paced \<lparr>lc_windowSec = 3600, lc_maxRequests = 3, lc_keyPrefix = ''rl:install:''\<rparr> ''install'' ''10.0.0.1'' demo_handler [0, 1, 1, 1, 1] demo_edge)) \<le> 3"
proof -
  let ?c = "\<lparr>lc_windowSec = 3600, lc_maxRequests = 3, lc_keyPrefix = ''rl:install:''\<rparr>"
  have "ed_now (snd (paced ?c ''install'' ''10.0.0.1'' demo_handler [0, 1, 1, 1, 1] demo_edge)) < ed_now demo_edge + lc_windowSec ?c * 1000"
    by code_simp
  from rate_limit_bounds [OF _ _ _ _ this] show ?thesis by (simp add: demo_edge_def ANON_ROUTE_LIMITS_def)
qed

end
