(* ===== verification/Spec2Isabelle.thy ===== *)
theory Spec2Isabelle
  imports LedgerCorrect LedgerOutbox Gateways Hierarchy Webhooks PaymentCorrect Triggers Platform MobileCorrect Pairing Edge
begin

text \<open>
  The payment core of EdgePay: a double-entry ledger per merchant, the payment and refund services
  that post to it, the gateways, webhooks, workflows and reconciliation around them, and the
  devices whose forwarded messages confirm payments.  All paths are relative to \<open>src/src\<close>.

  \<^bold>\<open>How the parts fit.\<close>  A request runs a service.  A service reads and writes D1, posts to the ledger
  object of its merchant, sends to queues and starts workflows.  The ledger object commits a
  posting in its own SQLite and mirrors it to D1 through a transactional outbox that its alarm
  drains.  A refund is closed by a durable workflow.  A daily sweep replays what was left
  behind.  Messages that a paired phone forwards pass the device routes, wait in a queue,
  are parsed and corroborated against the open orders, and complete the order they name.

  \<^bold>\<open>Which theory models what.\<close>
  \<^item> \<open>Prelude\<close>: JavaScript values, row updates, and the state-and-exception programs (\<open>prog\<close>) of all
    services with their Hoare triples.
  \<^item> \<open>LedgerTypes\<close> (\<open>types/ledger.ts\<close>, \<open>lib/ledger-chart.ts\<close>), \<open>Database\<close> (\<open>types/db.ts\<close>, one record per
    row type), \<open>Money\<close> (\<open>lib/money.ts\<close> and the strict conversion to minor units).
  \<^item> \<open>LedgerAudit\<close> (\<open>services/ledger-audit.ts\<close>), \<open>LedgerDO\<close> (\<open>do/ledger-do.ts\<close>, every method of the object);
    \<open>LedgerInvariant\<close> (the book-keeping invariant), \<open>LedgerRuns\<close> (runs and reachable states, the
    at-most-once locale), \<open>LedgerSpec\<close> (the abstract book and the refinement), \<open>LedgerCorrect\<close> and
    \<open>LedgerOutbox\<close> (the properties), \<open>LedgerFrame\<close> (what the ledger leaves alone).
  \<^item> \<open>World\<close>: what a request sees of the platform, and the fate of each remote call;
    \<open>LedgerService\<close> (\<open>services/ledger.ts\<close>).
  \<^item> \<open>Gateways\<close> (\<open>gateways/base.ts\<close>, \<open>catalog.ts\<close>, \<open>enabled.ts\<close>, \<open>registry-slugs.ts\<close>, \<open>planned\<close>, \<open>index.ts\<close>),
    \<open>Hierarchy\<close> (\<open>services/hierarchy.ts\<close>), \<open>Webhooks\<close> (\<open>lib/url-guard.ts\<close>, \<open>services/webhook-dispatcher.ts\<close>,
    \<open>queues/webhook-consumer.ts\<close>).
  \<^item> \<open>Books\<close>: the invariant that ties the business tables to the ledger.  \<open>Payment\<close> and
    \<open>PaymentCorrect\<close> (\<open>services/payment.ts\<close>, \<open>services/checkout-status.ts\<close>).
  \<^item> \<open>Triggers\<close> (the workflow triggers of \<open>services/reconciliation.ts\<close>), \<open>Durable\<close> (workflows as phases),
    \<open>Refund\<close>, \<open>RefundCorrect\<close>, \<open>Workflow\<close> (\<open>services/refund.ts\<close>, \<open>workflows/refund-reconciliation.ts\<close>).
  \<^item> \<open>Reconciliation\<close> and \<open>ReconciliationCorrect\<close> (\<open>services/reconciliation.ts\<close>, \<open>workflows/reconciliation-sweep.ts\<close>).
  \<^item> \<open>SmsParser\<close> (\<open>services/sms-parser.ts\<close>), \<open>Sms\<close> (\<open>services/carrier-verification.ts\<close>,
    \<open>services/sms-corroboration.ts\<close>, \<open>queues/sms-consumer.ts\<close>).
  \<^item> \<open>Platform\<close>: all services, ledger calls, alarms, workflow attempts and sweeps interleaved.
  \<^item> \<open>Asn1\<close> (\<open>lib/asn1.ts\<close>), \<open>DeviceCrypto\<close> (\<open>lib/device-crypto.ts\<close>), \<open>X509\<close> (\<open>lib/x509.ts\<close>), \<open>KeyAttestation\<close>
    (\<open>services/key-attestation.ts\<close>), \<open>DevicePolicy\<close> (\<open>services/device-policy.ts\<close>, \<open>services/policy-telemetry.ts\<close>).
  \<^item> \<open>Mobile\<close>, \<open>MobileCorrect\<close> and \<open>Pairing\<close> (\<open>controllers/mobile.ts\<close>): pairing, forwarding, key rotation,
    revocation, heartbeat, and the nonce pruning of \<open>cron/handler.ts\<close>.
  \<^item> \<open>Edge\<close> (\<open>middleware/idempotency.ts\<close>, \<open>middleware/rate-limit.ts\<close>, \<open>lib/timing-safe.ts\<close>): the guards in front of the handlers.

  \<^bold>\<open>How state and operations correspond.\<close>  A table is the list of its rows in rowid order; a query is a
  function of the table, an unordered \<open>SELECT\<close> keeps the list order, \<open>UNIQUE\<close> keys and
  \<open>AUTOINCREMENT\<close> counters are modelled.  An ISO time is the millisecond it prints.  A JSON
  column is the value it encodes.  An exception is a value of a sum type, an early return a branch.
  The call of D1, KV, a queue or an object takes one \<open>fate\<close>: it arrives, is lost, or takes
  effect and its reply is lost.  Requests run one after the other; workflows are cut between any two attempts.

  \<^bold>\<open>What the lemmas show.\<close>
  Ledger: books balance in every reachable state, postings are atomic, at most once, refine
  the abstract book, and are mirrored or queued for ever (\<open>LedgerCorrect\<close>, \<open>LedgerOutbox\<close>).
  Services: a transaction or refund is completed only with its posting in the ledger, refunds
  stay within what was captured, callbacks complete only what was verified, whatever calls are lost (\<open>PaymentCorrect\<close>,
  \<open>RefundCorrect\<close>, \<open>Platform\<close>).  Recovery: reconciliation rejects nothing the ledger accepted, the sweep re-drives each stuck refund once, workflows end
  (\<open>ReconciliationCorrect\<close>, \<open>Workflow\<close>).  Edges: gate, registry, SSRF guard, dispatch.
  Messages: extraction is well typed, corroboration equals its reference, a message completes at
  most the order it names.  Devices: DER and signature round trips, unambiguous signed payloads, sound
  attestation verdicts, bounded overrides, vetted messages, no replay, one device per pairing code,
  and attested pairings that rest on a verified chain.  Guards: a stored answer is replayed without running the handler
  again, and a request limit holds as long as its counter is written.

  \<^bold>\<open>Arguments of the model.\<close>  What is not under \<open>src\<close> is an argument: decimal.js (\<open>decimal_contract\<close>), IEEE
  doubles (relative error at most \<open>1/2^53\<close> per operation), the retry waits of workflows, the gateway adapters, decryption,
  the platform's answer to a duplicate workflow id, regular expressions stored by merchants, the AI
  model, Unicode normalisation, base64, digests, \<open>crypto.subtle\<close>, random values, and the parsing of date strings in requests.

  \<^bold>\<open>Bounds and fuel.\<close>  The DER reader takes fuel because its loop over children need not end (\<open>Asn1.negative_length_diverges\<close>); for a well-formed
  element twice its length is enough (\<open>Asn1.der_roundtrip\<close>).  In pairing the fuel is the CPU limit of the
  runtime.  Tag numbers and lengths are \<open>32 word\<close>s as JavaScript's bit operations make them.  JavaScript numbers in the
  ledger are integers; \<open>LedgerCorrect.posting_sums_safe\<close> bounds the sums of a posting.  A refund workflow
  has at most 58 attempts per allowed retry (\<open>Workflow.workflow_terminates\<close>).

  \<^bold>\<open>Not modelled.\<close>  Routing, JSON and HTML around the services (\<open>index.ts\<close>, the other controllers,
  \<open>openapi.ts\<close>), which rest on hono, and the zod schemas (\<open>lib/validation.ts\<close>); authentication, CSRF and header middleware, JWT and refresh
  tokens (jose); the provider adapters and the generated catalog; digests and key
  handling (\<open>lib/crypto.ts\<close>, \<open>lib/hash.ts\<close>); logs and metrics; the fan-out of \<open>cron/handler.ts\<close>; first-run setup,
  custom host names, mail and dead-letter queues; in \<open>controllers/mobile.ts\<close> token
  refresh, dashboard and notifications.  Two requests that run at the same time against one
  D1 row between two of their calls are not interleaved, except where a workflow is one of them.
\<close>

end
